(* ===== verification/Prelude.thy ===== *)
theory Prelude
  imports Main "HOL-Library.Word" "HOL-Library.Char_ord" "HOL-Library.List_Lexorder"
    "HOL-Library.Product_Lexorder" "HOL-Library.Multiset" "HOL-Library.Sublist"
begin

text \<open>
  What every component shares: the names of the machine types, the saturating arithmetic of
  the Rust integers, the result type with its sequencing operator, and the operations on
  strings that the code uses.  A string is the list of its UTF-8 bytes (an Isabelle \<open>char\<close>
  is one byte), so \<open>length\<close> is Rust's \<open>str::len\<close> and the lexicographic order of
  \<open>List_Lexorder\<close> over \<open>Char_ord\<close> is Rust's byte order on \<open>str\<close>.
\<close>

section \<open>Machine integers\<close>

type_synonym u8 = "8 word"
type_synonym u16 = "16 word"
type_synonym u32 = "32 word"
type_synonym u64 = "64 word"

named_theorems word_nat "facts that move a word computation to the natural numbers"
named_theorems result_simps "facts that run the result type"

definition sat_add :: "'a::len word \<Rightarrow> 'a word \<Rightarrow> 'a word" where
  "sat_add a b = (if unat a + unat b < 2 ^ LENGTH('a) then a + b else - 1)"

definition sat_sub :: "'a::len word \<Rightarrow> 'a word \<Rightarrow> 'a word" where
  "sat_sub a b = (if a < b then 0 else a - b)"

definition checked_add :: "'a::len word \<Rightarrow> 'a word \<Rightarrow> 'a word option" where
  "checked_add a b = (if unat a + unat b < 2 ^ LENGTH('a) then Some (a + b) else None)"

lemma unat_minus_one_word: "unat (- 1 :: 'a::len word) = 2 ^ LENGTH('a) - 1"
  by (simp add: unsigned_minus_1_eq_mask mask_eq_exp_minus_1)

lemma unat_sat_add [word_nat]:
  "unat (sat_add a b) = min (unat a + unat b) (2 ^ LENGTH('a) - 1)" for a b :: "'a::len word"
  by (auto simp: sat_add_def unat_minus_one_word unat_word_ariths)

lemma sat_add_one_le: "c \<le> sat_add c 1" for c :: "'a::len word"
proof -
  have "unat c < 2 ^ LENGTH('a)" by (rule unsigned_less)
  then have "unat c \<le> 2 ^ LENGTH('a) - Suc 0" by linarith
  then show ?thesis by (simp add: word_le_nat_alt unat_sat_add)
qed

lemma sat_add_one_less: "c < sat_add c 1 \<longleftrightarrow> c \<noteq> - 1" for c :: "'a::len word"
proof -
  have "unat c < 2 ^ LENGTH('a)" by (rule unsigned_less)
  then have "unat c < 2 ^ LENGTH('a) - Suc 0 \<longleftrightarrow> unat c \<noteq> 2 ^ LENGTH('a) - Suc 0" by linarith
  moreover have "c = - 1 \<longleftrightarrow> unat c = 2 ^ LENGTH('a) - Suc 0"
    by (simp add: word_unat_eq_iff unat_minus_one_word)
  ultimately show ?thesis by (simp add: word_less_nat_alt unat_sat_add)
qed

lemma unat_sat_sub [word_nat]: "unat (sat_sub a b) = unat a - unat b"
  by (auto simp: sat_sub_def word_less_nat_alt unat_sub_if_size)

lemma checked_add_Some [word_nat]:
  "checked_add a b = Some c \<Longrightarrow> unat c = unat a + unat b"
  by (auto simp: checked_add_def unat_word_ariths split: if_splits)

lemma checked_add_None:
  "checked_add a b = None \<longleftrightarrow> 2 ^ LENGTH('a) \<le> unat a + unat b" for a b :: "'a::len word"
  by (auto simp: checked_add_def)

lemmas word_to_nat = word_le_nat_alt word_less_nat_alt word_unat_eq_iff

section \<open>Results\<close>

text \<open>A fallible function returns \<open>Inl\<close> of its error or \<open>Inr\<close> of its value;
  \<open>bind_res\<close> is Rust's question mark operator.\<close>

type_synonym ('e, 'a) result = "'e + 'a"

fun bind_res :: "('e, 'a) result \<Rightarrow> ('a \<Rightarrow> ('e, 'b) result) \<Rightarrow> ('e, 'b) result" where
  "bind_res (Inl e) f = Inl e"
| "bind_res (Inr a) f = f a"

definition ensure :: "bool \<Rightarrow> 'e \<Rightarrow> ('e, unit) result" where
  "ensure b e = (if b then Inr () else Inl e)"

lemma bind_res_Inr [result_simps]:
  "bind_res r f = Inr b \<longleftrightarrow> (\<exists>a. r = Inr a \<and> f a = Inr b)"
  by (cases r) auto

lemma ensure_Inr [result_simps]: "ensure b e = Inr u \<longleftrightarrow> b"
  by (simp add: ensure_def)

lemma ensure_bind [result_simps]:
  "bind_res (ensure b e) f = (if b then f () else Inl e)"
  by (simp add: ensure_def)

section \<open>Lists\<close>

text \<open>Rust's \<open>Iterator::reduce\<close>: fold from the left, starting with the first element.\<close>

fun reduce_list :: "('a \<Rightarrow> 'a \<Rightarrow> 'a) \<Rightarrow> 'a list \<Rightarrow> 'a option" where
  "reduce_list f [] = None"
| "reduce_list f (x # xs) = Some (foldl f x xs)"

lemma foldl_select_mem:
  "(\<And>a b. f a b = a \<or> f a b = b) \<Longrightarrow> foldl f x xs \<in> set (x # xs)"
proof (induction xs arbitrary: x)
  case (Cons y ys)
  then have "foldl f (f x y) ys \<in> set (f x y # ys)" by blast
  moreover have "f x y = x \<or> f x y = y" using Cons.prems .
  ultimately show ?case by auto
qed simp

lemma find_SomeD: "find P xs = Some x \<Longrightarrow> x \<in> set xs \<and> P x"
  by (induction xs) (auto split: if_splits)

section \<open>Strings\<close>

fun split_on :: "char \<Rightarrow> string \<Rightarrow> string list" where
  "split_on c [] = [[]]"
| "split_on c (x # xs) =
     (if x = c then [] # split_on c xs
      else (case split_on c xs of [] \<Rightarrow> [[x]] | s # ss \<Rightarrow> (x # s) # ss))"

fun join_with :: "string \<Rightarrow> string list \<Rightarrow> string" where
  "join_with sep [] = []"
| "join_with sep [s] = s"
| "join_with sep (s # t # ss) = s @ sep @ join_with sep (t # ss)"

lemma split_on_nonempty [simp]: "split_on c s \<noteq> []"
  by (induction s) (auto split: list.splits)

lemma split_on_no_sep: "c \<notin> set s \<Longrightarrow> split_on c s = [s]"
  by (induction s) auto

lemma split_on_append_sep:
  "c \<notin> set s \<Longrightarrow> split_on c (s @ c # t) = s # split_on c t"
  by (induction s) auto

lemma split_on_segments: "seg \<in> set (split_on c s) \<Longrightarrow> c \<notin> set seg"
  by (induction s arbitrary: seg) (auto split: list.splits if_splits)

lemma join_split [simp]: "join_with [c] (split_on c s) = s"
proof (induction s)
  case (Cons x xs)
  show ?case
  proof (cases "split_on c xs")
    case Nil
    then show ?thesis by simp
  next
    case (Cons s ss)
    with Cons.IH show ?thesis by (cases ss) auto
  qed
qed simp

lemma split_join:
  "ss \<noteq> [] \<Longrightarrow> (\<And>s. s \<in> set ss \<Longrightarrow> c \<notin> set s) \<Longrightarrow> split_on c (join_with [c] ss) = ss"
proof (induction "[c]" ss rule: join_with.induct)
  case (3 s t ss)
  then show ?case by (simp add: split_on_append_sep)
qed (auto simp: split_on_no_sep)

lemma split_on_inj: "split_on c s = split_on c t \<Longrightarrow> s = t"
  by (metis join_split)

definition starts_with :: "string \<Rightarrow> string \<Rightarrow> bool" where
  "starts_with s p = prefix p s"

definition ends_with :: "string \<Rightarrow> string \<Rightarrow> bool" where
  "ends_with s p = suffix p s"

fun contains_str :: "string \<Rightarrow> string \<Rightarrow> bool" where
  "contains_str [] p = (p = [])"
| "contains_str (x # xs) p = (prefix p (x # xs) \<or> contains_str xs p)"

definition is_ascii_digit :: "char \<Rightarrow> bool" where
  "is_ascii_digit c = (CHR ''0'' \<le> c \<and> c \<le> CHR ''9'')"

definition is_ascii_alpha :: "char \<Rightarrow> bool" where
  "is_ascii_alpha c =
     (CHR ''A'' \<le> c \<and> c \<le> CHR ''Z'' \<or> CHR ''a'' \<le> c \<and> c \<le> CHR ''z'')"

definition is_ascii_alnum :: "char \<Rightarrow> bool" where
  "is_ascii_alnum c = (is_ascii_alpha c \<or> is_ascii_digit c)"

definition is_ascii_hexdigit :: "char \<Rightarrow> bool" where
  "is_ascii_hexdigit c =
     (is_ascii_digit c \<or> CHR ''A'' \<le> c \<and> c \<le> CHR ''F'' \<or> CHR ''a'' \<le> c \<and> c \<le> CHR ''f'')"

text \<open>\<open>str::trim\<close> removes Unicode white space at both ends; these are the UTF-8
  encodings of the white space code points.\<close>

definition ws_codes :: "string list" where
  "ws_codes = map (map char_of)
     ([[9], [10], [11], [12], [13], [32], [194, 133], [194, 160], [225, 154, 128],
       [226, 128, 128], [226, 128, 129], [226, 128, 130], [226, 128, 131], [226, 128, 132],
       [226, 128, 133], [226, 128, 134], [226, 128, 135], [226, 128, 136], [226, 128, 137],
       [226, 128, 138], [226, 128, 168], [226, 128, 169], [226, 128, 175], [226, 129, 159],
       [227, 128, 128]] :: nat list list)"

function strip_codes :: "string list \<Rightarrow> string \<Rightarrow> string" where
  "strip_codes ws s =
     (case find (\<lambda>w. w \<noteq> [] \<and> prefix w s) ws of
        None \<Rightarrow> s
      | Some w \<Rightarrow> strip_codes ws (drop (length w) s))"
  by pat_completeness auto
termination
proof (relation "measure (\<lambda>(ws, s). length s)", goal_cases)
  case (2 ws s w)
  then have "w \<noteq> [] \<and> prefix w s" by (auto simp: find_Some_iff)
  then show ?case by (cases s) (auto simp: prefix_def)
qed simp

declare strip_codes.simps [simp del]

definition trim :: "string \<Rightarrow> string" where
  "trim s = rev (strip_codes (map rev ws_codes) (rev (strip_codes ws_codes s)))"

text \<open>A string whose first and last byte start and end no white space code is its own trim.\<close>

definition no_ws_byte :: "char \<Rightarrow> bool" where
  "no_ws_byte c = (\<forall>w \<in> set ws_codes. w = [] \<or> (hd w \<noteq> c \<and> last w \<noteq> c))"

lemma strip_codes_id:
  "(\<And>w. w \<in> set ws \<Longrightarrow> w \<noteq> [] \<Longrightarrow> hd w \<noteq> c) \<Longrightarrow> strip_codes ws (c # s) = c # s"
proof -
  assume a: "\<And>w. w \<in> set ws \<Longrightarrow> w \<noteq> [] \<Longrightarrow> hd w \<noteq> c"
  have "find (\<lambda>w. w \<noteq> [] \<and> prefix w (c # s)) ws = None"
    using a by (fastforce simp: find_None_iff prefix_def neq_Nil_conv)
  then show ?thesis by (subst strip_codes.simps) simp
qed

lemma strip_codes_Nil [simp]: "strip_codes ws [] = []"
proof -
  have "find (\<lambda>w. w \<noteq> [] \<and> prefix w []) ws = None" by (auto simp: find_None_iff)
  then show ?thesis by (subst strip_codes.simps) simp
qed

lemma trim_id:
  "s = [] \<or> no_ws_byte (hd s) \<and> no_ws_byte (last s) \<Longrightarrow> trim s = s"
proof (cases s)
  case (Cons c t)
  assume "s = [] \<or> no_ws_byte (hd s) \<and> no_ws_byte (last s)"
  with Cons have h: "no_ws_byte c" and l: "no_ws_byte (last s)" by auto
  have 1: "strip_codes ws_codes s = s"
    unfolding Cons by (rule strip_codes_id) (use h in \<open>auto simp: no_ws_byte_def\<close>)
  obtain u where u: "rev s = last s # u"
    using Cons by (metis append_butlast_last_id list.distinct(1) rev_eq_Cons_iff rev_rev_ident)
  have 2: "strip_codes (map rev ws_codes) (rev s) = rev s"
    unfolding u by (rule strip_codes_id) (use l in \<open>auto simp: no_ws_byte_def hd_rev\<close>)
  show ?thesis by (simp add: trim_def 1 2)
qed (simp add: trim_def)

lemma no_ws_byte_ascii: "33 \<le> (of_char c::nat) \<Longrightarrow> of_char c < (128::nat) \<Longrightarrow> no_ws_byte c"
  by (auto simp: no_ws_byte_def ws_codes_def)

text \<open>What trimming leaves has no white space code at either end, and is trimmed already.\<close>

lemma strip_codes_suffix: "suffix (strip_codes ws s) s"
proof (induction ws s rule: strip_codes.induct)
  case (1 ws s)
  show ?case
  proof (cases "find (\<lambda>w. w \<noteq> [] \<and> prefix w s) ws")
    case None
    then show ?thesis by (subst strip_codes.simps) simp
  next
    case (Some w)
    with 1 show ?thesis by (subst strip_codes.simps) (simp, metis suffix_drop suffix_order.trans)
  qed
qed

lemma strip_codes_stop: "w \<in> set ws \<Longrightarrow> w \<noteq> [] \<Longrightarrow> \<not> prefix w (strip_codes ws s)"
proof (induction ws s rule: strip_codes.induct)
  case (1 ws s)
  show ?case
  proof (cases "find (\<lambda>w. w \<noteq> [] \<and> prefix w s) ws")
    case None
    then have "strip_codes ws s = s" by (subst strip_codes.simps) simp
    with None 1(2,3) show ?thesis by (auto simp: find_None_iff)
  next
    case (Some v)
    with 1 show ?thesis by (subst strip_codes.simps) simp
  qed
qed

lemma strip_codes_fix: "strip_codes ws s = s \<longleftrightarrow> (\<forall>w \<in> set ws. w \<noteq> [] \<longrightarrow> \<not> prefix w s)"
proof
  assume "\<forall>w \<in> set ws. w \<noteq> [] \<longrightarrow> \<not> prefix w s"
  then have "find (\<lambda>w. w \<noteq> [] \<and> prefix w s) ws = None" by (auto simp: find_None_iff)
  then show "strip_codes ws s = s" by (subst strip_codes.simps) simp
qed (metis strip_codes_stop)

definition trimmed :: "string \<Rightarrow> bool" where
  "trimmed s = (\<forall>w \<in> set ws_codes. w \<noteq> [] \<longrightarrow> \<not> prefix w s \<and> \<not> suffix w s)"

lemma trim_trimmed: "trimmed s \<Longrightarrow> trim s = s"
proof -
  assume t: "trimmed s"
  then have "strip_codes ws_codes s = s" by (simp add: trimmed_def strip_codes_fix)
  moreover have "strip_codes (map rev ws_codes) (rev s) = rev s"
    using t by (auto simp: trimmed_def strip_codes_fix suffix_to_prefix)
  ultimately show ?thesis by (simp add: trim_def)
qed

lemma trimmed_trim: "trimmed (trim s)"
proof -
  let ?u = "strip_codes ws_codes s" and ?r = "map rev ws_codes"
  have "prefix (trim s) ?u"
    using strip_codes_suffix [of ?r "rev ?u"] by (simp add: trim_def suffix_to_prefix)
  then have "\<not> prefix w (trim s)" if "w \<in> set ws_codes" "w \<noteq> []" for w
    using strip_codes_stop [OF that] prefix_order.trans by blast
  moreover have "\<not> suffix w (trim s)" if "w \<in> set ws_codes" "w \<noteq> []" for w
    using strip_codes_stop [of "rev w" ?r "rev ?u"] that by (simp add: trim_def suffix_to_prefix)
  ultimately show ?thesis by (simp add: trimmed_def)
qed

section \<open>Decimal numbers\<close>

fun show_nat :: "nat \<Rightarrow> string" where
  "show_nat n = (if n < 10 then [char_of (48 + n)]
                 else show_nat (n div 10) @ [char_of (48 + n mod 10)])"

declare show_nat.simps [simp del]

definition digit_val :: "char \<Rightarrow> nat" where
  "digit_val c = of_char c - 48"

definition digits_val :: "string \<Rightarrow> nat" where
  "digits_val s = foldl (\<lambda>a c. 10 * a + digit_val c) 0 s"

text \<open>\<open>str::parse\<close> into an unsigned integer below \<open>m\<close>: an optional plus sign, at least
  one digit, digits only, no overflow.\<close>

definition parse_nat_below :: "nat \<Rightarrow> string \<Rightarrow> nat option" where
  "parse_nat_below m s =
     (let d = (case s of c # t \<Rightarrow> if c = CHR ''+'' then t else s | [] \<Rightarrow> s)
      in if d = [] \<or> \<not> list_all is_ascii_digit d \<or> m \<le> digits_val d then None
         else Some (digits_val d))"

lemma of_char_char_of_small [simp]: "n < 256 \<Longrightarrow> of_char (char_of n :: char) = (n::nat)"
  by simp

lemma char_le_of_char: "c \<le> d \<longleftrightarrow> (of_char c :: nat) \<le> of_char d"
  by (simp add: less_eq_char_def)

definition to_ascii_lowercase :: "char \<Rightarrow> char" where
  "to_ascii_lowercase c = (if CHR ''A'' \<le> c \<and> c \<le> CHR ''Z'' then char_of (of_char c + 32 :: nat) else c)"

lemma of_char_lowercase:
  "of_char (to_ascii_lowercase c) = (let m = of_char c :: nat in if 65 \<le> m \<and> m \<le> 90 then m + 32 else m)"
  by (simp add: to_ascii_lowercase_def char_le_of_char Let_def)

lemma is_ascii_digit_of_char: "is_ascii_digit c \<longleftrightarrow> 48 \<le> (of_char c :: nat) \<and> of_char c \<le> (57::nat)"
  by (simp add: is_ascii_digit_def char_le_of_char)

lemma is_ascii_alnum_range: "is_ascii_alnum c \<Longrightarrow> 48 \<le> (of_char c::nat) \<and> of_char c \<le> (122::nat)"
  by (auto simp: is_ascii_alnum_def is_ascii_alpha_def is_ascii_digit_def char_le_of_char)

lemma digit_show: "n < 10 \<Longrightarrow> is_ascii_digit (char_of (48 + n)) \<and> digit_val (char_of (48 + n)) = n"
  by (auto simp: is_ascii_digit_of_char digit_val_def)

lemma show_nat_digits: "list_all is_ascii_digit (show_nat n)"
  by (induction n rule: show_nat.induct) (subst show_nat.simps, auto simp: digit_show)

lemma show_nat_nonempty [simp]: "show_nat n \<noteq> []"
  by (subst show_nat.simps) auto

lemma digits_val_snoc [simp]: "digits_val (s @ [c]) = 10 * digits_val s + digit_val c"
  by (simp add: digits_val_def)

lemma digits_val_show [simp]: "digits_val (show_nat n) = n"
proof (induction n rule: show_nat.induct)
  case (1 n)
  show ?case
  proof (cases "n < 10")
    case True
    then show ?thesis by (subst show_nat.simps) (simp add: digits_val_def digit_show)
  next
    case False
    with 1 show ?thesis by (subst show_nat.simps) (simp add: digit_show)
  qed
qed

lemma hd_show_nat: "is_ascii_digit (hd (show_nat n))"
  using show_nat_digits [of n] by (cases "show_nat n") auto

lemma parse_show_nat [simp]: "n < m \<Longrightarrow> parse_nat_below m (show_nat n) = Some n"
proof -
  assume "n < m"
  have "hd (show_nat n) \<noteq> CHR ''+''"
    using hd_show_nat [of n] by (auto simp: is_ascii_digit_of_char)
  then have "(case show_nat n of c # t \<Rightarrow> if c = CHR ''+'' then t else show_nat n | [] \<Rightarrow> show_nat n)
      = show_nat n"
    by (auto split: list.splits)
  with \<open>n < m\<close> show ?thesis by (simp add: parse_nat_below_def show_nat_digits)
qed

lemma parse_nat_below_bound: "parse_nat_below m s = Some n \<Longrightarrow> n < m"
  by (auto simp: parse_nat_below_def Let_def split: if_splits)

definition parse_word :: "string \<Rightarrow> 'a::len word option" where
  "parse_word s = map_option of_nat (parse_nat_below (2 ^ LENGTH('a)) s)"

lemma parse_word_Some:
  "parse_word s = Some (w::'a::len word) \<longleftrightarrow> parse_nat_below (2 ^ LENGTH('a)) s = Some (unat w)"
proof (cases "parse_nat_below (2 ^ LENGTH('a)) s")
  case (Some n)
  then have "n < 2 ^ LENGTH('a)" by (rule parse_nat_below_bound)
  then have "unat (of_nat n :: 'a word) = n" by (simp add: unat_of_nat)
  with Some show ?thesis by (auto simp: parse_word_def)
qed (simp add: parse_word_def)

lemma parse_word_show [simp]: "parse_word (show_nat (unat (w::'a::len word))) = Some w"
  using unsigned_less [of w, where 'a=nat] by (simp add: parse_word_Some)

text \<open>A bound that is not reached does not change the result.\<close>

lemma parse_nat_below_mono:
  "m \<le> m' \<Longrightarrow> parse_nat_below m s = (case parse_nat_below m' s of
     Some n \<Rightarrow> if n < m then Some n else None | None \<Rightarrow> None)"
  by (auto simp: parse_nat_below_def Let_def)

text \<open>\<open>str::split_once\<close> on one character.\<close>

fun split_once :: "char \<Rightarrow> string \<Rightarrow> (string \<times> string) option" where
  "split_once c [] = None"
| "split_once c (x # xs) =
     (if x = c then Some ([], xs)
      else map_option (\<lambda>(a, b). (x # a, b)) (split_once c xs))"

lemma split_once_append: "c \<notin> set a \<Longrightarrow> split_once c (a @ c # b) = Some (a, b)"
  by (induction a) auto

lemma split_once_Some: "split_once c s = Some (a, b) \<longleftrightarrow> s = a @ c # b \<and> c \<notin> set a"
proof (induction s arbitrary: a)
  case (Cons x s)
  then show ?case by (cases a) auto
qed simp

lemma split_once_None: "split_once c s = None \<longleftrightarrow> c \<notin> set s"
  by (induction s) auto

lemma show_nat_no: "\<not> is_ascii_digit c \<Longrightarrow> c \<notin> set (show_nat n)"
  using show_nat_digits [of n] by (auto simp: list_all_iff)

section \<open>Sorted lists without repetitions\<close>

lemma remdups_adj_sorted_distinct: "sorted xs \<Longrightarrow> distinct (remdups_adj xs)" for xs :: "'a::linorder list"
  by (induction xs rule: remdups_adj.induct) (auto simp: order_le_less)

section \<open>Texts around a separator\<close>

lemma sep_first: "c \<notin> set x \<Longrightarrow> c \<notin> set y \<Longrightarrow> x @ c # t = y @ c # u \<longleftrightarrow> x = y \<and> t = u"
  by (induction x arbitrary: y) (case_tac y; auto)+

lemma sep_last: "c \<notin> set x \<Longrightarrow> c \<notin> set y \<Longrightarrow> t @ c # x = u @ c # y \<longleftrightarrow> t = u \<and> x = y"
  using sep_first [of c "rev x" "rev y" "rev t" "rev u"]
  by (metis (no_types) append.assoc append_Cons append_Nil rev.simps(2) rev_append rev_rev_ident set_rev)

end
