(* ===== verification/HybridClock.thy ===== *)
theory HybridClock
  imports Prelude
begin

text \<open>
  The hybrid logical clock of the bookmark collection
  (\<open>crates/services/mde-bookmarks/src/hlc.rs\<close>): stamps \<open>(wall_ms, counter, node)\<close> in
  lexicographic order, the per-node generator with its local step \<open>tick\<close> and its receive
  step \<open>observe\<close>, and the conditions under which the stamps of one node increase strictly.
  The counter is a saturating \<open>u32\<close>, so strictness fails exactly where it is exhausted.
\<close>

section \<open>Stamps\<close>

record hlc =
  wall_ms :: u64
  counter :: u32
  node :: string

record author =
  author_user :: string
  author_node :: string

definition hlc_key :: "('a::linorder) hlc_scheme \<Rightarrow> u64 \<times> u32 \<times> string \<times> 'a" where
  "hlc_key h = (wall_ms h, counter h, node h, hlc.more h)"

lemma hlc_key_inj: "hlc_key a = hlc_key b \<Longrightarrow> a = b"
  by (simp add: hlc_key_def)

text \<open>The derived order of the struct: its fields, in declaration order.\<close>

instantiation hlc_ext :: (linorder) linorder
begin

definition less_eq_hlc_ext :: "'a hlc_scheme \<Rightarrow> 'a hlc_scheme \<Rightarrow> bool" where
  "less_eq_hlc_ext a b = (hlc_key a \<le> hlc_key b)"

definition less_hlc_ext :: "'a hlc_scheme \<Rightarrow> 'a hlc_scheme \<Rightarrow> bool" where
  "less_hlc_ext a b = (hlc_key a < hlc_key b)"

instance
  by standard (auto simp: less_eq_hlc_ext_def less_hlc_ext_def dest: hlc_key_inj)

end

lemma hlc_less_iff:
  "a < b \<longleftrightarrow> (wall_ms a, counter a, node a) < (wall_ms b, counter b, node b)" for a b :: hlc
  by (auto simp: less_hlc_ext_def hlc_key_def)

section \<open>The clock\<close>

record hlc_clock =
  clk_node :: string
  last_wall_ms :: u64
  clk_counter :: u32

definition clock_new :: "string \<Rightarrow> hlc_clock" where
  "clock_new n = \<lparr>clk_node = n, last_wall_ms = 0, clk_counter = 0\<rparr>"

definition clock_stamp :: "hlc_clock \<Rightarrow> hlc" where
  "clock_stamp c = \<lparr>wall_ms = last_wall_ms c, counter = clk_counter c, node = clk_node c\<rparr>"

definition tick :: "hlc_clock \<Rightarrow> u64 \<Rightarrow> hlc_clock \<times> hlc" where
  "tick c wall_now =
     (let c' = (if wall_now > last_wall_ms c
                then c\<lparr>last_wall_ms := wall_now, clk_counter := 0\<rparr>
                else c\<lparr>clk_counter := sat_add (clk_counter c) 1\<rparr>)
      in (c', clock_stamp c'))"

definition observe :: "hlc_clock \<Rightarrow> hlc \<Rightarrow> u64 \<Rightarrow> hlc_clock \<times> hlc" where
  "observe c remote wall_now =
     (let ceiling = max (max wall_now (last_wall_ms c)) (wall_ms remote);
          n = (if ceiling = last_wall_ms c \<and> ceiling = wall_ms remote
               then sat_add (max (clk_counter c) (counter remote)) 1
               else if ceiling = last_wall_ms c then sat_add (clk_counter c) 1
               else if ceiling = wall_ms remote then sat_add (counter remote) 1
               else 0);
          c' = c\<lparr>last_wall_ms := ceiling, clk_counter := n\<rparr>
      in (c', clock_stamp c'))"

text \<open>A run of local operations: the clock after it and the stamps it minted.\<close>

fun ticks :: "hlc_clock \<Rightarrow> u64 list \<Rightarrow> hlc list" where
  "ticks c [] = []"
| "ticks c (w # ws) = (let (c', h) = tick c w in h # ticks c' ws)"

lemmas clock_defs = tick_def observe_def clock_stamp_def Let_def

lemma sat_add_one_greater: "a < sat_add a 1 \<longleftrightarrow> a \<noteq> - 1" for a :: u32
proof -
  have "unat a \<le> 2 ^ 32 - 1" using unsigned_less [of a, where ?'a = nat] by simp
  then show ?thesis
    by (auto simp: word_to_nat unat_sat_add unat_minus_one_word)
qed

lemma tick_node [simp]: "clk_node (fst (tick c w)) = clk_node c"
  by (simp add: clock_defs)

lemma tick_stamp [simp]: "snd (tick c w) = clock_stamp (fst (tick c w))"
  by (simp add: clock_defs)

lemma tick_stamp_node [simp]: "node (clock_stamp (fst (tick c w))) = clk_node c"
  by (simp add: clock_defs)

lemma sat_add_max: "sat_add (- 1) 1 = (- 1 :: u32)"
  by (simp add: word_unat_eq_iff unat_sat_add unat_minus_one_word)

lemma tick_less_iff:
  "clock_stamp c < clock_stamp (fst (tick c w)) \<longleftrightarrow> last_wall_ms c < w \<or> clk_counter c \<noteq> - 1"
  using sat_add_one_greater [of "clk_counter c"]
  by (auto simp: clock_defs hlc_less_iff sat_add_max)

text \<open>A local step mints a stamp strictly greater than the clock's last one exactly when
  the wall clock has advanced or the counter is not exhausted; otherwise it repeats the last
  stamp.\<close>

theorem tick_strict_iff:
  "(clock_stamp c < snd (tick c w) \<longleftrightarrow> last_wall_ms c < w \<or> clk_counter c \<noteq> - 1)
   \<and> (\<not> clock_stamp c < snd (tick c w) \<longleftrightarrow> snd (tick c w) = clock_stamp c)"
  using sat_add_one_greater [of "clk_counter c"]
  by (simp add: tick_less_iff) (auto simp: clock_defs sat_add_max)

lemma ticks_nodes: "h \<in> set (ticks c ws) \<Longrightarrow> node h = clk_node c"
  by (induction ws arbitrary: c) (auto simp: Let_def split_beta)

lemma counter_after_tick: "unat (clk_counter (fst (tick c w))) \<le> Suc (unat (clk_counter c))"
  by (simp add: clock_defs unat_sat_add)

lemma tick_less: "unat (clk_counter c) < 2 ^ 32 - 1 \<Longrightarrow> clock_stamp c < clock_stamp (fst (tick c w))"
  by (auto simp: tick_less_iff unat_minus_one_word)

lemma ticks_greater:
  "unat (clk_counter c) + length ws < 2 ^ 32 \<Longrightarrow> h \<in> set (ticks c ws) \<Longrightarrow> clock_stamp c < h"
proof (induction ws arbitrary: c)
  case (Cons w ws)
  let ?c = "fst (tick c w)"
  from Cons.prems(1) have lt: "clock_stamp c < clock_stamp ?c"
    by (intro tick_less) simp
  from Cons.prems(2) consider "h = clock_stamp ?c" | "h \<in> set (ticks ?c ws)"
    by (auto simp: Let_def split_beta)
  then show ?case
  proof cases
    case 2
    have "unat (clk_counter ?c) + length ws < 2 ^ 32"
      using counter_after_tick [of c w] Cons.prems(1) by simp
    with Cons.IH 2 have "clock_stamp ?c < h" by blast
    with lt show ?thesis by (rule less_trans)
  qed (use lt in simp)
qed simp

lemma ticks_increasing:
  "unat (clk_counter c) + length ws < 2 ^ 32 \<Longrightarrow> sorted_wrt (<) (ticks c ws)"
proof (induction ws arbitrary: c)
  case (Cons w ws)
  let ?c = "fst (tick c w)"
  have "unat (clk_counter ?c) + length ws < 2 ^ 32"
    using counter_after_tick [of c w] Cons.prems by simp
  with Cons.IH ticks_greater show ?case by (auto simp: Let_def split_beta)
qed simp

text \<open>The stamps of one node increase strictly over any run of local operations that is
  shorter than the counter's range, however the injected wall clock stalls or runs back.\<close>

theorem ticks_strictly_increase:
  assumes "length ws < 2 ^ 32"
  shows "sorted_wrt (<) (ticks (clock_new n) ws)"
  by (rule ticks_increasing) (use assms in \<open>simp add: clock_new_def\<close>)

theorem ticks_strictly_increase_witness:
  "sorted_wrt (<) (ticks (clock_new ''oak'') [7, 7, 3, 9])"
  by (rule ticks_strictly_increase) simp

text \<open>The receive step mints a stamp strictly greater than both the local clock and the
  remote stamp, at the greatest of the three wall times, as long as neither counter is
  exhausted.\<close>

theorem observe_greater:
  assumes "clk_counter c \<noteq> - 1" and "counter r \<noteq> - 1"
  shows "clock_stamp c < snd (observe c r w) \<and> r < snd (observe c r w)
    \<and> wall_ms (snd (observe c r w)) = max (max w (last_wall_ms c)) (wall_ms r)"
proof -
  have "max (clk_counter c) (counter r) \<noteq> - 1" using assms by (simp add: max_def)
  with assms have s: "clk_counter c < sat_add (clk_counter c) 1"
    "counter r < sat_add (counter r) 1"
    "clk_counter c < sat_add (max (clk_counter c) (counter r)) 1"
    "counter r < sat_add (max (clk_counter c) (counter r)) 1"
    using sat_add_one_greater by (metis max.strict_boundedE)+
  show ?thesis
    using s by (auto simp: clock_defs hlc_less_iff max_def)
qed

theorem observe_greater_witness:
  "clock_stamp (clock_new ''oak'')
     < snd (observe (clock_new ''oak'') \<lparr>wall_ms = 9, counter = 4, node = ''elm''\<rparr> 3)"
  using observe_greater [of "clock_new ''oak''" "\<lparr>wall_ms = 9, counter = 4, node = ''elm''\<rparr>" 3]
  by (simp add: clock_new_def)

end
