(* ===== verification/HexText.thy ===== *)
theory HexText
  imports Prelude
begin

text \<open>
  The hexadecimal text of a byte list, as the components write and read it, that reading inverts
  writing, and the decimal text of an integer.
\<close>

unbundle bit_operations_syntax

text \<open>\<open>char::from_digit\<close> and \<open>char::to_digit\<close> at radix 16.\<close>

definition from_digit16 :: "nat \<Rightarrow> char option" where
  "from_digit16 n =
     (if n < 10 then Some (char_of (48 + n)) else if n < 16 then Some (char_of (87 + n)) else None)"

definition to_digit16 :: "char \<Rightarrow> nat option" where
  "to_digit16 c =
     (let n = of_char c in
      if 48 \<le> n \<and> n \<le> 57 then Some (n - 48)
      else if 65 \<le> n \<and> n \<le> 70 then Some (n - 55)
      else if 97 \<le> n \<and> n \<le> 102 then Some (n - 87)
      else None)"

definition or_zero :: "char option \<Rightarrow> char" where
  "or_zero c = (case c of None \<Rightarrow> CHR ''0'' | Some x \<Rightarrow> x)"

fun hex_of_bytes :: "u8 list \<Rightarrow> string" where
  "hex_of_bytes [] = []"
| "hex_of_bytes (b # bs) =
     or_zero (from_digit16 (unat (drop_bit 4 b))) # or_zero (from_digit16 (unat (b AND 15)))
       # hex_of_bytes bs"

text \<open>The loop over byte pairs; each pair of digits packs into one byte.\<close>

fun bytes_of_hex :: "string \<Rightarrow> u8 list option" where
  "bytes_of_hex (hi # lo # s) =
     (case to_digit16 hi of None \<Rightarrow> None
      | Some h \<Rightarrow> (case to_digit16 lo of None \<Rightarrow> None
         | Some l \<Rightarrow> map_option ((#) (push_bit 4 (of_nat h) OR of_nat l)) (bytes_of_hex s)))"
| "bytes_of_hex _ = Some []"

lemma digit16_roundtrip: "n < 16 \<Longrightarrow> to_digit16 (or_zero (from_digit16 n)) = Some n"
  by (auto simp: from_digit16_def to_digit16_def or_zero_def)

lemma unat_nibbles:
  "unat (drop_bit 4 b) < 16" "unat (b AND 15) < 16" for b :: u8
proof -
  have "unat b < 256" using unsigned_less [of b, where ?'a = nat] by simp
  then show "unat (drop_bit 4 b) < 16" by (simp add: drop_bit_eq_div unat_div)
  have "b AND 15 = take_bit 4 b" by (simp add: take_bit_eq_mask mask_eq_exp_minus_1)
  then show "unat (b AND 15) < 16" by (simp add: take_bit_eq_mod unat_mod)
qed

lemma pack_nibbles:
  "push_bit 4 (drop_bit 4 b) OR (b AND 15) = b" for b :: u8
proof -
  have m: "(15 :: u8) = mask 4" by (simp add: mask_eq_exp_minus_1)
  show ?thesis unfolding m by (rule bit_word_eqI) (auto simp: bit_simps)
qed

lemma bytes_of_hex_of_bytes: "bytes_of_hex (hex_of_bytes bs) = Some bs"
  by (induction bs) (simp_all add: digit16_roundtrip unat_nibbles pack_nibbles)

lemma length_hex_of_bytes [simp]: "length (hex_of_bytes bs) = 2 * length bs"
  by (induction bs) auto

lemma length_bytes_of_hex: "bytes_of_hex s = Some bs \<Longrightarrow> length bs = length s div 2"
  by (induction s arbitrary: bs rule: bytes_of_hex.induct) (auto split: option.splits)

section \<open>The decimal text of an integer\<close>

definition display :: "'a::len word \<Rightarrow> string" where
  "display w = show_nat (unat w)"

definition show_int :: "int \<Rightarrow> string" where
  "show_int i = (if i < 0 then CHR ''-'' # show_nat (nat (- i)) else show_nat (nat i))"

lemma display_no: "\<not> is_ascii_digit c \<Longrightarrow> c \<notin> set (display w)"
  by (simp add: display_def show_nat_no)

lemma display_inj [simp]: "display v = display w \<longleftrightarrow> v = w"
  unfolding display_def by (metis digits_val_show word_unat_eq_iff)

lemma show_int_no: "\<not> is_ascii_digit c \<Longrightarrow> c \<noteq> CHR ''-'' \<Longrightarrow> c \<notin> set (show_int i)"
  by (simp add: show_int_def show_nat_no)

lemma minus_not_digit: "\<not> is_ascii_digit (CHR ''-'')"
  by (simp add: is_ascii_digit_def)

lemma show_nat_inj: "show_nat m = show_nat n \<Longrightarrow> m = n"
  by (metis digits_val_show)

lemma show_nat_minus [simp]: "CHR ''-'' # s \<noteq> show_nat n" "show_nat n \<noteq> CHR ''-'' # s"
  using hd_show_nat [of n] by (metis list.sel(1) minus_not_digit)+

lemma show_int_inj [simp]: "show_int i = show_int j \<longleftrightarrow> i = j"
  by (auto simp: show_int_def dest!: show_nat_inj split: if_splits)

end
