(* ===== verification/BookmarkOps.thy ===== *)
theory BookmarkOps
  imports HybridClock HexText
begin

text \<open>
  The value types and the operations of the bookmark collection
  (\<open>crates/services/mde-bookmarks/src/model.rs\<close> and \<open>op.rs\<close>): content hashes with their
  hexadecimal text, the converged bookmarks and folders, and the append-only operations that
  cross the mesh.
\<close>

unbundle bit_operations_syntax

type_synonym uuid = "128 word"

section \<open>Content hashes\<close>

datatype content_hash = ContentHash (hash_bytes: "u8 list")

definition to_hex :: "content_hash \<Rightarrow> string" where
  "to_hex h = hex_of_bytes (hash_bytes h)"

definition from_hex :: "string \<Rightarrow> content_hash option" where
  "from_hex s = (if length s \<noteq> 64 then None else map_option ContentHash (bytes_of_hex s))"

text \<open>A content hash of 32 bytes reads back from its hexadecimal text, the text has 64
  symbols, and whatever text is accepted gives a hash of 32 bytes.\<close>

theorem content_hash_roundtrip:
  "(length (hash_bytes h) = 32 \<longrightarrow> length (to_hex h) = 64 \<and> from_hex (to_hex h) = Some h)
   \<and> (\<forall>g. from_hex s = Some g \<longrightarrow> length (hash_bytes g) = 32)"
  by (auto simp: from_hex_def to_hex_def bytes_of_hex_of_bytes dest: length_bytes_of_hex)

theorem content_hash_roundtrip_witness:
  "from_hex (to_hex (ContentHash (replicate 32 171))) = Some (ContentHash (replicate 32 171))"
  using content_hash_roundtrip [of "ContentHash (replicate 32 171)"] by simp

section \<open>Bookmarks and folders\<close>

datatype source = Manual | Firefox | Chromium | Safari | NetscapeHtml | OtherSource string

datatype item_kind = KBookmark | KFolder

record bookmark =
  bm_id :: uuid
  bm_parent :: "uuid option"
  bm_order_key :: string
  bm_url :: string
  bm_title :: string
  bm_favicon_ref :: "content_hash option"
  bm_tags :: "string list"
  bm_notes :: string
  bm_added :: u64
  bm_modified :: u64
  bm_source :: source
  bm_last_author :: author

record folder =
  fo_id :: uuid
  fo_name :: string
  fo_parent :: "uuid option"
  fo_order_key :: string
  fo_last_author :: author

datatype item = Bookmark bookmark | Folder folder

fun item_id :: "item \<Rightarrow> uuid" where
  "item_id (Bookmark b) = bm_id b"
| "item_id (Folder f) = fo_id f"

fun item_parent :: "item \<Rightarrow> uuid option" where
  "item_parent (Bookmark b) = bm_parent b"
| "item_parent (Folder f) = fo_parent f"

fun item_order_key :: "item \<Rightarrow> string" where
  "item_order_key (Bookmark b) = bm_order_key b"
| "item_order_key (Folder f) = fo_order_key f"

section \<open>Operations\<close>

text \<open>A single-field edit: \<open>None\<close> leaves the field untouched.\<close>

type_synonym 'a edit = "'a option"

datatype op_kind =
    AddBookmark (add_id: uuid) (add_parent: "uuid option") (add_order_key: string) (add_url: string)
      (add_title: string) (add_favicon_ref: "content_hash option") (add_tags: "string list")
      (add_notes: string) (add_added: u64) (add_source: source)
  | EditBookmark uuid "string edit" "string edit" "content_hash option edit" "string list edit"
      "string edit"
  | MoveItem uuid "uuid option" string
  | DeleteItem uuid
  | AddFolder uuid string "uuid option" string
  | RenameFolder uuid string

record op =
  op_hlc :: hlc
  op_author :: author
  op_body :: op_kind

fun kind_target :: "op_kind \<Rightarrow> uuid" where
  "kind_target (AddBookmark i _ _ _ _ _ _ _ _ _) = i"
| "kind_target (EditBookmark i _ _ _ _ _) = i"
| "kind_target (MoveItem i _ _) = i"
| "kind_target (DeleteItem i) = i"
| "kind_target (AddFolder i _ _ _) = i"
| "kind_target (RenameFolder i _) = i"

definition op_target :: "op \<Rightarrow> uuid" where
  "op_target x = kind_target (op_body x)"

end
