(* ===== verification/OrdMap.thy ===== *)
theory OrdMap
  imports Prelude
begin

text \<open>
  The ordered maps of the standard library (\<open>BTreeMap\<close>, iterated in key order) as sorted
  association lists, and the interface the components use them through: \<open>keyed_store\<close> says
  what a read returns after a write and that two well-formed maps with the same reads are the
  same map.  Its clients' lemmas on the \<open>entry().or_default()\<close> update are proved once,
  inside the locale.
\<close>

section \<open>The interface\<close>

locale keyed_store =
  fixes get :: "'m \<Rightarrow> 'k \<Rightarrow> 'v option"
    and put :: "'k \<Rightarrow> 'v \<Rightarrow> 'm \<Rightarrow> 'm"
    and wf :: "'m \<Rightarrow> bool"
  assumes get_put: "get (put k v m) k' = (if k' = k then Some v else get m k')"
    and wf_put: "wf m \<Longrightarrow> wf (put k v m)"
    and get_ext: "wf m \<Longrightarrow> wf n \<Longrightarrow> (\<And>k. get m k = get n k) \<Longrightarrow> m = n"
begin

text \<open>\<open>upd d f k m\<close> is the entry of \<open>k\<close>, the default \<open>d\<close> where absent, replaced
  by its image under \<open>f\<close>.\<close>

definition upd :: "'v \<Rightarrow> ('v \<Rightarrow> 'v) \<Rightarrow> 'k \<Rightarrow> 'm \<Rightarrow> 'm" where
  "upd d f k m = put k (f (case get m k of None \<Rightarrow> d | Some v \<Rightarrow> v)) m"

lemma get_upd:
  "get (upd d f k m) k' =
     (if k' = k then Some (f (case get m k of None \<Rightarrow> d | Some v \<Rightarrow> v)) else get m k')"
  by (simp add: upd_def get_put)

lemma wf_upd: "wf m \<Longrightarrow> wf (upd d f k m)"
  by (simp add: upd_def wf_put)

lemma put_same: "wf m \<Longrightarrow> put k v (put k w m) = put k v m"
  by (rule get_ext) (simp_all add: wf_put get_put)

lemma put_swap: "wf m \<Longrightarrow> k \<noteq> k' \<Longrightarrow> put k v (put k' w m) = put k' w (put k v m)"
  by (rule get_ext) (simp_all add: wf_put get_put)

lemma upd_idem: "wf m \<Longrightarrow> (\<And>x. f (f x) = f x) \<Longrightarrow> upd d f k (upd d f k m) = upd d f k m"
  by (rule get_ext) (simp_all add: wf_upd get_upd)

lemma upd_swap:
  "wf m \<Longrightarrow> k = k' \<Longrightarrow> (\<And>x. f (g x) = g (f x)) \<Longrightarrow>
     upd d f k (upd d g k' m) = upd d g k' (upd d f k m)"
  by (rule get_ext) (simp_all add: wf_upd get_upd)

lemma upd_swap_distinct:
  "wf m \<Longrightarrow> k \<noteq> k' \<Longrightarrow> upd d f k (upd d g k' m) = upd d g k' (upd d f k m)"
  by (rule get_ext) (simp_all add: wf_upd get_upd)

end

section \<open>Sorted association lists\<close>

type_synonym ('k, 'v) omap = "('k \<times> 'v) list"

definition om_empty :: "('k, 'v) omap" where
  "om_empty = []"

definition om_get :: "('k, 'v) omap \<Rightarrow> 'k \<Rightarrow> 'v option" where
  "om_get m k = map_of m k"

fun om_put :: "'k::linorder \<Rightarrow> 'v \<Rightarrow> ('k, 'v) omap \<Rightarrow> ('k, 'v) omap" where
  "om_put k v [] = [(k, v)]"
| "om_put k v ((k', v') # m) =
     (if k < k' then (k, v) # (k', v') # m
      else if k = k' then (k, v) # m
      else (k', v') # om_put k v m)"

definition om_del :: "'k \<Rightarrow> ('k, 'v) omap \<Rightarrow> ('k, 'v) omap" where
  "om_del k m = filter (\<lambda>p. fst p \<noteq> k) m"

definition om_wf :: "('k::linorder, 'v) omap \<Rightarrow> bool" where
  "om_wf m = sorted_wrt (<) (map fst m)"

definition om_keys :: "('k, 'v) omap \<Rightarrow> 'k list" where
  "om_keys m = map fst m"

definition om_values :: "('k, 'v) omap \<Rightarrow> 'v list" where
  "om_values m = map snd m"

lemma om_get_put: "om_get (om_put k v m) k' = (if k' = k then Some v else om_get m k')"
  by (induction m) (auto simp: om_get_def)

lemma om_get_empty [simp]: "om_get om_empty k = None"
  by (simp add: om_get_def om_empty_def)

lemma om_get_del: "om_get (om_del k m) k' = (if k' = k then None else om_get m k')"
  by (induction m) (auto simp: om_get_def om_del_def)

lemma set_keys_om_put: "fst ` set (om_put k v m) = insert k (fst ` set m)"
  by (induction k v m rule: om_put.induct) (simp_all add: insert_commute)

lemma om_wf_empty [simp]: "om_wf om_empty"
  by (simp add: om_wf_def om_empty_def)

lemma om_wf_put: "om_wf m \<Longrightarrow> om_wf (om_put k v m)"
proof (induction m)
  case (Cons p m)
  have "x \<in> set (map fst (om_put k v m)) \<Longrightarrow> x = k \<or> x \<in> fst ` set m" for x
    using set_keys_om_put [of k v m] by auto
  with Cons show ?case by (cases p) (force simp: om_wf_def)
qed (simp add: om_wf_def)

lemma om_wf_del: "om_wf m \<Longrightarrow> om_wf (om_del k m)"
  by (induction m) (auto simp: om_wf_def om_del_def)

lemma om_wf_tl: "om_wf (p # m) \<Longrightarrow> om_wf m"
  by (simp add: om_wf_def)

lemma om_get_less_None: "om_wf ((k, v) # m) \<Longrightarrow> k' \<le> k \<Longrightarrow> om_get m k' = None"
  by (force simp: om_wf_def om_get_def map_of_eq_None_iff)

lemma om_ext: "om_wf m \<Longrightarrow> om_wf n \<Longrightarrow> (\<And>k. om_get m k = om_get n k) \<Longrightarrow> m = n"
proof (induction m arbitrary: n)
  case Nil
  then have "map_of n (fst (hd n)) = None" by (simp add: om_get_def)
  then show ?case by (cases n) auto
next
  case (Cons p m)
  obtain k v where p: "p = (k, v)" by (cases p)
  from Cons.prems(3) [of k] have "om_get n k = Some v" by (simp add: om_get_def p)
  then obtain q n' where n: "n = q # n'" by (cases n) (auto simp: om_get_def)
  obtain k' v' where q: "q = (k', v')" by (cases q)
  have "k = k'"
  proof (rule ccontr)
    assume "k \<noteq> k'"
    then consider "k < k'" | "k' < k" by fastforce
    then show False
    proof cases
      case 1
      with Cons.prems(2) have "om_get n k = None"
        using om_get_less_None [of k' v' n' k] by (auto simp: n q om_get_def)
      with \<open>om_get n k = Some v\<close> show False by simp
    next
      case 2
      with Cons.prems(1) have "om_get (p # m) k' = None"
        using om_get_less_None [of k v m k'] by (auto simp: p om_get_def)
      with Cons.prems(3) [of k'] show False by (simp add: n q om_get_def)
    qed
  qed
  with \<open>om_get n k = Some v\<close> have "v = v'" by (simp add: n q om_get_def)
  have "om_get m x = om_get n' x" for x
    using Cons.prems(3) [of x] om_get_less_None [of k v m x] om_get_less_None [of k v n' x]
      Cons.prems(1,2) \<open>k = k'\<close> \<open>v = v'\<close>
    by (cases "x = k") (auto simp: n q p om_get_def)
  with Cons.IH [of n'] Cons.prems have "m = n'" by (auto simp: n om_wf_tl dest: om_wf_tl)
  with n p q \<open>k = k'\<close> \<open>v = v'\<close> show ?case by simp
qed

interpretation om: keyed_store om_get om_put om_wf
  by unfold_locales (auto simp: om_get_put om_wf_put intro: om_ext)

text \<open>The entry update of the interpretation, as an executable function.\<close>

definition om_upd :: "'v \<Rightarrow> ('v \<Rightarrow> 'v) \<Rightarrow> 'k::linorder \<Rightarrow> ('k, 'v) omap \<Rightarrow> ('k, 'v) omap" where
  "om_upd d f k m = om_put k (f (case om_get m k of None \<Rightarrow> d | Some v \<Rightarrow> v)) m"

lemma om_upd_eq: "om_upd d f k m = om.upd d f k m"
  by (simp add: om_upd_def om.upd_def)

lemma in_keys_om_get: "k \<in> set (om_keys m) \<longleftrightarrow> om_get m k \<noteq> None"
  by (auto simp: om_keys_def om_get_def map_of_eq_None_iff dest: map_of_SomeD)

lemma om_wf_distinct: "om_wf m \<Longrightarrow> distinct (om_keys m)"
  by (induction m) (auto simp: om_wf_def om_keys_def)

lemma om_get_mem: "om_wf m \<Longrightarrow> (k, v) \<in> set m \<Longrightarrow> om_get m k = Some v"
  using om_wf_distinct [of m] by (simp add: om_get_def om_keys_def)

section \<open>Commuting operations\<close>

text \<open>
  Replicas apply the same operations in different orders.  Where any two operations of the
  history commute, and repeating one changes nothing, the state depends on the set of
  operations only.  \<open>ok\<close> is the side condition on a pair (that their stamps differ, say)
  and \<open>inv\<close> the states the operations are applied in.
\<close>

locale commuting_ops =
  fixes ap :: "'o \<Rightarrow> 's \<Rightarrow> 's"
    and ok :: "'o \<Rightarrow> 'o \<Rightarrow> bool"
    and inv :: "'s \<Rightarrow> bool"
  assumes swap: "inv s \<Longrightarrow> ok a b \<Longrightarrow> ap a (ap b s) = ap b (ap a s)"
    and idem: "inv s \<Longrightarrow> ap a (ap a s) = ap a s"
    and keeps: "inv s \<Longrightarrow> inv (ap a s)"
begin

lemma fold_inv: "inv s \<Longrightarrow> inv (fold ap xs s)"
  by (induction xs arbitrary: s) (simp_all add: keeps)

lemma fold_move:
  "inv s \<Longrightarrow> (\<And>b. b \<in> set xs \<Longrightarrow> ok a b) \<Longrightarrow> fold ap xs (ap a s) = ap a (fold ap xs s)"
proof (induction xs arbitrary: s)
  case (Cons x xs)
  then have "ap x (ap a s) = ap a (ap x s)" using swap [of s a x] by simp
  with Cons show ?case by (simp add: keeps)
qed simp

lemma fold_absorb:
  "inv s \<Longrightarrow> a \<in> set xs \<Longrightarrow> (\<And>b. b \<in> set xs \<Longrightarrow> ok a b) \<Longrightarrow>
     ap a (fold ap xs s) = fold ap xs s"
proof (induction xs arbitrary: s)
  case (Cons x xs)
  show ?case
  proof (cases "a = x")
    case True
    have "ap a (fold ap xs (ap a s)) = fold ap xs (ap a (ap a s))"
      using fold_move [of "ap a s" xs a] Cons.prems by (simp add: keeps)
    with True show ?thesis using Cons.prems by (simp add: idem)
  next
    case False
    with Cons show ?thesis by (simp add: keeps)
  qed
qed simp

lemma fold_Cons_absorb:
  assumes "inv s" "a \<in> set xs" "\<And>b. b \<in> set xs \<Longrightarrow> ok a b"
  shows "fold ap xs (ap a s) = fold ap xs s"
  using fold_move [OF assms(1,3)] fold_absorb [OF assms] by simp

lemma fold_remdups:
  "inv s \<Longrightarrow> (\<And>a b. a \<in> set xs \<Longrightarrow> b \<in> set xs \<Longrightarrow> ok a b) \<Longrightarrow>
     fold ap (remdups xs) s = fold ap xs s"
  by (induction xs arbitrary: s) (auto simp: keeps fold_Cons_absorb)

lemma fold_distinct:
  "inv s \<Longrightarrow> distinct xs \<Longrightarrow> distinct ys \<Longrightarrow> set xs = set ys \<Longrightarrow>
     (\<And>a b. a \<in> set xs \<Longrightarrow> b \<in> set xs \<Longrightarrow> ok a b) \<Longrightarrow> fold ap xs s = fold ap ys s"
proof (induction xs arbitrary: ys s)
  case (Cons x xs)
  from Cons.prems(4) obtain ps qs where ys: "ys = ps @ x # qs"
    by (metis list.set_intros(1) split_list)
  have sub: "set xs = set (ps @ qs)" using Cons.prems(2,3,4) by (auto simp: ys)
  have okx: "\<And>b. b \<in> set ps \<Longrightarrow> ok x b" using Cons.prems(4,5) by (auto simp: ys)
  have "fold ap xs (ap x s) = fold ap (ps @ qs) (ap x s)"
    by (rule Cons.IH) (use Cons.prems sub in \<open>auto simp: keeps ys\<close>)
  also have "\<dots> = fold ap qs (ap x (fold ap ps s))"
    using fold_move [of s ps x] Cons.prems(1) okx by simp
  finally show ?case by (simp add: ys)
qed simp

text \<open>Any two histories with the same operations end in the same state.\<close>

lemma converge:
  assumes "inv s" and "set xs = set ys" and "\<And>a b. a \<in> set xs \<Longrightarrow> b \<in> set xs \<Longrightarrow> ok a b"
  shows "fold ap xs s = fold ap ys s"
proof -
  have "fold ap xs s = fold ap (remdups xs) s" using fold_remdups assms(1,3) by simp
  also have "\<dots> = fold ap (remdups ys) s" by (rule fold_distinct) (use assms in auto)
  also have "\<dots> = fold ap ys s" using fold_remdups assms by simp
  finally show ?thesis .
qed

end

section \<open>Entries changed in place\<close>

text \<open>\<open>get_mut\<close>: the value of a key that is present is changed.\<close>

definition om_modify :: "'k \<Rightarrow> ('v \<Rightarrow> 'v) \<Rightarrow> ('k, 'v) omap \<Rightarrow> ('k, 'v) omap" where
  "om_modify k f m = map (\<lambda>(k', v). (k', if k' = k then f v else v)) m"

text \<open>\<open>entry().or_insert()\<close>: a value for a key that is absent.\<close>

definition om_or_insert :: "'k::linorder \<Rightarrow> 'v \<Rightarrow> ('k, 'v) omap \<Rightarrow> ('k, 'v) omap" where
  "om_or_insert k v m = (if om_get m k = None then om_put k v m else m)"

lemma om_get_modify:
  "om_get (om_modify k f m) k' = (if k' = k then map_option f (om_get m k) else om_get m k')"
  by (induction m) (auto simp: om_get_def om_modify_def)

lemma om_keys_modify [simp]: "map fst (om_modify k f m) = map fst m"
  by (simp add: om_modify_def comp_def case_prod_beta)

lemma om_wf_modify: "om_wf (om_modify k f m) = om_wf m"
  by (simp add: om_wf_def)

lemma om_get_or_insert:
  "om_get (om_or_insert k v m) k' = (if k' = k \<and> om_get m k = None then Some v else om_get m k')"
  by (simp add: om_or_insert_def om_get_put)

lemma om_wf_or_insert: "om_wf m \<Longrightarrow> om_wf (om_or_insert k v m)"
  by (simp add: om_or_insert_def om_wf_put)

section \<open>What holds of every value\<close>

lemma all_values_empty [simp]: "list_all P (om_values om_empty)"
  by (simp add: om_values_def om_empty_def)

lemma all_values_put: "list_all P (om_values m) \<Longrightarrow> P v \<Longrightarrow> list_all P (om_values (om_put k v m))"
  unfolding om_values_def by (induction k v m rule: om_put.induct) auto

lemma all_values_modify:
  "list_all P (om_values m) \<Longrightarrow> (\<And>v. P v \<Longrightarrow> P (f v)) \<Longrightarrow> list_all P (om_values (om_modify k f m))"
  by (auto simp: om_values_def om_modify_def list_all_iff)

lemma all_values_or_insert:
  "list_all P (om_values m) \<Longrightarrow> P v \<Longrightarrow> list_all P (om_values (om_or_insert k v m))"
  by (simp add: om_or_insert_def all_values_put)

lemma all_values_get: "list_all P (om_values m) \<Longrightarrow> om_get m k = Some v \<Longrightarrow> P v"
  by (force simp: om_values_def om_get_def list_all_iff dest: map_of_SomeD)

lemma om_wf_upd: "om_wf m \<Longrightarrow> om_wf (om_upd d f k m)"
  by (simp add: om_upd_def om_wf_put)

lemma om_get_upd:
  "om_get (om_upd d f k m) k' =
     (if k' = k then Some (f (case om_get m k of None \<Rightarrow> d | Some v \<Rightarrow> v)) else om_get m k')"
  by (simp add: om_upd_def om_get_put)

text \<open>Where two entries satisfy a predicate, one of them is not the entry of a given key.\<close>

lemma om_second:
  assumes "om_wf m" and "1 < length (filter P (om_values m))"
  shows "\<exists>k v. k \<noteq> x \<and> om_get m k = Some v \<and> P v"
proof (rule ccontr)
  assume no: "\<not> ?thesis"
  have "distinct (map fst m)" using om_wf_distinct [OF assms(1)] by (simp add: om_keys_def)
  have keys: "fst p = x" if "p \<in> set (filter (P \<circ> snd) m)" for p
    using no that om_get_mem [OF assms(1), of "fst p" "snd p"] by auto
  have "distinct (map fst (filter (P \<circ> snd) m))" using \<open>distinct (map fst m)\<close> by (rule distinct_map_filter)
  moreover have "set (map fst (filter (P \<circ> snd) m)) \<subseteq> {x}" using keys by auto
  ultimately have "length (map fst (filter (P \<circ> snd) m)) \<le> card {x}"
    by (metis card_mono distinct_card finite.emptyI finite.insertI)
  moreover have "length (filter P (om_values m)) = length (filter (P \<circ> snd) m)"
    by (simp add: om_values_def filter_map)
  ultimately show False using assms(2) by simp
qed

end
