(* ===== verification/BookmarkCrdt.thy ===== *)
theory BookmarkCrdt
  imports BookmarkOps OrdMap
begin

text \<open>
  The last-writer-wins merge of the bookmark collection
  (\<open>crates/services/mde-bookmarks/src/crdt.rs\<close>): registers, the register bundle of an item,
  the collection with its operation-based \<open>apply\<close> and its state-based \<open>merge\<close>, and the
  converged read model.  The theorems: any two replicas that have applied the same operations,
  in whatever order and however often, hold the same collection; merging states is applying the
  union of their operations; and an item is in the read model exactly when its greatest add
  beats its greatest delete.
\<close>

section \<open>Registers\<close>

record 'a reg_entry =
  re_hlc :: hlc
  re_author :: author
  re_value :: 'a

type_synonym 'a reg = "'a reg_entry option"

definition reg_write :: "hlc \<Rightarrow> author \<Rightarrow> 'a \<Rightarrow> 'a reg \<Rightarrow> 'a reg" where
  "reg_write h a v r =
     (let beats = (case r of None \<Rightarrow> True | Some cur \<Rightarrow> h > re_hlc cur)
      in if beats then Some \<lparr>re_hlc = h, re_author = a, re_value = v\<rparr> else r)"

definition reg_merge :: "'a reg \<Rightarrow> 'a reg \<Rightarrow> 'a reg" where
  "reg_merge r other =
     (case other of None \<Rightarrow> r | Some e \<Rightarrow> reg_write (re_hlc e) (re_author e) (re_value e) r)"

definition reg_get :: "'a reg \<Rightarrow> 'a option" where
  "reg_get r = map_option re_value r"

definition reg_get_or :: "'a reg \<Rightarrow> 'a \<Rightarrow> 'a" where
  "reg_get_or r d = (case r of None \<Rightarrow> d | Some e \<Rightarrow> re_value e)"

definition reg_meta :: "'a reg \<Rightarrow> (hlc \<times> author) option" where
  "reg_meta r = map_option (\<lambda>e. (re_hlc e, re_author e)) r"

section \<open>The registers of an item\<close>

record item_state =
  st_kind :: "item_kind reg"
  st_parent :: "uuid option reg"
  st_order_key :: "string reg"
  st_deleted :: "bool reg"
  st_url :: "string reg"
  st_title :: "string reg"
  st_favicon_ref :: "content_hash option reg"
  st_tags :: "string list reg"
  st_notes :: "string reg"
  st_added :: "u64 reg"
  st_source :: "source reg"
  st_name :: "string reg"

definition state_default :: item_state where
  "state_default = \<lparr>st_kind = None, st_parent = None, st_order_key = None, st_deleted = None,
     st_url = None, st_title = None, st_favicon_ref = None, st_tags = None, st_notes = None,
     st_added = None, st_source = None, st_name = None\<rparr>"

text \<open>\<open>Iterator::max_by\<close> keeps the later of two equal elements.\<close>

definition state_latest :: "item_state \<Rightarrow> (hlc \<times> author) option" where
  "state_latest st =
     reduce_list (\<lambda>x y. if fst x > fst y then x else y)
       (List.map_filter (\<lambda>m. m)
         [reg_meta (st_kind st), reg_meta (st_parent st), reg_meta (st_order_key st),
          reg_meta (st_deleted st), reg_meta (st_url st), reg_meta (st_title st),
          reg_meta (st_favicon_ref st), reg_meta (st_tags st), reg_meta (st_notes st),
          reg_meta (st_added st), reg_meta (st_source st), reg_meta (st_name st)])"

definition state_merge :: "item_state \<Rightarrow> item_state \<Rightarrow> item_state" where
  "state_merge st other =
     \<lparr>st_kind = reg_merge (st_kind st) (st_kind other),
      st_parent = reg_merge (st_parent st) (st_parent other),
      st_order_key = reg_merge (st_order_key st) (st_order_key other),
      st_deleted = reg_merge (st_deleted st) (st_deleted other),
      st_url = reg_merge (st_url st) (st_url other),
      st_title = reg_merge (st_title st) (st_title other),
      st_favicon_ref = reg_merge (st_favicon_ref st) (st_favicon_ref other),
      st_tags = reg_merge (st_tags st) (st_tags other),
      st_notes = reg_merge (st_notes st) (st_notes other),
      st_added = reg_merge (st_added st) (st_added other),
      st_source = reg_merge (st_source st) (st_source other),
      st_name = reg_merge (st_name st) (st_name other)\<rparr>"

definition state_live :: "item_state \<Rightarrow> bool" where
  "state_live st = (reg_get (st_kind st) \<noteq> None \<and> \<not> reg_get_or (st_deleted st) False)"

section \<open>The collection\<close>

type_synonym collection = "(uuid, item_state) omap"

definition coll_new :: collection where
  "coll_new = om_empty"

text \<open>The body of \<open>apply\<close> on the entry of the operation's target.\<close>

definition opt_write :: "hlc \<Rightarrow> author \<Rightarrow> 'a option \<Rightarrow> 'a reg \<Rightarrow> 'a reg" where
  "opt_write h a v r = (case v of None \<Rightarrow> r | Some x \<Rightarrow> reg_write h a x r)"

fun write_op :: "hlc \<Rightarrow> author \<Rightarrow> op_kind \<Rightarrow> item_state \<Rightarrow> item_state" where
  "write_op h a (AddBookmark _ parent order_key url title favicon_ref tags notes added source) st =
     st\<lparr>st_kind := reg_write h a KBookmark (st_kind st),
        st_parent := reg_write h a parent (st_parent st),
        st_order_key := reg_write h a order_key (st_order_key st),
        st_url := reg_write h a url (st_url st),
        st_title := reg_write h a title (st_title st),
        st_favicon_ref := reg_write h a favicon_ref (st_favicon_ref st),
        st_tags := reg_write h a tags (st_tags st),
        st_notes := reg_write h a notes (st_notes st),
        st_added := reg_write h a added (st_added st),
        st_source := reg_write h a source (st_source st),
        st_deleted := reg_write h a False (st_deleted st)\<rparr>"
| "write_op h a (EditBookmark _ url title favicon_ref tags notes) st =
     st\<lparr>st_url := opt_write h a url (st_url st),
        st_title := opt_write h a title (st_title st),
        st_favicon_ref := opt_write h a favicon_ref (st_favicon_ref st),
        st_tags := opt_write h a tags (st_tags st),
        st_notes := opt_write h a notes (st_notes st)\<rparr>"
| "write_op h a (MoveItem _ parent order_key) st =
     st\<lparr>st_parent := reg_write h a parent (st_parent st),
        st_order_key := reg_write h a order_key (st_order_key st)\<rparr>"
| "write_op h a (DeleteItem _) st = st\<lparr>st_deleted := reg_write h a True (st_deleted st)\<rparr>"
| "write_op h a (AddFolder _ name parent order_key) st =
     st\<lparr>st_kind := reg_write h a KFolder (st_kind st),
        st_name := reg_write h a name (st_name st),
        st_parent := reg_write h a parent (st_parent st),
        st_order_key := reg_write h a order_key (st_order_key st),
        st_deleted := reg_write h a False (st_deleted st)\<rparr>"
| "write_op h a (RenameFolder _ name) st = st\<lparr>st_name := reg_write h a name (st_name st)\<rparr>"

definition coll_apply :: "op \<Rightarrow> collection \<Rightarrow> collection" where
  "coll_apply x c =
     om_upd state_default (write_op (op_hlc x) (op_author x) (op_body x)) (op_target x) c"

definition coll_apply_all :: "op list \<Rightarrow> collection \<Rightarrow> collection" where
  "coll_apply_all ops c = fold coll_apply ops c"

definition coll_merge :: "collection \<Rightarrow> collection \<Rightarrow> collection" where
  "coll_merge c other =
     fold (\<lambda>(i, o_st). om_upd state_default (\<lambda>st. state_merge st o_st) i) other c"

definition coll_item :: "collection \<Rightarrow> uuid \<Rightarrow> item option" where
  "coll_item c i =
     Option.bind (om_get c i) (\<lambda>st.
       if \<not> state_live st then None
       else let (modified, last_author) =
                  (case state_latest st of
                     None \<Rightarrow> (0, \<lparr>author_user = [], author_node = []\<rparr>)
                   | Some (h, a) \<Rightarrow> (wall_ms h, a))
            in Option.bind (reg_get (st_kind st)) (\<lambda>k. case k of
                 KBookmark \<Rightarrow> Some (Bookmark
                   \<lparr>bm_id = i, bm_parent = reg_get_or (st_parent st) None,
                    bm_order_key = reg_get_or (st_order_key st) [],
                    bm_url = reg_get_or (st_url st) [], bm_title = reg_get_or (st_title st) [],
                    bm_favicon_ref = reg_get_or (st_favicon_ref st) None,
                    bm_tags = reg_get_or (st_tags st) [], bm_notes = reg_get_or (st_notes st) [],
                    bm_added = reg_get_or (st_added st) 0, bm_modified = modified,
                    bm_source = reg_get_or (st_source st) Manual, bm_last_author = last_author\<rparr>)
               | KFolder \<Rightarrow> Some (Folder
                   \<lparr>fo_id = i, fo_name = reg_get_or (st_name st) [],
                    fo_parent = reg_get_or (st_parent st) None,
                    fo_order_key = reg_get_or (st_order_key st) [],
                    fo_last_author = last_author\<rparr>)))"

definition coll_items :: "collection \<Rightarrow> item list" where
  "coll_items c = List.map_filter (coll_item c) (om_keys c)"

definition coll_children :: "collection \<Rightarrow> uuid option \<Rightarrow> item list" where
  "coll_children c parent =
     sort_key (\<lambda>it. (item_order_key it, item_id it))
       (filter (\<lambda>it. item_parent it = parent) (coll_items c))"

definition coll_roots :: "collection \<Rightarrow> item list" where
  "coll_roots c = coll_children c None"

definition coll_len :: "collection \<Rightarrow> nat" where
  "coll_len c = length (filter state_live (om_values c))"

section \<open>Register lemmas\<close>

lemma reg_write_swap:
  "h \<noteq> h' \<Longrightarrow> reg_write h a v (reg_write h' a' v' r) = reg_write h' a' v' (reg_write h a v r)"
  by (auto simp: reg_write_def Let_def split: option.splits)

lemma opt_write_swap:
  "h \<noteq> h' \<Longrightarrow> opt_write h a v (opt_write h' a' v' r) = opt_write h' a' v' (opt_write h a v r)"
  by (auto simp: opt_write_def reg_write_swap split: option.splits)

lemma opt_write_idem: "opt_write h a v (opt_write h a v r) = opt_write h a v r"
  by (auto simp: opt_write_def reg_write_def Let_def split: option.splits)

lemma opt_write_None [simp]: "opt_write h a None r = r"
  by (simp add: opt_write_def)

lemma opt_write_Some: "opt_write h a (Some v) r = reg_write h a v r"
  by (simp add: opt_write_def)

text \<open>What an operation writes into each register.\<close>

definition w_kind :: "op_kind \<Rightarrow> item_kind option" where
  "w_kind k = (case k of AddBookmark _ _ _ _ _ _ _ _ _ _ \<Rightarrow> Some KBookmark
     | AddFolder _ _ _ _ \<Rightarrow> Some KFolder | _ \<Rightarrow> None)"

definition w_parent :: "op_kind \<Rightarrow> uuid option option" where
  "w_parent k = (case k of AddBookmark _ p _ _ _ _ _ _ _ _ \<Rightarrow> Some p
     | AddFolder _ _ p _ \<Rightarrow> Some p | MoveItem _ p _ \<Rightarrow> Some p | _ \<Rightarrow> None)"

definition w_order_key :: "op_kind \<Rightarrow> string option" where
  "w_order_key k = (case k of AddBookmark _ _ x _ _ _ _ _ _ _ \<Rightarrow> Some x
     | AddFolder _ _ _ x \<Rightarrow> Some x | MoveItem _ _ x \<Rightarrow> Some x | _ \<Rightarrow> None)"

definition w_deleted :: "op_kind \<Rightarrow> bool option" where
  "w_deleted k = (case k of AddBookmark _ _ _ _ _ _ _ _ _ _ \<Rightarrow> Some False
     | AddFolder _ _ _ _ \<Rightarrow> Some False | DeleteItem _ \<Rightarrow> Some True | _ \<Rightarrow> None)"

definition w_url :: "op_kind \<Rightarrow> string option" where
  "w_url k = (case k of AddBookmark _ _ _ x _ _ _ _ _ _ \<Rightarrow> Some x
     | EditBookmark _ x _ _ _ _ \<Rightarrow> x | _ \<Rightarrow> None)"

definition w_title :: "op_kind \<Rightarrow> string option" where
  "w_title k = (case k of AddBookmark _ _ _ _ x _ _ _ _ _ \<Rightarrow> Some x
     | EditBookmark _ _ x _ _ _ \<Rightarrow> x | _ \<Rightarrow> None)"

definition w_favicon_ref :: "op_kind \<Rightarrow> content_hash option option" where
  "w_favicon_ref k = (case k of AddBookmark _ _ _ _ _ x _ _ _ _ \<Rightarrow> Some x
     | EditBookmark _ _ _ x _ _ \<Rightarrow> x | _ \<Rightarrow> None)"

definition w_tags :: "op_kind \<Rightarrow> string list option" where
  "w_tags k = (case k of AddBookmark _ _ _ _ _ _ x _ _ _ \<Rightarrow> Some x
     | EditBookmark _ _ _ _ x _ \<Rightarrow> x | _ \<Rightarrow> None)"

definition w_notes :: "op_kind \<Rightarrow> string option" where
  "w_notes k = (case k of AddBookmark _ _ _ _ _ _ _ x _ _ \<Rightarrow> Some x
     | EditBookmark _ _ _ _ _ x \<Rightarrow> x | _ \<Rightarrow> None)"

definition w_added :: "op_kind \<Rightarrow> u64 option" where
  "w_added k = (case k of AddBookmark _ _ _ _ _ _ _ _ x _ \<Rightarrow> Some x | _ \<Rightarrow> None)"

definition w_source :: "op_kind \<Rightarrow> source option" where
  "w_source k = (case k of AddBookmark _ _ _ _ _ _ _ _ _ x \<Rightarrow> Some x | _ \<Rightarrow> None)"

definition w_name :: "op_kind \<Rightarrow> string option" where
  "w_name k = (case k of AddFolder _ x _ _ \<Rightarrow> Some x | RenameFolder _ x \<Rightarrow> Some x | _ \<Rightarrow> None)"

lemmas w_defs = w_kind_def w_parent_def w_order_key_def w_deleted_def w_url_def w_title_def
  w_favicon_ref_def w_tags_def w_notes_def w_added_def w_source_def w_name_def

lemma write_op_fields:
  "write_op h a k st =
     \<lparr>st_kind = opt_write h a (w_kind k) (st_kind st),
      st_parent = opt_write h a (w_parent k) (st_parent st),
      st_order_key = opt_write h a (w_order_key k) (st_order_key st),
      st_deleted = opt_write h a (w_deleted k) (st_deleted st),
      st_url = opt_write h a (w_url k) (st_url st),
      st_title = opt_write h a (w_title k) (st_title st),
      st_favicon_ref = opt_write h a (w_favicon_ref k) (st_favicon_ref st),
      st_tags = opt_write h a (w_tags k) (st_tags st),
      st_notes = opt_write h a (w_notes k) (st_notes st),
      st_added = opt_write h a (w_added k) (st_added st),
      st_source = opt_write h a (w_source k) (st_source st),
      st_name = opt_write h a (w_name k) (st_name st)\<rparr>"
  by (cases k) (simp_all add: w_defs opt_write_Some)

lemma write_op_swap:
  "h \<noteq> h' \<Longrightarrow> write_op h a k (write_op h' a' k' st) = write_op h' a' k' (write_op h a k st)"
  by (simp add: write_op_fields opt_write_swap)

lemma write_op_idem: "write_op h a k (write_op h a k st) = write_op h a k st"
  by (simp add: write_op_fields opt_write_idem)

section \<open>Convergence\<close>

text \<open>Two operations agree when they are the same operation or carry different stamps.\<close>

definition stamps_ok :: "op \<Rightarrow> op \<Rightarrow> bool" where
  "stamps_ok x y = (op_hlc x = op_hlc y \<longrightarrow> x = y)"

lemma coll_apply_wf: "om_wf c \<Longrightarrow> om_wf (coll_apply x c)"
  by (simp add: coll_apply_def om_upd_def om_wf_put)

lemma coll_apply_swap:
  assumes "om_wf c" "stamps_ok x y"
  shows "coll_apply x (coll_apply y c) = coll_apply y (coll_apply x c)"
proof (cases "x = y")
  case False
  with assms(2) have "op_hlc x \<noteq> op_hlc y" by (auto simp: stamps_ok_def)
  with assms(1) show ?thesis
    by (cases "op_target x = op_target y")
      (simp_all add: coll_apply_def om_upd_eq om.upd_swap om.upd_swap_distinct write_op_swap)
qed simp

lemma coll_apply_idem: "om_wf c \<Longrightarrow> coll_apply x (coll_apply x c) = coll_apply x c"
  by (simp add: coll_apply_def om_upd_eq om.upd_idem write_op_idem)

interpretation crdt: commuting_ops coll_apply stamps_ok om_wf
  by unfold_locales (auto intro: coll_apply_swap coll_apply_idem coll_apply_wf)

text \<open>C2. Strong eventual consistency: two replicas that start from the same collection and
  have applied the same set of operations, in any order and with any repetitions, hold the same
  collection, provided distinct operations carry distinct stamps.\<close>

theorem crdt_convergence:
  assumes "om_wf c" and "set xs = set ys"
    and "\<forall>x \<in> set xs. \<forall>y \<in> set xs. op_hlc x = op_hlc y \<longrightarrow> x = y"
  shows "coll_apply_all xs c = coll_apply_all ys c"
  unfolding coll_apply_all_def
  by (rule crdt.converge) (use assms in \<open>auto simp: stamps_ok_def\<close>)

theorem crdt_convergence_witness:
  "coll_apply_all
     [\<lparr>op_hlc = \<lparr>wall_ms = 1, counter = 0, node = ''a''\<rparr>, op_author = \<lparr>author_user = ''u'', author_node = ''a''\<rparr>,
        op_body = AddFolder 7 ''x'' None ''V''\<rparr>,
      \<lparr>op_hlc = \<lparr>wall_ms = 2, counter = 0, node = ''b''\<rparr>, op_author = \<lparr>author_user = ''u'', author_node = ''b''\<rparr>,
        op_body = DeleteItem 7\<rparr>] coll_new
   = coll_apply_all
     [\<lparr>op_hlc = \<lparr>wall_ms = 2, counter = 0, node = ''b''\<rparr>, op_author = \<lparr>author_user = ''u'', author_node = ''b''\<rparr>,
        op_body = DeleteItem 7\<rparr>,
      \<lparr>op_hlc = \<lparr>wall_ms = 1, counter = 0, node = ''a''\<rparr>, op_author = \<lparr>author_user = ''u'', author_node = ''a''\<rparr>,
        op_body = AddFolder 7 ''x'' None ''V''\<rparr>] coll_new"
  by (rule crdt_convergence) (auto simp: coll_new_def)

section \<open>Reading the folded state\<close>

definition entry_or :: "item_state option \<Rightarrow> item_state" where
  "entry_or e = (case e of None \<Rightarrow> state_default | Some st \<Rightarrow> st)"

abbreviation write_ops :: "op list \<Rightarrow> item_state \<Rightarrow> item_state" where
  "write_ops ops \<equiv> fold (\<lambda>x. write_op (op_hlc x) (op_author x) (op_body x)) ops"

lemma entry_or_simps [simp]: "entry_or None = state_default" "entry_or (Some st) = st"
  by (simp_all add: entry_or_def)

lemma get_coll_apply:
  "om_get (coll_apply x c) i =
     (if i = op_target x
      then Some (write_op (op_hlc x) (op_author x) (op_body x) (entry_or (om_get c i)))
      else om_get c i)"
  by (simp add: coll_apply_def om_upd_def om_get_put entry_or_def)

lemma get_coll_apply_all:
  "om_get (coll_apply_all ops c) i =
     (if om_get c i = None \<and> (\<forall>x \<in> set ops. op_target x \<noteq> i) then None
      else Some (write_ops (filter (\<lambda>x. op_target x = i) ops) (entry_or (om_get c i))))"
proof (induction ops arbitrary: c)
  case Nil
  then show ?case by (auto simp: coll_apply_all_def)
next
  case (Cons x ops)
  have "coll_apply_all (x # ops) c = coll_apply_all ops (coll_apply x c)"
    by (simp add: coll_apply_all_def)
  with Cons show ?case by (auto simp: get_coll_apply)
qed

lemma coll_apply_all_wf: "om_wf c \<Longrightarrow> om_wf (coll_apply_all ops c)"
  by (simp add: coll_apply_all_def crdt.fold_inv)

section \<open>Merging states\<close>

lemma reg_merge_opt_write:
  "reg_merge r (opt_write h a v s) = opt_write h a v (reg_merge r s)"
  by (auto simp: reg_merge_def opt_write_def reg_write_def Let_def split: option.splits)

lemma reg_merge_None [simp]: "reg_merge r None = r"
  by (simp add: reg_merge_def)

lemma state_merge_write_op:
  "state_merge st (write_op h a k o_st) = write_op h a k (state_merge st o_st)"
  by (simp add: state_merge_def write_op_fields reg_merge_opt_write)

lemma state_merge_default [simp]: "state_merge st state_default = st"
  by (simp add: state_merge_def state_default_def)

lemma state_merge_write_ops: "state_merge st (write_ops ops o_st) = write_ops ops (state_merge st o_st)"
  by (induction ops arbitrary: o_st) (simp_all add: state_merge_write_op)

lemma coll_merge_wf: "om_wf c \<Longrightarrow> om_wf (coll_merge c other)"
  by (induction other arbitrary: c)
    (auto simp: coll_merge_def om_upd_def om_wf_put split: prod.splits)

lemma get_coll_merge:
  "om_wf other \<Longrightarrow> om_get (coll_merge c other) i =
     (case om_get other i of None \<Rightarrow> om_get c i
      | Some o_st \<Rightarrow> Some (state_merge (entry_or (om_get c i)) o_st))"
proof (induction other arbitrary: c)
  case (Cons p other)
  obtain k o_st where p: "p = (k, o_st)" by (cases p)
  have none: "om_get other k = None" using om_get_less_None [of k o_st other k] Cons.prems p by simp
  have "coll_merge c (p # other) = coll_merge (om_upd state_default (\<lambda>st. state_merge st o_st) k c) other"
    by (simp add: coll_merge_def p)
  moreover have "om_get (om_upd state_default (\<lambda>st. state_merge st o_st) k c) i =
      (if i = k then Some (state_merge (entry_or (om_get c i)) o_st) else om_get c i)"
    by (simp add: om_upd_def om_get_put entry_or_def)
  ultimately show ?case
    using Cons.IH [of "om_upd state_default (\<lambda>st. state_merge st o_st) k c"] Cons.prems none
    by (auto simp: p om_get_def om_wf_tl dest: om_wf_tl split: option.splits)
qed (simp add: coll_merge_def om_get_def)

text \<open>The state-based join agrees with the operation-based one: merging another replica's
  collection is the same as applying the operations that replica was built from.\<close>

theorem merge_is_replay:
  assumes "om_wf c"
  shows "coll_merge c (coll_apply_all ops coll_new) = coll_apply_all ops c"
proof (rule om_ext)
  show "om_wf (coll_merge c (coll_apply_all ops coll_new))" using assms by (rule coll_merge_wf)
  show "om_wf (coll_apply_all ops c)" using assms by (rule coll_apply_all_wf)
next
  fix i
  have "om_wf (coll_apply_all ops coll_new)" by (rule coll_apply_all_wf) (simp add: coll_new_def)
  then show "om_get (coll_merge c (coll_apply_all ops coll_new)) i = om_get (coll_apply_all ops c) i"
    by (auto simp: get_coll_merge get_coll_apply_all coll_new_def state_merge_write_ops
        filter_empty_conv split: option.splits)
qed

theorem merge_is_replay_witness:
  "coll_merge coll_new (coll_apply_all [\<lparr>op_hlc = \<lparr>wall_ms = 1, counter = 0, node = ''a''\<rparr>,
      op_author = \<lparr>author_user = ''u'', author_node = ''a''\<rparr>, op_body = DeleteItem 7\<rparr>] coll_new)
   = coll_apply_all [\<lparr>op_hlc = \<lparr>wall_ms = 1, counter = 0, node = ''a''\<rparr>,
      op_author = \<lparr>author_user = ''u'', author_node = ''a''\<rparr>, op_body = DeleteItem 7\<rparr>] coll_new"
  by (rule merge_is_replay) (simp add: coll_new_def)

section \<open>The abstract specification: the greatest stamp wins\<close>

definition writers :: "(op_kind \<Rightarrow> 'a option) \<Rightarrow> op list \<Rightarrow> uuid \<Rightarrow> op set" where
  "writers w ops i = {x \<in> set ops. op_target x = i \<and> w (op_body x) \<noteq> None}"

definition lww_winner :: "(op_kind \<Rightarrow> 'a option) \<Rightarrow> op list \<Rightarrow> uuid \<Rightarrow> 'a reg \<Rightarrow> bool" where
  "lww_winner w ops i r =
     (case r of None \<Rightarrow> writers w ops i = {}
      | Some e \<Rightarrow> \<exists>x \<in> writers w ops i. re_hlc e = op_hlc x \<and> re_author e = op_author x \<and>
          w (op_body x) = Some (re_value e) \<and> (\<forall>y \<in> writers w ops i. op_hlc y \<le> op_hlc x))"

definition reg_fold :: "(op_kind \<Rightarrow> 'a option) \<Rightarrow> op list \<Rightarrow> 'a reg \<Rightarrow> 'a reg" where
  "reg_fold w ops = fold (\<lambda>x. opt_write (op_hlc x) (op_author x) (w (op_body x))) ops"

lemma write_ops_fields:
  "write_ops ops st =
     \<lparr>st_kind = reg_fold w_kind ops (st_kind st), st_parent = reg_fold w_parent ops (st_parent st),
      st_order_key = reg_fold w_order_key ops (st_order_key st),
      st_deleted = reg_fold w_deleted ops (st_deleted st), st_url = reg_fold w_url ops (st_url st),
      st_title = reg_fold w_title ops (st_title st),
      st_favicon_ref = reg_fold w_favicon_ref ops (st_favicon_ref st),
      st_tags = reg_fold w_tags ops (st_tags st), st_notes = reg_fold w_notes ops (st_notes st),
      st_added = reg_fold w_added ops (st_added st), st_source = reg_fold w_source ops (st_source st),
      st_name = reg_fold w_name ops (st_name st)\<rparr>"
  by (induction ops arbitrary: st) (simp_all add: reg_fold_def write_op_fields)

lemma reg_fold_snoc:
  "reg_fold w (ops @ [x]) r = opt_write (op_hlc x) (op_author x) (w (op_body x)) (reg_fold w ops r)"
  by (simp add: reg_fold_def)

lemma writers_snoc:
  "writers w (ops @ [x]) i =
     (if op_target x = i \<and> w (op_body x) \<noteq> None then insert x (writers w ops i) else writers w ops i)"
  by (auto simp: writers_def)

lemma reg_fold_winner:
  "lww_winner w ops i (reg_fold w (filter (\<lambda>x. op_target x = i) ops) None)"
proof (induction ops rule: rev_induct)
  case Nil
  then show ?case by (simp add: lww_winner_def writers_def reg_fold_def)
next
  case (snoc x ops)
  let ?r = "reg_fold w (filter (\<lambda>x. op_target x = i) ops) None"
  show ?case
  proof (cases "op_target x = i \<and> w (op_body x) \<noteq> None")
    case False
    then have "reg_fold w (filter (\<lambda>x. op_target x = i) (ops @ [x])) None = ?r"
      by (auto simp: reg_fold_snoc)
    moreover have "writers w (ops @ [x]) i = writers w ops i" using False by (auto simp: writers_snoc)
    ultimately show ?thesis using snoc by (simp only: lww_winner_def)
  next
    case True
    then obtain v where v: "w (op_body x) = Some v" by auto
    have fold: "reg_fold w (filter (\<lambda>x. op_target x = i) (ops @ [x])) None
        = reg_write (op_hlc x) (op_author x) v ?r"
      using True v by (simp add: reg_fold_snoc opt_write_Some)
    have ws: "writers w (ops @ [x]) i = insert x (writers w ops i)" using True by (simp add: writers_snoc)
    show ?thesis
    proof (cases ?r)
      case None
      with snoc show ?thesis unfolding fold by (simp add: lww_winner_def reg_write_def ws v)
    next
      case (Some e)
      with snoc obtain y where y: "y \<in> writers w ops i" "re_hlc e = op_hlc y" "re_author e = op_author y"
        "w (op_body y) = Some (re_value e)" "\<And>z. z \<in> writers w ops i \<Longrightarrow> op_hlc z \<le> op_hlc y"
        by (auto simp: lww_winner_def)
      show ?thesis
      proof (cases "op_hlc y < op_hlc x")
        case True
        then have "\<And>z. z \<in> writers w ops i \<Longrightarrow> op_hlc z \<le> op_hlc x"
          using y(5) by (meson less_imp_le order_trans)
        with True y(2) show ?thesis
          unfolding fold by (auto simp: lww_winner_def reg_write_def Some ws v)
      next
        case False
        with y show ?thesis
          unfolding fold by (auto simp: lww_winner_def reg_write_def Some ws v)
      qed
    qed
  qed
qed

text \<open>Last writer wins, on every field: each register of an item holds the value, stamp and
  author of an operation with the greatest stamp among those that write the register, and is
  unset only where none does.\<close>

theorem registers_hold_greatest_write:
  assumes "om_get (coll_apply_all ops coll_new) i = Some st"
  shows "lww_winner w_kind ops i (st_kind st) \<and> lww_winner w_parent ops i (st_parent st)
    \<and> lww_winner w_order_key ops i (st_order_key st) \<and> lww_winner w_deleted ops i (st_deleted st)
    \<and> lww_winner w_url ops i (st_url st) \<and> lww_winner w_title ops i (st_title st)
    \<and> lww_winner w_favicon_ref ops i (st_favicon_ref st) \<and> lww_winner w_tags ops i (st_tags st)
    \<and> lww_winner w_notes ops i (st_notes st) \<and> lww_winner w_added ops i (st_added st)
    \<and> lww_winner w_source ops i (st_source st) \<and> lww_winner w_name ops i (st_name st)"
proof -
  have "st = write_ops (filter (\<lambda>x. op_target x = i) ops) state_default"
    using assms by (simp add: get_coll_apply_all coll_new_def split: if_splits)
  then show ?thesis by (simp add: write_ops_fields state_default_def reg_fold_winner)
qed

theorem registers_hold_greatest_write_witness:
  "lww_winner w_deleted [\<lparr>op_hlc = \<lparr>wall_ms = 1, counter = 0, node = ''a''\<rparr>,
      op_author = \<lparr>author_user = ''u'', author_node = ''a''\<rparr>, op_body = DeleteItem 7\<rparr>] 7
     (st_deleted (write_op \<lparr>wall_ms = 1, counter = 0, node = ''a''\<rparr>
        \<lparr>author_user = ''u'', author_node = ''a''\<rparr> (DeleteItem 7) state_default))"
  using registers_hold_greatest_write [of "[\<lparr>op_hlc = \<lparr>wall_ms = 1, counter = 0, node = ''a''\<rparr>,
      op_author = \<lparr>author_user = ''u'', author_node = ''a''\<rparr>, op_body = DeleteItem 7\<rparr>]" 7
      "write_op \<lparr>wall_ms = 1, counter = 0, node = ''a''\<rparr>
        \<lparr>author_user = ''u'', author_node = ''a''\<rparr> (DeleteItem 7) state_default"]
  by (simp add: get_coll_apply_all coll_new_def op_target_def)

section \<open>The read model\<close>

definition adds :: "op \<Rightarrow> uuid \<Rightarrow> bool" where
  "adds x i = (op_target x = i \<and> w_deleted (op_body x) = Some False)"

definition deletes :: "op \<Rightarrow> uuid \<Rightarrow> bool" where
  "deletes x i = (op_target x = i \<and> w_deleted (op_body x) = Some True)"

lemma coll_item_Some_iff:
  "coll_item c i \<noteq> None \<longleftrightarrow> (\<exists>st. om_get c i = Some st \<and> state_live st)"
  by (auto simp: coll_item_def state_live_def reg_get_def split: option.splits prod.splits item_kind.splits
      bind_splits)

lemma kind_written_iff: "w_kind k \<noteq> None \<longleftrightarrow> w_deleted k = Some False"
  by (cases k) (simp_all add: w_defs)

lemma w_deleted_cases: "w_deleted k = None \<or> w_deleted k = Some False \<or> w_deleted k = Some True"
  by (cases k) (simp_all add: w_defs)

text \<open>Liveness of an item is decided by stamps alone: after any history with distinct
  stamps, an item is in the read model exactly when some add of it carries a greater stamp than
  every delete of it.\<close>

theorem item_live_iff:
  assumes "\<forall>x \<in> set ops. \<forall>y \<in> set ops. op_hlc x = op_hlc y \<longrightarrow> x = y"
  shows "coll_item (coll_apply_all ops coll_new) i \<noteq> None \<longleftrightarrow>
    (\<exists>x \<in> set ops. adds x i \<and> (\<forall>y \<in> set ops. deletes y i \<longrightarrow> op_hlc y < op_hlc x))"
proof -
  let ?st = "write_ops (filter (\<lambda>x. op_target x = i) ops) state_default"
  have get: "om_get (coll_apply_all ops coll_new) i
      = (if \<forall>x \<in> set ops. op_target x \<noteq> i then None else Some ?st)"
    by (simp add: get_coll_apply_all coll_new_def)
  have kind: "reg_get (st_kind ?st) \<noteq> None \<longleftrightarrow> (\<exists>x \<in> set ops. adds x i)"
    using reg_fold_winner [of w_kind ops i]
    by (auto simp: write_ops_fields state_default_def lww_winner_def reg_get_def writers_def adds_def
        simp flip: kind_written_iff split: option.splits)
  have del: "lww_winner w_deleted ops i (st_deleted ?st)"
    by (simp add: write_ops_fields state_default_def reg_fold_winner)
  show ?thesis
  proof (cases "\<exists>x \<in> set ops. adds x i")
    case False
    then have "\<not> state_live ?st" using kind by (simp add: state_live_def)
    then have "\<not> coll_item (coll_apply_all ops coll_new) i \<noteq> None"
      unfolding coll_item_Some_iff get by auto
    with False show ?thesis by blast
  next
    case True
    then obtain x where x: "x \<in> set ops" "adds x i" by blast
    then have "x \<in> writers w_deleted ops i" by (simp add: writers_def adds_def del: not_None_eq)
    with del obtain e y where e: "st_deleted ?st = Some e" and y: "y \<in> writers w_deleted ops i"
      "w_deleted (op_body y) = Some (re_value e)"
      "\<And>z. z \<in> writers w_deleted ops i \<Longrightarrow> op_hlc z \<le> op_hlc y"
      by (auto simp: lww_winner_def split: option.splits)
    have "state_live ?st \<longleftrightarrow> \<not> re_value e"
      using True kind e by (simp add: state_live_def reg_get_or_def)
    moreover have "\<not> (\<forall>x \<in> set ops. op_target x \<noteq> i)" using x by (auto simp: adds_def)
    ultimately have live: "coll_item (coll_apply_all ops coll_new) i \<noteq> None \<longleftrightarrow> \<not> re_value e"
      unfolding coll_item_Some_iff get by auto
    show ?thesis
    proof (cases "re_value e")
      case True
      with y have "deletes y i" "y \<in> set ops" by (auto simp: deletes_def writers_def)
      moreover have "op_hlc z \<le> op_hlc y" if "z \<in> set ops" "adds z i" for z
        using y(3) [of z] that by (auto simp: writers_def adds_def)
      ultimately show ?thesis using live True by (auto simp flip: not_le)
    next
      case False
      with y have "adds y i" "y \<in> set ops" by (auto simp: adds_def writers_def)
      moreover have "op_hlc z < op_hlc y" if z: "z \<in> set ops" "deletes z i" for z
      proof -
        have "op_hlc z \<le> op_hlc y" using y(3) [of z] z by (auto simp: writers_def deletes_def)
        moreover have "z \<noteq> y" using z(2) \<open>adds y i\<close> by (auto simp: adds_def deletes_def)
        ultimately show ?thesis using assms z(1) \<open>y \<in> set ops\<close> by (auto simp: less_le)
      qed
      ultimately show ?thesis using live False by blast
    qed
  qed
qed

theorem item_live_iff_witness:
  "coll_item (coll_apply_all
     [\<lparr>op_hlc = \<lparr>wall_ms = 2, counter = 0, node = ''b''\<rparr>, op_author = \<lparr>author_user = ''u'', author_node = ''b''\<rparr>,
        op_body = DeleteItem 7\<rparr>,
      \<lparr>op_hlc = \<lparr>wall_ms = 3, counter = 0, node = ''a''\<rparr>, op_author = \<lparr>author_user = ''u'', author_node = ''a''\<rparr>,
        op_body = AddFolder 7 ''x'' None ''V''\<rparr>] coll_new) 7 \<noteq> None"
  by (subst item_live_iff) (auto simp: adds_def deletes_def op_target_def w_deleted_def hlc_less_iff)

text \<open>Only adds and deletes move an item in or out of the read model: an edit, a move or a
  rename never does, whatever its stamp; in particular editing a deleted bookmark does not bring
  it back.\<close>

theorem edits_keep_liveness:
  assumes "w_deleted (op_body x) = None"
  shows "coll_item (coll_apply x c) i = None \<longleftrightarrow> coll_item c i = None"
proof -
  have "w_kind (op_body x) = None" using assms kind_written_iff [of "op_body x"] by auto
  with assms have "state_live (write_op h a (op_body x) st) = state_live st" for h a st
    by (simp add: write_op_fields state_live_def)
  moreover have "\<not> state_live state_default" by (simp add: state_live_def state_default_def reg_get_def)
  ultimately have "coll_item (coll_apply x c) i \<noteq> None \<longleftrightarrow> coll_item c i \<noteq> None"
    unfolding coll_item_Some_iff get_coll_apply by (cases "om_get c i") auto
  then show ?thesis by blast
qed

theorem edits_keep_liveness_witness:
  "coll_item (coll_apply \<lparr>op_hlc = \<lparr>wall_ms = 9, counter = 0, node = ''a''\<rparr>,
      op_author = \<lparr>author_user = ''u'', author_node = ''a''\<rparr>,
      op_body = EditBookmark 7 None (Some ''t'') None None None\<rparr> coll_new) 7 = None"
  using edits_keep_liveness [of "\<lparr>op_hlc = \<lparr>wall_ms = 9, counter = 0, node = ''a''\<rparr>,
      op_author = \<lparr>author_user = ''u'', author_node = ''a''\<rparr>,
      op_body = EditBookmark 7 None (Some ''t'') None None None\<rparr>" coll_new 7]
  by (simp add: w_deleted_def coll_new_def coll_item_def)

lemma coll_item_fields: "coll_item c i = Some it \<Longrightarrow> item_id it = i"
  by (auto simp: coll_item_def split: if_splits option.splits prod.splits item_kind.splits bind_splits)

lemma set_coll_items: "it \<in> set (coll_items c) \<longleftrightarrow> coll_item c (item_id it) = Some it"
proof
  assume "it \<in> set (coll_items c)"
  then obtain k where "coll_item c k = Some it" by (auto simp: coll_items_def List.map_filter_def)
  then show "coll_item c (item_id it) = Some it" using coll_item_fields by simp
next
  assume it: "coll_item c (item_id it) = Some it"
  then have "coll_item c (item_id it) \<noteq> None" by simp
  then have "om_get c (item_id it) \<noteq> None" unfolding coll_item_Some_iff by auto
  then have "item_id it \<in> set (om_keys c)" by (simp add: in_keys_om_get)
  with it show "it \<in> set (coll_items c)" by (force simp: coll_items_def List.map_filter_def)
qed

lemma coll_items_entries:
  "om_wf c \<Longrightarrow> length (coll_items c) = length (filter (\<lambda>p. state_live (snd p)) c)"
proof -
  assume wf: "om_wf c"
  have "coll_item c (fst p) \<noteq> None \<longleftrightarrow> state_live (snd p)" if "p \<in> set c" for p
    unfolding coll_item_Some_iff using om_get_mem [OF wf, of "fst p" "snd p"] that by simp
  then have "filter (\<lambda>p. coll_item c (fst p) \<noteq> None) c = filter (\<lambda>p. state_live (snd p)) c"
    by (rule filter_cong [OF refl])
  moreover have "length (coll_items c) = length (filter (\<lambda>p. coll_item c (fst p) \<noteq> None) c)"
    by (simp add: coll_items_def List.map_filter_def om_keys_def filter_map comp_def)
  ultimately show ?thesis by simp
qed

text \<open>The children of a folder are exactly the live items whose parent register names it,
  in ascending order of \<open>(order_key, id)\<close>, each once; and the reported number of live items is
  the number of items listed.\<close>

theorem children_exact_and_ordered:
  assumes "om_wf c"
  shows "set (coll_children c p) = {it. coll_item c (item_id it) = Some it \<and> item_parent it = p}
    \<and> sorted (map (\<lambda>it. (item_order_key it, item_id it)) (coll_children c p))
    \<and> coll_len c = length (coll_items c)"
  using coll_items_entries [OF assms]
  by (auto simp: coll_children_def set_coll_items coll_len_def om_values_def filter_map comp_def)

theorem children_exact_and_ordered_witness:
  "coll_len coll_new = length (coll_items coll_new)"
  using children_exact_and_ordered [of coll_new None] by (simp add: coll_new_def)

end
