(* ===== verification/OrderKeys.thy ===== *)
theory OrderKeys
  imports Prelude
begin

text \<open>
  The fractional-index order keys of the bookmark tree
  (\<open>crates/services/mde-bookmarks/src/order.rs\<close>): digit strings over a 62 symbol
  alphabet, compared byte by byte, and the generator of a key strictly between two others.
  The generator's loop has no bound of its own, so it is a partial function: its value is
  \<open>None\<close> where it does not return.  The theorems say for which pairs of keys it returns,
  that its result then lies strictly between them, and for which pair it runs for ever.
\<close>

section \<open>The code\<close>

definition ALPHABET :: string where
  "ALPHABET = ''0123456789ABCDEFGHIJKLMNOPQRSTUVWXYZabcdefghijklmnopqrstuvwxyz''"

definition RADIX :: nat where
  "RADIX = length ALPHABET"

text \<open>A subtraction below zero or an index past the alphabet panics.\<close>

datatype key_panic = Underflow | IndexOutOfBounds

fun position :: "'a \<Rightarrow> 'a list \<Rightarrow> nat option" where
  "position x [] = None"
| "position x (y # ys) = (if x = y then Some 0 else map_option Suc (position x ys))"

definition decode_key :: "string \<Rightarrow> nat list" where
  "decode_key key =
     map (\<lambda>b. case position b ALPHABET of None \<Rightarrow> 0 | Some i \<Rightarrow> i) key"

definition encode_key :: "nat list \<Rightarrow> (key_panic, string) result" where
  "encode_key ds =
     (if list_all (\<lambda>d. d < RADIX) ds then Inr (map ((!) ALPHABET) ds) else Inl IndexOutOfBounds)"

definition digit_at :: "nat list \<Rightarrow> nat \<Rightarrow> nat" where
  "digit_at ds i = (if i < length ds then ds ! i else 0)"

definition upper_at :: "nat list option \<Rightarrow> nat \<Rightarrow> nat" where
  "upper_at hi i = (case hi of None \<Rightarrow> RADIX | Some h \<Rightarrow> digit_at h i)"

text \<open>The loop of \<open>between\<close>, with its index and the digits pushed so far; the recursive
  call on the tail starts it afresh.\<close>

partial_function (option) between_loop ::
  "nat list \<Rightarrow> nat list option \<Rightarrow> nat \<Rightarrow> nat list \<Rightarrow> (key_panic, nat list) result option"
where
  "between_loop lo hi i out =
     (let d_lo = digit_at lo i; d_hi = upper_at hi i in
      if d_lo = d_hi then between_loop lo hi (Suc i) (out @ [d_lo])
      else if d_hi < d_lo then Some (Inl Underflow)
      else if 2 \<le> d_hi - d_lo then Some (Inr (out @ [d_lo + (d_hi - d_lo) div 2]))
      else Option.bind (between_loop (drop (min (i + 1) (length lo)) lo) None 0 [])
             (\<lambda>r. Some (bind_res r (\<lambda>tail. Inr (out @ [d_lo] @ tail)))))"

definition between :: "nat list \<Rightarrow> nat list option \<Rightarrow> (key_panic, nat list) result option" where
  "between lo hi = between_loop lo hi 0 []"

definition key_between :: "string option \<Rightarrow> string option \<Rightarrow> (key_panic, string) result option"
where
  "key_between before after =
     (let lo = (case before of None \<Rightarrow> [] | Some b \<Rightarrow> decode_key b);
          hi = Option.bind after (\<lambda>a. let hi = decode_key a in if lo < hi then Some hi else None)
      in Option.bind (between lo hi) (\<lambda>r. Some (bind_res r encode_key)))"

section \<open>Digits and keys\<close>

definition in_alphabet :: "string \<Rightarrow> bool" where
  "in_alphabet k = list_all (\<lambda>c. c \<in> set ALPHABET) k"

text \<open>What the generator mints: alphabet symbols, not empty, not ending in the least digit.\<close>

definition minted_key :: "string \<Rightarrow> bool" where
  "minted_key k = (k \<noteq> [] \<and> in_alphabet k \<and> last k \<noteq> CHR ''0'')"

lemma RADIX_eq [simp]: "RADIX = 62"
  by (simp add: RADIX_def ALPHABET_def)

lemma length_alphabet [simp]: "length ALPHABET = 62"
  by (simp add: ALPHABET_def)

lemma zero_in_alphabet [simp]: "CHR ''0'' \<in> set ALPHABET"
  by (simp add: ALPHABET_def)

lemma alphabet_codes:
  "map of_char ALPHABET = ([48..<58] @ [65..<91] @ [97..<123] :: nat list)"
  by (simp add: ALPHABET_def upt_conv_Cons)

lemma sorted_alphabet: "sorted_wrt (<) ALPHABET"
proof -
  have "sorted_wrt (<) (map of_char ALPHABET :: nat list)"
    unfolding alphabet_codes by (simp add: sorted_wrt_append)
  then show ?thesis
    unfolding sorted_wrt_map by (rule sorted_wrt_mono_rel [rotated]) (simp add: less_char_def)
qed

lemma alphabet_mono: "i < j \<Longrightarrow> j < 62 \<Longrightarrow> ALPHABET ! i < ALPHABET ! j"
  using sorted_wrt_nth_less [OF sorted_alphabet, of i j] by simp

lemma alphabet_less_iff: "i < 62 \<Longrightarrow> j < 62 \<Longrightarrow> ALPHABET ! i < ALPHABET ! j \<longleftrightarrow> i < j"
  using alphabet_mono [of i j] alphabet_mono [of j i] by (cases i j rule: linorder_cases) auto

lemma alphabet_inj: "i < 62 \<Longrightarrow> j < 62 \<Longrightarrow> ALPHABET ! i = ALPHABET ! j \<longleftrightarrow> i = j"
  using alphabet_mono [of i j] alphabet_mono [of j i] by (cases i j rule: linorder_cases) auto

lemma position_Some: "position x ys = Some i \<Longrightarrow> i < length ys \<and> ys ! i = x"
  by (induction ys arbitrary: i) (auto split: if_splits)

lemma position_None: "position x ys = None \<longleftrightarrow> x \<notin> set ys"
  by (induction ys) auto

lemma position_nth: "i < 62 \<Longrightarrow> position (ALPHABET ! i) ALPHABET = Some i"
proof (cases "position (ALPHABET ! i) ALPHABET")
  case None
  assume "i < 62"
  with None show ?thesis by (simp add: position_None)
next
  case (Some j)
  assume "i < 62"
  moreover have "j < 62" "ALPHABET ! j = ALPHABET ! i"
    using position_Some [OF Some] by simp_all
  ultimately show ?thesis using Some alphabet_inj [of j i] by simp
qed

lemma decode_digits: "list_all (\<lambda>d. d < 62) (decode_key k)"
  by (auto simp: decode_key_def list_all_iff dest!: position_Some split: option.splits)

lemma decode_Nil [simp]: "decode_key [] = []"
  by (simp add: decode_key_def)

lemma decode_Cons: "decode_key (c # k) = decode_key [c] @ decode_key k"
  by (simp add: decode_key_def)

lemma decode_encode: "list_all (\<lambda>d. d < 62) ds \<Longrightarrow> decode_key (map ((!) ALPHABET) ds) = ds"
  by (induction ds) (simp_all add: decode_key_def position_nth)

lemma encode_decode: "in_alphabet k \<Longrightarrow> map ((!) ALPHABET) (decode_key k) = k"
  by (induction k)
    (auto simp: decode_key_def in_alphabet_def position_None dest!: position_Some split: option.splits)

lemma encode_less:
  "list_all (\<lambda>d. d < 62) ds \<Longrightarrow> list_all (\<lambda>d. d < 62) es \<Longrightarrow>
     map ((!) ALPHABET) ds < map ((!) ALPHABET) es \<longleftrightarrow> ds < es"
proof (induction ds arbitrary: es)
  case Nil
  then show ?case by (cases es) auto
next
  case (Cons d ds)
  then show ?case by (cases es) (auto simp: alphabet_less_iff alphabet_inj)
qed

lemma decode_less: "in_alphabet a \<Longrightarrow> in_alphabet b \<Longrightarrow> decode_key a < decode_key b \<longleftrightarrow> a < b"
  using encode_less [OF decode_digits decode_digits, of a b] by (simp add: encode_decode)

section \<open>Lexicographic facts\<close>

lemma less_same_prefix: "us @ vs < us @ ws \<longleftrightarrow> vs < (ws :: 'a::linorder list)"
  by (induction us) auto

lemma less_extend: "v \<noteq> [] \<Longrightarrow> us < us @ (v :: 'a::linorder list)"
  using less_same_prefix [of us "[]" v] by (cases v) auto

lemma less_at: "us @ x # vs < us @ y # ws \<longleftrightarrow> x < y \<or> x = y \<and> vs < (ws :: 'a::linorder list)"
  by (simp add: less_same_prefix)

text \<open>Where \<open>lo\<close> sorts before \<open>hi\<close> and \<open>hi\<close> does not just append least digits, the
  padded digits differ at some position of \<open>hi\<close>, and the first such difference is upwards.\<close>

definition pads :: "nat list \<Rightarrow> nat list \<Rightarrow> bool" where
  "pads lo hi = (\<exists>n. hi = lo @ replicate n 0)"

lemma first_difference:
  assumes "lo < hi" "\<not> pads lo hi"
  shows "\<exists>j < length hi. digit_at lo j < hi ! j \<and> (\<forall>k < j. digit_at lo k = hi ! k)"
  using assms
proof (induction lo arbitrary: hi)
  case Nil
  then have "\<exists>j < length hi. hi ! j \<noteq> 0"
    by (metis append_Nil pads_def replicate_eqI in_set_conv_nth)
  then obtain j where j: "j < length hi \<and> hi ! j \<noteq> 0"
    "\<And>k. k < j \<Longrightarrow> \<not> (k < length hi \<and> hi ! k \<noteq> 0)"
    using exists_least_iff [of "\<lambda>j. j < length hi \<and> hi ! j \<noteq> 0"] by auto
  then show ?case by (intro exI [of _ j]) (auto simp: digit_at_def)
next
  case (Cons d lo)
  from Cons.prems(1) obtain e es where hi: "hi = e # es" by (cases hi) auto
  show ?case
  proof (cases "d = e")
    case True
    with Cons.prems hi have "lo < es" "\<not> pads lo es" by (auto simp: pads_def)
    from Cons.IH [OF this] obtain j where "j < length es" "digit_at lo j < es ! j"
      "\<forall>k < j. digit_at lo k = es ! k" by blast
    with True hi show ?thesis
      by (intro exI [of _ "Suc j"]) (auto simp: digit_at_def less_Suc_eq_0_disj)
  next
    case False
    with Cons.prems(1) hi have "d < e" by simp
    with hi show ?thesis by (intro exI [of _ 0]) (simp add: digit_at_def)
  qed
qed

lemma take_of_agree:
  assumes "\<forall>k < j. digit_at lo k = hi ! k" "j < length hi" "j \<le> length lo"
  shows "take j hi = take j lo"
  using assms by (auto intro!: nth_equalityI simp: digit_at_def)

lemma short_prefix:
  assumes "\<forall>k < j. digit_at lo k = hi ! k" "j < length hi" "length lo < j"
  shows "take j hi = lo @ replicate (j - length lo) 0"
proof (rule nth_equalityI)
  fix k assume "k < length (take j hi)"
  then have k: "k < j" by simp
  with assms(1) have "hi ! k = digit_at lo k" by simp
  with k assms(3) show "take j hi ! k = (lo @ replicate (j - length lo) 0) ! k"
    by (simp add: digit_at_def nth_append)
qed (use assms in simp)

section \<open>The generator\<close>

text \<open>What the generator promises of its digits: above \<open>lo\<close>, in range, not ending in 0.\<close>

definition good_above :: "nat list \<Rightarrow> nat list \<Rightarrow> bool" where
  "good_above lo r = (lo < r \<and> list_all (\<lambda>d. d < 62) r \<and> r \<noteq> [] \<and> last r \<noteq> 0)"

lemma good_above_Cons: "good_above lo t \<Longrightarrow> d < 62 \<Longrightarrow> good_above (d # lo) (d # t)"
  by (simp add: good_above_def)

lemma drop_one: "drop (min (Suc 0) (length lo)) lo = tl lo"
  by (cases lo) auto

lemma between_unbounded:
  "list_all (\<lambda>d. d < 62) lo \<Longrightarrow> \<exists>r. between_loop lo None 0 [] = Some (Inr r) \<and> good_above lo r"
proof (induction lo)
  case Nil
  show ?case
    by (subst between_loop.simps) (simp add: digit_at_def upper_at_def good_above_def)
next
  case (Cons d lo)
  then obtain t where t: "between_loop lo None 0 [] = Some (Inr t)" "good_above lo t" by auto
  show ?case
  proof (cases "d = 61")
    case True
    with t show ?thesis
      by (subst between_loop.simps) (simp add: digit_at_def upper_at_def good_above_Cons)
  next
    case False
    with Cons.prems have "d < 61" by simp
    then show ?thesis
      by (subst between_loop.simps) (auto simp: digit_at_def upper_at_def good_above_def)
  qed
qed

lemma between_skip:
  assumes "\<forall>k < j. digit_at lo k = digit_at hi k" "i \<le> j"
  shows "between_loop lo (Some hi) i out
    = between_loop lo (Some hi) j (out @ map (digit_at hi) [i..<j])"
  using assms
proof (induction "j - i" arbitrary: i out)
  case (Suc n)
  then have "i < j" by simp
  with Suc.prems have "digit_at lo i = upper_at (Some hi) i" by (simp add: upper_at_def)
  then have "between_loop lo (Some hi) i out
      = between_loop lo (Some hi) (Suc i) (out @ [digit_at hi i])"
    by (subst between_loop.simps) (simp add: upper_at_def)
  also have "\<dots> = between_loop lo (Some hi) j
      ((out @ [digit_at hi i]) @ map (digit_at hi) [Suc i..<j])"
    by (rule Suc.hyps(1)) (use Suc \<open>i < j\<close> in auto)
  finally show ?case using \<open>i < j\<close> by (simp add: upt_conv_Cons)
qed simp

text \<open>At the first difference the loop returns: half way up, or one digit below with a tail.\<close>

lemma between_at_difference:
  assumes lo: "list_all (\<lambda>d. d < 62) lo" and hi: "list_all (\<lambda>d. d < 62) hi"
    and j: "j < length hi" "digit_at lo j < hi ! j"
  shows "\<exists>x t. between_loop lo (Some hi) j out = Some (Inr (out @ x # t)) \<and>
    digit_at lo j \<le> x \<and> x < hi ! j \<and> list_all (\<lambda>d. d < 62) (x # t) \<and> last (x # t) \<noteq> 0 \<and>
    (x = digit_at lo j \<longrightarrow> drop (Suc j) lo < t)"
proof -
  let ?l = "digit_at lo j" and ?h = "hi ! j"
  have h: "upper_at (Some hi) j = ?h" using j(1) by (simp add: upper_at_def digit_at_def)
  have "?h < 62" using hi j(1) by (simp add: list_all_length)
  show ?thesis
  proof (cases "2 \<le> ?h - ?l")
    case True
    then have "between_loop lo (Some hi) j out = Some (Inr (out @ [?l + (?h - ?l) div 2]))"
      using j(2) by (subst between_loop.simps) (simp add: h Let_def)
    with True \<open>?h < 62\<close> j(2) show ?thesis
      by (intro exI [of _ "?l + (?h - ?l) div 2"] exI [of _ "[]"]) auto
  next
    case False
    have "drop (min (j + 1) (length lo)) lo = drop (Suc j) lo" by (simp add: min_def)
    moreover have "list_all (\<lambda>d. d < 62) (drop (Suc j) lo)"
      using lo by (auto simp: list_all_iff dest: in_set_dropD)
    ultimately obtain t where t: "between_loop (drop (min (j + 1) (length lo)) lo) None 0 []
        = Some (Inr t)" "good_above (drop (Suc j) lo) t"
      using between_unbounded by metis
    have "between_loop lo (Some hi) j out = Some (Inr (out @ ?l # t))"
      using False j(2) t(1) by (subst between_loop.simps) (simp add: h Let_def)
    with t(2) j(2) \<open>?h < 62\<close> show ?thesis
      by (intro exI [of _ ?l] exI [of _ t]) (auto simp: good_above_def)
  qed
qed

lemma less_of_first_difference:
  assumes agree: "\<forall>k < j. digit_at lo k = hi ! k" and j: "j < length hi"
    and x: "digit_at lo j \<le> x" "x = digit_at lo j \<longrightarrow> drop (Suc j) lo < t"
  shows "lo < take j hi @ x # t"
proof (cases "j < length lo")
  case True
  then have "lo = take j hi @ lo ! j # drop (Suc j) lo"
    using take_of_agree [OF agree j] by (simp add: id_take_nth_drop)
  moreover have "take j hi @ lo ! j # drop (Suc j) lo < take j hi @ x # t"
    using x True by (auto simp: less_at digit_at_def)
  ultimately show ?thesis by simp
next
  case False
  have "take j hi = lo @ replicate (j - length lo) 0"
  proof (cases "length lo < j")
    case True
    then show ?thesis by (rule short_prefix [OF agree j])
  next
    case False
    with \<open>\<not> j < length lo\<close> show ?thesis using take_of_agree [OF agree j] by simp
  qed
  then show ?thesis using less_extend [of "replicate (j - length lo) 0 @ x # t" lo] by simp
qed

lemma between_strictly:
  assumes lo: "list_all (\<lambda>d. d < 62) lo" and hi: "list_all (\<lambda>d. d < 62) hi"
    and less: "lo < hi" and pad: "\<not> pads lo hi"
  shows "\<exists>r. between lo (Some hi) = Some (Inr r) \<and> good_above lo r \<and> r < hi"
proof -
  obtain j where j: "j < length hi" "digit_at lo j < hi ! j" "\<forall>k < j. digit_at lo k = hi ! k"
    using first_difference [OF less pad] by blast
  have pre: "map (digit_at hi) [0..<j] = take j hi"
    using j(1) by (auto intro!: nth_equalityI simp: digit_at_def)
  have "between lo (Some hi) = between_loop lo (Some hi) j (take j hi)"
    using between_skip [of j lo hi 0 "[]"] j by (simp add: between_def pre digit_at_def)
  moreover obtain x t where xt: "between_loop lo (Some hi) j (take j hi)
      = Some (Inr (take j hi @ x # t))" "digit_at lo j \<le> x" "x < hi ! j"
    "list_all (\<lambda>d. d < 62) (x # t)" "last (x # t) \<noteq> 0"
    "x = digit_at lo j \<longrightarrow> drop (Suc j) lo < t"
    using between_at_difference [OF lo hi j(1,2), of "take j hi"] by blast
  ultimately have "between lo (Some hi) = Some (Inr (take j hi @ x # t))" by simp
  moreover have "lo < take j hi @ x # t"
    by (rule less_of_first_difference [OF j(3,1) xt(2,6)])
  moreover have "take j hi @ x # t < hi"
    using xt(3) j(1) less_at [of "take j hi" x t "hi ! j" "drop (Suc j) hi"]
    by (simp add: id_take_nth_drop [symmetric])
  moreover have "list_all (\<lambda>d. d < 62) (take j hi)"
    using hi by (auto simp: list_all_iff dest: in_set_takeD)
  ultimately show ?thesis using xt(4,5) by (simp add: good_above_def)
qed

text \<open>The loop does not return where all digits from \<open>i\<close> on agree.\<close>

lemma between_loop_diverges:
  assumes "\<forall>k \<ge> i. digit_at lo k = digit_at hi k"
  shows "between_loop lo (Some hi) i out = None"
proof (cases "between_loop lo (Some hi) i out")
  case (Some r)
  have "\<not> (hi' = Some hi \<and> (\<forall>k \<ge> i. digit_at lo k = digit_at hi k))"
    if "between_loop lo hi' i out = Some r" for lo hi' i out r
  proof (rule between_loop.raw_induct [where
        P = "\<lambda>lo hi' i out r. \<not> (hi' = Some hi \<and> (\<forall>k \<ge> i. digit_at lo k = digit_at hi k))",
        OF _ that], goal_cases)
    case (1 f lo hi' i out r)
    show ?case
    proof
      assume a: "hi' = Some hi \<and> (\<forall>k \<ge> i. digit_at lo k = digit_at hi k)"
      then have "digit_at lo i = upper_at hi' i" by (simp add: upper_at_def)
      with 1(2) have "f lo hi' (Suc i) (out @ [digit_at lo i]) = Some r"
        by (simp add: Let_def)
      from 1(1) [OF this] a show False by simp
    qed
  qed
  from this [OF Some] assms show ?thesis by simp
qed simp

lemma pads_digits: "pads lo hi \<Longrightarrow> digit_at lo k = digit_at hi k"
  by (auto simp: pads_def digit_at_def nth_append)

section \<open>Keys\<close>

lemma encode_good:
  assumes "good_above lo r"
  shows "\<exists>k. encode_key r = Inr k \<and> minted_key k \<and> decode_key k = r \<and> in_alphabet k"
proof -
  let ?k = "map ((!) ALPHABET) r"
  have r: "list_all (\<lambda>d. d < 62) r" "r \<noteq> []" "last r \<noteq> 0" "last r < 62"
    using assms by (auto simp: good_above_def list_all_iff)
  have "ALPHABET ! 0 = CHR ''0''" by (simp add: ALPHABET_def)
  with r have "last ?k \<noteq> CHR ''0''" using alphabet_inj [of "last r" 0] by (simp add: last_map)
  moreover have "in_alphabet ?k"
    using r(1) by (auto simp: in_alphabet_def list_all_iff)
  ultimately show ?thesis using r decode_encode [OF r(1)]
    by (simp add: encode_key_def minted_key_def)
qed

definition zero_padded :: "string \<Rightarrow> string \<Rightarrow> bool" where
  "zero_padded a b = (\<exists>n. b = a @ replicate n (CHR ''0''))"

lemma decode_replicate: "decode_key (replicate n (CHR ''0'')) = replicate n 0"
  by (induction n) (simp_all add: decode_key_def ALPHABET_def)

lemma decode_append: "decode_key (a @ b) = decode_key a @ decode_key b"
  by (simp add: decode_key_def)

lemma zero_padded_pads:
  assumes "in_alphabet a" "in_alphabet b"
  shows "pads (decode_key a) (decode_key b) \<longleftrightarrow> zero_padded a b"
proof
  assume "pads (decode_key a) (decode_key b)"
  then obtain n where "decode_key b = decode_key (a @ replicate n (CHR ''0''))"
    by (auto simp: pads_def decode_append decode_replicate)
  moreover have "in_alphabet (a @ replicate n (CHR ''0''))"
    using assms(1) by (auto simp: in_alphabet_def list_all_iff)
  ultimately show "zero_padded a b" using encode_decode assms(2) by (metis zero_padded_def)
qed (auto simp: pads_def zero_padded_def decode_append decode_replicate)

lemma key_between_cases:
  assumes "in_alphabet a" "in_alphabet b" "a < b"
  shows "if zero_padded a b then key_between (Some a) (Some b) = None
    else \<exists>k. key_between (Some a) (Some b) = Some (Inr k) \<and> a < k \<and> k < b \<and> minted_key k"
proof -
  have less: "decode_key a < decode_key b" using assms by (simp add: decode_less)
  then have step: "key_between (Some a) (Some b) =
      Option.bind (between (decode_key a) (Some (decode_key b))) (\<lambda>r. Some (bind_res r encode_key))"
    by (simp add: key_between_def)
  show ?thesis
  proof (cases "zero_padded a b")
    case True
    then have "between (decode_key a) (Some (decode_key b)) = None"
      using between_loop_diverges pads_digits zero_padded_pads [OF assms(1,2)]
      by (simp add: between_def)
    with True step show ?thesis by simp
  next
    case False
    then obtain r where r: "between (decode_key a) (Some (decode_key b)) = Some (Inr r)"
      "good_above (decode_key a) r" "r < decode_key b"
      using between_strictly [OF decode_digits decode_digits less] zero_padded_pads [OF assms(1,2)]
      by blast
    from encode_good [OF r(2)] obtain k where k: "encode_key r = Inr k" "minted_key k"
      "decode_key k = r" "in_alphabet k" by blast
    have "a < k" using r(2) k(3,4) assms(1) by (simp add: good_above_def flip: decode_less)
    moreover have "k < b" using r(3) k(3,4) assms(2) by (simp flip: decode_less)
    ultimately show ?thesis using False step r(1) k(1,2) by simp
  qed
qed

text \<open>C35. Between two keys over the alphabet that are in order, the generator returns a key
  strictly between them that does not end in the least digit, unless the upper key is the lower
  one with least digits appended; then, and only then, it does not return.\<close>

theorem key_between_strict:
  assumes "in_alphabet a" "in_alphabet b" "a < b"
  shows "if zero_padded a b then key_between (Some a) (Some b) = None
    else \<exists>k. key_between (Some a) (Some b) = Some (Inr k) \<and> a < k \<and> k < b \<and> minted_key k"
  by (rule key_between_cases [OF assms])

theorem key_between_strict_witness:
  "(\<exists>k. key_between (Some ''V'') (Some ''W'') = Some (Inr k) \<and> ''V'' < k \<and> k < ''W'' \<and> minted_key k)
   \<and> key_between (Some ''V'') (Some ''V0'') = None"
proof -
  have "\<not> zero_padded ''V'' ''W''" by (auto simp: zero_padded_def Cons_eq_append_conv)
  moreover have "zero_padded ''V'' ''V0''"
    unfolding zero_padded_def by (rule exI [of _ 1]) simp
  ultimately show ?thesis
    using key_between_strict [of "''V''" "''W''"] key_between_strict [of "''V''" "''V0''"]
    by (simp add: in_alphabet_def ALPHABET_def less_char_def)
qed

text \<open>Appending: with no upper neighbour the generator always returns a key after the
  lower one, and with neither neighbour a stable middle key.\<close>

theorem key_between_append:
  assumes "in_alphabet a"
  shows "(\<exists>k. key_between (Some a) None = Some (Inr k) \<and> a < k \<and> minted_key k)
    \<and> key_between None None = Some (Inr ''V'')"
proof
  obtain r where r: "between (decode_key a) None = Some (Inr r)" "good_above (decode_key a) r"
    using between_unbounded [OF decode_digits] by (auto simp: between_def)
  from encode_good [OF r(2)] obtain k where k: "encode_key r = Inr k" "minted_key k"
    "decode_key k = r" "in_alphabet k" by blast
  have "a < k" using r(2) k(3,4) assms by (simp add: good_above_def flip: decode_less)
  then show "\<exists>k. key_between (Some a) None = Some (Inr k) \<and> a < k \<and> minted_key k"
    using r(1) k(1,2) by (simp add: key_between_def)
next
  show "key_between None None = Some (Inr ''V'')"
    by (simp add: key_between_def between_def between_loop.simps digit_at_def upper_at_def
        encode_key_def ALPHABET_def)
qed

theorem key_between_append_witness:
  "\<exists>k. key_between (Some ''zz'') None = Some (Inr k) \<and> ''zz'' < k \<and> minted_key k"
  using key_between_append [of "''zz''"] by (simp add: in_alphabet_def ALPHABET_def)

text \<open>Keys the generator has minted can always be split again: between any two minted keys
  in order it returns another minted key, so no sequence of insertions ever gets stuck.\<close>

theorem minted_keys_dense:
  assumes "minted_key a" "minted_key b" "a < b"
  shows "\<exists>k. key_between (Some a) (Some b) = Some (Inr k) \<and> a < k \<and> k < b \<and> minted_key k"
proof -
  have "\<not> zero_padded a b"
  proof
    assume "zero_padded a b"
    then obtain n where n: "b = a @ replicate n (CHR ''0'')" by (auto simp: zero_padded_def)
    with assms(3) have "n \<noteq> 0" by (cases n) auto
    with n assms(2) show False by (simp add: minted_key_def)
  qed
  with key_between_cases [of a b] assms show ?thesis by (simp add: minted_key_def)
qed

theorem minted_keys_dense_witness:
  "\<exists>k. key_between (Some ''V'') (Some ''V1'') = Some (Inr k) \<and> ''V'' < k \<and> k < ''V1'' \<and> minted_key k"
  using minted_keys_dense [of "''V''" "''V1''"]
  by (simp add: minted_key_def in_alphabet_def ALPHABET_def less_char_def)

end
