(* ===== verification/BusTopics.thy ===== *)
theory BusTopics
  imports OrdMap
begin

text \<open>
  The topic names of the bus (\<open>crates/platform/mde-bus/src/topic.rs\<close>), the MQTT wildcard
  matcher (\<open>wildcard.rs\<close>) and the seeding of the twelve curated topics (\<open>seed.rs\<close>).
  The matcher walks pattern and topic by index; it is proved equal to the inductive reading of
  the MQTT rules.  An accepted publish name is path safe and, used as a pattern, matches itself
  only.
\<close>

section \<open>Topics and their registry\<close>

datatype bus_priority = PMin | PDefault | PHigh | PUrgent

record topic =
  topic_name :: string
  description :: string
  priority_default :: bus_priority
  retention_s :: "u64 option"

datatype topic_error =
    TopicEmpty
  | WildcardInName string
  | TopicEmptySegment string
  | InvalidChar string
  | PathTraversal string
  | TooLong string nat

definition MAX_NAME_LEN :: nat where
  "MAX_NAME_LEN = 256"

definition ok_char :: "char \<Rightarrow> bool" where
  "ok_char c = (is_ascii_alnum c \<or> c = CHR ''-'' \<or> c = CHR ''_'' \<or> c = CHR ''.'' \<or> c = CHR ''/'')"

definition validate_publish_name :: "string \<Rightarrow> (topic_error, unit) result" where
  "validate_publish_name name =
     (if name = [] then Inl TopicEmpty
      else if length name > MAX_NAME_LEN then Inl (TooLong name MAX_NAME_LEN)
      else if CHR ''+'' \<in> set name \<or> CHR ''#'' \<in> set name then Inl (WildcardInName name)
      else if starts_with name ''/'' \<or> ends_with name ''/'' \<or> contains_str name ''//''
        then Inl (TopicEmptySegment name)
      else if (\<exists>seg \<in> set (split_on (CHR ''/'') name). seg = ''.'' \<or> seg = ''..'')
          \<or> contains_str name ''..''
        then Inl (PathTraversal name)
      else if \<not> list_all ok_char name then Inl (InvalidChar name)
      else Inr ())"

record registry =
  topics :: "(string, topic) omap"

definition registry_new :: registry where
  "registry_new = \<lparr>topics = om_empty\<rparr>"

definition create :: "registry \<Rightarrow> topic \<Rightarrow> (topic_error, registry \<times> bool) result" where
  "create reg t =
     bind_res (validate_publish_name (topic_name t)) (\<lambda>_.
       if om_get (topics reg) (topic_name t) \<noteq> None then Inr (reg, False)
       else Inr (reg\<lparr>topics := om_put (topic_name t) t (topics reg)\<rparr>, True))"

text \<open>The topic returned is looked up at the end; \<open>None\<close> would be the panic of its
  \<open>expect\<close>.\<close>

definition ensure_topic :: "registry \<Rightarrow> string \<Rightarrow> (topic_error, registry \<times> topic option) result"
where
  "ensure_topic reg name =
     bind_res (validate_publish_name name) (\<lambda>_.
       let reg' = (if om_get (topics reg) name = None
                   then reg\<lparr>topics := om_put name
                     \<lparr>topic_name = name, description = ''(auto-created on first publish)'',
                      priority_default = PDefault, retention_s = None\<rparr> (topics reg)\<rparr>
                   else reg)
       in Inr (reg', om_get (topics reg') name))"

definition registry_get :: "registry \<Rightarrow> string \<Rightarrow> topic option" where
  "registry_get reg name = om_get (topics reg) name"

definition registry_len :: "registry \<Rightarrow> nat" where
  "registry_len reg = length (topics reg)"

section \<open>The wildcard matcher\<close>

datatype pattern_error =
    PatternEmpty
  | HashNotLast string
  | PatternEmptySegment string
  | WildcardMixedWithLiteral string

fun check_segments :: "string \<Rightarrow> string list \<Rightarrow> (pattern_error, unit) result" where
  "check_segments pattern [] = Inr ()"
| "check_segments pattern (seg # rest) =
     (if seg = ''#'' then
        if rest \<noteq> [] then Inl (HashNotLast pattern) else check_segments pattern rest
      else if seg = ''+'' then check_segments pattern rest
      else if CHR ''+'' \<in> set seg \<or> CHR ''#'' \<in> set seg
        then Inl (WildcardMixedWithLiteral pattern)
      else check_segments pattern rest)"

definition validate_pattern :: "string \<Rightarrow> (pattern_error, unit) result" where
  "validate_pattern pattern =
     (if pattern = [] then Inl PatternEmpty
      else if starts_with pattern ''/'' \<or> ends_with pattern ''/'' \<or> contains_str pattern ''//''
        then Inl (PatternEmptySegment pattern)
      else check_segments pattern (split_on (CHR ''/'') pattern))"

function match_loop :: "string list \<Rightarrow> string list \<Rightarrow> nat \<Rightarrow> nat \<Rightarrow> bool" where
  "match_loop p t i j =
     (if i < length p then
        if p ! i = ''#'' then i + 1 = length p
        else if p ! i = ''+'' then
          if j \<ge> length t then False else match_loop p t (i + 1) (j + 1)
        else if j \<ge> length t \<or> t ! j \<noteq> p ! i then False
        else match_loop p t (i + 1) (j + 1)
      else j = length t)"
  by pat_completeness auto
termination by (relation "measure (\<lambda>(p, t, i, j). length p - i)") auto

declare match_loop.simps [simp del]

definition wild_matches :: "string \<Rightarrow> string \<Rightarrow> bool" where
  "wild_matches pattern topic =
     (if pattern = [] \<or> topic = [] then False
      else match_loop (split_on (CHR ''/'') pattern) (split_on (CHR ''/'') topic) 0 0)"

definition match_pattern :: "registry \<Rightarrow> string \<Rightarrow> topic list" where
  "match_pattern reg pattern =
     sort_key topic_name (filter (\<lambda>t. wild_matches pattern (topic_name t)) (om_values (topics reg)))"

text \<open>The rules of MQTT 3.1.1, on segments.\<close>

inductive mqtt :: "string list \<Rightarrow> string list \<Rightarrow> bool" where
  mqtt_end: "mqtt [] []"
| mqtt_hash: "mqtt [''#''] ts"
| mqtt_plus: "mqtt ps ts \<Longrightarrow> mqtt (''+'' # ps) (t # ts)"
| mqtt_literal: "p \<noteq> ''#'' \<Longrightarrow> p \<noteq> ''+'' \<Longrightarrow> mqtt ps ts \<Longrightarrow> mqtt (p # ps) (p # ts)"

inductive_simps mqtt_nil_iff: "mqtt [] ts"
inductive_simps mqtt_cons_iff: "mqtt (p # ps) ts"

lemma match_loop_mqtt:
  "i \<le> length p \<Longrightarrow> j \<le> length t \<Longrightarrow> match_loop p t i j \<longleftrightarrow> mqtt (drop i p) (drop j t)"
proof (induction p t i j rule: match_loop.induct)
  case (1 p t i j)
  show ?case
  proof (cases "i < length p")
    case False
    then show ?thesis using 1 by (subst match_loop.simps) (auto simp: mqtt_nil_iff)
  next
    case True
    then have p: "drop i p = p ! i # drop (Suc i) p" by (simp add: Cons_nth_drop_Suc)
    show ?thesis
    proof (cases "j < length t")
      case False
      with 1 True show ?thesis unfolding p
        by (subst match_loop.simps) (auto simp: mqtt_cons_iff)
    next
      case tl: True
      then have t: "drop j t = t ! j # drop (Suc j) t" by (simp add: Cons_nth_drop_Suc)
      show ?thesis
        using 1 True tl unfolding p t
        by (subst match_loop.simps) (auto simp: mqtt_cons_iff)
    qed
  qed
qed

lemma wild_matches_iff:
  "wild_matches pattern topic \<longleftrightarrow> pattern \<noteq> [] \<and> topic \<noteq> [] \<and>
     mqtt (split_on (CHR ''/'') pattern) (split_on (CHR ''/'') topic)"
  by (simp add: wild_matches_def match_loop_mqtt)


section \<open>Publish names\<close>

lemma contains_str_append: "contains_str s p \<longleftrightarrow> (\<exists>u v. s = u @ p @ v)"
proof (induction s)
  case hd: (Cons x xs)
  show ?case
  proof
    assume "contains_str (x # xs) p"
    then show "\<exists>u v. x # xs = u @ p @ v"
      using hd by (auto simp: prefix_def) (metis append_Cons append_Nil)+
  next
    assume "\<exists>u v. x # xs = u @ p @ v"
    then obtain u v where uv: "x # xs = u @ p @ v" by blast
    show "contains_str (x # xs) p"
    proof (cases u)
      case Nil
      with uv have "prefix p (x # xs)" by simp
      then show ?thesis by simp
    next
      case (Cons y us)
      with uv have "xs = us @ p @ v" by simp
      with hd.IH show ?thesis by auto
    qed
  qed
qed auto

lemma validate_publish_name_Inr:
  "validate_publish_name n = Inr u \<longleftrightarrow>
     n \<noteq> [] \<and> length n \<le> MAX_NAME_LEN \<and> CHR ''+'' \<notin> set n \<and> CHR ''#'' \<notin> set n \<and>
     \<not> starts_with n ''/'' \<and> \<not> ends_with n ''/'' \<and> \<not> contains_str n ''//'' \<and>
     \<not> (\<exists>seg \<in> set (split_on (CHR ''/'') n). seg = ''.'' \<or> seg = ''..'') \<and>
     \<not> contains_str n ''..'' \<and> list_all ok_char n"
  by (auto simp: validate_publish_name_def)

lemma empty_segment:
  assumes "[] \<in> set (split_on c n)"
  shows "n = [] \<or> prefix [c] n \<or> suffix [c] n \<or> contains_str n [c, c]"
proof -
  obtain us vs where sp: "split_on c n = us @ [] # vs" using assms by (meson split_list)
  have n: "n = join_with [c] (us @ [] # vs)" by (simp flip: sp)
  have join_append: "xs \<noteq> [] \<Longrightarrow> ys \<noteq> [] \<Longrightarrow> join_with [c] (xs @ ys) = join_with [c] xs @ c # join_with [c] ys"
    for xs ys
  proof (induction "[c]" xs rule: join_with.induct)
    case (2 s)
    then show ?case by (cases ys) auto
  qed auto
  show ?thesis
  proof (cases "us = []")
    case True
    then show ?thesis using n by (cases vs) auto
  next
    case us: False
    show ?thesis
    proof (cases "vs = []")
      case True
      then have "n = join_with [c] us @ [c]" using n us join_append [of us "[[]]"] by simp
      then show ?thesis by (simp add: suffix_def)
    next
      case False
      then have "n = join_with [c] us @ [c, c] @ join_with [c] vs"
        using n us join_append [of us "[] # vs"] by (cases vs) auto
      then show ?thesis using contains_str_append by blast
    qed
  qed
qed

lemma join_set: "seg \<in> set ss \<Longrightarrow> set seg \<subseteq> set (join_with sep ss)"
  by (induction sep ss rule: join_with.induct) auto

lemma segment_chars: "seg \<in> set (split_on c n) \<Longrightarrow> x \<in> set seg \<Longrightarrow> x \<in> set n"
  using join_set [of seg "split_on c n" "[c]"] by auto

text \<open>A publish name that is accepted is path safe: it is non-empty and bounded, and each of
  its segments is a non-empty file name, neither the current nor the parent directory, over
  letters, digits, dash, underscore and dot.\<close>

theorem publish_name_path_safe:
  assumes "validate_publish_name n = Inr ()"
    and "seg \<in> set (split_on (CHR ''/'') n)"
  shows "n \<noteq> [] \<and> length n \<le> 256 \<and> seg \<noteq> [] \<and> seg \<noteq> ''.'' \<and> seg \<noteq> ''..''
    \<and> list_all (\<lambda>c. is_ascii_alnum c \<or> c = CHR ''-'' \<or> c = CHR ''_'' \<or> c = CHR ''.'') seg"
proof -
  note v = assms(1) [unfolded validate_publish_name_Inr]
  have "seg \<noteq> []"
    using empty_segment [of "CHR ''/''" n] assms(2) v by (auto simp: starts_with_def ends_with_def)
  moreover have "ok_char c" "c \<noteq> CHR ''/''" if "c \<in> set seg" for c
    using v segment_chars [OF assms(2) that] split_on_segments [OF assms(2)] that
    by (auto simp: list_all_iff)
  ultimately show ?thesis
    using v assms(2) by (auto simp: MAX_NAME_LEN_def list_all_iff ok_char_def)
qed

theorem publish_name_path_safe_witness:
  "(\<forall>seg \<in> set (split_on (CHR ''/'') ''fleet/sec''). seg \<noteq> [])"
proof -
  have "validate_publish_name ''fleet/sec'' = Inr ()"
    by (simp add: validate_publish_name_Inr MAX_NAME_LEN_def starts_with_def ends_with_def
        ok_char_def is_ascii_alnum_def is_ascii_alpha_def is_ascii_digit_def less_eq_char_def suffix_def
        Cons_eq_append_conv)
  then show ?thesis using publish_name_path_safe [of "''fleet/sec''"] by blast
qed

lemma mqtt_literal_only:
  "(\<And>p. p \<in> set ps \<Longrightarrow> p \<noteq> ''#'' \<and> p \<noteq> ''+'') \<Longrightarrow> mqtt ps ts \<longleftrightarrow> ts = ps"
  by (induction ps arbitrary: ts) (auto simp: mqtt_nil_iff mqtt_cons_iff)

lemma publish_name_no_wildcards:
  assumes "validate_publish_name n = Inr ()" "seg \<in> set (split_on (CHR ''/'') n)"
  shows "seg \<noteq> ''#'' \<and> seg \<noteq> ''+''"
proof -
  have "CHR ''+'' \<notin> set n" "CHR ''#'' \<notin> set n"
    using assms(1) by (simp_all add: validate_publish_name_Inr)
  with segment_chars [OF assms(2)] show ?thesis by (metis list.set_intros(1))
qed

text \<open>Wildcards are subscription-side only: an accepted publish name, read as a pattern, is
  well formed and matches exactly itself.\<close>

theorem publish_name_matches_itself_only:
  assumes "validate_publish_name n = Inr ()"
  shows "validate_pattern n = Inr () \<and> (wild_matches n t \<longleftrightarrow> t = n)"
proof
  have "check_segments q ss = Inr ()" if "\<And>s. s \<in> set ss \<Longrightarrow> CHR ''+'' \<notin> set s \<and> CHR ''#'' \<notin> set s"
    for q ss
    using that by (induction ss) (fastforce split: if_splits)+
  then show "validate_pattern n = Inr ()"
    using assms segment_chars [of _ "CHR ''/''" n]
    by (auto simp: validate_pattern_def validate_publish_name_Inr)
next
  have "n \<noteq> []" using assms by (simp add: validate_publish_name_Inr)
  then show "wild_matches n t \<longleftrightarrow> t = n"
    using mqtt_literal_only [of "split_on (CHR ''/'') n" "split_on (CHR ''/'') t"]
      publish_name_no_wildcards [OF assms]
    by (cases "t = []") (auto simp: wild_matches_iff dest: split_on_inj)
qed

end
