(* ===== verification/BusSeed.thy ===== *)
theory BusSeed
  imports BusTopics
begin

text \<open>
  The topic registry under its operations and the idempotent first-run seed
  (\<open>crates/platform/mde-bus/src/seed.rs\<close> over \<open>topic.rs\<close>).
\<close>

section \<open>The seed\<close>

record curated_topic =
  name_template :: string
  cur_description :: string
  cur_priority :: bus_priority
  cur_retention :: "u64 option"

definition HOSTNAME_FALLBACK :: string where
  "HOSTNAME_FALLBACK = ''self''"

text \<open>The UTF-8 bytes of the dash in the descriptions.\<close>

definition em_dash :: string where
  "em_dash = map char_of [226, 128, 148 :: nat]"

definition curated :: "string \<Rightarrow> string \<Rightarrow> bus_priority \<Rightarrow> curated_topic" where
  "curated n d p =
     \<lparr>name_template = n, cur_description = d, cur_priority = p, cur_retention = None\<rparr>"

definition CURATED :: "curated_topic list" where
  "CURATED =
    [curated ''fleet/announce'' ''Mesh-wide operator announcements.'' PDefault,
     curated ''fleet/sec'' (''Security events '' @ em_dash @
       '' passcode rotation, enrolment, signed-CSR transitions.'') PHigh,
     curated ''peer/$hostname/alerts'' ''Per-peer alert lane (local mackesd publishes here).'' PHigh,
     curated ''peer/$hostname/system''
       ''Per-peer system events from mded (boot, shutdown, reload).'' PDefault,
     curated ''mon/cpu'' (''Netdata aggregator '' @ em_dash @
       '' CPU threshold breaches (BUS-4.3 dual-write).'') PHigh,
     curated ''mon/memory'' (''Netdata aggregator '' @ em_dash @ '' RAM threshold breaches.'') PHigh,
     curated ''mon/disk'' (''Netdata aggregator '' @ em_dash @
       '' disk + mesh-storage quota breaches.'') PHigh,
     curated ''mon/network'' (''Netdata aggregator '' @ em_dash @
       '' bandwidth + Nebula link state.'') PDefault,
     curated ''mesh/peers''
       ''Peer up/down events from mackesd::workers::health_reconciler.'' PDefault,
     curated ''mesh/leader'' (''QNM-Shared lockfile transitions '' @ em_dash @
       '' leader-election changes.'') PDefault,
     curated ''fdo/system'' (''FDO desktop notifications from mded '' @ em_dash @
       '' system tray, daemon health.'') PDefault,
     curated ''clipboard/sync'' ''Global clipboard payloads from the clipboard_sync worker + KDC phone clip bridge (BUS-5).'' PMin]"

text \<open>\<open>str::replace\<close>: every occurrence, left to right, not overlapping.\<close>

function replace_str :: "string \<Rightarrow> string \<Rightarrow> string \<Rightarrow> string" where
  "replace_str pat rep s =
     (case s of [] \<Rightarrow> []
      | c # t \<Rightarrow> if pat \<noteq> [] \<and> prefix pat s then rep @ replace_str pat rep (drop (length pat) s)
                else c # replace_str pat rep t)"
  by pat_completeness auto
termination
  by (relation "measure (\<lambda>(pat, rep, s). length s)") (auto simp: neq_Nil_conv)

declare replace_str.simps [simp del]

definition topic_of :: "string \<Rightarrow> curated_topic \<Rightarrow> topic" where
  "topic_of hostname c =
     \<lparr>topic_name = replace_str ''$hostname'' hostname (name_template c),
      description = cur_description c, priority_default = cur_priority c,
      retention_s = cur_retention c\<rparr>"

fun seed_loop :: "string \<Rightarrow> curated_topic list \<Rightarrow> registry \<Rightarrow> nat
    \<Rightarrow> (topic_error, registry \<times> nat) result" where
  "seed_loop hostname [] reg created = Inr (reg, created)"
| "seed_loop hostname (c # cs) reg created =
     bind_res (create reg (topic_of hostname c)) (\<lambda>(reg', fresh).
       seed_loop hostname cs reg' (if fresh then created + 1 else created))"

definition seed_defaults_with_hostname ::
  "registry \<Rightarrow> string \<Rightarrow> (topic_error, registry \<times> nat) result" where
  "seed_defaults_with_hostname reg hostname = seed_loop hostname CURATED reg 0"

section \<open>The invariant of the registry\<close>

text \<open>Sorted by name, every entry filed under its own name, every name a legal one.\<close>

definition registry_inv :: "registry \<Rightarrow> bool" where
  "registry_inv reg =
     (om_wf (topics reg) \<and>
      (\<forall>k t. om_get (topics reg) k = Some t \<longrightarrow>
         topic_name t = k \<and> validate_publish_name k = Inr ()))"

lemma registry_inv_new: "registry_inv registry_new"
  by (simp add: registry_inv_def registry_new_def)

lemma create_Inr:
  "create reg t = Inr (reg', fresh) \<longleftrightarrow> validate_publish_name (topic_name t) = Inr () \<and>
     (if om_get (topics reg) (topic_name t) \<noteq> None then reg' = reg \<and> \<not> fresh
      else reg' = reg\<lparr>topics := om_put (topic_name t) t (topics reg)\<rparr> \<and> fresh)"
  by (auto simp: create_def result_simps split: if_splits)

lemma registry_inv_create: "registry_inv reg \<Longrightarrow> create reg t = Inr (reg', b) \<Longrightarrow> registry_inv reg'"
  by (auto simp: registry_inv_def create_Inr om_get_put om_wf_put split: if_splits)

lemma registry_inv_ensure:
  "registry_inv reg \<Longrightarrow> ensure_topic reg n = Inr (reg', t) \<Longrightarrow> registry_inv reg'"
  by (auto simp: registry_inv_def ensure_topic_def result_simps om_get_put om_wf_put Let_def
      split: if_splits)

lemma seed_loop_step:
  "seed_loop h (c # cs) reg n = Inr (reg', m) \<longleftrightarrow>
     (\<exists>r b. create reg (topic_of h c) = Inr (r, b) \<and>
        seed_loop h cs r (if b then n + 1 else n) = Inr (reg', m))"
  by (auto simp: result_simps)

lemma registry_inv_seed_loop:
  "registry_inv reg \<Longrightarrow> seed_loop h cs reg n = Inr (reg', m) \<Longrightarrow> registry_inv reg'"
  by (induction cs arbitrary: reg n) (auto simp: seed_loop_step simp del: seed_loop.simps(2)
      dest: registry_inv_create)

text \<open>The registry invariant holds of the empty registry and every operation keeps it:
  creating, auto-creating on first publish and seeding; the topic that auto-creation hands back
  is always present, under the requested name.\<close>

theorem registry_operations_keep_invariant:
  "registry_inv registry_new
   \<and> (registry_inv reg \<longrightarrow> create reg t = Inr (reg1, b) \<longrightarrow> registry_inv reg1)
   \<and> (registry_inv reg \<longrightarrow> seed_defaults_with_hostname reg h = Inr (reg2, n) \<longrightarrow> registry_inv reg2)
   \<and> (registry_inv reg \<longrightarrow> ensure_topic reg name = Inr (reg3, r) \<longrightarrow>
        registry_inv reg3 \<and> (\<exists>t. r = Some t \<and> topic_name t = name))"
proof (intro conjI impI)
  assume "registry_inv reg" "ensure_topic reg name = Inr (reg3, r)"
  then show "\<exists>t. r = Some t \<and> topic_name t = name"
    by (auto simp: registry_inv_def ensure_topic_def result_simps om_get_put Let_def
        split: if_splits)
qed (auto simp: registry_inv_new seed_defaults_with_hostname_def
    dest: registry_inv_create registry_inv_seed_loop registry_inv_ensure)

definition mon_topic :: topic where
  "mon_topic = \<lparr>topic_name = ''mon'', description = [], priority_default = PHigh, retention_s = None\<rparr>"

theorem registry_operations_keep_invariant_witness:
  "create registry_new mon_topic = Inr (\<lparr>topics = [(''mon'', mon_topic)]\<rparr>, True)
   \<and> registry_inv \<lparr>topics = [(''mon'', mon_topic)]\<rparr>"
proof -
  have c: "create registry_new mon_topic = Inr (\<lparr>topics = [(''mon'', mon_topic)]\<rparr>, True)"
    by code_simp
  show ?thesis
    using c registry_operations_keep_invariant [of registry_new mon_topic
        "\<lparr>topics = [(''mon'', mon_topic)]\<rparr>" True] by simp
qed

section \<open>Idempotence of the seed\<close>

lemma create_present:
  "create reg t = Inr (reg', b) \<Longrightarrow> om_get (topics reg') (topic_name t) \<noteq> None"
  by (auto simp: create_Inr om_get_put split: if_splits)

lemma create_keeps:
  "create reg t = Inr (reg', b) \<Longrightarrow> om_get (topics reg) k = Some u \<Longrightarrow> om_get (topics reg') k = Some u"
  by (auto simp: create_Inr om_get_put split: if_splits)

lemma seed_loop_keeps:
  "seed_loop h cs reg n = Inr (reg', m) \<Longrightarrow> om_get (topics reg) k = Some u \<Longrightarrow>
     om_get (topics reg') k = Some u"
  by (induction cs arbitrary: reg n) (auto simp: seed_loop_step simp del: seed_loop.simps(2)
      dest: create_keeps)

lemma seed_loop_present:
  "seed_loop h cs reg n = Inr (reg', m) \<Longrightarrow> c \<in> set cs \<Longrightarrow>
     validate_publish_name (topic_name (topic_of h c)) = Inr () \<and>
     om_get (topics reg') (topic_name (topic_of h c)) \<noteq> None"
proof (induction cs arbitrary: reg n)
  case (Cons d cs)
  then obtain r b where r: "create reg (topic_of h d) = Inr (r, b)"
    "seed_loop h cs r (if b then n + 1 else n) = Inr (reg', m)"
    by (auto simp: seed_loop_step simp del: seed_loop.simps(2))
  show ?case
  proof (cases "c \<in> set cs")
    case True
    with Cons.IH r(2) show ?thesis by blast
  next
    case False
    with Cons.prems have "c = d" by simp
    with r create_present [OF r(1)] seed_loop_keeps [OF r(2)] show ?thesis
      by (auto simp: create_Inr)
  qed
qed simp

lemma seed_loop_noop:
  "(\<And>c. c \<in> set cs \<Longrightarrow> validate_publish_name (topic_name (topic_of h c)) = Inr () \<and>
      om_get (topics reg) (topic_name (topic_of h c)) \<noteq> None) \<Longrightarrow>
    seed_loop h cs reg n = Inr (reg, n)"
  by (induction cs) (auto simp: create_def)

text \<open>The second launch is a no-op: whenever seeding succeeds, seeding the result again
  creates nothing and leaves the registry as it is, and no topic that was there before is
  changed.\<close>

theorem seed_idempotent:
  assumes "seed_defaults_with_hostname reg h = Inr (reg', n)"
  shows "seed_defaults_with_hostname reg' h = Inr (reg', 0)
    \<and> (\<forall>k t. registry_get reg k = Some t \<longrightarrow> registry_get reg' k = Some t)"
  using assms seed_loop_present [of h CURATED reg 0 reg' n] seed_loop_keeps [of h CURATED reg 0 reg' n]
  by (auto simp: seed_defaults_with_hostname_def registry_get_def intro!: seed_loop_noop)

theorem seed_idempotent_witness:
  "\<exists>reg. seed_defaults_with_hostname registry_new HOSTNAME_FALLBACK = Inr (reg, 12)
     \<and> seed_defaults_with_hostname reg HOSTNAME_FALLBACK = Inr (reg, 0)"
proof -
  have "(case seed_defaults_with_hostname registry_new ''self'' of Inl _ \<Rightarrow> False | Inr (_, n) \<Rightarrow> n = 12)"
    by code_simp
  then obtain reg where reg: "seed_defaults_with_hostname registry_new ''self'' = Inr (reg, 12)"
    by (auto split: sum.splits)
  with seed_idempotent [OF reg] show ?thesis by (auto simp: HOSTNAME_FALLBACK_def)
qed

text \<open>A pattern query returns exactly the registered topics whose names match, each once, in
  ascending order of name.\<close>

theorem match_pattern_exact:
  assumes "registry_inv reg"
  shows "(t \<in> set (match_pattern reg p) \<longleftrightarrow>
      registry_get reg (topic_name t) = Some t \<and> wild_matches p (topic_name t))
    \<and> sorted (map topic_name (match_pattern reg p)) \<and> distinct (match_pattern reg p)"
proof -
  have wf: "om_wf (topics reg)" and names: "\<And>k t. om_get (topics reg) k = Some t \<Longrightarrow> topic_name t = k"
    using assms by (auto simp: registry_inv_def)
  have entry: "topic_name (snd p) = fst p \<and> om_get (topics reg) (fst p) = Some (snd p)"
    if "p \<in> set (topics reg)" for p
    using om_get_mem [OF wf, of "fst p" "snd p"] names that by simp
  have mem: "t \<in> set (om_values (topics reg)) \<longleftrightarrow> om_get (topics reg) (topic_name t) = Some t" for t
  proof
    assume "t \<in> set (om_values (topics reg))"
    then show "om_get (topics reg) (topic_name t) = Some t" using entry by (auto simp: om_values_def)
  next
    assume "om_get (topics reg) (topic_name t) = Some t"
    then have "(topic_name t, t) \<in> set (topics reg)" by (auto simp: om_get_def dest: map_of_SomeD)
    then show "t \<in> set (om_values (topics reg))" by (force simp: om_values_def)
  qed
  have "map topic_name (om_values (topics reg)) = om_keys (topics reg)"
    using entry by (simp add: om_values_def om_keys_def)
  then have "distinct (om_values (topics reg))"
    using om_wf_distinct [OF wf] by (metis distinct_map)
  with mem show ?thesis by (auto simp: match_pattern_def registry_get_def)
qed

theorem match_pattern_exact_witness: "match_pattern registry_new ''#'' = []"
  using match_pattern_exact [OF registry_inv_new, of _ "''#''"]
  by (auto simp: match_pattern_def registry_new_def om_values_def om_empty_def)

end
