(* ===== verification/BusDelivery.thy ===== *)
theory BusDelivery
  imports BusTopics
begin

text \<open>
  What is delivered and when: the subscription manifest and its quiet hours
  (\<open>crates/platform/mde-bus/src/subs.rs\<close>), and the do-not-disturb state with its fleet-wide
  snoozes, the per-topic quiet windows and the watcher of the shared file
  (\<open>crates/platform/mde-bus/src/dnd.rs\<close>).  Milliseconds since the epoch (\<open>i64\<close>) are
  only compared, so they are integers here; times of day keep their machine width.
\<close>

unbundle bit_operations_syntax

section \<open>The subscription manifest\<close>

record quiet_hours =
  qh_start :: string
  qh_end :: string

record subs_manifest =
  sub_topics :: "string list"
  mute :: "string list"
  quiet :: "quiet_hours option"

definition subs_default :: subs_manifest where
  "subs_default = \<lparr>sub_topics = [''#''], mute = [], quiet = None\<rparr>"

text \<open>The YAML library is a parameter of the parser: \<open>yaml\<close> is \<open>serde_yaml::from_str\<close>
  on this type.\<close>

definition subs_parse_yaml ::
  "(string \<Rightarrow> ('e, subs_manifest) result) \<Rightarrow> string \<Rightarrow> ('e, subs_manifest) result" where
  "subs_parse_yaml yaml body =
     (let trimmed = trim body in if trimmed = [] then Inr subs_default else yaml trimmed)"

definition is_subscribed :: "subs_manifest \<Rightarrow> string \<Rightarrow> bool" where
  "is_subscribed m t = list_ex (\<lambda>p. wild_matches p t) (sub_topics m)"

definition is_muted :: "subs_manifest \<Rightarrow> string \<Rightarrow> bool" where
  "is_muted m t = list_ex (\<lambda>p. wild_matches p t) (mute m)"

text \<open>\<open>parse_hhmm\<close> of \<open>subs.rs\<close>: minutes since midnight.\<close>

definition parse_hhmm_min :: "string \<Rightarrow> u16 option" where
  "parse_hhmm_min s =
     (case split_once (CHR '':'') s of
        None \<Rightarrow> None
      | Some (h_str, m_str) \<Rightarrow>
          (case parse_word h_str of
             None \<Rightarrow> None
           | Some h \<Rightarrow>
               (case parse_word m_str of
                  None \<Rightarrow> None
                | Some m \<Rightarrow> if h \<ge> 24 \<or> m \<ge> 60 then None else Some (h * 60 + m))))"

definition is_within_quiet_hours :: "subs_manifest \<Rightarrow> string \<Rightarrow> bool" where
  "is_within_quiet_hours m now_hhmm =
     (case quiet m of
        None \<Rightarrow> False
      | Some qh \<Rightarrow>
          (case (parse_hhmm_min now_hhmm, parse_hhmm_min (qh_start qh), parse_hhmm_min (qh_end qh)) of
             (Some now, Some start, Some stop) \<Rightarrow>
               if start \<le> stop then now \<ge> start \<and> now < stop
               else now \<ge> start \<or> now < stop
           | _ \<Rightarrow> False))"

definition should_deliver :: "subs_manifest \<Rightarrow> string \<Rightarrow> string \<Rightarrow> bool" where
  "should_deliver m t now_hhmm =
     (if \<not> is_subscribed m t \<or> is_muted m t then False
      else \<not> is_within_quiet_hours m now_hhmm)"

section \<open>Do not disturb\<close>

record topic_snooze =
  sn_topic :: string
  until_unix_ms :: int
  sn_set_by :: string

record dnd_state =
  active :: bool
  since_unix_ms :: int
  set_by_peer :: string
  snoozes :: "topic_snooze list"

definition dnd_default :: dnd_state where
  "dnd_default = \<lparr>active = False, since_unix_ms = 0, set_by_peer = [], snoozes = []\<rparr>"

definition is_snoozed :: "topic_snooze list \<Rightarrow> string \<Rightarrow> int \<Rightarrow> bool" where
  "is_snoozed sn t now =
     list_ex (\<lambda>s. until_unix_ms s > now \<and> wild_matches (sn_topic s) t) sn"

definition prune_expired_snoozes :: "topic_snooze list \<Rightarrow> int \<Rightarrow> topic_snooze list" where
  "prune_expired_snoozes sn now = filter (\<lambda>s. until_unix_ms s > now) sn"

text \<open>The number is an \<open>i64\<close>: it must be below \<open>2 ^ 63\<close>, and so must the product.\<close>

definition checked_mul_i64 :: "int \<Rightarrow> int \<Rightarrow> int option" where
  "checked_mul_i64 a b = (if - (2 ^ 63) \<le> a * b \<and> a * b < 2 ^ 63 then Some (a * b) else None)"

definition unit_seconds :: "string \<Rightarrow> int option" where
  "unit_seconds u =
     (if u = ''s'' then Some 1 else if u = ''m'' then Some 60
      else if u = ''h'' then Some 3600 else if u = ''d'' then Some 86400 else None)"

definition parse_duration_secs :: "string \<Rightarrow> int option" where
  "parse_duration_secs s0 =
     (let s = trim s0 in
      if s = [] then None
      else if list_all is_ascii_digit s then None
      else
        let num = takeWhile is_ascii_digit s; unit = dropWhile is_ascii_digit s in
        if num = [] then None
        else (case parse_nat_below (2 ^ 63) num of
                None \<Rightarrow> None
              | Some n \<Rightarrow>
                  (case unit_seconds unit of
                     None \<Rightarrow> None
                   | Some mul \<Rightarrow> checked_mul_i64 (int n) mul)))"

record topic_quiet_hours =
  quiet_after :: "u32 option"
  quiet_until :: "u32 option"

definition is_quiet_hour :: "u32 \<Rightarrow> topic_quiet_hours \<Rightarrow> bool" where
  "is_quiet_hour now hours =
     (case (quiet_after hours, quiet_until hours) of
        (Some after, Some until) \<Rightarrow>
          if after = until then False
          else if after < until then now \<ge> after \<and> now < until
          else now \<ge> after \<or> now < until
      | _ \<Rightarrow> False)"

definition is_suppressed :: "dnd_state \<Rightarrow> topic_quiet_hours \<Rightarrow> string list \<Rightarrow> u32 \<Rightarrow> bool" where
  "is_suppressed st hours tags now =
     (if ''override=dnd'' \<in> set tags then False
      else if active st then True
      else is_quiet_hour now hours)"

text \<open>\<open>parse_hhmm\<close> of \<open>dnd.rs\<close>: seconds since midnight.\<close>

definition parse_hhmm_sec :: "string \<Rightarrow> u32 option" where
  "parse_hhmm_sec s =
     (case split_once (CHR '':'') s of
        None \<Rightarrow> None
      | Some (h_str, m_str) \<Rightarrow>
          (case parse_word h_str of
             None \<Rightarrow> None
           | Some h \<Rightarrow>
               (case parse_word m_str of
                  None \<Rightarrow> None
                | Some m \<Rightarrow> if h \<ge> 24 \<or> m \<ge> 60 then None else Some (h * 3600 + m * 60))))"

section \<open>The watcher of the shared file\<close>

datatype dnd_tick_outcome = FileMissing | Idle | Reloaded | Unchanged | ReadOrParseFailed

record dnd_watcher =
  tx :: dnd_state
  last_mtime :: "int option"

text \<open>What one tick finds on disk: whether the file exists, its modification time where the
  metadata can be read, and its contents read and parsed (\<open>None\<close> where either fails).\<close>

record file_view =
  fv_exists :: bool
  fv_mtime :: "int option"
  fv_parsed :: "dnd_state option"

definition watcher_new :: "file_view \<Rightarrow> dnd_watcher" where
  "watcher_new fv =
     \<lparr>tx = (case fv_parsed fv of Some st \<Rightarrow> st | None \<Rightarrow> dnd_default), last_mtime = None\<rparr>"

definition tick_once :: "file_view \<Rightarrow> dnd_watcher \<Rightarrow> dnd_watcher \<times> dnd_tick_outcome" where
  "tick_once fv w =
     (if \<not> fv_exists fv then (w, FileMissing)
      else (case fv_mtime fv of
              None \<Rightarrow> (w, Idle)
            | Some now \<Rightarrow>
                let advanced = (case last_mtime w of None \<Rightarrow> True | Some seen \<Rightarrow> now > seen);
                    w' = w\<lparr>last_mtime := Some now\<rparr>
                in if \<not> advanced then (w', Idle)
                   else (case fv_parsed fv of
                           None \<Rightarrow> (w', ReadOrParseFailed)
                         | Some parsed \<Rightarrow>
                             if tx w' \<noteq> parsed then (w'\<lparr>tx := parsed\<rparr>, Reloaded)
                             else (w', Unchanged))))"

section \<open>Times of day and windows\<close>

text \<open>Both parsers of \<open>HH:MM\<close> on the natural numbers.\<close>

definition hhmm_nat :: "string \<Rightarrow> (nat \<times> nat) option" where
  "hhmm_nat s =
     (case split_once (CHR '':'') s of
        None \<Rightarrow> None
      | Some (h_str, m_str) \<Rightarrow>
          (case (parse_nat_below 24 h_str, parse_nat_below 60 m_str) of
             (Some h, Some m) \<Rightarrow> Some (h, m)
           | _ \<Rightarrow> None))"

lemma hhmm_nat_bound: "hhmm_nat s = Some (h, m) \<Longrightarrow> h < 24 \<and> m < 60"
  by (auto simp: hhmm_nat_def dest: parse_nat_below_bound split: option.splits)

lemma parse_word_below:
  assumes "unat (k::'a::len word) = b"
  shows "parse_nat_below b s = (case parse_word s :: 'a word option of
     Some w \<Rightarrow> if w \<ge> k then None else Some (unat w) | None \<Rightarrow> None)"
proof -
  have "b < 2 ^ LENGTH('a)" using unsigned_less [of k, where 'a=nat] by (simp add: assms)
  then have "b \<le> 2 ^ LENGTH('a)" by simp
  note m = parse_nat_below_mono [OF this, of s]
  show ?thesis
  proof (cases "parse_word s :: 'a word option")
    case None
    then have "parse_nat_below (2 ^ LENGTH('a)) s = None" by (simp add: parse_word_def)
    with m None show ?thesis by simp
  next
    case (Some w)
    then have "parse_nat_below (2 ^ LENGTH('a)) s = Some (unat w)" by (simp add: parse_word_Some)
    with m Some assms show ?thesis by (auto simp: word_le_nat_alt)
  qed
qed

lemma parse_hhmm_min_nat:
  "map_option unat (parse_hhmm_min s) = map_option (\<lambda>(h, m). h * 60 + m) (hhmm_nat s)"
proof -
  have "unat (h * 60 + m) = unat h * 60 + unat m" if "h < 24" "m < 60" for h m :: u16
    using that by (simp add: word_less_nat_alt unat_word_ariths)
  then show ?thesis
    by (auto simp: parse_hhmm_min_def hhmm_nat_def parse_word_below [of "24::u16"]
        parse_word_below [of "60::u16"] not_le split: option.splits)
qed

lemma parse_hhmm_sec_nat:
  "map_option unat (parse_hhmm_sec s) = map_option (\<lambda>(h, m). h * 3600 + m * 60) (hhmm_nat s)"
proof -
  have "unat (h * 3600 + m * 60) = unat h * 3600 + unat m * 60" if "h < 24" "m < 60" for h m :: u32
    using that by (simp add: word_less_nat_alt unat_word_ariths)
  then show ?thesis
    by (auto simp: parse_hhmm_sec_def hhmm_nat_def parse_word_below [of "24::u32"]
        parse_word_below [of "60::u32"] not_le split: option.splits)
qed

lemma parse_hhmm_min_bound: "parse_hhmm_min s = Some v \<Longrightarrow> uint v < 1440"
proof -
  assume "parse_hhmm_min s = Some v"
  then obtain h m where "hhmm_nat s = Some (h, m)" "unat v = h * 60 + m"
    using parse_hhmm_min_nat [of s] by (cases "hhmm_nat s") auto
  then have "unat v < 1440" using hhmm_nat_bound [of s h m] by simp
  then have "int (unat v) < int 1440" by (rule iffD2 [OF of_nat_less_iff])
  also have "int (unat v) = uint v" by simp
  finally show ?thesis by simp
qed

text \<open>The two files parse a time of day alike: the parser of the do-not-disturb state accepts
  exactly the texts the subscription parser accepts, and returns sixty times its minutes; every
  accepted text is an hour below 24 and a minute below 60.\<close>

theorem hhmm_parsers_agree:
  "map_option unat (parse_hhmm_sec s) = map_option (\<lambda>m. 60 * unat m) (parse_hhmm_min s)
   \<and> pred_option (\<lambda>m. unat m < 1440) (parse_hhmm_min s)"
proof (cases "hhmm_nat s")
  case None
  then show ?thesis using parse_hhmm_min_nat [of s] parse_hhmm_sec_nat [of s] by simp
next
  case (Some p)
  obtain h m where p: "p = (h, m)" by (cases p)
  obtain v w where v: "parse_hhmm_min s = Some v" "unat v = h * 60 + m"
    and w: "parse_hhmm_sec s = Some w" "unat w = h * 3600 + m * 60"
    using parse_hhmm_min_nat [of s] parse_hhmm_sec_nat [of s] by (auto simp: Some p)
  have "unat v < 1440" using hhmm_nat_bound [of s h m] v(2) by (simp add: Some p)
  with v w show ?thesis by simp
qed

text \<open>A window that may wrap is the set of the times whose distance from its start is below its
  length, on the circle of \<open>d\<close> times.\<close>

lemma circular_window:
  fixes n a b d :: int
  assumes "0 \<le> n" "n < d" "0 \<le> a" "a < d" "0 \<le> b" "b < d"
  shows "(if a \<le> b then a \<le> n \<and> n < b else a \<le> n \<or> n < b) \<longleftrightarrow> (n - a) mod d < (b - a) mod d"
proof -
  have "(x - y) mod d = (if y \<le> x then x - y else x - y + d)" if "0 \<le> x" "x < d" "0 \<le> y" "y < d" for x y
  proof (cases "y \<le> x")
    case False
    have "(x - y) mod d = (x - y + d) mod d" by simp
    also have "\<dots> = x - y + d" using that False by (intro mod_pos_pos_trivial) auto
    finally show ?thesis using False by simp
  qed (use that in auto)
  with assms show ?thesis by simp
qed

definition in_circle :: "int \<Rightarrow> 'a::len word \<Rightarrow> 'a word \<Rightarrow> 'a word \<Rightarrow> bool" where
  "in_circle d n a b = ((uint n - uint a) mod d < (uint b - uint a) mod d)"

lemma in_circle_window:
  "uint n < d \<Longrightarrow> uint a < d \<Longrightarrow> uint b < d \<Longrightarrow>
     in_circle d n a b \<longleftrightarrow> (if a \<le> b then a \<le> n \<and> n < b else a \<le> n \<or> n < b)"
  using circular_window [of "uint n" d "uint a" "uint b"]
  unfolding in_circle_def word_le_def word_less_def by (cases "uint a \<le> uint b") auto

text \<open>The MQTT reading of a pattern on a topic, neither of them empty.\<close>

definition mqtt_match :: "string \<Rightarrow> string \<Rightarrow> bool" where
  "mqtt_match p t = (p \<noteq> [] \<and> t \<noteq> [] \<and> mqtt (split_on (CHR ''/'') p) (split_on (CHR ''/'') t))"

lemma wild_any: "list_ex (\<lambda>p. wild_matches p t) ps \<longleftrightarrow> list_ex (\<lambda>p. mqtt_match p t) ps"
  by (simp add: list_ex_iff wild_matches_iff mqtt_match_def)

lemma within_quiet_hours_arc:
  "is_within_quiet_hours m now \<longleftrightarrow>
     (\<exists>qh n a b. quiet m = Some qh \<and> parse_hhmm_min now = Some n \<and>
          parse_hhmm_min (qh_start qh) = Some a \<and> parse_hhmm_min (qh_end qh) = Some b \<and>
          in_circle 1440 n a b)"
proof (cases "quiet m")
  case (Some qh)
  show ?thesis
  proof (cases "parse_hhmm_min now = None \<or> parse_hhmm_min (qh_start qh) = None \<or>
      parse_hhmm_min (qh_end qh) = None")
    case False
    then obtain n a b where *: "parse_hhmm_min now = Some n" "parse_hhmm_min (qh_start qh) = Some a"
      "parse_hhmm_min (qh_end qh) = Some b" by auto
    then have "in_circle 1440 n a b \<longleftrightarrow> (if a \<le> b then a \<le> n \<and> n < b else a \<le> n \<or> n < b)"
      by (intro in_circle_window parse_hhmm_min_bound)
    with * Some show ?thesis by (simp add: is_within_quiet_hours_def)
  qed (auto simp: Some is_within_quiet_hours_def split: option.splits)
qed (simp add: is_within_quiet_hours_def)

text \<open>A topic is delivered at a time exactly when, by the MQTT rules, it matches a subscription
  pattern and no mute pattern, and the time is outside the quiet window read as an arc of the
  24-hour circle from its start to its end, whether or not it wraps midnight.  Where one of the
  three times does not parse, or no window is set, the clock never holds a message back.\<close>

theorem delivery_decision:
  "should_deliver m t now \<longleftrightarrow>
     list_ex (\<lambda>p. mqtt_match p t) (sub_topics m) \<and>
     \<not> list_ex (\<lambda>p. mqtt_match p t) (mute m) \<and>
     \<not> (\<exists>qh n a b. quiet m = Some qh \<and> parse_hhmm_min now = Some n \<and>
          parse_hhmm_min (qh_start qh) = Some a \<and> parse_hhmm_min (qh_end qh) = Some b \<and>
          in_circle 1440 n a b)"
  by (simp add: should_deliver_def is_subscribed_def is_muted_def wild_any
      within_quiet_hours_arc)

text \<open>A message is kept off the display surfaces exactly when it does not carry the
  override tag and do-not-disturb is on or the second of the day lies on the arc from
  the topic's opening to its closing time.\<close>

theorem suppression_decision:
  assumes "uint now < 86400"
    and "\<forall>x \<in> set_option (quiet_after h) \<union> set_option (quiet_until h). uint x < 86400"
  shows "is_suppressed st h tags now \<longleftrightarrow>
     ''override=dnd'' \<notin> set tags \<and>
     (active st \<or> (\<exists>a b. quiet_after h = Some a \<and> quiet_until h = Some b \<and> in_circle 86400 now a b))"
proof -
  have "is_quiet_hour now h \<longleftrightarrow>
      (\<exists>a b. quiet_after h = Some a \<and> quiet_until h = Some b \<and> in_circle 86400 now a b)"
    using assms by (auto simp: is_quiet_hour_def in_circle_window split: option.splits)
  then show ?thesis by (simp add: is_suppressed_def)
qed

theorem suppression_decision_witness:
  "is_suppressed dnd_default \<lparr>quiet_after = Some 79200, quiet_until = Some 25200\<rparr> [''x''] 100"
  using suppression_decision [of 100 "\<lparr>quiet_after = Some 79200, quiet_until = Some 25200\<rparr>"
      dnd_default "[''x'']"]
  by (simp add: dnd_default_def in_circle_def)

section \<open>Snoozes\<close>

text \<open>Tidying the list of snoozes on a write is cosmetic: the pruned list silences the same
  topics at that time and at every later time, and pruning again later is one pruning.  A topic
  that is not silenced stays so, as time goes on, until a snooze is added.\<close>

theorem prune_is_cosmetic:
  assumes "now \<le> later"
  shows "is_snoozed (prune_expired_snoozes sn now) t later = is_snoozed sn t later
    \<and> prune_expired_snoozes (prune_expired_snoozes sn now) later = prune_expired_snoozes sn later
    \<and> (is_snoozed sn t later \<longrightarrow> is_snoozed sn t now)"
proof -
  have "filter (\<lambda>s. until_unix_ms s > later) (filter (\<lambda>s. until_unix_ms s > now) sn)
      = filter (\<lambda>s. until_unix_ms s > later) sn"
    using assms by (auto intro!: filter_cong)
  moreover have "is_snoozed sn t later \<Longrightarrow> is_snoozed sn t now"
    using assms by (force simp: is_snoozed_def list_ex_iff)
  ultimately show ?thesis
    using assms by (auto simp: is_snoozed_def prune_expired_snoozes_def list_ex_iff)
qed

theorem prune_is_cosmetic_witness:
  "let sn = [\<lparr>sn_topic = ''mon/+'', until_unix_ms = 50, sn_set_by = ''a''\<rparr>] in
     is_snoozed (prune_expired_snoozes sn 10) ''mon/cpu'' 20
     \<and> \<not> is_snoozed sn ''mon/cpu'' 50"
proof -
  have "is_snoozed [\<lparr>sn_topic = ''mon/+'', until_unix_ms = 50, sn_set_by = ''a''\<rparr>] ''mon/cpu'' 20"
    "\<not> is_snoozed [\<lparr>sn_topic = ''mon/+'', until_unix_ms = 50, sn_set_by = ''a''\<rparr>] ''mon/cpu'' 50"
    by code_simp+
  then show ?thesis
    using prune_is_cosmetic [of 10 20 "[\<lparr>sn_topic = ''mon/+'', until_unix_ms = 50, sn_set_by = ''a''\<rparr>]"
        "''mon/cpu''"] by (simp add: Let_def)
qed

section \<open>Durations\<close>

lemma digits_no_plus: "s \<noteq> [] \<Longrightarrow> list_all is_ascii_digit s \<Longrightarrow>
    parse_nat_below m s = (if digits_val s < m then Some (digits_val s) else None)"
  by (cases s) (auto simp: parse_nat_below_def is_ascii_digit_of_char)

lemma unit_not_digits: "unit_seconds u = Some k \<Longrightarrow>
    u \<noteq> [] \<and> \<not> is_ascii_digit (hd u) \<and> 1 \<le> k \<and> k \<le> 86400"
  by (auto simp: unit_seconds_def is_ascii_digit_of_char split: if_splits)

text \<open>The duration parser accepts exactly the texts that, trimmed, are a decimal number
  directly followed by one of the units s, m, h and d and whose number of seconds is below
  \<open>2 ^ 63\<close>, and returns that number: it never wraps and never returns a negative duration.\<close>

theorem parse_duration_exact:
  "parse_duration_secs s = Some v \<longleftrightarrow>
     (\<exists>num u k. trim s = num @ u \<and> num \<noteq> [] \<and> list_all is_ascii_digit num
        \<and> unit_seconds u = Some k \<and> v = int (digits_val num) * k \<and> v < 2 ^ 63)"
proof
  let ?t = "trim s"
  assume a: "parse_duration_secs s = Some v"
  define num where "num = takeWhile is_ascii_digit ?t"
  define u where "u = dropWhile is_ascii_digit ?t"
  have t: "?t = num @ u" "list_all is_ascii_digit num"
    by (auto simp: num_def u_def list_all_iff dest: set_takeWhileD)
  from a obtain n k where n: "num \<noteq> []" "parse_nat_below (2 ^ 63) num = Some n"
    "unit_seconds u = Some k" "checked_mul_i64 (int n) k = Some v"
    by (auto simp: parse_duration_secs_def Let_def num_def u_def split: if_splits option.splits)
  with t have "n = digits_val num" by (simp add: digits_no_plus split: if_splits)
  with n have "v = int (digits_val num) * k \<and> v < 2 ^ 63"
    by (auto simp: checked_mul_i64_def split: if_splits)
  with t n show "\<exists>num u k. ?t = num @ u \<and> num \<noteq> [] \<and> list_all is_ascii_digit num
        \<and> unit_seconds u = Some k \<and> v = int (digits_val num) * k \<and> v < 2 ^ 63" by blast
next
  assume "\<exists>num u k. trim s = num @ u \<and> num \<noteq> [] \<and> list_all is_ascii_digit num
        \<and> unit_seconds u = Some k \<and> v = int (digits_val num) * k \<and> v < 2 ^ 63"
  then obtain num u k where t: "trim s = num @ u" "num \<noteq> []" "list_all is_ascii_digit num"
    "unit_seconds u = Some k" "v = int (digits_val num) * k" "v < 2 ^ 63" by blast
  note u = unit_not_digits [OF t(4)]
  then obtain c w where w: "u = c # w" "\<not> is_ascii_digit c" by (cases u) auto
  have tk: "takeWhile is_ascii_digit (trim s) = num" "dropWhile is_ascii_digit (trim s) = u"
    using t(3) w by (auto simp: t(1) list_all_iff takeWhile_append dropWhile_append)
  have "int (digits_val num) * 1 \<le> int (digits_val num) * k"
    using u by (intro mult_left_mono) auto
  with t(5,6) have "digits_val num < 2 ^ 63" by simp
  then have "parse_nat_below (2 ^ 63) num = Some (digits_val num)"
    using t(2,3) by (simp add: digits_no_plus)
  moreover have "0 \<le> v" using u by (simp add: t(5))
  moreover have "- (2 ^ 63) \<le> int (digits_val num) * k" using u by (simp add: order_trans [of _ 0])
  moreover have nd: "trim s \<noteq> []" "\<not> list_all is_ascii_digit (trim s)" using t(1) w by auto
  ultimately show "parse_duration_secs s = Some v"
    using t(2-6) nd
    unfolding parse_duration_secs_def Let_def tk by (simp add: checked_mul_i64_def)
qed

section \<open>The watcher\<close>

text \<open>A tick publishes a new state only as the parsed contents of a version newer than the
  last it looked at, and reports it as reloaded exactly when it differs; on every other outcome
  the last good state is kept.  A version whose read or parse failed is not looked at again: until
  the modification time moves, no later tick changes the state, whatever the file then holds.\<close>

theorem watcher_tick_contract:
  assumes "tick_once fv w = (w', out)"
  shows "(out = Reloaded \<longleftrightarrow> tx w' \<noteq> tx w)
    \<and> (tx w' \<noteq> tx w \<longrightarrow> fv_exists fv \<and> fv_parsed fv = Some (tx w') \<and>
         (\<exists>m. fv_mtime fv = Some m \<and> pred_option (\<lambda>l. l < m) (last_mtime w)))
    \<and> (out = ReadOrParseFailed \<longrightarrow> (\<forall>fv2. fv_mtime fv2 = fv_mtime fv \<longrightarrow> fst (tick_once fv2 w') = w'))"
  using assms by (auto simp: tick_once_def Let_def split: if_splits option.splits)

theorem watcher_tick_contract_witness:
  "let w = watcher_new \<lparr>fv_exists = False, fv_mtime = None, fv_parsed = None\<rparr>;
       bad = \<lparr>fv_exists = True, fv_mtime = Some 7, fv_parsed = None\<rparr>;
       good = \<lparr>fv_exists = True, fv_mtime = Some 7, fv_parsed = Some (dnd_default\<lparr>active := True\<rparr>)\<rparr>
   in snd (tick_once bad w) = ReadOrParseFailed
      \<and> fst (tick_once good (fst (tick_once bad w))) = fst (tick_once bad w)"
proof -
  let ?w = "watcher_new \<lparr>fv_exists = False, fv_mtime = None, fv_parsed = None\<rparr>"
  let ?bad = "\<lparr>fv_exists = True, fv_mtime = Some 7, fv_parsed = None\<rparr>"
  have t: "tick_once ?bad ?w = (?w\<lparr>last_mtime := Some 7\<rparr>, ReadOrParseFailed)"
    by (simp add: tick_once_def watcher_new_def)
  show ?thesis
    using watcher_tick_contract [OF t] t by (simp add: Let_def)
qed

end
