(* ===== verification/BusCorrelate.thy ===== *)
theory BusCorrelate
  imports BusTopics
begin

text \<open>
  The cross-topic correlation engine (\<open>crates/platform/mde-bus/src/correlate.rs\<close>): the
  configuration check, the window of last observations, one rule's evaluation and the stateful
  polling pass with its cursors, its cycle protection and its cooldown.  The message index that a
  pass reads (\<open>Persist::list_since\<close>, an SQL query) is a parameter.  Times are milliseconds
  since the epoch, compared and subtracted far inside the \<open>i64\<close> range.
\<close>

section \<open>Rules and the configuration check\<close>

record correlate_rule =
  rule_name :: string
  sources :: "string list"
  window_seconds :: u32
  emits :: string
  rule_priority :: bus_priority

type_synonym correlate_config = "correlate_rule list"

record validation_issue =
  vi_index :: "nat option"
  vi_name :: string
  vi_message :: string

text \<open>The messages quote the duplicated name and its indices in the debug format, which is
  presentation only; the model keeps the fixed part.\<close>

definition rule_issues :: "nat \<Rightarrow> correlate_rule \<Rightarrow> validation_issue list" where
  "rule_issues i r =
     (let issue = (\<lambda>m. \<lparr>vi_index = Some i, vi_name = rule_name r, vi_message = m\<rparr>) in
      (if rule_name r = [] then [issue ''rule.name is empty''] else []) @
      (if sources r = [] then [issue ''rule.sources is empty (rule can never fire)''] else []) @
      (if emits r = []
       then [issue ''rule.emits is empty (synthesized topic would be the empty string)''] else []) @
      (if window_seconds r = 0
       then [issue ''rule.window_seconds is 0 (requires all sources in the same millisecond)'']
       else []))"

definition names_seen :: "correlate_config \<Rightarrow> (string, nat list) omap" where
  "names_seen cfg =
     foldl (\<lambda>seen (i, r). if rule_name r \<noteq> [] then om_upd [] (\<lambda>v. v @ [i]) (rule_name r) seen else seen)
       om_empty (enumerate 0 cfg)"

definition validate_config :: "correlate_config \<Rightarrow> validation_issue list" where
  "validate_config cfg =
     concat (map (\<lambda>(i, r). rule_issues i r) (enumerate 0 cfg)) @
     concat (map (\<lambda>(name, indices).
         if length indices > 1
         then [\<lparr>vi_index = None, vi_name = name, vi_message = ''duplicate rule name''\<rparr>] else [])
       (names_seen cfg))"

section \<open>The window\<close>

type_synonym sliding_window = "(string, int) omap"

definition window_observe :: "string \<Rightarrow> int \<Rightarrow> sliding_window \<Rightarrow> sliding_window" where
  "window_observe t now w = om_put t now w"

definition last_seen :: "sliding_window \<Rightarrow> string \<Rightarrow> int option" where
  "last_seen w t = om_get w t"

record emission =
  em_rule :: string
  em_topic :: string
  em_priority :: bus_priority

definition window_ms :: "correlate_rule \<Rightarrow> int" where
  "window_ms r = uint (window_seconds r) * 1000"

fun sources_fired :: "sliding_window \<Rightarrow> int \<Rightarrow> string list \<Rightarrow> bool" where
  "sources_fired w cutoff [] = True"
| "sources_fired w cutoff (src # ss) =
     (case last_seen w src of
        Some ts \<Rightarrow> if ts \<ge> cutoff then sources_fired w cutoff ss else False
      | None \<Rightarrow> False)"

definition evaluate_rule :: "correlate_rule \<Rightarrow> sliding_window \<Rightarrow> int \<Rightarrow> emission option" where
  "evaluate_rule r w now =
     (if sources r = [] then None
      else if sources_fired w (now - window_ms r) (sources r)
        then Some \<lparr>em_rule = rule_name r, em_topic = emits r, em_priority = rule_priority r\<rparr>
      else None)"

section \<open>The evaluator\<close>

definition SYNTH_TITLE_PREFIX :: string where
  "SYNTH_TITLE_PREFIX = ''[correlate] ''"

fun priority_arg :: "bus_priority \<Rightarrow> string" where
  "priority_arg PMin = ''min''"
| "priority_arg PDefault = ''default''"
| "priority_arg PHigh = ''high''"
| "priority_arg PUrgent = ''urgent''"

definition is_synth_marker_title :: "string option \<Rightarrow> bool" where
  "is_synth_marker_title title =
     (case title of None \<Rightarrow> False | Some t \<Rightarrow> starts_with t SYNTH_TITLE_PREFIX)"

definition synth_marker_title :: "string \<Rightarrow> string" where
  "synth_marker_title n = SYNTH_TITLE_PREFIX @ n"

text \<open>The fields of a stored message that the engine reads.\<close>

record stored_message =
  ulid :: string
  msg_topic :: string
  title :: "string option"
  ts_unix_ms :: int

type_synonym 'e index = "string \<Rightarrow> string option \<Rightarrow> ('e, stored_message list) result"

record evaluator =
  config :: correlate_config
  window :: sliding_window
  last_fired :: "(string, int) omap"
  cursors :: "(string, string) omap"

definition evaluator_new :: "correlate_config \<Rightarrow> evaluator" where
  "evaluator_new cfg = \<lparr>config = cfg, window = om_empty, last_fired = om_empty, cursors = om_empty\<rparr>"

definition is_idle :: "evaluator \<Rightarrow> bool" where
  "is_idle ev = (config ev = [])"

text \<open>The set of the sources of all rules, iterated in order.\<close>

definition source_topics :: "correlate_config \<Rightarrow> string list" where
  "source_topics cfg = sort (remdups (concat (map sources cfg)))"

definition consume_msg :: "string \<Rightarrow> stored_message \<Rightarrow> evaluator \<Rightarrow> evaluator" where
  "consume_msg t m ev =
     (let ev' = ev\<lparr>cursors := om_put t (ulid m) (cursors ev)\<rparr> in
      if is_synth_marker_title (title m) then ev'
      else ev'\<lparr>window := window_observe (msg_topic m) (ts_unix_ms m) (window ev')\<rparr>)"

definition consume_topic :: "'e index \<Rightarrow> string \<Rightarrow> evaluator \<Rightarrow> evaluator" where
  "consume_topic list_since t ev =
     (case list_since t (om_get (cursors ev) t) of
        Inl e \<Rightarrow> ev
      | Inr new_msgs \<Rightarrow> fold (consume_msg t) new_msgs ev)"

definition consume_all :: "'e index \<Rightarrow> evaluator \<Rightarrow> evaluator" where
  "consume_all list_since ev = fold (consume_topic list_since) (source_topics (config ev)) ev"

fun fire_rules :: "correlate_rule list \<Rightarrow> sliding_window \<Rightarrow> int \<Rightarrow> (string, int) omap
    \<Rightarrow> (string, int) omap \<times> emission list" where
  "fire_rules [] w now lf = (lf, [])"
| "fire_rules (r # rs) w now lf =
     (case evaluate_rule r w now of
        None \<Rightarrow> fire_rules rs w now lf
      | Some em \<Rightarrow>
          (if (case om_get lf (rule_name r) of Some t \<Rightarrow> now - t < window_ms r | None \<Rightarrow> False)
           then fire_rules rs w now lf
           else
             let (lf', ems) = fire_rules rs w now (om_put (rule_name r) now lf)
             in (lf', em # ems)))"

definition poll_once :: "'e index \<Rightarrow> int \<Rightarrow> evaluator \<Rightarrow> evaluator \<times> emission list" where
  "poll_once list_since now ev =
     (let ev' = consume_all list_since ev;
          (lf, ems) = fire_rules (config ev') (window ev') now (last_fired ev')
      in (ev'\<lparr>last_fired := lf\<rparr>, ems))"

text \<open>A run of passes: each with the index as it then is and the clock as it then reads; the
  trace pairs every clock reading with its emissions.\<close>

fun run_polls :: "('e index \<times> int) list \<Rightarrow> evaluator \<Rightarrow> (int \<times> emission list) list" where
  "run_polls [] ev = []"
| "run_polls ((ls, now) # ps) ev =
     (let (ev', ems) = poll_once ls now ev in (now, ems) # run_polls ps ev')"

section \<open>Evaluation\<close>

lemma sources_fired_iff:
  "sources_fired w c ss \<longleftrightarrow> (\<forall>s \<in> set ss. \<exists>ts. last_seen w s = Some ts \<and> c \<le> ts)"
  by (induction ss) (auto split: option.splits)

lemma consume_topic_keeps:
  "config (consume_topic ls t ev) = config ev \<and> last_fired (consume_topic ls t ev) = last_fired ev"
proof -
  have "config (fold (consume_msg t) ms ev) = config ev \<and>
      last_fired (fold (consume_msg t) ms ev) = last_fired ev" for ms
    by (induction ms arbitrary: ev) (auto simp: consume_msg_def Let_def)
  then show ?thesis by (auto simp: consume_topic_def split: sum.splits)
qed

lemma consume_all_keeps [simp]:
  "config (consume_all ls ev) = config ev" "last_fired (consume_all ls ev) = last_fired ev"
proof -
  have "config (fold (consume_topic ls) ts ev) = config ev \<and>
      last_fired (fold (consume_topic ls) ts ev) = last_fired ev" for ts
    by (induction ts arbitrary: ev) (auto simp: consume_topic_keeps)
  then show "config (consume_all ls ev) = config ev" "last_fired (consume_all ls ev) = last_fired ev"
    by (auto simp: consume_all_def)
qed

lemma fire_rules_other:
  "fire_rules rs w now lf = (lf', ems) \<Longrightarrow> n \<notin> rule_name ` set rs \<Longrightarrow>
     om_get lf' n = om_get lf n \<and> n \<notin> em_rule ` set ems"
  by (induction rs arbitrary: lf lf' ems)
    (fastforce simp: om_get_put evaluate_rule_def Let_def split: option.splits if_splits prod.splits)+

text \<open>A rule fires exactly when it has sources and every one of them was last seen no earlier
  than its window before now; the emission carries the rule's name, topic and priority.\<close>

theorem rule_fires_iff:
  "evaluate_rule r w now = Some em \<longleftrightarrow>
     sources r \<noteq> [] \<and> (\<forall>s \<in> set (sources r). \<exists>ts. last_seen w s = Some ts \<and> now - ts \<le> window_ms r)
     \<and> em = \<lparr>em_rule = rule_name r, em_topic = emits r, em_priority = rule_priority r\<rparr>"
  by (auto simp: evaluate_rule_def sources_fired_iff algebra_simps)

definition outage_rule :: correlate_rule where
  "outage_rule = \<lparr>rule_name = ''outage'', sources = [''grid'', ''wan''], window_seconds = 60,
     emits = ''incident'', rule_priority = PHigh\<rparr>"

definition outage_window :: sliding_window where
  "outage_window = window_observe ''wan'' 61000 (window_observe ''grid'' 1000 om_empty)"

theorem rule_fires_iff_witness:
  "evaluate_rule outage_rule outage_window 61000 \<noteq> None \<and> evaluate_rule outage_rule outage_window 61001 = None"
proof -
  have s: "last_seen outage_window ''grid'' = Some 1000" "last_seen outage_window ''wan'' = Some 61000"
    by (simp_all add: outage_window_def window_observe_def last_seen_def om_get_put)
  have "evaluate_rule outage_rule outage_window 61000 =
      Some \<lparr>em_rule = ''outage'', em_topic = ''incident'', em_priority = PHigh\<rparr>"
    by (subst rule_fires_iff) (simp add: outage_rule_def window_ms_def s [unfolded outage_window_def]
        outage_window_def)
  moreover have "evaluate_rule outage_rule outage_window 61001 = None"
    by code_simp
  ultimately show ?thesis by simp
qed

section \<open>The configuration check\<close>

definition name_indices :: "string \<Rightarrow> (nat \<times> correlate_rule) list \<Rightarrow> nat list" where
  "name_indices n irs = map fst (filter (\<lambda>(i, r). rule_name r = n) irs)"

lemma names_seen_fold:
  fixes irs :: "(nat \<times> correlate_rule) list"
  defines "step \<equiv> \<lambda>seen (i, r). if rule_name r \<noteq> [] then om_upd [] (\<lambda>v. v @ [i]) (rule_name r) seen else seen"
  shows "om_wf m \<Longrightarrow> om_wf (foldl step m irs) \<and>
    (om_get (foldl step m irs) n = (if n = [] \<or> name_indices n irs = [] then om_get m n
       else Some ((case om_get m n of None \<Rightarrow> [] | Some v \<Rightarrow> v) @ name_indices n irs)))"
proof (induction irs arbitrary: m)
  case (Cons p irs)
  obtain i r where p: "p = (i, r)" by (cases p)
  have "om_wf (step m p)" using Cons.prems by (simp add: step_def p om_upd_eq om.wf_upd)
  from Cons.IH [OF this] show ?case
    by (auto simp: step_def p name_indices_def om_upd_eq om.get_upd split: option.splits)
qed (simp add: name_indices_def)

lemma names_seen_get:
  "om_wf (names_seen cfg) \<and> (om_get (names_seen cfg) n =
     (if n = [] \<or> name_indices n (enumerate 0 cfg) = [] then None
      else Some (name_indices n (enumerate 0 cfg))))"
  using names_seen_fold [of om_empty "enumerate 0 cfg" n] by (simp add: names_seen_def)

lemma length_name_indices:
  "length (name_indices n (enumerate k cfg)) = count_list (map rule_name cfg) n"
  by (induction cfg arbitrary: k) (auto simp: name_indices_def)

lemma distinct_count_list: "distinct xs \<longleftrightarrow> (\<forall>x. count_list xs x \<le> 1)"
proof (induction xs)
  case (Cons y xs)
  have "(\<forall>x. count_list (y # xs) x \<le> 1) \<longleftrightarrow> count_list xs y = 0 \<and> (\<forall>x. count_list xs x \<le> 1)"
    (is "?l \<longleftrightarrow> ?r")
  proof
    assume l: ?l
    from l have "count_list (y # xs) y \<le> 1" by blast
    then have "count_list xs y = 0" by simp
    moreover have "count_list xs x \<le> 1" for x
      using l [THEN spec, of x] by (simp split: if_splits)
    ultimately show ?r by blast
  qed simp
  with Cons show ?case by (simp add: count_list_0_iff)
qed simp

lemma rule_issues_Nil:
  "rule_issues i r = [] \<longleftrightarrow> rule_name r \<noteq> [] \<and> sources r \<noteq> [] \<and> emits r \<noteq> [] \<and> window_seconds r \<noteq> 0"
  by (simp add: rule_issues_def Let_def)

lemma all_rule_issues_Nil:
  "concat (map (\<lambda>(i, r). rule_issues i r) (enumerate k cfg)) = [] \<longleftrightarrow>
     (\<forall>r \<in> set cfg. rule_name r \<noteq> [] \<and> sources r \<noteq> [] \<and> emits r \<noteq> [] \<and> window_seconds r \<noteq> 0)"
proof (induction cfg arbitrary: k)
  case (Cons r cfg)
  from Cons.IH [of "Suc k"] show ?case by (simp add: rule_issues_Nil)
qed simp

lemma validate_config_Nil:
  "validate_config cfg = [] \<longleftrightarrow>
     (\<forall>r \<in> set cfg. rule_name r \<noteq> [] \<and> sources r \<noteq> [] \<and> emits r \<noteq> [] \<and> window_seconds r \<noteq> 0)
     \<and> distinct (map rule_name cfg)"
proof -
  have 1: "concat (map (\<lambda>(i, r). rule_issues i r) (enumerate 0 cfg)) = [] \<longleftrightarrow>
      (\<forall>r \<in> set cfg. rule_name r \<noteq> [] \<and> sources r \<noteq> [] \<and> emits r \<noteq> [] \<and> window_seconds r \<noteq> 0)"
    by (rule all_rule_issues_Nil)
  have 2: "concat (map (\<lambda>(name, indices).
         if length indices > 1
         then [\<lparr>vi_index = None, vi_name = name, vi_message = ''duplicate rule name''\<rparr>] else [])
       (names_seen cfg)) = [] \<longleftrightarrow> (\<forall>n. n \<noteq> [] \<longrightarrow> count_list (map rule_name cfg) n \<le> 1)"
    (is "?l \<longleftrightarrow> ?r")
  proof
    assume l: ?l
    show ?r
    proof (intro allI impI)
      fix n :: string
      assume n: "n \<noteq> []"
      show "count_list (map rule_name cfg) n \<le> 1"
      proof (rule ccontr)
        assume "\<not> count_list (map rule_name cfg) n \<le> 1"
        then have "1 < length (name_indices n (enumerate 0 cfg))" by (simp add: length_name_indices)
        moreover from this have "(n, name_indices n (enumerate 0 cfg)) \<in> set (names_seen cfg)"
          using names_seen_get [of cfg n] n
          by (intro map_of_SomeD) (auto simp: om_get_def)
        ultimately show False using l by fastforce
      qed
    qed
  next
    assume r: ?r
    have "length v \<le> 1" if "(n, v) \<in> set (names_seen cfg)" for n v
      using om_get_mem [OF _ that] names_seen_get [of cfg n] r length_name_indices [of n 0 cfg]
      by (auto split: if_splits)
    then show ?l by fastforce
  qed
  show ?thesis
    unfolding validate_config_def append_is_Nil_conv 1 2 distinct_count_list
    by (auto simp: count_list_0_iff) (metis (no_types, lifting) count_notin imageE image_set le0)
qed

text \<open>The configuration check reports nothing exactly when every rule has a name, a source, a
  topic and a window, and no two rules share a name.\<close>

theorem clean_config_iff:
  "validate_config cfg = [] \<longleftrightarrow>
     (\<forall>r \<in> set cfg. rule_name r \<noteq> [] \<and> sources r \<noteq> [] \<and> emits r \<noteq> [] \<and> window_seconds r \<noteq> 0)
     \<and> distinct (map rule_name cfg)"
  by (rule validate_config_Nil)

theorem clean_config_iff_witness:
  "validate_config [outage_rule] = [] \<and> validate_config [outage_rule, outage_rule] \<noteq> []"
  unfolding clean_config_iff by (simp add: outage_rule_def)

section \<open>The cooldown\<close>

lemma fire_rules_name:
  "fire_rules rs w now lf = (lf', ems) \<Longrightarrow> distinct (map rule_name rs) \<Longrightarrow> r \<in> set rs \<Longrightarrow>
     (if rule_name r \<in> em_rule ` set ems
      then om_get lf' (rule_name r) = Some now \<and>
        (\<forall>t. om_get lf (rule_name r) = Some t \<longrightarrow> window_ms r \<le> now - t)
      else om_get lf' (rule_name r) = om_get lf (rule_name r))"
proof (induction rs arbitrary: lf lf' ems)
  case (Cons q rs)
  show ?case
  proof (cases "evaluate_rule q w now = None \<or>
      (case om_get lf (rule_name q) of Some t \<Rightarrow> now - t < window_ms q | None \<Rightarrow> False)")
    case True
    then have q: "fire_rules rs w now lf = (lf', ems)"
      using Cons.prems(1) by (auto split: option.splits if_splits)
    show ?thesis
    proof (cases "r = q")
      case True
      then have "rule_name r \<notin> rule_name ` set rs" using Cons.prems(2) by simp
      with fire_rules_other [OF q] show ?thesis by auto
    next
      case False
      with Cons.IH [OF q] Cons.prems show ?thesis by simp
    qed
  next
    case False
    then obtain em where em: "evaluate_rule q w now = Some em" by auto
    then have n: "em_rule em = rule_name q" by (auto simp: evaluate_rule_def split: if_splits)
    obtain ems' where rest: "fire_rules rs w now (om_put (rule_name q) now lf) = (lf', ems')"
      and ems: "ems = em # ems'"
      using Cons.prems(1) False em by (auto split: option.splits prod.splits if_splits)
    show ?thesis
    proof (cases "r = q")
      case True
      then have "rule_name r \<notin> rule_name ` set rs" using Cons.prems(2) by simp
      with fire_rules_other [OF rest] have "om_get lf' (rule_name r) = Some now"
        using True by (simp add: om_get_put)
      with False True em n show ?thesis by (auto simp: ems split: option.splits)
    next
      case ne: False
      then have r: "r \<in> set rs" "rule_name r \<noteq> rule_name q" using Cons.prems(2,3) by (auto simp: image_iff)
      with Cons.IH [OF rest] Cons.prems(2) n show ?thesis by (auto simp: ems om_get_put)
    qed
  qed
qed simp

lemma fire_rules_subset:
  "fire_rules rs w now lf = (lf', ems) \<Longrightarrow> em_rule ` set ems \<subseteq> rule_name ` set rs"
  using fire_rules_other by fastforce

lemma fire_rules_distinct:
  "fire_rules rs w now lf = (lf', ems) \<Longrightarrow> distinct (map rule_name rs) \<Longrightarrow> distinct (map em_rule ems)"
proof (induction rs arbitrary: lf lf' ems)
  case (Cons q rs)
  show ?case
  proof (cases "fire_rules rs w now lf = (lf', ems)")
    case True
    with Cons show ?thesis by simp
  next
    case False
    with Cons.prems(1) obtain em ems' where em: "evaluate_rule q w now = Some em"
      and rest: "fire_rules rs w now (om_put (rule_name q) now lf) = (lf', ems')" "ems = em # ems'"
      by (auto split: option.splits if_splits prod.splits)
    have "em_rule em = rule_name q" using em by (auto simp: evaluate_rule_def split: if_splits)
    with Cons.IH [OF rest(1)] Cons.prems(2) fire_rules_subset [OF rest(1)] show ?thesis
      by (auto simp: rest(2))
  qed
qed simp

lemma poll_once_fire:
  assumes "poll_once ls now ev = (ev', ems)"
  shows "config ev' = config ev"
    and "fire_rules (config ev) (window ev') now (last_fired ev) = (last_fired ev', ems)"
  using assms by (auto simp: poll_once_def Let_def split: prod.splits)

lemma run_polls_spaced:
  "r \<in> set (config ev) \<Longrightarrow> distinct (map rule_name (config ev)) \<Longrightarrow>
     om_get (last_fired ev) (rule_name r) = Some t \<Longrightarrow>
     (now, ems) \<in> set (run_polls ps ev) \<Longrightarrow> rule_name r \<in> em_rule ` set ems \<Longrightarrow>
     window_ms r \<le> now - t"
proof (induction ps arbitrary: ev t)
  case (Cons p ps)
  obtain ls now1 where p: "p = (ls, now1)" by (cases p)
  obtain ev' ems1 where e: "poll_once ls now1 ev = (ev', ems1)" by (cases "poll_once ls now1 ev")
  note f = fire_rules_name [OF poll_once_fire(2) [OF e] Cons.prems(2,1)]
  have w: "0 \<le> window_ms r" by (simp add: window_ms_def)
  show ?case
  proof (cases "(now, ems) = (now1, ems1)")
    case True
    with f Cons.prems show ?thesis by simp
  next
    case False
    then have later: "(now, ems) \<in> set (run_polls ps ev')"
      using Cons.prems(4) unfolding p run_polls.simps e by simp blast
    have IH: "om_get (last_fired ev') (rule_name r) = Some u \<Longrightarrow> window_ms r \<le> now - u" for u
      using Cons.IH [of ev' u, OF _ _ _ later Cons.prems(5)] Cons.prems(1,2) poll_once_fire(1) [OF e]
      by simp
    show ?thesis
    proof (cases "rule_name r \<in> em_rule ` set ems1")
      case True
      with f Cons.prems(3) have "window_ms r \<le> now1 - t" "window_ms r \<le> now - now1"
        using IH by auto
      with w show ?thesis by simp
    next
      case False
      with f Cons.prems(3) IH show ?thesis by auto
    qed
  qed
qed simp

lemma run_polls_pairwise:
  "r \<in> set (config ev) \<Longrightarrow> distinct (map rule_name (config ev)) \<Longrightarrow>
     run_polls ps ev = xs @ (now1, ems1) # ys \<Longrightarrow> (now2, ems2) \<in> set ys \<Longrightarrow>
     rule_name r \<in> em_rule ` set ems1 \<Longrightarrow> rule_name r \<in> em_rule ` set ems2 \<Longrightarrow>
     window_ms r \<le> now2 - now1"
proof (induction ps arbitrary: ev xs)
  case (Cons p ps)
  obtain ls now where p: "p = (ls, now)" by (cases p)
  obtain ev' ems where e: "poll_once ls now ev = (ev', ems)" by (cases "poll_once ls now ev")
  note c = poll_once_fire(1) [OF e]
  note f = fire_rules_name [OF poll_once_fire(2) [OF e] Cons.prems(2,1)]
  have tr: "(now, ems) # run_polls ps ev' = xs @ (now1, ems1) # ys" using Cons.prems(3) by (simp add: p e)
  show ?case
  proof (cases xs)
    case Nil
    with tr have "now = now1" "ems = ems1" "run_polls ps ev' = ys" by auto
    with f Cons.prems c show ?thesis by (intro run_polls_spaced [of r ev' now1 now2 ems2 ps]) auto
  next
    case (Cons x xs')
    with tr have "run_polls ps ev' = xs' @ (now1, ems1) # ys" by simp
    from Cons.IH [OF _ _ this] Cons.prems c show ?thesis by simp
  qed
qed simp

text \<open>C20. Over any run of passes, whatever the index returns and however the clock moves, a
  checked configuration emits a rule at most once per pass, and two emissions of it are at least
  its window apart: a sustained alignment alerts once per window, not once per tick.\<close>

theorem emissions_are_spaced:
  assumes "validate_config (config ev) = []" and "r \<in> set (config ev)"
    and "run_polls ps ev = xs @ (now1, ems1) # ys @ (now2, ems2) # zs"
    and "rule_name r \<in> em_rule ` set ems1" and "rule_name r \<in> em_rule ` set ems2"
  shows "now1 + window_ms r \<le> now2 \<and> distinct (map em_rule ems1)"
proof -
  have d: "distinct (map rule_name (config ev))" using assms(1) by (simp add: validate_config_Nil)
  have "distinct (map em_rule ems)" if "(now, ems) \<in> set (run_polls ps e)" "config e = config ev" for now ems e
    using that
  proof (induction ps arbitrary: e)
    case (Cons p ps)
    obtain ls t where p: "p = (ls, t)" by (cases p)
    obtain e' es where e: "poll_once ls t e = (e', es)" by (cases "poll_once ls t e")
    from Cons poll_once_fire [OF e] d show ?case
      by (auto simp: p e dest!: fire_rules_distinct)
  qed simp
  moreover have "(now1, ems1) \<in> set (run_polls ps ev)" using assms(3) by simp
  moreover have "window_ms r \<le> now2 - now1"
    by (rule run_polls_pairwise [OF assms(2) d assms(3), of now2 ems2]) (use assms in auto)
  ultimately show ?thesis by fastforce
qed

definition both_at :: "int \<Rightarrow> unit index" where
  "both_at ts t c = Inr [\<lparr>ulid = ''1'', msg_topic = t, title = None, ts_unix_ms = ts\<rparr>]"

definition outage_emission :: emission where
  "outage_emission = \<lparr>em_rule = ''outage'', em_topic = ''incident'', em_priority = PHigh\<rparr>"

theorem emissions_are_spaced_witness:
  "run_polls [(both_at 1000, 1000), (both_at 30000, 30000), (both_at 61000, 61000)]
      (evaluator_new [outage_rule])
    = [(1000, [outage_emission]), (30000, []), (61000, [outage_emission])]
   \<and> 1000 + window_ms outage_rule \<le> 61000"
proof -
  have r: "run_polls [(both_at 1000, 1000), (both_at 30000, 30000), (both_at 61000, 61000)]
      (evaluator_new [outage_rule])
    = [(1000, [outage_emission]), (30000, []), (61000, [outage_emission])]"
    by code_simp
  have v: "validate_config (config (evaluator_new [outage_rule])) = []" by code_simp
  have m: "outage_rule \<in> set (config (evaluator_new [outage_rule]))"
    and n: "rule_name outage_rule \<in> em_rule ` set [outage_emission]"
    by (simp_all add: evaluator_new_def outage_emission_def outage_rule_def)
  from r have split: "run_polls [(both_at 1000, 1000), (both_at 30000, 30000), (both_at 61000, 61000)]
      (evaluator_new [outage_rule])
    = [] @ (1000, [outage_emission]) # [(30000, [])] @ (61000, [outage_emission]) # []"
    by (simp only: append.simps)
  have "1000 + window_ms outage_rule \<le> 61000 \<and> distinct (map em_rule [outage_emission])"
    by (rule emissions_are_spaced [OF v m split n n])
  with r show ?thesis by blast
qed

section \<open>Cycle protection\<close>

lemma own_title_marked: "is_synth_marker_title (Some (synth_marker_title n))"
  by (simp add: is_synth_marker_title_def synth_marker_title_def starts_with_def)

lemma consume_marked:
  "(\<And>m. m \<in> set ms \<Longrightarrow> is_synth_marker_title (title m)) \<Longrightarrow>
     window (fold (consume_msg t) ms ev) = window ev"
  by (induction ms arbitrary: ev) (auto simp: consume_msg_def Let_def)

text \<open>The engine does not feed on itself: when everything an index returns was published by
  the engine, under the title it gives its emissions, a pass leaves the window as it was, and what
  it emits is what the rules emit on the old window.\<close>

theorem own_emissions_do_not_feed_back:
  assumes "\<And>t c ms m. ls t c = Inr ms \<Longrightarrow> m \<in> set ms \<Longrightarrow> \<exists>n. title m = Some (synth_marker_title n)"
  shows "window (fst (poll_once ls now ev)) = window ev
    \<and> snd (poll_once ls now ev) = snd (fire_rules (config ev) (window ev) now (last_fired ev))"
proof -
  have "window (consume_topic ls t e) = window e" for t e
    unfolding consume_topic_def
    by (auto split: sum.splits intro!: consume_marked dest!: assms simp: own_title_marked)
  then have "window (fold (consume_topic ls) ts e) = window e" for ts e
    by (induction ts arbitrary: e) simp_all
  then have "window (consume_all ls ev) = window ev" by (simp add: consume_all_def)
  then show ?thesis by (auto simp: poll_once_def Let_def split: prod.splits)
qed

definition own_msg :: stored_message where
  "own_msg = \<lparr>ulid = ''01'', msg_topic = ''grid'', title = Some (synth_marker_title ''x''), ts_unix_ms = 5\<rparr>"

theorem own_emissions_do_not_feed_back_witness:
  "window (fst (poll_once (\<lambda>t c. Inr [own_msg] :: (unit, stored_message list) result) 10
      (evaluator_new [outage_rule]))) = om_empty"
proof -
  have "window (fst (poll_once (\<lambda>t c. Inr [own_msg] :: (unit, stored_message list) result) 10
      (evaluator_new [outage_rule]))) = window (evaluator_new [outage_rule])"
    by (rule own_emissions_do_not_feed_back [THEN conjunct1]) (auto simp: own_msg_def)
  then show ?thesis by (simp only: evaluator_new_def evaluator.select_convs)
qed

section \<open>Each message once\<close>

text \<open>The documented result of the index query over the stored messages: those of the topic past
  the cursor, in the order of their identifiers.\<close>

definition index_of :: "stored_message list \<Rightarrow> 'e index" where
  "index_of db t since = Inr (sort_key ulid (filter (\<lambda>m. msg_topic m = t \<and>
     (case since of None \<Rightarrow> True | Some c \<Rightarrow> c < ulid m)) db))"

lemma fold_consume_cursor:
  "om_get (cursors (fold (consume_msg t) ms ev)) t' =
     (if ms \<noteq> [] \<and> t' = t then Some (ulid (last ms)) else om_get (cursors ev) t')"
  by (induction ms arbitrary: ev) (auto simp: consume_msg_def Let_def om_get_put)

definition drained :: "stored_message list \<Rightarrow> evaluator \<Rightarrow> string \<Rightarrow> bool" where
  "drained db ev t = (index_of db t (om_get (cursors ev) t) = (Inr [] :: (unit, stored_message list) result))"

lemma drained_iff:
  "drained db ev t \<longleftrightarrow> (\<forall>m \<in> set db. msg_topic m = t \<longrightarrow>
     (\<exists>c. om_get (cursors ev) t = Some c \<and> ulid m \<le> c))"
proof -
  have "sort_key ulid xs = [] \<longleftrightarrow> xs = []" for xs :: "stored_message list"
    by (metis set_empty set_sort)
  then show ?thesis
    by (auto simp: drained_def index_of_def filter_empty_conv not_less split: option.splits)
qed

lemma consume_topic_drains: "drained db (consume_topic (index_of db :: unit index) t ev) t"
proof -
  define ms where "ms = sort_key ulid (filter (\<lambda>m. msg_topic m = t \<and>
     (case om_get (cursors ev) t of None \<Rightarrow> True | Some c \<Rightarrow> c < ulid m)) db)"
  have "sorted (map ulid ms)" unfolding ms_def by (rule sorted_sort_key)
  then have le: "m \<in> set ms \<Longrightarrow> ulid m \<le> ulid (last ms)" for m
    by (induction ms rule: rev_induct) (auto simp: sorted_append)
  have set: "m \<in> set ms \<longleftrightarrow> m \<in> set db \<and> msg_topic m = t \<and>
     (case om_get (cursors ev) t of None \<Rightarrow> True | Some c \<Rightarrow> c < ulid m)" for m
    by (auto simp: ms_def)
  have cur: "om_get (cursors (consume_topic (index_of db :: unit index) t ev)) t =
      (if ms \<noteq> [] then Some (ulid (last ms)) else om_get (cursors ev) t)"
    by (simp add: consume_topic_def index_of_def fold_consume_cursor flip: ms_def)
  have "\<exists>c. om_get (cursors (consume_topic (index_of db :: unit index) t ev)) t = Some c \<and> ulid m \<le> c"
    if m: "m \<in> set db" "msg_topic m = t" for m
  proof (cases "m \<in> set ms")
    case True
    then have "ms \<noteq> []" by auto
    with le [OF True] cur show ?thesis by auto
  next
    case False
    with m obtain c where c: "om_get (cursors ev) t = Some c" "ulid m \<le> c"
      by (auto simp: set not_less split: option.splits)
    show ?thesis
    proof (cases "ms = []")
      case ne: False
      then have "c < ulid (last ms)" using set [of "last ms"] c by simp
      with ne cur c show ?thesis by auto
    qed (use cur c in simp)
  qed
  then show ?thesis by (auto simp: drained_iff)
qed

lemma consume_topic_other:
  "t \<noteq> t' \<Longrightarrow> om_get (cursors (consume_topic ls t ev)) t' = om_get (cursors ev) t'"
  by (auto simp: consume_topic_def fold_consume_cursor split: sum.splits)

lemma drained_keep: "drained db ev t' \<Longrightarrow> drained db (consume_topic (index_of db :: unit index) t ev) t'"
  by (cases "t = t'") (auto simp: consume_topic_drains, simp add: drained_def consume_topic_other)

lemma fold_drains:
  "t \<in> set ts \<Longrightarrow> drained db (fold (consume_topic (index_of db :: unit index)) ts ev) t"
proof -
  have keep: "drained db e t \<Longrightarrow> drained db (fold (consume_topic (index_of db :: unit index)) xs e) t" for xs e
    by (induction xs arbitrary: e) (simp_all add: drained_keep)
  show "t \<in> set ts \<Longrightarrow> ?thesis"
    by (induction ts arbitrary: ev) (auto simp: keep consume_topic_drains)
qed

lemma drained_noop:
  assumes "\<And>t. t \<in> set ts \<Longrightarrow> drained db ev t"
  shows "fold (consume_topic (index_of db :: unit index)) ts ev = ev"
  using assms by (induction ts) (auto simp: consume_topic_def drained_def)

text \<open>A message is observed once: after a pass over an index nothing of it is left past the
  cursors of the rules' source topics, so a second pass before the index grows observes nothing
  and changes neither the window nor the cursors.\<close>

theorem pass_drains_the_index:
  "let ev' = fst (poll_once (index_of db :: unit index) now ev)
   in consume_all (index_of db :: unit index) ev' = ev'"
proof -
  let ?ls = "index_of db :: unit index"
  define ev' where "ev' = fst (poll_once ?ls now ev)"
  have c: "config ev' = config ev" "cursors ev' = cursors (consume_all ?ls ev)"
    by (auto simp: ev'_def poll_once_def Let_def split: prod.splits)
  have "drained db ev' t" if "t \<in> set (source_topics (config ev'))" for t
  proof -
    have "drained db (consume_all ?ls ev) t"
      unfolding consume_all_def by (rule fold_drains) (use that c in simp)
    then show ?thesis by (simp add: drained_def c)
  qed
  then have "consume_all ?ls ev' = ev'" unfolding consume_all_def by (rule drained_noop)
  then show ?thesis by (simp add: ev'_def Let_def)
qed

end
