(* ===== verification/MeshTransport.thy ===== *)
theory MeshTransport
  imports OrdMap
begin

text \<open>
  The data model of the mesh router (\<open>crates/mesh/mackes-transport/src\<close>): the transport
  kinds with their tokens and Nebula modes (\<open>lib.rs\<close>), their capabilities and ciphers
  (\<open>transport_capabilities.rs\<close>) and the per-peer path with its per-class overrides and
  its STUN candidates (\<open>peer_path.rs\<close>).  The path's \<open>f32\<close> health score is read by
  none of these operations and is left out.
\<close>

section \<open>Transports\<close>

datatype transport_kind = NebulaDirect | NebulaLighthouseRelay | NebulaHttps443 | KdcTls

definition all_transports :: "transport_kind list" where
  "all_transports = [NebulaDirect, KdcTls, NebulaLighthouseRelay, NebulaHttps443]"

fun kind_as_str :: "transport_kind \<Rightarrow> string" where
  "kind_as_str NebulaDirect = ''nebula_direct''"
| "kind_as_str NebulaLighthouseRelay = ''nebula_lighthouse_relay''"
| "kind_as_str NebulaHttps443 = ''nebula_https443''"
| "kind_as_str KdcTls = ''kdc_tls''"

definition rewrite_legacy_token :: "string \<Rightarrow> string option" where
  "rewrite_legacy_token token =
     (if token = ''direct_udp'' then Some ''nebula_direct''
      else if token = ''derp_relay'' then Some ''nebula_lighthouse_relay''
      else if token = ''https443'' then Some ''nebula_https443''
      else None)"

datatype nebula_mode = Direct | Https443 | LighthouseRelay

fun is_nebula :: "transport_kind \<Rightarrow> bool" where
  "is_nebula NebulaDirect = True"
| "is_nebula NebulaHttps443 = True"
| "is_nebula NebulaLighthouseRelay = True"
| "is_nebula KdcTls = False"

fun nebula_mode_of :: "transport_kind \<Rightarrow> nebula_mode option" where
  "nebula_mode_of NebulaDirect = Some Direct"
| "nebula_mode_of NebulaHttps443 = Some Https443"
| "nebula_mode_of NebulaLighthouseRelay = Some LighthouseRelay"
| "nebula_mode_of KdcTls = None"

text \<open>\<open>from_transport_kind\<close> panics on the phone transport: \<open>None\<close>.\<close>

fun from_transport_kind :: "transport_kind \<Rightarrow> nebula_mode option" where
  "from_transport_kind NebulaDirect = Some Direct"
| "from_transport_kind NebulaHttps443 = Some Https443"
| "from_transport_kind NebulaLighthouseRelay = Some LighthouseRelay"
| "from_transport_kind KdcTls = None"

fun mode_as_str :: "nebula_mode \<Rightarrow> string" where
  "mode_as_str Direct = ''direct''"
| "mode_as_str Https443 = ''https443''"
| "mode_as_str LighthouseRelay = ''lighthouse_relay''"

fun to_transport_kind :: "nebula_mode \<Rightarrow> transport_kind" where
  "to_transport_kind Direct = NebulaDirect"
| "to_transport_kind Https443 = NebulaHttps443"
| "to_transport_kind LighthouseRelay = NebulaLighthouseRelay"

datatype health_state = Healthy | Degraded | Down

fun is_sendable :: "health_state \<Rightarrow> bool" where
  "is_sendable Healthy = True"
| "is_sendable Degraded = True"
| "is_sendable Down = False"

datatype message_class = Control | Clipboard | FileBulk | Notification

record message_class_set =
  mcs_control :: bool
  mcs_clipboard :: bool
  mcs_file_bulk :: bool
  mcs_notification :: bool

definition mcs_all :: message_class_set where
  "mcs_all = \<lparr>mcs_control = True, mcs_clipboard = True, mcs_file_bulk = True, mcs_notification = True\<rparr>"

definition mcs_small_only :: message_class_set where
  "mcs_small_only =
     \<lparr>mcs_control = True, mcs_clipboard = True, mcs_file_bulk = False, mcs_notification = True\<rparr>"

fun carries :: "message_class_set \<Rightarrow> message_class \<Rightarrow> bool" where
  "carries s Control = mcs_control s"
| "carries s Clipboard = mcs_clipboard s"
| "carries s FileBulk = mcs_file_bulk s"
| "carries s Notification = mcs_notification s"

datatype transport_error =
    Unreachable string
  | HandshakeFailedErr string
  | Misconfigured string
  | IoErr string

fun err_code :: "transport_error \<Rightarrow> string" where
  "err_code (Unreachable c) = c"
| "err_code (HandshakeFailedErr c) = c"
| "err_code (Misconfigured c) = c"
| "err_code (IoErr c) = c"

fun err_family :: "transport_error \<Rightarrow> string" where
  "err_family (Unreachable c) = ''unreachable''"
| "err_family (HandshakeFailedErr c) = ''handshake_failed''"
| "err_family (Misconfigured c) = ''misconfigured''"
| "err_family (IoErr c) = ''io''"

definition err_display :: "transport_error \<Rightarrow> string" where
  "err_display e = err_family e @ '': '' @ err_code e"

section \<open>Ciphers and capabilities\<close>

datatype encryption_kind = EncNone | Aes128Gcm | Aes256Gcm | ChaCha20Poly1305

fun enc_as_str :: "encryption_kind \<Rightarrow> string" where
  "enc_as_str EncNone = ''none''"
| "enc_as_str Aes128Gcm = ''aes128_gcm''"
| "enc_as_str Aes256Gcm = ''aes256_gcm''"
| "enc_as_str ChaCha20Poly1305 = ''chacha20_poly1305''"

definition is_authenticated :: "encryption_kind \<Rightarrow> bool" where
  "is_authenticated e = (e \<noteq> EncNone)"

fun strength_rank :: "encryption_kind \<Rightarrow> u8" where
  "strength_rank EncNone = 0"
| "strength_rank Aes128Gcm = 1"
| "strength_rank Aes256Gcm = 2"
| "strength_rank ChaCha20Poly1305 = 2"

fun for_transport :: "transport_kind \<Rightarrow> encryption_kind" where
  "for_transport NebulaLighthouseRelay = ChaCha20Poly1305"
| "for_transport NebulaDirect = Aes256Gcm"
| "for_transport NebulaHttps443 = Aes256Gcm"
| "for_transport KdcTls = Aes256Gcm"

record transport_capabilities =
  supports_bulk :: bool
  supports_streaming :: bool
  supports_broadcast :: bool
  mtu :: "u32 option"
  encryption :: encryption_kind

definition direct_udp_default :: transport_capabilities where
  "direct_udp_default = \<lparr>supports_bulk = False, supports_streaming = False,
     supports_broadcast = False, mtu = Some 1280, encryption = Aes256Gcm\<rparr>"

definition kdc_tls_default :: transport_capabilities where
  "kdc_tls_default = \<lparr>supports_bulk = True, supports_streaming = True,
     supports_broadcast = False, mtu = None, encryption = Aes256Gcm\<rparr>"

definition derp_relay_default :: transport_capabilities where
  "derp_relay_default = \<lparr>supports_bulk = False, supports_streaming = False,
     supports_broadcast = False, mtu = Some 1200, encryption = ChaCha20Poly1305\<rparr>"

section \<open>The path to a peer\<close>

text \<open>Message classes are ordered by their discriminants, as keys of the override map.\<close>

fun class_index :: "message_class \<Rightarrow> nat" where
  "class_index Control = 0"
| "class_index Clipboard = 1"
| "class_index FileBulk = 2"
| "class_index Notification = 3"

lemma class_index_inj: "class_index a = class_index b \<longleftrightarrow> a = b"
  by (cases a; cases b) simp_all

instantiation message_class :: linorder
begin

definition less_eq_message_class :: "message_class \<Rightarrow> message_class \<Rightarrow> bool" where
  "less_eq_message_class a b = (class_index a \<le> class_index b)"

definition less_message_class :: "message_class \<Rightarrow> message_class \<Rightarrow> bool" where
  "less_message_class a b = (class_index a < class_index b)"

instance
  by standard (auto simp: less_eq_message_class_def less_message_class_def class_index_inj)

end

text \<open>The persisted mirror of the tunnel state; a socket address is any ordered type.\<close>

datatype path_https_state = PInactive | PActivating | PActive | PFailing

record 'a stun_candidate =
  reflexive :: 'a
  server :: 'a
  observed_at :: nat

datatype switch_reason =
    Initial
  | HealthDegraded transport_kind
  | Policy
  | ManualOverride
  | FlapPenalty
  | MeshShuntActivated
  | DirectLanRecovered

fun audit_token :: "switch_reason \<Rightarrow> string" where
  "audit_token Initial = ''initial''"
| "audit_token (HealthDegraded t) = ''health_degraded_'' @ kind_as_str t"
| "audit_token Policy = ''policy''"
| "audit_token ManualOverride = ''manual_override''"
| "audit_token FlapPenalty = ''flap_penalty''"
| "audit_token MeshShuntActivated = ''mesh_shunt_activated''"
| "audit_token DirectLanRecovered = ''direct_lan_recovered''"

record 'a peer_path =
  pp_peer_id :: string
  primary :: transport_kind
  fallback :: "transport_kind option"
  last_switch_at :: "nat option"
  last_switch_reason :: switch_reason
  message_class_overrides :: "(message_class, transport_kind) omap"
  candidates :: "'a stun_candidate list"
  consecutive_udp_failures :: u32
  https_state :: path_https_state

definition path_initial :: "string \<Rightarrow> transport_kind \<Rightarrow> 'a peer_path" where
  "path_initial p k =
     \<lparr>pp_peer_id = p, primary = k, fallback = None, last_switch_at = None,
      last_switch_reason = Initial, message_class_overrides = om_empty, candidates = [],
      consecutive_udp_failures = 0, https_state = PInactive\<rparr>"

definition set_candidates :: "'a::linorder stun_candidate list \<Rightarrow> 'a peer_path \<Rightarrow> 'a peer_path" where
  "set_candidates cs p = p\<lparr>candidates := sort_key reflexive cs\<rparr>"

definition path_transport_for :: "'a peer_path \<Rightarrow> message_class \<Rightarrow> transport_kind" where
  "path_transport_for p c =
     (case om_get (message_class_overrides p) c of Some k \<Rightarrow> k | None \<Rightarrow> primary p)"

section \<open>What the tokens and modes promise\<close>

lemma kind_as_str_inj: "kind_as_str a = kind_as_str b \<longleftrightarrow> a = b"
  by (cases a; cases b) simp_all

lemma ex_kind:
  "(\<exists>k. P k) \<longleftrightarrow> P NebulaDirect \<or> P NebulaLighthouseRelay \<or> P NebulaHttps443 \<or> P KdcTls"
  by (metis transport_kind.exhaust)

text \<open>A transport's Nebula mode is read back by the mode's transport and by nothing else; it
  exists exactly on the transports that are Nebula's, which are those the partial constructor
  does not panic on.  Every legacy token is rewritten to the current token of a Nebula
  transport and no current token is legacy, so a rewritten policy file is left alone by a second
  pass.\<close>

theorem transport_tokens_and_modes:
  "(nebula_mode_of k = Some m \<longleftrightarrow> to_transport_kind m = k)
   \<and> (is_nebula k \<longleftrightarrow> nebula_mode_of k \<noteq> None) \<and> from_transport_kind k = nebula_mode_of k
   \<and> rewrite_legacy_token (kind_as_str k) = None
   \<and> pred_option (\<lambda>s. (\<exists>n. is_nebula n \<and> kind_as_str n = s) \<and> rewrite_legacy_token s = None)
       (rewrite_legacy_token t)"
proof -
  have "pred_option (\<lambda>s. (\<exists>n. is_nebula n \<and> kind_as_str n = s) \<and> rewrite_legacy_token s = None)
       (rewrite_legacy_token t)"
    unfolding rewrite_legacy_token_def ex_kind by simp
  moreover have "(nebula_mode_of k = Some m \<longleftrightarrow> to_transport_kind m = k)" by (cases k; cases m) simp_all
  moreover have "is_nebula k \<longleftrightarrow> nebula_mode_of k \<noteq> None" by (cases k) simp_all
  moreover have "from_transport_kind k = nebula_mode_of k" by (cases k) simp_all
  moreover have "rewrite_legacy_token (kind_as_str k) = None"
    by (cases k) (simp_all add: rewrite_legacy_token_def)
  ultimately show ?thesis by blast
qed

lemma audit_token_inj: "audit_token a = audit_token b \<longleftrightarrow> a = b"
proof (cases a)
  case (HealthDegraded k)
  then show ?thesis by (cases b) (simp_all add: kind_as_str_inj)
qed (cases b; simp)+

section \<open>The content floor and the override map\<close>

text \<open>Every production transport carries content under an authenticated cipher of the
  256-bit class, the strongest rank, and the four are the whole preference order, each once.
  Distinct switch reasons leave distinct audit tokens.\<close>

theorem transport_floor:
  "is_authenticated (for_transport k) \<and> strength_rank e \<le> strength_rank (for_transport k)
   \<and> k \<in> set all_transports \<and> distinct all_transports
   \<and> (audit_token r1 = audit_token r2 \<longleftrightarrow> r1 = r2)"
proof -
  have "strength_rank e \<le> strength_rank (for_transport k)" by (cases e; cases k) simp_all
  moreover have "is_authenticated (for_transport k)" by (cases k) (simp_all add: is_authenticated_def)
  moreover have "k \<in> set all_transports" by (cases k) (simp_all add: all_transports_def)
  moreover have "distinct all_transports" by (simp add: all_transports_def)
  ultimately show ?thesis by (simp add: audit_token_inj)
qed

text \<open>Pinning a message class to a transport decides that class and no other, and the path of a
  peer without pins uses its primary for everything; replacing the candidates keeps exactly
  the given ones, ordered by their reflexive address, whatever was stored before.\<close>

theorem path_overrides_and_candidates:
  "path_transport_for (p\<lparr>message_class_overrides := om_put c k (message_class_overrides p)\<rparr>) c'
     = (if c' = c then k else path_transport_for p c')
   \<and> path_transport_for (path_initial n k) c' = k
   \<and> mset (candidates (set_candidates cs p)) = mset cs
   \<and> sorted (map reflexive (candidates (set_candidates cs p)))
   \<and> set_candidates cs (set_candidates ds p) = set_candidates cs p
   \<and> path_transport_for (set_candidates cs p) c' = path_transport_for p c'"
  by (simp add: path_transport_for_def om_get_put path_initial_def set_candidates_def
      split: option.splits)

end
