(* ===== verification/HttpsTunnel.thy ===== *)
theory HttpsTunnel
  imports MeshTransport
begin

text \<open>
  The activation machine of the HTTPS tunnel
  (\<open>crates/mesh/mackes-nebula-https-tunnel/src/activation.rs\<close>) and its policy layer on the
  per-peer path (\<open>crates/mesh/mackesd/src/https_fallback.rs\<close>).  The machine is proved to
  implement the transition table of its documentation, given here as an inductive relation on
  states with a failure count, and to activate after exactly three failures in a row.
\<close>

section \<open>The machine\<close>

datatype probe_pair_outcome = AnyUdpSucceeded | BothUdpFailed

definition FAILURE_THRESHOLD :: u32 where
  "FAILURE_THRESHOLD = 3"

record failure_window =
  consecutive_failures :: u32

definition fw_new :: failure_window where
  "fw_new = \<lparr>consecutive_failures = 0\<rparr>"

definition from_consecutive_failures :: "u32 \<Rightarrow> failure_window" where
  "from_consecutive_failures n = \<lparr>consecutive_failures = n\<rparr>"

fun fw_observe :: "failure_window \<Rightarrow> probe_pair_outcome \<Rightarrow> failure_window" where
  "fw_observe w BothUdpFailed = w\<lparr>consecutive_failures := sat_add (consecutive_failures w) 1\<rparr>"
| "fw_observe w AnyUdpSucceeded = w\<lparr>consecutive_failures := 0\<rparr>"

definition threshold_met :: "failure_window \<Rightarrow> bool" where
  "threshold_met w = (consecutive_failures w \<ge> FAILURE_THRESHOLD)"

datatype https_fallback_state = Inactive | Activating | Active | Failing

definition is_active :: "https_fallback_state \<Rightarrow> bool" where
  "is_active s = (s = Active)"

definition is_activating :: "https_fallback_state \<Rightarrow> bool" where
  "is_activating s = (s = Activating)"

datatype transition_input = Probe probe_pair_outcome | HandshakeOk | HandshakeFailed | TunnelLost

fun transition :: "https_fallback_state \<Rightarrow> failure_window \<Rightarrow> transition_input
    \<Rightarrow> https_fallback_state \<times> failure_window" where
  "transition Inactive w (Probe out) =
     (let w' = fw_observe w out in
      if threshold_met w' then (Activating, fw_new) else (Inactive, w'))"
| "transition Inactive w i = (Inactive, w)"
| "transition Activating w HandshakeOk = (Active, w)"
| "transition Activating w HandshakeFailed = (Failing, w)"
| "transition Activating w i = (Activating, w)"
| "transition Active w (Probe AnyUdpSucceeded) = (Inactive, fw_new)"
| "transition Failing w (Probe AnyUdpSucceeded) = (Inactive, fw_new)"
| "transition Active w TunnelLost = (Failing, w)"
| "transition Active w i = (Active, w)"
| "transition Failing w (Probe BothUdpFailed) =
     (let w' = fw_observe w BothUdpFailed in
      if threshold_met w' then (Activating, fw_new) else (Failing, w'))"
| "transition Failing w i = (Failing, w)"

section \<open>The path layer\<close>

fun to_path_state :: "https_fallback_state \<Rightarrow> path_https_state" where
  "to_path_state Inactive = PInactive"
| "to_path_state Activating = PActivating"
| "to_path_state Active = PActive"
| "to_path_state Failing = PFailing"

fun of_path_state :: "path_https_state \<Rightarrow> https_fallback_state" where
  "of_path_state PInactive = Inactive"
| "of_path_state PActivating = Activating"
| "of_path_state PActive = Active"
| "of_path_state PFailing = Failing"

definition observe_peer :: "'a peer_path \<Rightarrow> transition_input \<Rightarrow> 'a peer_path \<times> https_fallback_state"
where
  "observe_peer p i =
     (let w = from_consecutive_failures (consecutive_udp_failures p);
          (s', w') = transition (of_path_state (https_state p)) w i
      in (p\<lparr>consecutive_udp_failures := consecutive_failures w', https_state := to_path_state s'\<rparr>, s'))"

section \<open>The documented table\<close>

text \<open>The table of the documentation, with the count of failures that its ``three in a row''
  presupposes; every input the table does not list changes nothing.\<close>

inductive table :: "https_fallback_state \<times> nat \<Rightarrow> transition_input \<Rightarrow> https_fallback_state \<times> nat \<Rightarrow> bool"
where
  tally: "s = Inactive \<or> s = Failing \<Longrightarrow> n < 2 \<Longrightarrow> table (s, n) (Probe BothUdpFailed) (s, Suc n)"
| activate: "s = Inactive \<or> s = Failing \<Longrightarrow> 2 \<le> n \<Longrightarrow> table (s, n) (Probe BothUdpFailed) (Activating, 0)"
| recover: "s \<noteq> Activating \<Longrightarrow> table (s, n) (Probe AnyUdpSucceeded) (Inactive, 0)"
| connected: "table (Activating, n) HandshakeOk (Active, n)"
| refused: "table (Activating, n) HandshakeFailed (Failing, n)"
| lost: "table (Active, n) TunnelLost (Failing, n)"
| ignored_handshake: "s \<noteq> Activating \<Longrightarrow> i = HandshakeOk \<or> i = HandshakeFailed \<Longrightarrow> table (s, n) i (s, n)"
| ignored_probe: "table (Activating, n) (Probe out) (Activating, n)"
| ignored_failure: "table (Active, n) (Probe BothUdpFailed) (Active, n)"
| ignored_loss: "s \<noteq> Active \<Longrightarrow> table (s, n) TunnelLost (s, n)"

inductive_simps table_iff: "table (s, n) i t"

lemma observe_failure:
  "unat (consecutive_failures (fw_observe w BothUdpFailed))
     = min (unat (consecutive_failures w) + 1) (2 ^ 32 - 1)"
  by (simp add: unat_sat_add)

lemma threshold_failure:
  "threshold_met (fw_observe w BothUdpFailed) \<longleftrightarrow> 2 \<le> unat (consecutive_failures w)"
  by (simp add: threshold_met_def FAILURE_THRESHOLD_def word_le_nat_alt unat_sat_add)

lemma threshold_success: "\<not> threshold_met (w\<lparr>consecutive_failures := 0\<rparr>)"
  by (simp add: threshold_met_def FAILURE_THRESHOLD_def)

lemmas transition_cases = threshold_failure threshold_success Let_def fw_new_def unat_sat_add
  FAILURE_THRESHOLD_def table_iff

lemma fw_eq_iff: "w = v \<longleftrightarrow> unat (consecutive_failures w) = unat (consecutive_failures v)"
  for w v :: failure_window
  by (cases w; cases v) (simp add: word_unat_eq_iff)

lemma transition_table:
  "table (s, unat (consecutive_failures w)) i (s', n) \<longleftrightarrow>
     (\<exists>w'. transition s w i = (s', w') \<and> unat (consecutive_failures w') = n)"
proof (cases i)
  case (Probe out)
  show ?thesis
    by (cases out; cases s)
      (auto simp: Probe transition_cases simp del: fw_observe.simps(1), auto simp: unat_sat_add)
qed (cases s; auto simp: transition_cases)+

text \<open>C21. On every state, window and input, the machine takes exactly the step of the documented
  table on the state and its failure count; the table gives every input one step, so nothing is
  undefined and nothing ambiguous.\<close>

theorem transition_implements_table:
  "table (s, unat (consecutive_failures w)) i t \<longleftrightarrow>
     t = (fst (transition s w i), unat (consecutive_failures (snd (transition s w i))))"
proof -
  obtain s' n where t: "t = (s', n)" by (cases t)
  show ?thesis unfolding t transition_table by (cases "transition s w i") auto
qed

section \<open>Three failures in a row\<close>

definition run :: "transition_input list \<Rightarrow> https_fallback_state \<times> failure_window" where
  "run hs = fold (\<lambda>i (s, w). transition s w i) hs (Inactive, fw_new)"

lemma run_snoc: "run (hs @ [i]) = (case run hs of (s, w) \<Rightarrow> transition s w i)"
  by (simp add: run_def)

definition probes :: "transition_input list \<Rightarrow> probe_pair_outcome list" where
  "probes hs = concat (map (\<lambda>i. case i of Probe out \<Rightarrow> [out] | _ \<Rightarrow> []) hs)"

lemma probes_snoc [simp]:
  "probes (hs @ [Probe out]) = probes hs @ [out]" "probes (hs @ [HandshakeOk]) = probes hs"
  "probes (hs @ [HandshakeFailed]) = probes hs" "probes (hs @ [TunnelLost]) = probes hs"
  by (simp_all add: probes_def)

text \<open>The last \<open>k\<close> probes failed.\<close>

definition failed_last :: "nat \<Rightarrow> transition_input list \<Rightarrow> bool" where
  "failed_last k hs = (k \<le> length (probes hs) \<and> take k (rev (probes hs)) = replicate k BothUdpFailed)"

lemma failed_last_step:
  "failed_last k hs \<Longrightarrow> failed_last (Suc k) (hs @ [Probe BothUdpFailed])"
  "failed_last 0 hs"
  by (simp_all add: failed_last_def)

lemma failed_last_quiet: "failed_last k hs \<Longrightarrow> probes hs' = probes hs \<Longrightarrow> failed_last k hs'"
  by (simp add: failed_last_def)

text \<open>The invariant of the reachable pairs: fewer than three failures are counted, all of them the
  most recent probes, and none while a tunnel is being set up or in use.\<close>

definition counted :: "transition_input list \<Rightarrow> https_fallback_state \<times> nat \<Rightarrow> bool" where
  "counted hs p = (snd p < 3 \<and> (fst p \<in> {Activating, Active} \<longrightarrow> snd p = 0) \<and> failed_last (snd p) hs)"

lemma table_counted:
  "table p i q \<Longrightarrow> counted hs p \<Longrightarrow> counted (hs @ [i]) q"
proof (induction rule: table.induct)
  case (ignored_handshake s i n)
  then show ?case by (auto simp: counted_def failed_last_def)
qed (auto simp: counted_def failed_last_def)

lemma run_table:
  "table (fst (run hs), unat (consecutive_failures (snd (run hs)))) i
     (fst (run (hs @ [i])), unat (consecutive_failures (snd (run (hs @ [i])))))"
  by (simp add: transition_table run_snoc split_beta) (metis prod.collapse)

lemma run_counted: "counted hs (fst (run hs), unat (consecutive_failures (snd (run hs))))"
proof (induction hs rule: rev_induct)
  case Nil
  show ?case by (simp add: counted_def run_def fw_new_def failed_last_def)
next
  case (snoc i hs)
  with run_table show ?case by (rule table_counted)
qed

text \<open>Whatever the inputs so far, the machine starts to activate the tunnel only on a failed
  probe pair that is the third failed one in a row, and while a tunnel is being set up or used no
  failure is counted.\<close>

theorem activation_needs_three_failures:
  assumes "fst (run hs) \<noteq> Activating" and "fst (run (hs @ [i])) = Activating"
  shows "i = Probe BothUdpFailed \<and> failed_last 3 (hs @ [i])
    \<and> fst (run hs) \<in> {Inactive, Failing} \<and> consecutive_failures (snd (run (hs @ [i]))) = 0"
proof -
  have t: "table (fst (run hs), unat (consecutive_failures (snd (run hs)))) i
     (Activating, unat (consecutive_failures (snd (run (hs @ [i])))))"
    using run_table [of hs i] assms(2) by simp
  have c: "counted hs (fst (run hs), unat (consecutive_failures (snd (run hs))))" by (rule run_counted)
  from t assms(1) have *: "i = Probe BothUdpFailed" "fst (run hs) \<in> {Inactive, Failing}"
    "2 \<le> unat (consecutive_failures (snd (run hs)))"
    "unat (consecutive_failures (snd (run (hs @ [i])))) = 0"
    by (auto simp: table_iff)
  with c have "unat (consecutive_failures (snd (run hs))) = 2" by (simp add: counted_def)
  with c have "failed_last 2 hs" by (simp add: counted_def)
  then have "failed_last 3 (hs @ [Probe BothUdpFailed])"
    using failed_last_step(1) [of 2 hs] by (simp add: numeral_3_eq_3 numeral_2_eq_2)
  moreover have "consecutive_failures (snd (run (hs @ [i]))) = 0"
    using *(4) by (simp add: word_unat_eq_iff)
  ultimately show ?thesis using *(1,2) by simp
qed

theorem activation_needs_three_failures_witness:
  "failed_last 3 [HandshakeOk, Probe BothUdpFailed, Probe BothUdpFailed, TunnelLost, Probe BothUdpFailed]"
proof -
  let ?hs = "[HandshakeOk, Probe BothUdpFailed, Probe BothUdpFailed, TunnelLost]"
  have "fst (run ?hs) \<noteq> Activating" "fst (run (?hs @ [Probe BothUdpFailed])) = Activating"
    by (simp_all add: run_def fw_new_def sat_add_def threshold_met_def FAILURE_THRESHOLD_def Let_def
      word_le_nat_alt)
  from activation_needs_three_failures [OF this] show ?thesis by simp
qed

lemma failures_activate:
  "s \<in> {Inactive, Failing} \<Longrightarrow> unat (consecutive_failures w) + k = 2 \<Longrightarrow>
     fold (\<lambda>i (s, w). transition s w i) (replicate (Suc k) (Probe BothUdpFailed)) (s, w)
       = (Activating, fw_new) \<and>
     (\<forall>j \<le> k. fst (fold (\<lambda>i (s, w). transition s w i) (replicate j (Probe BothUdpFailed)) (s, w)) = s)"
proof (induction k arbitrary: w)
  case 0
  then show ?case by (auto simp: threshold_failure Let_def simp del: fw_observe.simps)
next
  case (Suc k)
  let ?w = "fw_observe w BothUdpFailed"
  have step: "transition s w (Probe BothUdpFailed) = (s, ?w)"
    using Suc.prems by (auto simp: threshold_failure Let_def simp del: fw_observe.simps)
  have "unat (consecutive_failures ?w) + k = 2"
    unfolding observe_failure using Suc.prems(2) by simp
  note IH = Suc.IH [OF Suc.prems(1) this]
  show ?case
  proof (intro conjI allI impI)
    fix j assume "j \<le> Suc k"
    then show "fst (fold (\<lambda>i (s, w). transition s w i) (replicate j (Probe BothUdpFailed)) (s, w)) = s"
      using IH step by (cases j) auto
  qed (use IH step in simp)
qed

text \<open>From every reachable state in which no tunnel is being set up or used, failing probes
  activate the tunnel after at most three, exactly when the third failure is counted; from every
  state with a tunnel up or failing, one success of the direct path or of the relay returns to
  the inactive state with the count cleared.\<close>

theorem failures_activate_and_success_reverts:
  "(fst (run hs) \<in> {Inactive, Failing} \<longrightarrow>
      (let k = 3 - unat (consecutive_failures (snd (run hs))) in
         1 \<le> k \<and> fst (run (hs @ replicate k (Probe BothUdpFailed))) = Activating \<and>
         (\<forall>j < k. fst (run (hs @ replicate j (Probe BothUdpFailed))) = fst (run hs))))
   \<and> (fst (run hs) \<in> {Active, Failing} \<longrightarrow>
      run (hs @ [Probe AnyUdpSucceeded]) = (Inactive, fw_new))"
proof (intro conjI impI)
  assume s: "fst (run hs) \<in> {Inactive, Failing}"
  define n where "n = unat (consecutive_failures (snd (run hs)))"
  have "n < 3" using run_counted [of hs] by (simp add: counted_def n_def)
  then obtain k where k: "n + k = 2" by (metis add_diff_inverse_nat less_Suc_eq_le not_less numeral_2_eq_2 numeral_3_eq_3)
  have app: "run (hs @ js) = fold (\<lambda>i (s, w). transition s w i) js (fst (run hs), snd (run hs))" for js
    by (simp add: run_def)
  have k3: "3 - n = Suc k" using k by simp
  note f = failures_activate [OF s, of "snd (run hs)" k, folded n_def, OF k, folded app]
  show "let k = 3 - unat (consecutive_failures (snd (run hs))) in
         1 \<le> k \<and> fst (run (hs @ replicate k (Probe BothUdpFailed))) = Activating \<and>
         (\<forall>j < k. fst (run (hs @ replicate j (Probe BothUdpFailed))) = fst (run hs))"
    unfolding n_def [symmetric] k3 Let_def using f by (auto simp: less_Suc_eq_le)
next
  assume "fst (run hs) \<in> {Active, Failing}"
  then show "run (hs @ [Probe AnyUdpSucceeded]) = (Inactive, fw_new)"
    by (auto simp: run_snoc split: prod.splits)
qed

theorem failures_activate_and_success_reverts_witness:
  "fst (run ([Probe BothUdpFailed] @ replicate 2 (Probe BothUdpFailed))) = Activating"
proof -
  have "run [Probe BothUdpFailed] = (Inactive, \<lparr>consecutive_failures = 1\<rparr>)"
    by (simp add: run_def fw_new_def sat_add_def threshold_met_def FAILURE_THRESHOLD_def Let_def
      word_le_nat_alt)
  with failures_activate_and_success_reverts [of "[Probe BothUdpFailed]"] show ?thesis
    by (simp add: Let_def)
qed

section \<open>The path layer runs the machine\<close>

lemma path_state_inverse [simp]: "of_path_state (to_path_state s) = s" "to_path_state (of_path_state q) = q"
  by (cases s, simp_all) (cases q, simp_all)

lemma fold_observe_peer:
  "fold (\<lambda>i p. fst (observe_peer p i)) hs (path_initial n k)
      = (path_initial n k)\<lparr>consecutive_udp_failures := consecutive_failures (snd (run hs)),
           https_state := to_path_state (fst (run hs))\<rparr>"
proof (induction hs rule: rev_induct)
  case Nil
  show ?case by (simp add: run_def path_initial_def fw_new_def)
next
  case (snoc i hs)
  have "from_consecutive_failures (consecutive_failures w) = w" for w
    by (simp add: from_consecutive_failures_def)
  with snoc show ?case
    by (simp add: observe_peer_def run_snoc Let_def split_beta)
qed

text \<open>The policy layer runs the machine on the path record: after any inputs, the record holds
  the machine's state and failure count and returned state, and every other field is as it was;
  storing a state and reading it back is the identity both ways.\<close>

theorem observe_peer_runs_machine:
  "of_path_state (to_path_state s) = s \<and> to_path_state (of_path_state q) = q
   \<and> (let p' = fold (\<lambda>i p. fst (observe_peer p i)) hs (path_initial n k) in
       of_path_state (https_state p') = fst (run hs)
       \<and> consecutive_udp_failures p' = consecutive_failures (snd (run hs))
       \<and> p'\<lparr>https_state := PInactive, consecutive_udp_failures := 0\<rparr> = path_initial n k)"
  unfolding fold_observe_peer Let_def by (simp add: path_initial_def)

end
