(* ===== verification/TunnelFraming.thy ===== *)
theory TunnelFraming
  imports Prelude
begin

text \<open>
  The framing of datagrams on the TLS stream of the HTTPS tunnel and the pump that carries them
  (\<open>crates/mesh/mackes-nebula-https-tunnel/src/framing.rs\<close> and \<open>demux.rs\<close>).  The
  sockets are events and answers: an event says which branch of the \<open>select!\<close> completed and
  with what, and the two writes take their result from a parameter.
\<close>

section \<open>Frames\<close>

definition MAX_FRAME_SIZE :: nat where
  "MAX_FRAME_SIZE = 1408"

definition HEADER_LEN :: nat where
  "HEADER_LEN = 4"

datatype frame_error = Oversized nat

text \<open>\<open>u32::to_be_bytes\<close> and \<open>u32::from_be_bytes\<close>.\<close>

definition to_be_bytes :: "u32 \<Rightarrow> u8 list" where
  "to_be_bytes w = [ucast (drop_bit 24 w), ucast (drop_bit 16 w), ucast (drop_bit 8 w), ucast w]"

definition from_be_bytes :: "u8 \<Rightarrow> u8 \<Rightarrow> u8 \<Rightarrow> u8 \<Rightarrow> u32" where
  "from_be_bytes a b c d =
     of_nat (unat a * 2 ^ 24 + unat b * 2 ^ 16 + unat c * 2 ^ 8 + unat d)"

definition encode_frame :: "u8 list \<Rightarrow> u8 list \<Rightarrow> (frame_error, u8 list \<times> nat) result" where
  "encode_frame payload out =
     (if length payload > MAX_FRAME_SIZE then Inl (Oversized (length payload))
      else Inr (out @ to_be_bytes (of_nat (length payload)) @ payload, HEADER_LEN + length payload))"

text \<open>The result of a decode: nothing yet, or the payload and the advanced buffer.\<close>

definition decode_frame :: "u8 list \<Rightarrow> (frame_error, (u8 list \<times> u8 list) option) result" where
  "decode_frame buf =
     (if length buf < HEADER_LEN then Inr None
      else
        let len = unat (from_be_bytes (buf ! 0) (buf ! 1) (buf ! 2) (buf ! 3)) in
        if len > MAX_FRAME_SIZE then Inl (Oversized len)
        else if length buf < HEADER_LEN + len then Inr None
        else
          let buf' = drop HEADER_LEN buf in Inr (Some (take len buf', drop len buf')))"

section \<open>The pump\<close>

datatype demux_error =
    UdpBind string
  | TlsIo string
  | UdpIo string
  | Framing frame_error
  | IdleTimeoutErr nat

record 'a demux_config =
  nebula_addr :: 'a
  idle_timeout :: nat

record demux_stats =
  st_frames_in :: u64
  st_frames_out :: u64

text \<open>The state of the loop, with the datagrams handed to the local Nebula and the bytes written
  to the stream so far.\<close>

record pump =
  tls_read_buf :: "u8 list"
  frames_in :: u64
  frames_out :: u64
  to_nebula :: "u8 list list"
  to_tls :: "u8 list"

definition pump_new :: pump where
  "pump_new = \<lparr>tls_read_buf = [], frames_in = 0, frames_out = 0, to_nebula = [], to_tls = []\<rparr>"

datatype 'a pump_event =
    TlsTimeout
  | TlsReadError string
  | TlsRead "u8 list"
  | UdpTimeout
  | UdpRecvError string
  | UdpRecv "u8 list" 'a

text \<open>What \<open>send_to\<close> and \<open>write_all\<close> answer: the error, if any.\<close>

record net =
  udp_send :: "u8 list \<Rightarrow> string option"
  tls_write :: "u8 list \<Rightarrow> string option"

lemma decode_frame_Some:
  "decode_frame buf = Inr (Some (f, r)) \<longleftrightarrow> HEADER_LEN \<le> length buf \<and>
     (let len = unat (from_be_bytes (buf ! 0) (buf ! 1) (buf ! 2) (buf ! 3)) in
        len \<le> MAX_FRAME_SIZE \<and> HEADER_LEN + len \<le> length buf \<and>
        f = take len (drop HEADER_LEN buf) \<and> r = drop (HEADER_LEN + len) buf)"
  by (auto simp: decode_frame_def Let_def not_less add.commute split: if_splits)

lemma decode_frame_shrinks: "decode_frame buf = Inr (Some (f, r)) \<Longrightarrow> length r < length buf"
  by (auto simp: decode_frame_Some Let_def HEADER_LEN_def)

text \<open>The inner loop: every complete frame is taken off the buffer and sent; an error leaves the
  function.\<close>

function drain :: "net \<Rightarrow> pump \<Rightarrow> pump \<times> demux_error option" where
  "drain net p =
     (case decode_frame (tls_read_buf p) of
        Inl e \<Rightarrow> (p, Some (Framing e))
      | Inr None \<Rightarrow> (p, None)
      | Inr (Some (frame, rest)) \<Rightarrow>
          (case udp_send net frame of
             Some e \<Rightarrow> (p\<lparr>tls_read_buf := rest\<rparr>, Some (UdpIo e))
           | None \<Rightarrow> drain net (p\<lparr>tls_read_buf := rest, to_nebula := to_nebula p @ [frame],
                       frames_in := frames_in p + 1\<rparr>)))"
  by pat_completeness auto
termination
  by (relation "measure (\<lambda>(net, p). length (tls_read_buf p))") (auto dest: decode_frame_shrinks)

declare drain.simps [simp del]

text \<open>One round of the loop: it goes on with \<open>Inr\<close> of the state, or the function returns.\<close>

definition pump_step :: "'a demux_config \<Rightarrow> net \<Rightarrow> 'a pump_event \<Rightarrow> pump
    \<Rightarrow> pump \<times> (demux_error, demux_stats) result option" where
  "pump_step cfg net ev p =
     (case ev of
        TlsTimeout \<Rightarrow> (p, Some (Inl (IdleTimeoutErr (idle_timeout cfg))))
      | TlsReadError e \<Rightarrow> (p, Some (Inl (TlsIo e)))
      | TlsRead chunk \<Rightarrow>
          if chunk = []
          then (p, Some (Inr \<lparr>st_frames_in = frames_in p, st_frames_out = frames_out p\<rparr>))
          else (case drain net (p\<lparr>tls_read_buf := tls_read_buf p @ chunk\<rparr>) of
                  (p', Some e) \<Rightarrow> (p', Some (Inl e))
                | (p', None) \<Rightarrow> (p', None))
      | UdpTimeout \<Rightarrow> (p, Some (Inl (IdleTimeoutErr (idle_timeout cfg))))
      | UdpRecvError e \<Rightarrow> (p, Some (Inl (UdpIo e)))
      | UdpRecv datagram from_addr \<Rightarrow>
          if from_addr \<noteq> nebula_addr cfg then (p, None)
          else
            (case encode_frame (take MAX_FRAME_SIZE datagram) [] of
               Inl e \<Rightarrow> (p, Some (Inl (Framing e)))
             | Inr (out, n) \<Rightarrow>
                 (case tls_write net out of
                    Some e \<Rightarrow> (p, Some (Inl (TlsIo e)))
                  | None \<Rightarrow> (p\<lparr>to_tls := to_tls p @ out, frames_out := frames_out p + 1\<rparr>, None))))"

fun pump_run :: "'a demux_config \<Rightarrow> net \<Rightarrow> 'a pump_event list \<Rightarrow> pump
    \<Rightarrow> pump \<times> (demux_error, demux_stats) result option" where
  "pump_run cfg net [] p = (p, None)"
| "pump_run cfg net (ev # evs) p =
     (case pump_step cfg net ev p of
        (p', Some r) \<Rightarrow> (p', Some r)
      | (p', None) \<Rightarrow> pump_run cfg net evs p')"

section \<open>Frames round trip\<close>

lemma be_bytes_inverse: "from_be_bytes (ucast (drop_bit 24 w)) (ucast (drop_bit 16 w)) (ucast (drop_bit 8 w)) (ucast w) = w"
proof -
  define n where "n = unat w"
  have n: "n < 2 ^ 32" using unsigned_less [of w, where 'a=nat] by (simp add: n_def)
  have d: "unat (drop_bit k w) = n div 2 ^ k" for k
    using n by (simp add: n_def unsigned_drop_bit_eq drop_bit_eq_div [where 'a=nat] take_bit_nat_eq_self)
  have u: "unat (ucast (drop_bit k w) :: u8) = n div 2 ^ k mod 256" for k
    by (simp add: unsigned_ucast_eq d take_bit_eq_mod)
  have "n div 256 = 256 * (n div 65536) + n div 256 mod 256"
    "n div 65536 = 256 * (n div 16777216) + n div 65536 mod 256"
    using mult_div_mod_eq [of 256 "n div 256"] mult_div_mod_eq [of 256 "n div 65536"]
    by (simp_all add: div_mult2_eq [symmetric])
  moreover have "n = 256 * (n div 256) + n mod 256" by simp
  moreover have "n div 16777216 mod 256 = n div 16777216" using n by simp
  ultimately have "n div 16777216 mod 256 * 16777216 + n div 65536 mod 256 * 65536
      + n div 256 mod 256 * 256 + n mod 256 = n"
    by linarith
  then show ?thesis
    using u [of 24] u [of 16] u [of 8] u [of 0] by (simp add: from_be_bytes_def n_def)
qed

lemma to_be_bytes_length [simp]: "length (to_be_bytes w) = 4"
  by (simp add: to_be_bytes_def)

lemma decode_header:
  "from_be_bytes ((to_be_bytes w @ xs) ! 0) ((to_be_bytes w @ xs) ! 1) ((to_be_bytes w @ xs) ! 2)
     ((to_be_bytes w @ xs) ! 3) = w"
  by (simp add: to_be_bytes_def be_bytes_inverse numeral_3_eq_3 numeral_2_eq_2)

definition frame :: "u8 list \<Rightarrow> u8 list" where
  "frame p = to_be_bytes (of_nat (length p)) @ p"

lemma frame_length: "length (frame p) = HEADER_LEN + length p"
  by (simp add: frame_def HEADER_LEN_def)

lemma unat_len: "length p \<le> MAX_FRAME_SIZE \<Longrightarrow> unat (of_nat (length p) :: u32) = length p"
  by (simp add: MAX_FRAME_SIZE_def unat_of_nat)

lemma decode_frame_append:
  "length p \<le> MAX_FRAME_SIZE \<Longrightarrow> decode_frame (frame p @ rest) = Inr (Some (p, rest))"
  unfolding decode_frame_Some frame_def append_assoc decode_header Let_def
  by (simp add: unat_len HEADER_LEN_def)

lemma header_take:
  "4 \<le> n \<Longrightarrow> i < 4 \<Longrightarrow> n \<le> length xs \<Longrightarrow> take n xs ! i = xs ! i"
  by simp

lemma decode_frame_partial:
  assumes "length p \<le> MAX_FRAME_SIZE" "n < length (frame p)"
  shows "decode_frame (take n (frame p)) = Inr None"
proof (cases "n < HEADER_LEN")
  case False
  then have n: "4 \<le> n" by (simp add: HEADER_LEN_def)
  let ?b = "take n (frame p)"
  have "from_be_bytes (?b ! 0) (?b ! 1) (?b ! 2) (?b ! 3) = of_nat (length p)"
    using n assms(2) decode_header [of "of_nat (length p)" "take (n - 4) p"] by (simp add: frame_def)
  with assms n show ?thesis
    unfolding decode_frame_def Let_def by (simp add: unat_len HEADER_LEN_def frame_length)
qed (simp add: decode_frame_def min_def)

text \<open>Exactly the payloads of at most 1408 bytes are encoded, as a four-byte length and the
  bytes; the decoder takes such a frame off the front of any buffer and leaves the rest, and asks
  for more on every proper beginning of one.\<close>

theorem frame_roundtrip:
  "(if length p \<le> MAX_FRAME_SIZE
    then encode_frame p out = Inr (out @ frame p, length (frame p))
      \<and> decode_frame (frame p @ rest) = Inr (Some (p, rest))
      \<and> (n < length (frame p) \<longrightarrow> decode_frame (take n (frame p)) = Inr None)
    else encode_frame p out = Inl (Oversized (length p)))"
  using decode_frame_partial [of p n]
  by (simp add: encode_frame_def decode_frame_append frame_length) (simp add: frame_def)

theorem frame_roundtrip_witness:
  "decode_frame (frame [7, 8] @ [9]) = Inr (Some ([7, 8], [9])) \<and> decode_frame (take 5 (frame [7, 8])) = Inr None"
  using frame_roundtrip [of "[7, 8]" "[]" "[9]" 5] by (simp add: MAX_FRAME_SIZE_def frame_length HEADER_LEN_def)

section \<open>The stream\<close>

text \<open>A complete frame stays one, and an oversized header too, when more bytes arrive.\<close>

lemma decode_frame_more:
  "decode_frame buf = Inr (Some (f, r)) \<Longrightarrow> decode_frame (buf @ c) = Inr (Some (f, r @ c))"
  by (auto simp: decode_frame_Some Let_def HEADER_LEN_def nth_append)

definition all_sent :: net where
  "all_sent = \<lparr>udp_send = (\<lambda>_. None), tls_write = (\<lambda>_. None)\<rparr>"

text \<open>The state after \<open>fs\<close> more frames have been delivered and \<open>buf\<close> is left over.\<close>

definition delivered :: "u8 list list \<Rightarrow> u8 list \<Rightarrow> pump \<Rightarrow> pump" where
  "delivered fs buf p = p\<lparr>tls_read_buf := buf, to_nebula := to_nebula p @ fs,
     frames_in := frames_in p + of_nat (length fs)\<rparr>"

lemma drain_Cons:
  "decode_frame (tls_read_buf p) = Inr (Some (f, rest)) \<Longrightarrow> drain all_sent p = drain all_sent (delivered [f] rest p)"
  by (subst drain.simps) (simp add: all_sent_def delivered_def)

lemma drain_frames:
  "list_all (\<lambda>f. length f \<le> MAX_FRAME_SIZE) fs \<Longrightarrow> decode_frame tail = Inr None \<Longrightarrow>
     tls_read_buf p = concat (map frame fs) @ tail \<Longrightarrow>
     drain all_sent p = (delivered fs tail p, None)"
proof (induction fs arbitrary: p)
  case Nil
  then show ?case by (subst drain.simps) (simp add: delivered_def)
next
  case (Cons f fs)
  have "drain all_sent p = drain all_sent (delivered [f] (concat (map frame fs) @ tail) p)"
    by (rule drain_Cons) (use Cons.prems decode_frame_append [of f] in simp)
  also have "\<dots> = (delivered fs tail (delivered [f] (concat (map frame fs) @ tail) p), None)"
    by (rule Cons.IH) (use Cons.prems in \<open>simp_all add: delivered_def\<close>)
  finally show ?case by (simp add: delivered_def)
qed

text \<open>Every beginning of a sequence of frames is some of the frames and a beginning of the
  next.\<close>

lemma prefix_of_frames:
  "list_all (\<lambda>f. length f \<le> MAX_FRAME_SIZE) fs \<Longrightarrow> concat (map frame fs) = xs @ ys \<Longrightarrow>
     \<exists>gs hs tail. fs = gs @ hs \<and> xs = concat (map frame gs) @ tail \<and> decode_frame tail = Inr None
       \<and> tail @ ys = concat (map frame hs)"
proof (induction fs arbitrary: xs)
  case Nil
  then show ?case by (intro exI [of _ "[]"]) (simp add: decode_frame_def HEADER_LEN_def)
next
  case (Cons f fs)
  from Cons.prems(2) have "frame f @ concat (map frame fs) = xs @ ys" by simp
  then consider us where "frame f = xs @ us" "us @ concat (map frame fs) = ys" "us \<noteq> []"
    | us where "xs = frame f @ us" "concat (map frame fs) = us @ ys"
    unfolding append_eq_append_conv2 by (metis append_Nil append_Nil2)
  then show ?case
  proof cases
    case 1
    then have "xs = take (length xs) (frame f)" "length xs < length (frame f)" by simp_all
    then have "decode_frame xs = Inr None"
      using decode_frame_partial [of f "length xs"] Cons.prems(1) by simp
    with 1 show ?thesis by (intro exI [of _ "[]"] exI [of _ "f # fs"] exI [of _ xs]) auto
  next
    case 2
    from Cons.IH [OF _ 2(2)] Cons.prems(1) obtain gs hs tail where
      "fs = gs @ hs" "us = concat (map frame gs) @ tail"
      "decode_frame tail = Inr None" "tail @ ys = concat (map frame hs)" by auto
    then show ?thesis by (intro exI [of _ "f # gs"] exI [of _ hs] exI [of _ tail]) (use 2 in simp)
  qed
qed

text \<open>Reading a sequence of frames in any chunks.\<close>

lemma reads_deliver:
  "list_all (\<lambda>f. length f \<le> MAX_FRAME_SIZE) fs \<Longrightarrow> list_all (\<lambda>c. c \<noteq> []) cs \<Longrightarrow>
     tls_read_buf p @ concat cs = concat (map frame fs) \<Longrightarrow> decode_frame (tls_read_buf p) = Inr None \<Longrightarrow>
     pump_run cfg all_sent (map TlsRead cs) p = (delivered fs [] p, None)"
proof (induction cs arbitrary: p fs)
  case Nil
  have "fs = []"
  proof (rule ccontr)
    assume "fs \<noteq> []"
    then obtain f gs where "fs = f # gs" by (cases fs) auto
    with Nil decode_frame_append [of f "concat (map frame gs)"] show False by auto
  qed
  with Nil show ?case by (simp add: delivered_def)
next
  case (Cons c cs)
  from prefix_of_frames [OF Cons.prems(1), of "tls_read_buf p @ c" "concat cs"] Cons.prems(3)
  obtain gs hs tail where g: "fs = gs @ hs" "tls_read_buf p @ c = concat (map frame gs) @ tail"
    "decode_frame tail = Inr None" "tail @ concat cs = concat (map frame hs)" by auto
  let ?p = "delivered gs tail p"
  have "drain all_sent (p\<lparr>tls_read_buf := tls_read_buf p @ c\<rparr>)
      = (delivered gs tail (p\<lparr>tls_read_buf := tls_read_buf p @ c\<rparr>), None)"
    by (rule drain_frames) (use Cons.prems(1) g in simp_all)
  then have "pump_step cfg all_sent (TlsRead c) p = (?p, None)"
    using Cons.prems(2) by (simp add: pump_step_def delivered_def)
  moreover have "pump_run cfg all_sent (map TlsRead cs) ?p = (delivered hs [] ?p, None)"
    by (rule Cons.IH) (use Cons.prems g in \<open>simp_all add: delivered_def\<close>)
  ultimately show ?case by (simp add: g(1) delivered_def)
qed

lemma delivered_frames:
  "tls_read_buf (delivered fs b p) = b" "to_nebula (delivered fs b p) = to_nebula p @ fs"
  "frames_in (delivered fs b p) = frames_in p + of_nat (length fs)"
  "frames_out (delivered fs b p) = frames_out p" "to_tls (delivered fs b p) = to_tls p"
  by (simp_all add: delivered_def)

lemma sends_encode:
  "list_all (\<lambda>f. length f \<le> MAX_FRAME_SIZE) fs \<Longrightarrow>
     pump_run cfg all_sent (map (\<lambda>f. UdpRecv f (nebula_addr cfg)) fs) p =
       (p\<lparr>to_tls := to_tls p @ concat (map frame fs), frames_out := frames_out p + of_nat (length fs)\<rparr>, None)"
proof (induction fs arbitrary: p)
  case (Cons f fs)
  then have "encode_frame (take MAX_FRAME_SIZE f) [] = Inr (frame f, length (frame f))"
    by (simp add: encode_frame_def frame_length) (simp add: frame_def)
  with Cons show ?case by (simp add: pump_step_def all_sent_def add.assoc add.commute)
qed simp

text \<open>C18. What one end's Nebula hands to the tunnel, the other end's receives: the pump of one end
  turns any datagrams of at most 1408 bytes into bytes of the stream, and however the network cuts
  these bytes into reads, the pump of the other end sends on exactly the datagrams, in order, each
  once, keeps nothing back, and both ends count the same number of frames.\<close>

theorem tunnel_delivers:
  assumes "list_all (\<lambda>f. length f \<le> MAX_FRAME_SIZE) fs" and "list_all (\<lambda>c. c \<noteq> []) cs"
    and "concat cs = to_tls (fst (pump_run a all_sent (map (\<lambda>f. UdpRecv f (nebula_addr a)) fs) pump_new))"
  shows "let (q, res) = pump_run b all_sent (map TlsRead cs) pump_new in
     res = None \<and> to_nebula q = fs \<and> tls_read_buf q = []
     \<and> frames_in q = frames_out (fst (pump_run a all_sent (map (\<lambda>f. UdpRecv f (nebula_addr a)) fs) pump_new))"
proof -
  have "pump_run b all_sent (map TlsRead cs) pump_new = (delivered fs [] pump_new, None)"
    by (rule reads_deliver) (use assms in \<open>simp_all add: sends_encode [OF assms(1)] pump_new_def
        decode_frame_def HEADER_LEN_def\<close>)
  then show ?thesis by (simp add: delivered_frames sends_encode [OF assms(1)] pump_new_def)
qed

theorem tunnel_delivers_witness:
  "to_nebula (fst (pump_run \<lparr>nebula_addr = (), idle_timeout = 120\<rparr> all_sent
      (map TlsRead [[0, 0], [0, 1, 7, 0, 0, 0], [0, 0, 0], [0, 2, 8], [9]]) pump_new)) = [[7], [], [8, 9]]"
proof -
  let ?a = "\<lparr>nebula_addr = (), idle_timeout = 120\<rparr>"
  let ?cs = "[[0, 0], [0, 1, 7, 0, 0, 0], [0, 0, 0], [0, 2, 8], [9]] :: u8 list list"
  let ?fs = "[[7], [], [8, 9]] :: u8 list list"
  have l: "list_all (\<lambda>f. length f \<le> MAX_FRAME_SIZE) ?fs" "list_all (\<lambda>c. c \<noteq> []) ?cs"
    by (simp_all add: MAX_FRAME_SIZE_def)
  have "concat ?cs = to_tls (fst (pump_run ?a all_sent (map (\<lambda>f. UdpRecv f (nebula_addr ?a)) ?fs) pump_new))"
    unfolding sends_encode [OF l(1)] by (simp add: pump_new_def frame_def to_be_bytes_def)
  from tunnel_delivers [OF l this, of ?a] show ?thesis
    by (simp only: Let_def split_beta)
qed

section \<open>Bounds and hostile input\<close>

lemma drain_bound:
  "drain net p = (p', None) \<Longrightarrow> length (tls_read_buf p') < HEADER_LEN + MAX_FRAME_SIZE"
proof (induction net p rule: drain.induct)
  case (1 net p)
  show ?case
  proof (cases "decode_frame (tls_read_buf p)")
    case (Inl e)
    with "1.prems" show ?thesis by (subst (asm) drain.simps) simp
  next
    case (Inr res)
    show ?thesis
    proof (cases res)
      case None
      with Inr have "decode_frame (tls_read_buf p) = Inr None" by simp
      then have "length (tls_read_buf p) < HEADER_LEN + MAX_FRAME_SIZE"
        by (auto simp: decode_frame_def Let_def not_less split: if_splits)
      with "1.prems" Inr None show ?thesis by (subst (asm) drain.simps) simp
    next
      case (Some fr)
      obtain f r where fr: "fr = (f, r)" by (cases fr)
      with "1.prems" Inr Some have s: "udp_send net f = None" "drain net
          (p\<lparr>tls_read_buf := r, to_nebula := to_nebula p @ [f], frames_in := frames_in p + 1\<rparr>) = (p', None)"
        by (subst (asm) drain.simps, simp split: option.splits)+
      from "1.IH" [OF Inr Some fr [symmetric] s(1) s(2)] show ?thesis .
    qed
  qed
qed

text \<open>Whatever arrives, the bytes kept between two rounds are fewer than one header and one
  largest frame; a datagram from any other local address than Nebula's changes nothing, and a
  header that announces more than 1408 bytes ends the stream with a framing error.\<close>

theorem pump_is_bounded:
  assumes "length (tls_read_buf p) < HEADER_LEN + MAX_FRAME_SIZE"
  shows "(snd (pump_run cfg net evs p) = None \<longrightarrow>
       length (tls_read_buf (fst (pump_run cfg net evs p))) < HEADER_LEN + MAX_FRAME_SIZE)
    \<and> (x \<noteq> nebula_addr cfg \<longrightarrow> pump_step cfg net (UdpRecv d x) p = (p, None))
    \<and> (tls_read_buf p @ c = to_be_bytes w @ rest \<longrightarrow> c \<noteq> [] \<longrightarrow> MAX_FRAME_SIZE < unat w \<longrightarrow>
         snd (pump_step cfg net (TlsRead c) p) = Some (Inl (Framing (Oversized (unat w)))))"
proof (intro conjI impI)
  have step: "length (tls_read_buf q') < HEADER_LEN + MAX_FRAME_SIZE"
    if "pump_step cfg net ev q = (q', None)" "length (tls_read_buf q) < HEADER_LEN + MAX_FRAME_SIZE" for ev q q'
    using that by (auto simp: pump_step_def dest: drain_bound split: pump_event.splits if_splits
        sum.splits option.splits prod.splits)
  have "length (tls_read_buf (fst (pump_run cfg net es q))) < HEADER_LEN + MAX_FRAME_SIZE"
    if "snd (pump_run cfg net es q) = None" "length (tls_read_buf q) < HEADER_LEN + MAX_FRAME_SIZE" for es q
    using that
  proof (induction es arbitrary: q)
    case (Cons ev es)
    then show ?case using step [of ev q] by (auto split: prod.splits option.splits)
  qed simp
  then show "snd (pump_run cfg net evs p) = None \<Longrightarrow>
      length (tls_read_buf (fst (pump_run cfg net evs p))) < HEADER_LEN + MAX_FRAME_SIZE"
    using assms by blast
  assume c: "tls_read_buf p @ c = to_be_bytes w @ rest" "c \<noteq> []" "MAX_FRAME_SIZE < unat w"
  have "decode_frame (to_be_bytes w @ rest) = Inl (Oversized (unat w))"
    unfolding decode_frame_def Let_def decode_header using c(3) by (simp add: HEADER_LEN_def)
  then show "snd (pump_step cfg net (TlsRead c) p) = Some (Inl (Framing (Oversized (unat w))))"
    using c(2) by (simp add: pump_step_def c(1) drain.simps)
qed (simp add: pump_step_def)

theorem pump_is_bounded_witness:
  "snd (pump_step \<lparr>nebula_addr = (), idle_timeout = 120\<rparr> all_sent (TlsRead [0, 0, 6, 0]) pump_new)
     = Some (Inl (Framing (Oversized 1536)))"
  using pump_is_bounded [where p = pump_new and cfg = "\<lparr>nebula_addr = (), idle_timeout = 120\<rparr>"
      and net = all_sent and c = "[0, 0, 6, 0]" and w = 1536 and rest = "[]"]
  by (simp add: pump_new_def HEADER_LEN_def MAX_FRAME_SIZE_def to_be_bytes_def)

end
