(* ===== verification/TopologyPlan.thy ===== *)
theory TopologyPlan
  imports MeshTransport
begin

text \<open>
  The topology calculation (\<open>crates/mesh/mackesd/src/topology/mod.rs\<close>) and the
  reconciliation planner that works on its diffs (\<open>crates/mesh/mackesd/src/reconcile/mod.rs\<close>).
  A \<open>BTreeSet\<close> of edges is a finite set iterated in ascending order; the routes are
  ordered maps.
\<close>

section \<open>Nodes, edges and snapshots\<close>

record node =
  node_id :: string
  region :: string
  healthy :: bool
  is_host :: bool

datatype edge_kind = ENebulaDirect | ENebulaLighthouseRelay | ENebulaHttps443 | EKdcTls

fun edge_kind_of :: "transport_kind \<Rightarrow> edge_kind" where
  "edge_kind_of NebulaDirect = ENebulaDirect"
| "edge_kind_of NebulaLighthouseRelay = ENebulaLighthouseRelay"
| "edge_kind_of NebulaHttps443 = ENebulaHttps443"
| "edge_kind_of KdcTls = EKdcTls"

record edge =
  edge_a :: string
  edge_b :: string
  edge_kind :: edge_kind

fun kind_index :: "edge_kind \<Rightarrow> nat" where
  "kind_index ENebulaDirect = 0"
| "kind_index ENebulaLighthouseRelay = 1"
| "kind_index ENebulaHttps443 = 2"
| "kind_index EKdcTls = 3"

lemma kind_index_inj: "kind_index a = kind_index b \<longleftrightarrow> a = b"
  by (cases a; cases b) simp_all

definition edge_key :: "('a::linorder) edge_scheme \<Rightarrow> string \<times> string \<times> nat \<times> 'a" where
  "edge_key e = (edge_a e, edge_b e, kind_index (edge_kind e), edge.more e)"

lemma edge_key_inj: "edge_key a = edge_key b \<Longrightarrow> a = b"
  by (cases a; cases b) (auto simp: edge_key_def kind_index_inj)

text \<open>The derived order: the fields in declaration order, the kind by its discriminant.\<close>

instantiation edge_ext :: (linorder) linorder
begin

definition less_eq_edge_ext :: "'a edge_scheme \<Rightarrow> 'a edge_scheme \<Rightarrow> bool" where
  "less_eq_edge_ext a b = (edge_key a \<le> edge_key b)"

definition less_edge_ext :: "'a edge_scheme \<Rightarrow> 'a edge_scheme \<Rightarrow> bool" where
  "less_edge_ext a b = (edge_key a < edge_key b)"

instance
  by standard (auto simp: less_eq_edge_ext_def less_edge_ext_def dest: edge_key_inj)

end

record desired_snapshot =
  nodes :: "node list"
  allow_east_west :: "(string \<times> string) list"
  settings_keys :: "(string \<times> string) list"

record topology_snapshot =
  edges :: "edge set"
  routes :: "(string, (string, string) omap) omap"

section \<open>The calculation\<close>

definition east_west_allowed :: "desired_snapshot \<Rightarrow> string \<Rightarrow> string \<Rightarrow> bool" where
  "east_west_allowed s ra rb =
     (if allow_east_west s = [] then True
      else list_ex (\<lambda>(x, y). x = ra \<and> y = rb \<or> x = rb \<and> y = ra) (allow_east_west s))"

definition order_pair :: "string \<Rightarrow> string \<Rightarrow> string \<times> string" where
  "order_pair a b = (if a \<le> b then (a, b) else (b, a))"

definition direct_edge :: "string \<Rightarrow> string \<Rightarrow> edge" where
  "direct_edge a b =
     (let (lo, hi) = order_pair a b in \<lparr>edge_a = lo, edge_b = hi, edge_kind = ENebulaDirect\<rparr>)"

definition healthy_nodes :: "desired_snapshot \<Rightarrow> node list" where
  "healthy_nodes s = filter healthy (nodes s)"

fun pair_edges :: "desired_snapshot \<Rightarrow> node list \<Rightarrow> edge set \<Rightarrow> edge set" where
  "pair_edges s [] E = E"
| "pair_edges s (a # rest) E =
     pair_edges s rest
       (fold (\<lambda>b E. if \<not> east_west_allowed s (region a) (region b) then E
                    else insert (direct_edge (node_id a) (node_id b)) E) rest E)"

definition first_host :: "node list \<Rightarrow> string option" where
  "first_host hs = map_option node_id (find is_host hs)"

definition next_hop :: "edge set \<Rightarrow> string option \<Rightarrow> string \<Rightarrow> string \<Rightarrow> string" where
  "next_hop E host a b =
     (if direct_edge a b \<in> E then [] else (case host of Some h \<Rightarrow> h | None \<Rightarrow> []))"

definition route_table :: "edge set \<Rightarrow> string option \<Rightarrow> node list \<Rightarrow> node \<Rightarrow> (string, string) omap" where
  "route_table E host hs n =
     fold (\<lambda>m t. if node_id m = node_id n then t
                 else om_put (node_id m) (next_hop E host (node_id n) (node_id m)) t) hs om_empty"

definition calculate :: "desired_snapshot \<Rightarrow> topology_snapshot" where
  "calculate s =
     (let hs = healthy_nodes s; E = pair_edges s hs {}; host = first_host hs in
      \<lparr>edges = E,
       routes = fold (\<lambda>n r. om_put (node_id n) (route_table E host hs n) r) hs om_empty\<rparr>)"

section \<open>Diffs and path ranking\<close>

record topology_diff =
  missing :: "edge set"
  extra :: "edge set"
  healthy_edges :: "edge set"

definition topo_diff :: "topology_snapshot \<Rightarrow> topology_snapshot \<Rightarrow> topology_diff" where
  "topo_diff desired actual =
     \<lparr>missing = edges desired - edges actual, extra = edges actual - edges desired,
      healthy_edges = edges desired \<inter> edges actual\<rparr>"

datatype ordering = Less | Equal | Greater

definition cmp_u32 :: "u32 \<Rightarrow> u32 \<Rightarrow> ordering" where
  "cmp_u32 a b = (if a < b then Less else if a = b then Equal else Greater)"

definition rank_paths :: "bool \<Rightarrow> u32 option \<Rightarrow> bool \<Rightarrow> u32 option \<Rightarrow> ordering" where
  "rank_paths a_healthy a_rtt b_healthy b_rtt =
     (if a_healthy \<noteq> b_healthy then (if a_healthy then Less else Greater)
      else (case (a_rtt, b_rtt) of
              (Some a, Some b) \<Rightarrow> cmp_u32 a b
            | (Some _, None) \<Rightarrow> Less
            | (None, Some _) \<Rightarrow> Greater
            | (None, None) \<Rightarrow> Equal))"

section \<open>Drift and the tick plan\<close>

datatype drift_severity = AutoRepairable | ManualReview

record drift_row =
  severity :: drift_severity
  detector :: string
  reason :: string

text \<open>The UTF-8 bytes of the two-headed arrow between the peers.\<close>

definition arrow :: string where
  "arrow = map char_of [226, 134, 148 :: nat]"

definition missing_row :: "edge \<Rightarrow> drift_row" where
  "missing_row e = \<lparr>severity = AutoRepairable, detector = ''topology'',
     reason = ''desired peer adjacency ['' @ edge_a e @ '' '' @ arrow @ '' '' @ edge_b e @
       ''] missing in observed_telemetry''\<rparr>"

definition extra_row :: "edge \<Rightarrow> drift_row" where
  "extra_row e = \<lparr>severity = ManualReview, detector = ''topology'',
     reason = ''observed peer adjacency ['' @ edge_a e @ '' '' @ arrow @ '' '' @ edge_b e @
       ''] not in desired_config''\<rparr>"

definition detect_drift :: "topology_diff \<Rightarrow> drift_row list" where
  "detect_drift d =
     map missing_row (sorted_list_of_set (missing d)) @ map extra_row (sorted_list_of_set (extra d))"

definition should_auto_repair :: "drift_row \<Rightarrow> bool \<Rightarrow> bool" where
  "should_auto_repair row enabled = (severity row = AutoRepairable \<and> enabled)"

record tick_plan =
  repair_now :: "drift_row list"
  inbox :: "drift_row list"

definition plan_tick :: "topology_diff \<Rightarrow> bool \<Rightarrow> tick_plan" where
  "plan_tick d enabled =
     fold (\<lambda>row plan.
         if should_auto_repair row enabled then plan\<lparr>repair_now := repair_now plan @ [row]\<rparr>
         else plan\<lparr>inbox := inbox plan @ [row]\<rparr>)
       (detect_drift d) \<lparr>repair_now = [], inbox = []\<rparr>"

section \<open>The lifecycle of a change and the retry delay\<close>

datatype lifecycle_state =
  Draft | Validated | Approved | Deploying | Applied | Verified | FailedValidation | RolledBack

definition TRANSITIONS :: "(lifecycle_state \<times> lifecycle_state) list" where
  "TRANSITIONS =
     [(Draft, Validated), (Draft, FailedValidation), (Validated, Approved), (Approved, Deploying),
      (Deploying, Applied), (Deploying, RolledBack), (Applied, Verified)]"

definition is_legal_transition :: "lifecycle_state \<Rightarrow> lifecycle_state \<Rightarrow> bool" where
  "is_legal_transition x y = list_ex (\<lambda>(f, t). f = x \<and> t = y) TRANSITIONS"

text \<open>\<open>checked_shl\<close> is \<open>None\<close> when the shift is not below the width; otherwise bits
  shifted out are lost.\<close>

definition checked_shl_u64 :: "u64 \<Rightarrow> u32 \<Rightarrow> u64 option" where
  "checked_shl_u64 w n = (if unat n < 64 then Some (push_bit (unat n) w) else None)"

definition backoff_secs :: "u32 \<Rightarrow> u64" where
  "backoff_secs attempt =
     (if attempt = 0 then 0
      else min (case checked_shl_u64 1 (sat_sub attempt 1) of Some v \<Rightarrow> v | None \<Rightarrow> 60) 60)"

section \<open>What the calculation computes\<close>

lemma direct_edge_sym: "direct_edge a b = direct_edge b a"
  by (auto simp: direct_edge_def order_pair_def)

lemma direct_edge_inj:
  "direct_edge a b = direct_edge c d \<longleftrightarrow> a = c \<and> b = d \<or> a = d \<and> b = c"
  by (auto simp: direct_edge_def order_pair_def)

lemma allowed_sym: "east_west_allowed s a b = east_west_allowed s b a"
  by (auto simp: east_west_allowed_def list_ex_iff)

lemma fold_edges:
  "fold (\<lambda>b E. if \<not> P b then E else insert (f b) E) bs E = E \<union> f ` {b \<in> set bs. P b}"
  by (induction bs arbitrary: E) auto

definition adjacent :: "desired_snapshot \<Rightarrow> node \<Rightarrow> node \<Rightarrow> bool" where
  "adjacent s a b = east_west_allowed s (region a) (region b)"

lemma pair_edges_eq:
  "distinct hs \<Longrightarrow> pair_edges s hs E = E \<union>
     {direct_edge (node_id a) (node_id b) | a b. a \<in> set hs \<and> b \<in> set hs \<and> a \<noteq> b \<and> adjacent s a b}"
proof (induction hs arbitrary: E)
  case (Cons x hs)
  let ?D = "\<lambda>H. {direct_edge (node_id a) (node_id b) | a b. a \<in> H \<and> b \<in> H \<and> a \<noteq> b \<and> adjacent s a b}"
  let ?I = "(\<lambda>b. direct_edge (node_id x) (node_id b)) ` {b \<in> set hs. adjacent s x b}"
  have "pair_edges s (x # hs) E = E \<union> ?I \<union> ?D (set hs)"
    using Cons by (simp add: fold_edges adjacent_def)
  also have "\<dots> = E \<union> ?D (set (x # hs))"
  proof -
    have x: "x \<notin> set hs" using Cons.prems by simp
    have "e \<in> ?I \<union> ?D (set hs) \<longleftrightarrow> e \<in> ?D (set (x # hs))" (is "_ \<longleftrightarrow> ?r") for e
    proof
      assume ?r
      then obtain a b where ab: "e = direct_edge (node_id a) (node_id b)" "a \<in> set (x # hs)"
        "b \<in> set (x # hs)" "a \<noteq> b" "adjacent s a b" by blast
      consider "a = x" "b \<in> set hs" | "b = x" "a \<in> set hs" | "a \<in> set hs" "b \<in> set hs"
        using ab(2-4) by auto
      then show "e \<in> ?I \<union> ?D (set hs)"
      proof cases
        case 2
        then have "e = direct_edge (node_id x) (node_id a)" "adjacent s x a"
          using ab direct_edge_sym allowed_sym by (auto simp: adjacent_def)
        with 2 show ?thesis by blast
      qed (use ab in blast)+
    next
      assume "e \<in> ?I \<union> ?D (set hs)"
      then show ?r
      proof
        assume "e \<in> ?I"
        then obtain b where "e = direct_edge (node_id x) (node_id b)" "b \<in> set hs" "adjacent s x b" by blast
        moreover from this x have "x \<noteq> b" by blast
        ultimately show ?r by (intro CollectI exI [of _ x] exI [of _ b]) simp
      next
        assume "e \<in> ?D (set hs)"
        then show ?r by auto
      qed
    qed
    then show ?thesis by blast
  qed
  finally show ?case .
qed simp

lemma distinct_healthy: "distinct (map node_id (nodes s)) \<Longrightarrow> distinct (map node_id (healthy_nodes s))"
  by (simp add: healthy_nodes_def distinct_map_filter)

lemma distinct_nodes: "distinct (map node_id hs) \<Longrightarrow> distinct hs"
  by (simp add: distinct_map)

lemma calculate_edges:
  "distinct (map node_id (nodes s)) \<Longrightarrow> edges (calculate s) =
     {direct_edge (node_id a) (node_id b) | a b. a \<in> set (nodes s) \<and> b \<in> set (nodes s) \<and>
        healthy a \<and> healthy b \<and> a \<noteq> b \<and> adjacent s a b}"
  using pair_edges_eq [of "healthy_nodes s" s "{}"] distinct_healthy [of s]
  by (auto simp: calculate_def Let_def healthy_nodes_def dest: distinct_nodes)

lemma fold_put:
  "distinct (map f xs) \<Longrightarrow> om_get (fold (\<lambda>x t. if P x then om_put (f x) (g x) t else t) xs m) k =
     (case find (\<lambda>x. f x = k \<and> P x) xs of Some x \<Rightarrow> Some (g x) | None \<Rightarrow> om_get m k)"
proof (induction xs arbitrary: m)
  case (Cons x xs)
  have "find (\<lambda>y. f y = k \<and> P y) xs = None" if "f x = k"
    using Cons.prems that by (auto simp: find_None_iff image_iff)
  with Cons show ?case by (auto simp: om_get_put split: option.splits)
qed simp

lemma find_unique:
  "distinct (map f xs) \<Longrightarrow> x \<in> set xs \<Longrightarrow> f x = k \<Longrightarrow> P x \<Longrightarrow> find (\<lambda>x. f x = k \<and> P x) xs = Some x"
  by (induction xs) auto

lemma calculate_route:
  assumes d: "distinct (map node_id (nodes s))"
    and a: "a \<in> set (nodes s)" "healthy a" and b: "b \<in> set (nodes s)" "healthy b"
  shows "\<exists>t. om_get (routes (calculate s)) (node_id a) = Some t \<and>
    om_get t (node_id b) = (if a = b then None
      else Some (next_hop (edges (calculate s)) (first_host (healthy_nodes s)) (node_id a) (node_id b)))"
proof -
  let ?hs = "healthy_nodes s" and ?E = "edges (calculate s)"
  note dh = distinct_healthy [OF d]
  have in_hs: "a \<in> set ?hs" "b \<in> set ?hs" using a b by (simp_all add: healthy_nodes_def)
  have "om_get (routes (calculate s)) (node_id a) = Some (route_table ?E (first_host ?hs) ?hs a)"
  proof -
    have r: "routes (calculate s) = fold (\<lambda>n r. if True
        then om_put (node_id n) (route_table ?E (first_host ?hs) ?hs n) r else r) ?hs om_empty"
      by (simp add: calculate_def Let_def)
    show ?thesis
      unfolding r fold_put [OF dh] using find_unique [OF dh in_hs(1), of "node_id a" "\<lambda>_. True"] by simp
  qed
  moreover have "om_get (route_table ?E (first_host ?hs) ?hs a) (node_id b) =
      (if a = b then None else Some (next_hop ?E (first_host ?hs) (node_id a) (node_id b)))"
  proof -
    have fold_eq: "route_table ?E (first_host ?hs) ?hs a = fold (\<lambda>m t. if node_id m \<noteq> node_id a
        then om_put (node_id m) (next_hop ?E (first_host ?hs) (node_id a) (node_id m)) t else t) ?hs om_empty"
      unfolding route_table_def by (rule arg_cong2 [where f = "\<lambda>f. fold f ?hs"]) (auto simp: fun_eq_iff)
    have ne: "a \<noteq> b \<Longrightarrow> node_id b \<noteq> node_id a"
      using d a(1) b(1) by (auto simp: distinct_map inj_on_def)
    show ?thesis
    proof (cases "a = b")
      case True
      have "find (\<lambda>x. node_id x = node_id b \<and> node_id x \<noteq> node_id a) ?hs = None"
        using True by (simp add: find_None_iff)
      with True show ?thesis unfolding fold_eq fold_put [OF dh] by simp
    next
      case False
      with ne find_unique [OF dh in_hs(2), of "node_id b" "\<lambda>x. node_id x \<noteq> node_id a"]
      show ?thesis unfolding fold_eq fold_put [OF dh] by simp
    qed
  qed
  ultimately show ?thesis by blast
qed


definition lan :: desired_snapshot where
  "lan = \<lparr>nodes = [\<lparr>node_id = ''a'', region = ''x'', healthy = True, is_host = False\<rparr>,
       \<lparr>node_id = ''b'', region = ''y'', healthy = True, is_host = False\<rparr>,
       \<lparr>node_id = ''h'', region = ''x'', healthy = True, is_host = True\<rparr>],
     allow_east_west = [(''x'', ''x'')], settings_keys = []\<rparr>"


section \<open>Diffs, drift and the plan\<close>

lemma finite_pair_edges: "finite E \<Longrightarrow> finite (pair_edges s hs E)"
proof (induction hs arbitrary: E)
  case (Cons a hs)
  have "finite (fold (\<lambda>b E. if \<not> east_west_allowed s (region a) (region b) then E
      else insert (direct_edge (node_id a) (node_id b)) E) hs E)"
    unfolding fold_edges using Cons.prems by simp
  then show ?case by (simp only: pair_edges.simps Cons.IH)
qed simp

lemma finite_calculate: "finite (edges (calculate s))"
  by (simp add: calculate_def Let_def finite_pair_edges)

lemma plan_fold:
  "fold (\<lambda>row plan.
         if should_auto_repair row enabled then plan\<lparr>repair_now := repair_now plan @ [row]\<rparr>
         else plan\<lparr>inbox := inbox plan @ [row]\<rparr>) rows p =
     p\<lparr>repair_now := repair_now p @ filter (\<lambda>r. should_auto_repair r enabled) rows,
       inbox := inbox p @ filter (\<lambda>r. \<not> should_auto_repair r enabled) rows\<rparr>"
  by (induction rows arbitrary: p) simp_all

lemma row_severity [simp]:
  "severity (missing_row e) = AutoRepairable" "severity (extra_row e) = ManualReview"
  by (simp_all add: missing_row_def extra_row_def)

text \<open>A diff splits the desired edges into missing and healthy ones and the observed edges into
  unexpected and healthy ones, and reports no drift exactly when the two agree.  A tick repairs
  without asking exactly the missing edges, in order, and only while auto-repair is on; an
  unexpected edge always waits for the operator, and no row is lost.\<close>

theorem diff_and_plan:
  assumes "finite (edges want)" and "finite (edges got)"
  shows "missing (topo_diff want got) \<union> healthy_edges (topo_diff want got) = edges want
    \<and> extra (topo_diff want got) \<union> healthy_edges (topo_diff want got) = edges got
    \<and> missing (topo_diff want got) \<inter> edges got = {} \<and> extra (topo_diff want got) \<inter> edges want = {}
    \<and> (detect_drift (topo_diff want got) = [] \<longleftrightarrow> edges want = edges got)
    \<and> plan_tick (topo_diff want got) True =
        \<lparr>repair_now = map missing_row (sorted_list_of_set (edges want - edges got)),
         inbox = map extra_row (sorted_list_of_set (edges got - edges want))\<rparr>
    \<and> plan_tick (topo_diff want got) False = \<lparr>repair_now = [], inbox = detect_drift (topo_diff want got)\<rparr>"
proof -
  have "missing (topo_diff want got) = {} \<and> extra (topo_diff want got) = {} \<longleftrightarrow> edges want = edges got"
    by (auto simp: topo_diff_def)
  then have "detect_drift (topo_diff want got) = [] \<longleftrightarrow> edges want = edges got"
    using assms by (simp add: detect_drift_def topo_diff_def)
  moreover have "filter (\<lambda>r. should_auto_repair r True) (map missing_row xs) = map missing_row xs"
    "filter (\<lambda>r. \<not> should_auto_repair r True) (map missing_row xs) = []"
    "filter (\<lambda>r. should_auto_repair r True) (map extra_row xs) = []"
    "filter (\<lambda>r. \<not> should_auto_repair r True) (map extra_row xs) = map extra_row xs"
    "filter (\<lambda>r. should_auto_repair r False) rs = []"
    "filter (\<lambda>r. \<not> should_auto_repair r False) rs = rs" for xs rs
    by (auto simp: should_auto_repair_def filter_empty_conv filter_id_conv)
  ultimately show ?thesis
    unfolding plan_tick_def plan_fold by (auto simp: topo_diff_def detect_drift_def)
qed

theorem diff_and_plan_witness:
  "detect_drift (topo_diff (calculate lan) (calculate lan)) = []
   \<and> inbox (plan_tick (topo_diff (calculate lan\<lparr>edges := {}\<rparr>) (calculate lan)) True) =
       map extra_row (sorted_list_of_set (edges (calculate lan)))"
  using diff_and_plan [of "calculate lan" "calculate lan"]
    diff_and_plan [of "calculate lan\<lparr>edges := {}\<rparr>" "calculate lan"]
  by (simp add: finite_calculate)

definition no_worse :: "bool \<times> u32 option \<Rightarrow> bool \<times> u32 option \<Rightarrow> bool" where
  "no_worse p q = (rank_paths (fst p) (snd p) (fst q) (snd q) \<noteq> Greater)"

lemma no_worse_iff:
  "no_worse p q \<longleftrightarrow> (fst q \<longrightarrow> fst p) \<and> (fst p = fst q \<longrightarrow>
     (case snd q of None \<Rightarrow> True | Some b \<Rightarrow> (case snd p of None \<Rightarrow> False | Some a \<Rightarrow> a \<le> b)))"
  by (cases p; cases q) (auto simp: no_worse_def rank_paths_def cmp_u32_def split: option.splits)

text \<open>Ranking two paths is a total preorder on health and latency: swapping the paths swaps the
  answer, being no worse is transitive, and a path ranks level with another exactly when both the
  health and the measurement agree.\<close>

theorem rank_is_preorder:
  "(rank_paths ha ra hb rb = Less \<longleftrightarrow> rank_paths hb rb ha ra = Greater)
   \<and> (rank_paths ha ra hb rb = Equal \<longleftrightarrow> (ha, ra) = (hb, rb))
   \<and> (no_worse p q \<and> no_worse q r \<longrightarrow> no_worse p r) \<and> (no_worse p q \<or> no_worse q p)"
proof -
  have "no_worse p q \<and> no_worse q r \<longrightarrow> no_worse p r"
    by (cases p; cases q; cases r) (auto simp: no_worse_iff split: option.splits)
  moreover have "no_worse p q \<or> no_worse q p"
    by (cases p; cases q) (auto simp: no_worse_iff split: option.splits)
  moreover have "rank_paths ha ra hb rb = Less \<longleftrightarrow> rank_paths hb rb ha ra = Greater"
    by (auto simp: rank_paths_def cmp_u32_def split: option.splits)
  moreover have "rank_paths ha ra hb rb = Equal \<longleftrightarrow> (ha, ra) = (hb, rb)"
    by (auto simp: rank_paths_def cmp_u32_def split: option.splits)
  ultimately show ?thesis by blast
qed

theorem rank_is_preorder_witness:
  "no_worse (True, Some 5) (True, None) \<and> no_worse (True, None) (False, Some 1)
   \<and> no_worse (True, Some 5) (False, Some 1)"
proof -
  have "no_worse (True, Some 5) (True, None)" "no_worse (True, None) (False, Some 1)"
    by (simp_all add: no_worse_def rank_paths_def)
  with rank_is_preorder [of True None True None "(True, Some 5)" "(True, None)" "(False, Some 1)"]
  show ?thesis by simp
qed

section \<open>Lifecycle and retry delay\<close>

fun stage :: "lifecycle_state \<Rightarrow> nat" where
  "stage Draft = 0" | "stage Validated = 1" | "stage Approved = 2" | "stage Deploying = 3"
| "stage Applied = 4" | "stage Verified = 5" | "stage FailedValidation = 5" | "stage RolledBack = 5"

inductive path :: "lifecycle_state \<Rightarrow> lifecycle_state list \<Rightarrow> lifecycle_state \<Rightarrow> bool" where
  path_nil: "path x [] x"
| path_step: "is_legal_transition x y \<Longrightarrow> path y ys z \<Longrightarrow> path x (y # ys) z"

inductive_simps path_Nil_iff: "path x [] z"
inductive_simps path_Cons_iff: "path x (y # ys) z"

lemma legal_iff:
  "is_legal_transition x y \<longleftrightarrow>
     (x, y) \<in> {(Draft, Validated), (Draft, FailedValidation), (Validated, Approved), (Approved, Deploying),
      (Deploying, Applied), (Deploying, RolledBack), (Applied, Verified)}"
  by (auto simp: is_legal_transition_def TRANSITIONS_def)

lemma legal_stage: "is_legal_transition x y \<Longrightarrow> stage x < stage y"
  by (auto simp: legal_iff)

lemma path_stage: "path x ys z \<Longrightarrow> stage x + length ys \<le> stage z"
  by (induction rule: path.induct) (auto dest: legal_stage)

lemma stage_max: "stage x \<le> 5"
  by (cases x) simp_all

lemma path_final: "path x ys z \<Longrightarrow> stage x = 5 \<Longrightarrow> ys = [] \<and> z = x"
  by (induction rule: path.induct) (auto simp: legal_iff)

lemma path_trace:
  "path x ys z \<Longrightarrow> (z \<in> {Deploying, Applied, Verified, RolledBack} \<longrightarrow>
     {Validated, Approved, Deploying} \<inter> {s. stage x < stage s \<and> stage s \<le> stage z} \<subseteq> set ys)"
proof (induction rule: path.induct)
  case (path_step x y ys z)
  then show ?case
    using path_final [of FailedValidation ys z]
    by (cases x; cases y) (auto simp: legal_iff)
qed auto

text \<open>A change moves forward only: every legal course has at most five steps and never visits a
  state twice; nothing leaves a verified, failed or rolled-back change, and a course from the
  draft that reaches deployment or anything after it passes validation and approval first.\<close>

theorem lifecycle_courses:
  assumes "path x ys z"
  shows "length ys \<le> 5 \<and> distinct (x # ys)
    \<and> (x \<in> {Verified, FailedValidation, RolledBack} \<longrightarrow> ys = [])
    \<and> (x = Draft \<and> z \<in> {Deploying, Applied, Verified, RolledBack} \<longrightarrow>
         {Validated, Approved, Deploying} \<subseteq> set ys)"
proof -
  have "length ys \<le> 5" using path_stage [OF assms] stage_max [of z] by linarith
  moreover have "distinct (x # ys) \<and> (\<forall>y \<in> set ys. stage x < stage y)"
    using assms by (induction rule: path.induct) (fastforce dest: legal_stage)+
  moreover have "ys = []" if "x \<in> {Verified, FailedValidation, RolledBack}"
    using path_final [OF assms] that by auto
  moreover have "{Validated, Approved, Deploying} \<subseteq> set ys"
    if "x = Draft" "z \<in> {Deploying, Applied, Verified, RolledBack}"
    using path_trace [OF assms] that by auto
  ultimately show ?thesis by blast
qed

theorem lifecycle_courses_witness:
  "{Validated, Approved, Deploying} \<subseteq> set [Validated, Approved, Deploying, Applied, Verified]"
proof -
  have "path Draft [Validated, Approved, Deploying, Applied, Verified] Verified"
    by (simp add: path_Cons_iff path_Nil_iff legal_iff)
  from lifecycle_courses [OF this] show ?thesis by simp
qed

text \<open>The retry delay is zero before the first attempt, then one second, doubling with every
  attempt, and never more than sixty seconds, for every attempt number of 32 bits.\<close>

theorem backoff_doubles_to_a_minute:
  "unat (backoff_secs n) = (if n = 0 then 0 else min (2 ^ (unat n - 1)) 60)"
proof (cases "n = 0")
  case False
  define k where "k = unat n - 1"
  have k: "unat (sat_sub n 1) = k" by (simp add: unat_sat_sub k_def)
  show ?thesis
  proof (cases "k < 64")
    case True
    have "(2::nat) ^ k < 2 ^ 64" using True by (rule power_strict_increasing) simp
    then have "unat (push_bit k 1 :: u64) = 2 ^ k"
      using True
      by (simp only: unsigned_push_bit_eq unsigned_1) (simp add: push_bit_eq_mult take_bit_nat_eq_self)
    then show ?thesis
      using False True by (simp add: backoff_secs_def checked_shl_u64_def k min_def word_le_nat_alt k_def)
  next
    case ge: False
    have "(60::nat) \<le> 2 ^ 6" by simp
    also have "\<dots> \<le> 2 ^ k" using ge by (intro power_increasing) auto
    finally show ?thesis
      using False ge by (simp add: backoff_secs_def checked_shl_u64_def k min_def k_def)
  qed
qed (simp add: backoff_secs_def)

end
