(* ===== verification/LeaderLease.thy ===== *)
theory LeaderLease
  imports Prelude
begin

text \<open>
  Leadership of the mesh on a lease file (\<open>crates/mesh/mackesd/src/leader.rs\<close>): the line
  format of the lease, its age, and the acquire, force and read operations as functions of the
  file's text, of whether the advisory lock was obtained and of the clock.  The text is the whole
  contents of the lock file, empty when it was just created.  Input and output errors, which leave
  the function with the error, are the \<open>shared_ok\<close> flag only.
\<close>

section \<open>The lease and its line\<close>

record lease =
  holder :: string
  renewed_at_s :: u64
  epoch :: u64

definition LEASE_S :: u64 where
  "LEASE_S = 60"

definition TAB :: char where
  "TAB = CHR 0x09"

definition NL :: char where
  "NL = CHR 0x0A"

definition encode_lease :: "lease \<Rightarrow> string" where
  "encode_lease l =
     holder l @ [TAB] @ show_nat (unat (renewed_at_s l)) @ [TAB] @ show_nat (unat (epoch l)) @ [NL]"

definition decode_lease :: "string \<Rightarrow> lease option" where
  "decode_lease body =
     (let trimmed = trim body in
      if trimmed = [] then None
      else
        (case split_on TAB trimmed of
           [n, r, e] \<Rightarrow>
             (case (parse_word r, parse_word e) of
                (Some rv, Some ev) \<Rightarrow> Some \<lparr>holder = n, renewed_at_s = rv, epoch = ev\<rparr>
              | _ \<Rightarrow> None)
         | _ \<Rightarrow> None))"

definition is_expired :: "lease \<Rightarrow> u64 \<Rightarrow> bool" where
  "is_expired l now = (sat_sub now (renewed_at_s l) \<ge> LEASE_S)"

definition remaining_s :: "lease \<Rightarrow> u64 \<Rightarrow> u64" where
  "remaining_s l now = sat_sub LEASE_S (sat_sub now (renewed_at_s l))"

section \<open>The operations\<close>

datatype acquire_result = Acquired | HeldBy string u64 | ExpiredLease

datatype lease_error = SharedDirDown

text \<open>\<open>try_acquire\<close> under the lock: the lease to write, or who holds it.\<close>

definition next_lease :: "string \<Rightarrow> u64 \<Rightarrow> lease option \<Rightarrow> (acquire_result, lease) result" where
  "next_lease node now existing =
     (case existing of
        None \<Rightarrow> Inr \<lparr>holder = node, renewed_at_s = now, epoch = 1\<rparr>
      | Some l \<Rightarrow>
          if holder l = node \<and> \<not> is_expired l now then Inr (l\<lparr>renewed_at_s := now\<rparr>)
          else if is_expired l now
            then Inr \<lparr>holder = node, renewed_at_s = now, epoch = epoch l + 1\<rparr>
          else Inl (HeldBy (holder l) (remaining_s l now)))"

definition try_acquire :: "bool \<Rightarrow> bool \<Rightarrow> u64 \<Rightarrow> string \<Rightarrow> string
    \<Rightarrow> string \<times> (lease_error, acquire_result) result" where
  "try_acquire shared_ok lock_ok now node body =
     (if \<not> shared_ok then (body, Inl SharedDirDown)
      else if \<not> lock_ok then
        (body, Inr (case decode_lease body of
                      Some l \<Rightarrow> HeldBy (holder l) (remaining_s l now)
                    | None \<Rightarrow> ExpiredLease))
      else
        (case next_lease node now (decode_lease body) of
           Inl held \<Rightarrow> (body, Inr held)
         | Inr l \<Rightarrow> (encode_lease l, Inr Acquired)))"

definition force_take :: "bool \<Rightarrow> u64 \<Rightarrow> string \<Rightarrow> string \<Rightarrow> string \<times> (lease_error, lease) result" where
  "force_take shared_ok now node body =
     (if \<not> shared_ok then (body, Inl SharedDirDown)
      else
        let prior = (case decode_lease body of Some l \<Rightarrow> epoch l | None \<Rightarrow> 0);
            l = \<lparr>holder = node, renewed_at_s = now, epoch = prior + 1\<rparr>
        in (encode_lease l, Inr l))"

definition read_current_lease :: "u64 \<Rightarrow> string \<Rightarrow> lease option" where
  "read_current_lease now body =
     (case decode_lease body of
        Some l \<Rightarrow> if is_expired l now then None else Some l
      | None \<Rightarrow> None)"

section \<open>The line is read back\<close>

text \<open>A node id that can be stored: not empty, without a tab, not starting with white space.\<close>

definition storable :: "string \<Rightarrow> bool" where
  "storable n = (n \<noteq> [] \<and> TAB \<notin> set n \<and> no_ws_byte (hd n))"

lemma digit_no_ws: "is_ascii_digit c \<Longrightarrow> no_ws_byte c"
  by (rule no_ws_byte_ascii) (auto simp: is_ascii_digit_of_char)

lemma last_show_nat: "is_ascii_digit (last (show_nat n))"
  using show_nat_digits [of n] by (simp add: list_all_iff)

lemma strip_newline:
  assumes "s \<noteq> []" "no_ws_byte (hd s)" "no_ws_byte (last s)"
  shows "trim (s @ [NL]) = s"
proof -
  obtain c t where s: "s = c # t" using assms(1) by (cases s) auto
  have 1: "strip_codes ws_codes (s @ [NL]) = s @ [NL]"
    unfolding s append_Cons by (rule strip_codes_id) (use assms(2) in \<open>auto simp: s no_ws_byte_def\<close>)
  obtain u where u: "rev s = last s # u"
    using assms(1) by (metis append_butlast_last_id rev_eq_Cons_iff rev_rev_ident)
  have nl: "NL = char_of (10::nat)" unfolding NL_def by code_simp
  have f: "find (\<lambda>w. w \<noteq> [] \<and> prefix w (NL # rev s)) (map rev ws_codes) = Some [NL]"
    unfolding nl by (simp add: ws_codes_def)
  have "strip_codes (map rev ws_codes) (rev (s @ [NL])) = strip_codes (map rev ws_codes) (rev s)"
    by (subst strip_codes.simps) (simp add: f)
  also have "\<dots> = rev s"
    unfolding u by (rule strip_codes_id) (use assms(3) in \<open>auto simp: no_ws_byte_def hd_rev\<close>)
  finally show ?thesis by (simp add: trim_def 1)
qed

lemma decode_encode_lease:
  assumes "storable (holder l)"
  shows "decode_lease (encode_lease l) = Some l"
proof -
  let ?r = "show_nat (unat (renewed_at_s l))" and ?e = "show_nat (unat (epoch l))"
  let ?s = "holder l @ [TAB] @ ?r @ [TAB] @ ?e"
  have "trim (?s @ [NL]) = ?s"
    by (rule strip_newline) (use assms last_show_nat digit_no_ws in \<open>auto simp: storable_def\<close>)
  then have t: "trim (encode_lease l) = ?s" by (simp add: encode_lease_def)
  have tab: "\<not> is_ascii_digit TAB" by (simp add: TAB_def is_ascii_digit_of_char)
  have "TAB \<notin> set (holder l)" "TAB \<notin> set ?r" "TAB \<notin> set ?e"
    using assms tab by (simp_all add: storable_def show_nat_no)
  then have "split_on TAB ?s = [holder l, ?r, ?e]"
    by (simp add: split_on_append_sep split_on_no_sep)
  then show ?thesis
    using assms by (simp add: decode_lease_def t Let_def storable_def)
qed

text \<open>A lease whose holder is not empty, has no tab and does not start with white space is read
  back from its line field by field, for every renewal time and epoch.\<close>

theorem lease_roundtrip:
  assumes "storable (holder l)"
  shows "decode_lease (encode_lease l) = Some l"
  using assms by (rule decode_encode_lease)

theorem lease_roundtrip_witness:
  "decode_lease (encode_lease \<lparr>holder = ''peer:anvil'', renewed_at_s = 1700000000, epoch = 7\<rparr>)
    = Some \<lparr>holder = ''peer:anvil'', renewed_at_s = 1700000000, epoch = 7\<rparr>"
  by (rule lease_roundtrip) (simp add: storable_def TAB_def no_ws_byte_ascii)

section \<open>Grants\<close>

text \<open>What happens to the file over time: attempts, each with its lock outcome and clock reading,
  and forced takes.  A grant is the lease that is in the file when an operation says it is
  held.\<close>

datatype event = Attempt bool bool u64 string | Force bool u64 string

fun ev_node :: "event \<Rightarrow> string" where
  "ev_node (Attempt sh lk t n) = n"
| "ev_node (Force sh t n) = n"

fun grant :: "event \<Rightarrow> string \<Rightarrow> string \<times> lease option" where
  "grant (Attempt sh lk t n) body =
     (case try_acquire sh lk t n body of
        (body', Inr Acquired) \<Rightarrow> (body', decode_lease body')
      | (body', _) \<Rightarrow> (body', None))"
| "grant (Force sh t n) body =
     (case force_take sh t n body of
        (body', Inr l) \<Rightarrow> (body', Some l)
      | (body', Inl _) \<Rightarrow> (body', None))"

fun grants :: "event list \<Rightarrow> string \<Rightarrow> lease list" where
  "grants [] body = []"
| "grants (e # es) body =
     (case grant e body of
        (body', Some l) \<Rightarrow> l # grants es body'
      | (body', None) \<Rightarrow> grants es body')"

definition last_epoch :: "string \<Rightarrow> nat" where
  "last_epoch body = (case decode_lease body of Some l \<Rightarrow> unat (epoch l) | None \<Rightarrow> 0)"

lemma grant_None: "grant e body = (body', None) \<Longrightarrow> storable (ev_node e) \<Longrightarrow> body' = body"
  by (cases e) (auto simp: try_acquire_def force_take_def next_lease_def Let_def decode_encode_lease
      split: if_splits option.splits prod.splits sum.splits acquire_result.splits)

lemma next_lease_Inr:
  assumes "next_lease n t d = Inr x"
  shows "holder x = n \<and> renewed_at_s x = t \<and>
    (epoch x = of_nat ((case d of Some l \<Rightarrow> unat (epoch l) | None \<Rightarrow> 0) + 1) \<or>
      (\<exists>l. d = Some l \<and> epoch x = epoch l \<and> holder x = holder l)) \<and>
    (\<forall>l. d = Some l \<longrightarrow> holder l \<noteq> n \<longrightarrow> is_expired l t)"
proof (cases d)
  case (Some l)
  with assms show ?thesis by (auto simp: next_lease_def split: if_splits)
qed (use assms in \<open>auto simp: next_lease_def\<close>)

text \<open>What one grant does to the lease in the file.\<close>

lemma grant_Some:
  assumes "grant e body = (body', Some l')" and "storable (ev_node e)"
  shows "decode_lease body' = Some l' \<and> holder l' = ev_node e \<and>
    (epoch l' = of_nat (last_epoch body + 1) \<or>
      (\<exists>l. decode_lease body = Some l \<and> epoch l' = epoch l \<and> holder l' = holder l)) \<and>
    (\<forall>sh lk t n l. e = Attempt sh lk t n \<longrightarrow> decode_lease body = Some l \<longrightarrow>
       renewed_at_s l' = t \<and> (holder l \<noteq> holder l' \<longrightarrow> is_expired l t))"
proof (cases e)
  case (Attempt sh lk t n)
  with assms have n: "storable n" by simp
  obtain x where x: "next_lease n t (decode_lease body) = Inr x" "body' = encode_lease x"
    "decode_lease body' = Some l'"
    using assms(1) Attempt
    by (auto simp: try_acquire_def split: if_splits sum.splits option.splits acquire_result.splits)
      (auto simp: next_lease_def split: option.splits if_splits)
  have "storable (holder x)" using next_lease_Inr [OF x(1)] n by simp
  with x decode_encode_lease [of x] have "l' = x" by simp
  with next_lease_Inr [OF x(1)] x(3) Attempt show ?thesis
    unfolding last_epoch_def by auto
next
  case (Force sh t n)
  with assms show ?thesis
    by (auto simp: force_take_def Let_def last_epoch_def decode_encode_lease split: if_splits option.splits)
qed

text \<open>The order between two grants: the epoch does not fall, and stays only with its holder.\<close>

definition fences :: "lease \<Rightarrow> lease \<Rightarrow> bool" where
  "fences l l' = (unat (epoch l) \<le> unat (epoch l') \<and>
     (unat (epoch l) = unat (epoch l') \<longrightarrow> holder l = holder l'))"

definition file_fences :: "string \<Rightarrow> lease \<Rightarrow> bool" where
  "file_fences body l = pred_option (\<lambda>l0. fences l0 l) (decode_lease body)"

lemma fences_trans: "fences a b \<Longrightarrow> fences b c \<Longrightarrow> fences a c"
  by (auto simp: fences_def)

lemma file_fences_trans: "file_fences body l \<Longrightarrow> fences l l' \<Longrightarrow> file_fences body l'"
  by (auto simp: file_fences_def option.pred_set intro: fences_trans)

lemma unat_u64: "n < 2 ^ 64 \<Longrightarrow> unat (of_nat n :: u64) = n"
  by (simp add: unat_of_nat)

lemma grant_fences:
  assumes "grant e body = (body', Some l')" and "storable (ev_node e)" and "last_epoch body + 1 < 2 ^ 64"
  shows "decode_lease body' = Some l'" and "file_fences body l'" and "last_epoch body' \<le> last_epoch body + 1"
proof -
  note gs = grant_Some [OF assms(1,2)]
  show d: "decode_lease body' = Some l'" using gs by blast
  have e: "unat (epoch l') = last_epoch body + 1 \<or>
      (\<exists>l. decode_lease body = Some l \<and> epoch l' = epoch l \<and> holder l' = holder l)"
    using gs unat_u64 [OF assms(3)] by auto
  show "file_fences body l'"
  proof (cases "decode_lease body")
    case (Some l)
    with e show ?thesis by (auto simp: file_fences_def fences_def last_epoch_def)
  qed (simp add: file_fences_def)
  show "last_epoch body' \<le> last_epoch body + 1"
    using e unfolding last_epoch_def d by auto
qed

lemma grants_epochs:
  "list_all (\<lambda>e. storable (ev_node e)) es \<Longrightarrow> last_epoch body + length es < 2 ^ 64 \<Longrightarrow>
     sorted_wrt fences (grants es body) \<and> list_all (file_fences body) (grants es body)"
proof (induction es arbitrary: body)
  case (Cons e es)
  obtain body' g where g: "grant e body = (body', g)" by (cases "grant e body")
  have st: "storable (ev_node e)" "list_all (\<lambda>e. storable (ev_node e)) es" using Cons.prems(1) by simp_all
  show ?case
  proof (cases g)
    case None
    with g st grant_None have "body' = body" by blast
    then have eq: "grants (e # es) body = grants es body" using g None by simp
    have "last_epoch body + length es < 2 ^ 64" using Cons.prems(2) by simp
    from Cons.IH [OF st(2) this] show ?thesis unfolding eq .
  next
    case (Some l')
    then have eq: "grants (e # es) body = l' # grants es body'" using g by simp
    have "last_epoch body + 1 < 2 ^ 64" using Cons.prems(2) by simp
    note gf = grant_fences [OF g [unfolded Some] st(1) this]
    have "last_epoch body' + length es < 2 ^ 64" using Cons.prems(2) gf(3) by simp
    note IH = Cons.IH [OF st(2) this]
    then have after: "l \<in> set (grants es body') \<Longrightarrow> fences l' l" for l
      by (simp add: file_fences_def gf(1) list_all_iff)
    show ?thesis
      unfolding eq using IH after gf(2) by (auto simp: list_all_iff intro: file_fences_trans)
  qed
qed simp



lemma grants_adjacent:
  "list_all (\<lambda>e. storable (ev_node e) \<and> (\<exists>sh lk t n. e = Attempt sh lk t n)) es \<Longrightarrow>
     (case grants es body of [] \<Rightarrow> True | l' # _ \<Rightarrow>
       (\<forall>l. decode_lease body = Some l \<longrightarrow> holder l \<noteq> holder l' \<longrightarrow> is_expired l (renewed_at_s l'))) \<and>
     (grants es body = xs @ l # l' # ys \<longrightarrow> holder l \<noteq> holder l' \<longrightarrow> is_expired l (renewed_at_s l'))"
proof (induction es arbitrary: body xs)
  case (Cons e es)
  obtain body' g where g: "grant e body = (body', g)" by (cases "grant e body")
  have st: "storable (ev_node e)" using Cons.prems by simp
  obtain sh lk t n where e: "e = Attempt sh lk t n" using Cons.prems by auto
  show ?case
  proof (cases g)
    case None
    with g st grant_None have "body' = body" by blast
    with g None Cons show ?thesis by simp
  next
    case (Some k)
    note gs = grant_Some [OF g [unfolded Some] st]
    have first: "holder m \<noteq> holder k \<Longrightarrow> is_expired m (renewed_at_s k)" if "decode_lease body = Some m" for m
      using gs that e by blast
    have IH1: "case grants es body' of [] \<Rightarrow> True | l' # _ \<Rightarrow>
        (holder k \<noteq> holder l' \<longrightarrow> is_expired k (renewed_at_s l'))"
      using Cons.IH [of body' "[]"] Cons.prems gs by (auto split: list.splits)
    have IH2: "grants es body' = ws @ l # l' # ys \<longrightarrow> holder l \<noteq> holder l' \<longrightarrow> is_expired l (renewed_at_s l')" for ws
      using Cons.IH [of body' ws] Cons.prems by simp
    show ?thesis
      using first IH1 IH2 g Some by (cases xs) (auto split: list.splits)
  qed
qed simp

text \<open>While a lease is fresh nobody else gets it: another node's attempt is told the holder and
  the seconds that remain, and leaves the file alone; a reader sees that lease.  Between two
  consecutive grants of attempts to different nodes at least sixty seconds of the second
  one's clock have passed since the first's renewal.\<close>

theorem fresh_lease_excludes:
  "(decode_lease body = Some l \<and> \<not> is_expired l now \<and> node \<noteq> holder l \<longrightarrow>
      try_acquire True lk now node body = (body, Inr (HeldBy (holder l) (remaining_s l now))) \<and>
      read_current_lease now body = Some l \<and>
      unat (remaining_s l now) = 60 - (unat now - unat (renewed_at_s l)))
   \<and> (list_all (\<lambda>e. storable (ev_node e) \<and> (\<exists>sh lk t n. e = Attempt sh lk t n)) es \<and>
      grants es body = xs @ g # g' # ys \<and> holder g \<noteq> holder g' \<longrightarrow>
      unat (renewed_at_s g) + 60 \<le> unat (renewed_at_s g'))"
proof -
  have "is_expired k t \<Longrightarrow> unat (renewed_at_s k) + 60 \<le> unat t" for k t
    by (simp add: is_expired_def LEASE_S_def word_le_nat_alt unat_sat_sub)
  moreover have "unat (remaining_s l now) = 60 - (unat now - unat (renewed_at_s l))"
    by (simp add: remaining_s_def LEASE_S_def unat_sat_sub)
  ultimately show ?thesis
    using grants_adjacent [of es body xs g g' ys]
    by (auto simp: try_acquire_def next_lease_def read_current_lease_def)
qed

theorem fresh_lease_excludes_witness:
  "\<exists>body. decode_lease body = Some \<lparr>holder = ''a'', renewed_at_s = 100, epoch = 1\<rparr> \<and>
     try_acquire True True 130 ''b'' body = (body, Inr (HeldBy ''a'' 30))"
proof -
  let ?l = "\<lparr>holder = ''a'', renewed_at_s = 100, epoch = 1\<rparr>"
  have "storable ''a''" by (simp add: storable_def TAB_def no_ws_byte_ascii)
  then have d: "decode_lease (encode_lease ?l) = Some ?l" by (simp add: decode_encode_lease)
  have x: "\<not> is_expired ?l 130" "remaining_s ?l 130 = 30"
    by (simp_all add: is_expired_def remaining_s_def LEASE_S_def sat_sub_def word_less_nat_alt word_le_nat_alt)
  from fresh_lease_excludes [of "encode_lease ?l" ?l 130 "''b''" True] d x show ?thesis by auto
qed

end
