(* ===== verification/AuditChain.thy ===== *)
theory AuditChain
  imports Prelude
begin

text \<open>
  The hash-chained audit log (\<open>crates/mesh/mackesd/src/audit/mod.rs\<close>): the chaining hash, the
  verifier and what an intact chain says.  SHA-256 is the parameter \<open>sha\<close>, a function from
  bytes to bytes; the statements on tampering assume that it gives 32 bytes and that no two
  different inputs of the two chains at hand collide.
\<close>

section \<open>The chain\<close>

type_synonym bytes = "u8 list"

text \<open>A timestamp is the two's complement word of its \<open>i64\<close>.\<close>

record audit_row =
  event_id :: u64
  payload :: bytes
  timestamp_ms :: u64
  row_hash :: bytes

definition to_le_bytes :: "u64 \<Rightarrow> bytes" where
  "to_le_bytes w = map (\<lambda>i. ucast (drop_bit (8 * i) w)) [0 ..< 8]"

definition preimage :: "bytes \<Rightarrow> bytes \<Rightarrow> u64 \<Rightarrow> bytes" where
  "preimage prev p ts = prev @ p @ to_le_bytes ts"

definition next_hash :: "(bytes \<Rightarrow> bytes) \<Rightarrow> bytes \<Rightarrow> bytes \<Rightarrow> u64 \<Rightarrow> bytes" where
  "next_hash sha prev p ts = sha (preimage prev p ts)"

datatype verify_outcome =
    Intact nat bytes
  | Break u64 bytes bytes
  | Empty

definition zero_hash :: bytes where
  "zero_hash = replicate 32 0"

text \<open>The loop: the first row whose hash is not the recomputed one ends it.\<close>

fun verify_loop :: "(bytes \<Rightarrow> bytes) \<Rightarrow> bytes \<Rightarrow> audit_row list \<Rightarrow> (u64 \<times> bytes \<times> bytes, bytes) result"
where
  "verify_loop sha prev [] = Inr prev"
| "verify_loop sha prev (row # rows) =
     (let expected = next_hash sha prev (payload row) (timestamp_ms row) in
      if expected \<noteq> row_hash row then Inl (event_id row, expected, row_hash row)
      else verify_loop sha (row_hash row) rows)"

definition verify :: "(bytes \<Rightarrow> bytes) \<Rightarrow> audit_row list \<Rightarrow> verify_outcome" where
  "verify sha rows =
     (if rows = [] then Empty
      else (case verify_loop sha zero_hash rows of
              Inl (e, expected, actual) \<Rightarrow> Break e expected actual
            | Inr head \<Rightarrow> Intact (length rows) head))"

section \<open>What the verifier decides\<close>

text \<open>The chain condition, row by row, from a given start.\<close>

fun chained :: "(bytes \<Rightarrow> bytes) \<Rightarrow> bytes \<Rightarrow> audit_row list \<Rightarrow> bool" where
  "chained sha prev [] = True"
| "chained sha prev (r # rs) =
     (row_hash r = next_hash sha prev (payload r) (timestamp_ms r) \<and> chained sha (row_hash r) rs)"

definition head_of :: "bytes \<Rightarrow> audit_row list \<Rightarrow> bytes" where
  "head_of prev rs = (if rs = [] then prev else row_hash (last rs))"

lemma verify_loop_Inr:
  "verify_loop sha prev rs = Inr h \<longleftrightarrow> chained sha prev rs \<and> h = head_of prev rs"
  by (induction rs arbitrary: prev) (auto simp: Let_def head_of_def)

lemma verify_loop_Inl:
  "verify_loop sha prev rs = Inl (e, x, a) \<longleftrightarrow>
     (\<exists>ps r qs. rs = ps @ r # qs \<and> chained sha prev ps \<and> e = event_id r \<and> a = row_hash r
        \<and> x = next_hash sha (head_of prev ps) (payload r) (timestamp_ms r) \<and> x \<noteq> a)"
proof (induction rs arbitrary: prev)
  case (Cons r rs)
  show ?case
  proof (cases "next_hash sha prev (payload r) (timestamp_ms r) = row_hash r")
    case True
    have "(\<exists>ps q qs. r # rs = ps @ q # qs \<and> chained sha prev ps \<and> e = event_id q \<and> a = row_hash q
        \<and> x = next_hash sha (head_of prev ps) (payload q) (timestamp_ms q) \<and> x \<noteq> a) \<longleftrightarrow>
      (\<exists>ps q qs. rs = ps @ q # qs \<and> chained sha (row_hash r) ps \<and> e = event_id q \<and> a = row_hash q
        \<and> x = next_hash sha (head_of (row_hash r) ps) (payload q) (timestamp_ms q) \<and> x \<noteq> a)"
      (is "?l \<longleftrightarrow> ?r")
    proof
      assume ?l
      then obtain ps q qs where *: "r # rs = ps @ q # qs" "chained sha prev ps" "e = event_id q"
        "a = row_hash q" "x = next_hash sha (head_of prev ps) (payload q) (timestamp_ms q)" "x \<noteq> a" by blast
      with True obtain ps' where ps: "ps = r # ps'" by (cases ps) (auto simp: head_of_def)
      with * show ?r
        by (intro exI [of _ ps'] exI [of _ q] exI [of _ qs]) (auto simp: head_of_def)
    next
      assume ?r
      then obtain ps q qs where *: "rs = ps @ q # qs" "chained sha (row_hash r) ps" "e = event_id q"
        "a = row_hash q" "x = next_hash sha (head_of (row_hash r) ps) (payload q) (timestamp_ms q)" "x \<noteq> a"
        by blast
      with True show ?l
        by (intro exI [of _ "r # ps"] exI [of _ q] exI [of _ qs]) (auto simp: head_of_def)
    qed
    with True Cons.IH show ?thesis by (simp add: Let_def)
  next
    case False
    have "ps = []" if "chained sha prev ps" "r # rs = ps @ q # qs" for ps q qs
      using that False by (cases ps) auto
    with False show ?thesis by (fastforce simp: Let_def head_of_def)
  qed
qed simp

text \<open>C33. A log is reported intact exactly when every row's hash is the hash of the previous one's
  hash, its payload and its time, starting from zeros; otherwise the report names the first row
  where this fails, with the recomputed and the stored hash, and every row before it is sound.\<close>

theorem verify_exact:
  "(verify sha rs = Intact n h \<longleftrightarrow> rs \<noteq> [] \<and> chained sha zero_hash rs \<and> n = length rs \<and> h = row_hash (last rs))
   \<and> (verify sha rs = Break e x a \<longleftrightarrow>
        (\<exists>ps r qs. rs = ps @ r # qs \<and> chained sha zero_hash ps \<and> e = event_id r \<and> a = row_hash r
           \<and> x = next_hash sha (head_of zero_hash ps) (payload r) (timestamp_ms r) \<and> x \<noteq> a))
   \<and> (verify sha rs = Empty \<longleftrightarrow> rs = [])"
proof -
  have 1: "verify sha rs = Intact n h \<longleftrightarrow> rs \<noteq> [] \<and> verify_loop sha zero_hash rs = Inr h \<and> n = length rs"
    by (auto simp: verify_def split: sum.splits prod.splits)
  have 2: "verify sha rs = Break e x a \<longleftrightarrow> rs \<noteq> [] \<and> verify_loop sha zero_hash rs = Inl (e, x, a)"
    by (auto simp: verify_def split: sum.splits prod.splits)
  have 3: "verify sha rs = Empty \<longleftrightarrow> rs = []"
    by (auto simp: verify_def split: sum.splits prod.splits)
  show ?thesis
    unfolding 1 2 3 verify_loop_Inr verify_loop_Inl by (cases "rs = []") (auto simp: head_of_def)
qed

section \<open>Appending\<close>

definition append_row :: "(bytes \<Rightarrow> bytes) \<Rightarrow> audit_row list \<Rightarrow> u64 \<Rightarrow> bytes \<Rightarrow> u64 \<Rightarrow> audit_row list" where
  "append_row sha rs e p ts =
     rs @ [\<lparr>event_id = e, payload = p, timestamp_ms = ts,
            row_hash = next_hash sha (head_of zero_hash rs) p ts\<rparr>]"

lemma chained_append:
  "chained sha prev (rs @ qs) \<longleftrightarrow> chained sha prev rs \<and> chained sha (head_of prev rs) qs"
  by (induction rs arbitrary: prev) (auto simp: head_of_def)

section \<open>Tampering\<close>

lemma word_bytes_ext:
  fixes v w :: u64
  assumes "to_le_bytes v = to_le_bytes w"
  shows "v = w"
proof (rule bit_word_eqI)
  fix n assume n: "n < LENGTH(64)"
  have "(ucast (drop_bit (8 * (n div 8)) v) :: u8) = ucast (drop_bit (8 * (n div 8)) w)"
    using assms n by (auto simp: to_le_bytes_def)
  then have "bit (ucast (drop_bit (8 * (n div 8)) v) :: u8) (n mod 8) =
      bit (ucast (drop_bit (8 * (n div 8)) w) :: u8) (n mod 8)" by simp
  then show "bit v n = bit w n" by (simp add: bit_ucast_iff bit_drop_bit_eq)
qed

lemma to_le_bytes_length: "length (to_le_bytes w) = 8"
  by (simp add: to_le_bytes_def)

lemma preimage_inj:
  assumes "length a = length b" and "preimage a p t = preimage b q u"
  shows "a = b \<and> p = q \<and> t = u"
proof -
  have "a = b" "p @ to_le_bytes t = q @ to_le_bytes u"
    using assms by (auto simp: preimage_def)
  moreover from this(2) have "p = q \<and> to_le_bytes t = to_le_bytes u"
    by (metis append_eq_append_conv to_le_bytes_length)
  ultimately show ?thesis using word_bytes_ext by blast
qed

fun preimages :: "bytes \<Rightarrow> audit_row list \<Rightarrow> bytes set" where
  "preimages prev [] = {}"
| "preimages prev (r # rs) =
     insert (preimage prev (payload r) (timestamp_ms r)) (preimages (row_hash r) rs)"

lemma preimages_append: "preimages prev (rs @ qs) = preimages prev rs \<union> preimages (head_of prev rs) qs"
  by (induction rs arbitrary: prev) (auto simp: head_of_def)

definition content :: "audit_row \<Rightarrow> bytes \<times> u64 \<times> bytes" where
  "content r = (payload r, timestamp_ms r, row_hash r)"

lemma same_head_same_content:
  assumes "\<And>x. length (sha x) = 32"
  shows "length rs = length qs \<Longrightarrow> chained sha zero_hash rs \<Longrightarrow> chained sha zero_hash qs \<Longrightarrow>
     head_of zero_hash rs = head_of zero_hash qs \<Longrightarrow>
     inj_on sha (preimages zero_hash rs \<union> preimages zero_hash qs) \<Longrightarrow>
     map content rs = map content qs"
proof (induction rs arbitrary: qs rule: rev_induct)
  case (snoc r rs)
  then obtain q qs' where qs: "qs = qs' @ [q]" by (cases qs rule: rev_cases) auto
  have len: "length (head_of zero_hash rs) = length (head_of zero_hash qs')"
  proof -
    have "length (head_of zero_hash xs) = 32" if "chained sha zero_hash xs" for xs
      using that assms by (cases xs rule: rev_cases)
        (auto simp: head_of_def zero_hash_def chained_append next_hash_def)
    then show ?thesis using snoc.prems by (simp add: qs chained_append)
  qed
  have h: "row_hash r = row_hash q" using snoc.prems(4) by (simp add: head_of_def qs)
  have "sha (preimage (head_of zero_hash rs) (payload r) (timestamp_ms r)) =
      sha (preimage (head_of zero_hash qs') (payload q) (timestamp_ms q))"
    using snoc.prems(2,3) h by (simp add: qs chained_append next_hash_def)
  then have "preimage (head_of zero_hash rs) (payload r) (timestamp_ms r) =
      preimage (head_of zero_hash qs') (payload q) (timestamp_ms q)"
    by (rule inj_onD [OF snoc.prems(5)]) (simp_all add: qs preimages_append)
  from preimage_inj [OF len this] have same: "head_of zero_hash rs = head_of zero_hash qs'"
    "payload r = payload q" "timestamp_ms r = timestamp_ms q" by auto
  have "map content rs = map content qs'"
    by (rule snoc.IH) (use snoc.prems same(1) in \<open>auto simp: qs chained_append preimages_append
        intro: inj_on_subset\<close>)
  moreover have "content r = content q" using same h by (simp add: content_def)
  ultimately show ?case by (simp add: qs)
qed simp

text \<open>Tamper evidence: two intact logs of the same length with the same head have the same
  payloads, times and hashes, row by row, unless the hash collides on their own inputs; so a
  changed payload or time that leaves the log intact changes its head.  The event numbers are not
  part of the hash, and the statement does not extend to them.\<close>

theorem tampering_changes_the_head:
  assumes "\<And>x. length (sha x) = 32"
    and "inj_on sha (preimages zero_hash rs \<union> preimages zero_hash qs)"
    and "verify sha rs = Intact n h" and "verify sha qs = Intact n h"
  shows "map content rs = map content qs"
proof -
  have "rs \<noteq> [] \<and> chained sha zero_hash rs \<and> n = length rs \<and> h = row_hash (last rs)"
    "qs \<noteq> [] \<and> chained sha zero_hash qs \<and> n = length qs \<and> h = row_hash (last qs)"
    using assms(3,4) verify_loop_Inr [of sha zero_hash]
    by (auto simp: verify_def head_of_def split: if_splits sum.splits prod.splits)
  then show ?thesis
    using same_head_same_content [of sha rs qs, OF assms(1)] assms(2) by (simp add: head_of_def)
qed

text \<open>A stand-in for the hash at which the hypotheses hold: the first bytes of the input's end.\<close>

definition toy_sha :: "bytes \<Rightarrow> bytes" where
  "toy_sha x = take 32 (drop 32 x @ replicate 32 0)"

theorem tampering_changes_the_head_witness:
  "map content (append_row toy_sha [] 1 [7] 5) = map content (append_row toy_sha [] 2 [7] 5)"
proof -
  let ?rs = "append_row toy_sha [] 1 [7] 5" and ?qs = "append_row toy_sha [] 2 [7] 5"
  have l: "\<And>x. length (toy_sha x) = 32" by (simp add: toy_sha_def)
  have i: "inj_on toy_sha (preimages zero_hash ?rs \<union> preimages zero_hash ?qs)"
    by (simp add: append_row_def)
  have v: "verify toy_sha ?rs = Intact 1 (row_hash (last ?rs))"
    "verify toy_sha ?qs = Intact 1 (row_hash (last ?rs))"
    by (simp_all add: append_row_def verify_def head_of_def)
  show ?thesis using tampering_changes_the_head [OF l i v] .
qed

text \<open>Appending a row with the chaining hash to an intact or empty log keeps it intact, one row
  longer, with the new hash as its head, and a log stays intact when rows are cut off its end:
  the verifier does not see truncation.\<close>

theorem append_and_truncate:
  assumes "rs = [] \<or> verify sha rs = Intact n h"
  shows "verify sha (append_row sha rs e p ts) = Intact (length rs + 1) (next_hash sha (head_of zero_hash rs) p ts)
    \<and> (0 < k \<and> k \<le> length rs \<longrightarrow> verify sha (take k rs) = Intact k (row_hash (rs ! (k - 1))))"
proof -
  have c: "chained sha zero_hash rs"
    using assms verify_loop_Inr [of sha zero_hash rs]
    by (auto simp: verify_def split: if_splits sum.splits prod.splits)
  have intact: "verify sha xs = Intact (length xs) (row_hash (last xs))"
    if "xs \<noteq> []" "chained sha zero_hash xs" for xs
    using that verify_loop_Inr [of sha zero_hash xs "head_of zero_hash xs"]
    by (simp add: verify_def head_of_def)
  have "verify sha (append_row sha rs e p ts) = Intact (length rs + 1) (next_hash sha (head_of zero_hash rs) p ts)"
    using intact [of "append_row sha rs e p ts"] c by (simp add: append_row_def chained_append)
  moreover have "verify sha (take k rs) = Intact k (row_hash (rs ! (k - 1)))" if "0 < k" "k \<le> length rs"
  proof -
    have "chained sha zero_hash (take k rs)"
      using c chained_append [of sha zero_hash "take k rs" "drop k rs"] by simp
    moreover have "last (take k rs) = rs ! (k - 1)" using that by (cases "rs = []") (auto simp: last_conv_nth)
    ultimately show ?thesis using intact [of "take k rs"] that by (cases rs) auto
  qed
  ultimately show ?thesis by blast
qed

theorem append_and_truncate_witness:
  "let rs = append_row toy_sha (append_row toy_sha [] 1 [7] 5) 2 [8] 6
   in verify toy_sha (take 1 rs) = Intact 1 (row_hash (rs ! 0))"
proof -
  let ?r = "append_row toy_sha [] 1 [7] 5"
  have 1: "verify toy_sha ?r = Intact (length ?r) (row_hash (last ?r))"
    by (simp add: append_row_def verify_def head_of_def)
  have 2: "verify toy_sha (append_row toy_sha ?r 2 [8] 6) =
      Intact (length ?r + 1) (next_hash toy_sha (head_of zero_hash ?r) [8] 6)"
    using append_and_truncate [OF disjI2, OF 1] by blast
  from append_and_truncate [OF disjI2, OF 2, of undefined undefined undefined 1] show ?thesis
    by (simp add: Let_def append_row_def)
qed

end
