(* ===== verification/JsonValue.thy ===== *)
theory JsonValue
  imports OrdMap
begin

text \<open>
  The values of \<open>serde_json\<close> as the code builds and walks them: an object is an ordered map
  from keys to values, a number is an integer (no part of the modelled code writes or reads a
  fractional one).  The text formats, JSON and YAML, are the libraries' and are not modelled.
\<close>

datatype json =
    JNull
  | JBool bool
  | JInt int
  | JStr string
  | JArr "json list"
  | JObj "(string, json) omap"

text \<open>An object literal: the entries inserted in order.\<close>

definition obj :: "(string \<times> json) list \<Rightarrow> (string, json) omap" where
  "obj kvs = fold (\<lambda>(k, v) m. om_put k v m) kvs om_empty"

definition jobj :: "(string \<times> json) list \<Rightarrow> json" where
  "jobj kvs = JObj (obj kvs)"

fun jget :: "json \<Rightarrow> string \<Rightarrow> json option" where
  "jget (JObj m) k = om_get m k"
| "jget _ k = None"

fun as_object :: "json \<Rightarrow> (string, json) omap option" where
  "as_object (JObj m) = Some m"
| "as_object _ = None"

fun as_array :: "json \<Rightarrow> json list option" where
  "as_array (JArr vs) = Some vs"
| "as_array _ = None"

fun as_str :: "json \<Rightarrow> string option" where
  "as_str (JStr s) = Some s"
| "as_str _ = None"

fun as_bool :: "json \<Rightarrow> bool option" where
  "as_bool (JBool b) = Some b"
| "as_bool _ = None"

fun as_u64 :: "json \<Rightarrow> int option" where
  "as_u64 (JInt i) = (if 0 \<le> i \<and> i < 2 ^ 64 then Some i else None)"
| "as_u64 _ = None"

fun as_i64 :: "json \<Rightarrow> int option" where
  "as_i64 (JInt i) = (if - (2 ^ 63) \<le> i \<and> i < 2 ^ 63 then Some i else None)"
| "as_i64 _ = None"

definition opt_default :: "'a \<Rightarrow> 'a option \<Rightarrow> 'a" where
  "opt_default d x = (case x of Some v \<Rightarrow> v | None \<Rightarrow> d)"

lemma opt_default_simps [simp]: "opt_default d (Some v) = v" "opt_default d None = d"
  by (simp_all add: opt_default_def)

text \<open>An object literal is read back by its last entry for the key.\<close>

named_theorems json_simps "facts that read a built JSON value back"

lemma om_get_obj [json_simps]: "om_get (obj kvs) k = map_of (rev kvs) k"
proof -
  have "om_get (fold (\<lambda>(k, v) m. om_put k v m) kvs m) k =
      (case map_of (rev kvs) k of Some v \<Rightarrow> Some v | None \<Rightarrow> om_get m k)" for m
    by (induction kvs arbitrary: m) (auto simp: om_get_put map_add_def split: option.splits)
  then show ?thesis by (simp add: obj_def split: option.splits)
qed

lemma jget_jobj [json_simps]: "jget (jobj kvs) k = map_of (rev kvs) k"
  by (simp add: jobj_def om_get_obj)

lemma as_object_jobj [json_simps]: "as_object (jobj kvs) = Some (obj kvs)"
  by (simp add: jobj_def)

lemma map_filter_inverse:
  "(\<And>x. x \<in> set xs \<Longrightarrow> f (g x) = Some (h x)) \<Longrightarrow> List.map_filter f (map g xs) = map h xs"
  by (induction xs) (simp_all add: List.map_filter_simps)

end
