(* ===== verification/FleetNetstate.thy ===== *)
theory FleetNetstate
  imports JsonValue
begin

text \<open>
  The network desired state of the fleet (\<open>crates/mesh/magic-fleet/src/netstate.rs\<close>): the
  model, its rendering into the nmstate document and the reading of nmstate's answer, the
  desired-versus-actual diff, and the apply under a rollback checkpoint with a reachability test.
  The host tools behind the \<open>NetOps\<close> trait are the fields of a record of functions on an
  abstract world.
\<close>

section \<open>The model\<close>

type_synonym i64 = "64 word"

datatype link_state = Up | Down | Absent

fun as_nmstate :: "link_state \<Rightarrow> string" where
  "as_nmstate Up = ''up''"
| "as_nmstate Down = ''down''"
| "as_nmstate Absent = ''absent''"

record ip_address =
  ip :: string
  prefix_len :: u8

definition cidr :: "ip_address \<Rightarrow> string" where
  "cidr a = ip a @ ''/'' @ show_nat (unat (prefix_len a))"

record ip_config =
  enabled :: bool
  dhcp :: bool
  addresses :: "ip_address list"

record net_interface =
  if_name :: string
  iface_type :: string
  if_state :: link_state
  ipv4 :: "ip_config option"
  ipv6 :: "ip_config option"

record route =
  destination :: string
  next_hop_address :: string
  next_hop_interface :: string
  metric :: "i64 option"

record dns_config =
  dns_server :: "string list"
  dns_search :: "string list"

definition dns_is_empty :: "dns_config \<Rightarrow> bool" where
  "dns_is_empty d = (dns_server d = [] \<and> dns_search d = [])"

record net_state =
  interfaces :: "net_interface list"
  net_routes :: "route list"
  dns :: dns_config

definition dns_default :: dns_config where
  "dns_default = \<lparr>dns_server = [], dns_search = []\<rparr>"

definition net_default :: net_state where
  "net_default = \<lparr>interfaces = [], net_routes = [], dns = dns_default\<rparr>"

definition net_is_empty :: "net_state \<Rightarrow> bool" where
  "net_is_empty s = (interfaces s = [] \<and> net_routes s = [] \<and> dns_is_empty (dns s))"

section \<open>The nmstate document\<close>

definition render_address :: "ip_address \<Rightarrow> json" where
  "render_address a = jobj [(''ip'', JStr (ip a)), (''prefix-length'', JInt (uint (prefix_len a)))]"

definition render_family :: "ip_config \<Rightarrow> json" where
  "render_family c =
     jobj ([(''enabled'', JBool (enabled c))] @
       (if enabled c then
          [(''dhcp'', JBool (dhcp c))] @
          (if \<not> dhcp c then [(''address'', JArr (map render_address (addresses c)))] else [])
        else []))"

definition render_interface :: "net_interface \<Rightarrow> json" where
  "render_interface i =
     jobj ([(''name'', JStr (if_name i)), (''type'', JStr (iface_type i)),
            (''state'', JStr (as_nmstate (if_state i)))] @
       (case ipv4 i of Some c \<Rightarrow> [(''ipv4'', render_family c)] | None \<Rightarrow> []) @
       (case ipv6 i of Some c \<Rightarrow> [(''ipv6'', render_family c)] | None \<Rightarrow> []))"

definition render_route :: "route \<Rightarrow> json" where
  "render_route r =
     jobj ([(''destination'', JStr (destination r)), (''next-hop-address'', JStr (next_hop_address r)),
            (''next-hop-interface'', JStr (next_hop_interface r))] @
       (case metric r of Some m \<Rightarrow> [(''metric'', JInt (sint m))] | None \<Rightarrow> []))"

text \<open>The value that \<open>to_nmstate_yaml\<close> hands to the YAML writer.\<close>

definition to_nmstate :: "net_state \<Rightarrow> json" where
  "to_nmstate s =
     jobj ([(''interfaces'', JArr (map render_interface (interfaces s)))] @
       (if net_routes s \<noteq> []
        then [(''routes'', jobj [(''config'', JArr (map render_route (net_routes s)))])] else []) @
       (if \<not> dns_is_empty (dns s)
        then [(''dns-resolver'', jobj [(''config'', jobj
          [(''server'', JArr (map JStr (dns_server (dns s)))),
           (''search'', JArr (map JStr (dns_search (dns s))))])])] else []))"

section \<open>Reading nmstate\<close>

definition parse_address :: "json \<Rightarrow> ip_address option" where
  "parse_address a =
     (case Option.bind (jget a ''ip'') as_str of
        None \<Rightarrow> None
      | Some s \<Rightarrow>
          (case Option.bind (jget a ''prefix-length'') as_u64 of
             None \<Rightarrow> None
           | Some n \<Rightarrow> if n < 256 then Some \<lparr>ip = s, prefix_len = of_int n\<rparr> else None))"

definition parse_family :: "json \<Rightarrow> ip_config option" where
  "parse_family fam =
     (case as_object fam of
        None \<Rightarrow> None
      | Some m \<Rightarrow>
          Some \<lparr>enabled = opt_default False (Option.bind (om_get m ''enabled'') as_bool),
                dhcp = opt_default False (Option.bind (om_get m ''dhcp'') as_bool),
                addresses = opt_default [] (map_option (List.map_filter parse_address)
                  (Option.bind (om_get m ''address'') as_array))\<rparr>)"

definition parse_link :: "string option \<Rightarrow> link_state" where
  "parse_link s = (if s = Some ''down'' then Down else if s = Some ''absent'' then Absent else Up)"

definition parse_interface :: "json \<Rightarrow> net_interface option" where
  "parse_interface i =
     (case as_object i of
        None \<Rightarrow> None
      | Some m \<Rightarrow>
          (case Option.bind (om_get m ''name'') as_str of
             None \<Rightarrow> None
           | Some n \<Rightarrow>
               Some \<lparr>if_name = n,
                     iface_type = opt_default [] (Option.bind (om_get m ''type'') as_str),
                     if_state = parse_link (Option.bind (om_get m ''state'') as_str),
                     ipv4 = Option.bind (om_get m ''ipv4'') parse_family,
                     ipv6 = Option.bind (om_get m ''ipv6'') parse_family\<rparr>))"

definition parse_route :: "json \<Rightarrow> route option" where
  "parse_route r =
     (case as_object r of
        None \<Rightarrow> None
      | Some m \<Rightarrow>
          (case Option.bind (om_get m ''destination'') as_str of
             None \<Rightarrow> None
           | Some d \<Rightarrow>
               Some \<lparr>destination = d,
                     next_hop_address = opt_default [] (Option.bind (om_get m ''next-hop-address'') as_str),
                     next_hop_interface = opt_default [] (Option.bind (om_get m ''next-hop-interface'') as_str),
                     metric = map_option of_int (Option.bind (om_get m ''metric'') as_i64)\<rparr>))"

definition parse_strings :: "json option \<Rightarrow> string list" where
  "parse_strings v = opt_default [] (map_option (List.map_filter as_str) (Option.bind v as_array))"

text \<open>The walk over the parsed value; a text that does not parse gives the default state.\<close>

definition from_nmstate :: "json option \<Rightarrow> net_state" where
  "from_nmstate doc =
     (case doc of
        None \<Rightarrow> net_default
      | Some v \<Rightarrow>
          \<lparr>interfaces = opt_default [] (map_option (List.map_filter parse_interface)
             (Option.bind (jget v ''interfaces'') as_array)),
           net_routes = opt_default [] (map_option (List.map_filter parse_route)
             (Option.bind (Option.bind (jget v ''routes'') (\<lambda>r. jget r ''config'')) as_array)),
           dns = (case Option.bind (jget v ''dns-resolver'') (\<lambda>d. jget d ''config'') of
               None \<Rightarrow> dns_default
             | Some c \<Rightarrow> \<lparr>dns_server = parse_strings (jget c ''server''),
                          dns_search = parse_strings (jget c ''search'')\<rparr>)\<rparr>)"

section \<open>The diff\<close>

datatype net_kind = KInterface | KRoute | KDns

record net_change =
  ch_kind :: net_kind
  ch_target :: string
  ch_action :: string
  ch_from :: string
  ch_to :: string

definition summarize :: "net_interface \<Rightarrow> string" where
  "summarize i =
     (let v4 = (case ipv4 i of
                  None \<Rightarrow> []
                | Some c \<Rightarrow>
                    if \<not> enabled c then ''v4:off''
                    else if dhcp c then ''v4:dhcp''
                    else ''v4:'' @ join_with '','' (map cidr (addresses c)))
      in trim (iface_type i @ '' '' @ as_nmstate (if_state i) @ '' '' @ v4))"

definition interface_change :: "string \<Rightarrow> string \<Rightarrow> string \<Rightarrow> net_interface \<Rightarrow> net_change" where
  "interface_change n act frm want =
     \<lparr>ch_kind = KInterface, ch_target = n, ch_action = act, ch_from = frm, ch_to = summarize want\<rparr>"

definition route_key :: "route \<Rightarrow> string" where
  "route_key r = destination r @ '' via '' @ next_hop_interface r"

text \<open>Collecting into a map keeps the last entry of a key.\<close>

definition interface_map :: "net_state \<Rightarrow> (string, net_interface) omap" where
  "interface_map s = fold (\<lambda>i m. om_put (if_name i) i m) (interfaces s) om_empty"

definition route_map :: "net_state \<Rightarrow> (string, route) omap" where
  "route_map s = fold (\<lambda>r m. om_put (route_key r) r m) (net_routes s) om_empty"

definition diff_interface :: "net_state \<Rightarrow> net_interface \<Rightarrow> net_change list" where
  "diff_interface actual want =
     (case om_get (interface_map actual) (if_name want) of
        None \<Rightarrow> [interface_change (if_name want) ''add'' ''not present'' want]
      | Some have_i \<Rightarrow>
          if have_i \<noteq> want then [interface_change (if_name want) ''update'' (summarize have_i) want]
          else [])"

definition diff_route :: "net_state \<Rightarrow> route \<Rightarrow> net_change list" where
  "diff_route actual want =
     (case om_get (route_map actual) (route_key want) of
        None \<Rightarrow> [\<lparr>ch_kind = KRoute, ch_target = route_key want, ch_action = ''add'',
                  ch_from = ''not present'', ch_to = next_hop_address want\<rparr>]
      | Some have_r \<Rightarrow>
          if have_r \<noteq> want
          then [\<lparr>ch_kind = KRoute, ch_target = route_key want, ch_action = ''update'',
                 ch_from = next_hop_address have_r, ch_to = next_hop_address want\<rparr>]
          else [])"

definition net_diff :: "net_state \<Rightarrow> net_state \<Rightarrow> net_change list" where
  "net_diff want actual =
     concat (map (diff_interface actual) (interfaces want)) @
     concat (map (diff_route actual) (net_routes want)) @
     (if \<not> dns_is_empty (dns want) \<and> dns want \<noteq> dns actual
      then [\<lparr>ch_kind = KDns, ch_target = ''dns-resolver'', ch_action = ''update'',
             ch_from = join_with '','' (dns_server (dns actual)),
             ch_to = join_with '','' (dns_server (dns want))\<rparr>]
      else [])"

section \<open>The guarded apply\<close>

datatype apply_outcome =
    NoChange
  | Committed
  | RolledBack "string list"
  | Failed string

text \<open>The side-effecting operations, on a world \<open>'w\<close>.\<close>

record 'w net_ops =
  op_read :: "'w \<Rightarrow> net_state"
  op_checkpoint :: "'w \<Rightarrow> (string, string) result \<times> 'w"
  op_apply :: "json \<Rightarrow> 'w \<Rightarrow> (string, unit) result \<times> 'w"
  op_unreachable :: "string list \<Rightarrow> 'w \<Rightarrow> string list"
  op_commit :: "string \<Rightarrow> 'w \<Rightarrow> (string, unit) result \<times> 'w"
  op_rollback :: "string \<Rightarrow> 'w \<Rightarrow> 'w"

definition apply_with_self_test ::
  "'w net_ops \<Rightarrow> net_state \<Rightarrow> string list \<Rightarrow> 'w \<Rightarrow> apply_outcome \<times> 'w" where
  "apply_with_self_test ops desired probes w =
     (if net_diff desired (op_read ops w) = [] then (NoChange, w)
      else
        (case op_checkpoint ops w of
           (Inl e, w1) \<Rightarrow> (Failed (''checkpoint: '' @ e), w1)
         | (Inr cp, w1) \<Rightarrow>
             (case op_apply ops (to_nmstate desired) w1 of
                (Inl e, w2) \<Rightarrow> (Failed (''apply: '' @ e), op_rollback ops cp w2)
              | (Inr _, w2) \<Rightarrow>
                  let bad = op_unreachable ops probes w2 in
                  if bad = [] then
                    (case op_commit ops cp w2 of
                       (Inr _, w3) \<Rightarrow> (Committed, w3)
                     | (Inl e, w3) \<Rightarrow> (Failed (''commit: '' @ e), op_rollback ops cp w3))
                  else (RolledBack bad, op_rollback ops cp w2))))"

section \<open>What survives the nmstate document\<close>

text \<open>The canonical form of an address family: a disabled one has neither DHCP nor addresses, and
  one with DHCP has no static addresses; only that much is rendered.\<close>

definition canon_family :: "ip_config \<Rightarrow> ip_config" where
  "canon_family c =
     (if \<not> enabled c then \<lparr>enabled = False, dhcp = False, addresses = []\<rparr>
      else if dhcp c then c\<lparr>addresses := []\<rparr> else c)"

definition canon_interface :: "net_interface \<Rightarrow> net_interface" where
  "canon_interface i = i\<lparr>ipv4 := map_option canon_family (ipv4 i), ipv6 := map_option canon_family (ipv6 i)\<rparr>"

definition canon :: "net_state \<Rightarrow> net_state" where
  "canon s = s\<lparr>interfaces := map canon_interface (interfaces s)\<rparr>"

lemma parse_render_address: "parse_address (render_address a) = Some a"
proof -
  have "uint (prefix_len a) < 2 ^ LENGTH(8)" by (rule uint_lt2p)
  then have "uint (prefix_len a) < 256" by simp
  then show ?thesis
    by (simp add: parse_address_def render_address_def json_simps)
qed

lemma parse_render_family: "parse_family (render_family c) = Some (canon_family c)"
  using map_filter_inverse [of "addresses c" parse_address render_address id] parse_render_address
  by (simp add: parse_family_def render_family_def json_simps canon_family_def)

lemma parse_link_inverse: "parse_link (Some (as_nmstate l)) = l"
  by (cases l) (simp_all add: parse_link_def)

lemma parse_render_interface: "parse_interface (render_interface i) = Some (canon_interface i)"
  by (cases "ipv4 i"; cases "ipv6 i")
    (simp_all add: parse_interface_def render_interface_def json_simps canon_interface_def
      parse_render_family parse_link_inverse)

lemma sint_bounds: "- (2 ^ 63) \<le> sint m \<and> sint m < 2 ^ 63" for m :: i64
  using sint_greater_eq [of m] sint_less [of m] by simp

lemma parse_render_route: "parse_route (render_route r) = Some r"
  using sint_bounds
  by (cases "metric r") (simp_all add: parse_route_def render_route_def json_simps)

lemma parse_strings_inverse: "parse_strings (Some (JArr (map JStr ss))) = ss"
  using map_filter_inverse [of ss as_str JStr id] by (simp add: parse_strings_def)

lemma dns_empty_default: "dns_is_empty d \<Longrightarrow> d = dns_default"
  by (cases d) (simp add: dns_is_empty_def dns_default_def)

lemma from_to_nmstate: "from_nmstate (Some (to_nmstate s)) = canon s"
proof -
  have i: "List.map_filter parse_interface (map render_interface (interfaces s)) = map canon_interface (interfaces s)"
    by (rule map_filter_inverse) (simp add: parse_render_interface)
  have r: "List.map_filter parse_route (map render_route (net_routes s)) = net_routes s"
    using map_filter_inverse [of "net_routes s" parse_route render_route id]
    by (simp add: parse_render_route)
  have d: "dns_is_empty (dns s) \<Longrightarrow> dns s = dns_default" by (rule dns_empty_default)
  show ?thesis
    by (cases "dns_is_empty (dns s)"; cases "net_routes s = []")
      (simp_all add: from_nmstate_def to_nmstate_def json_simps i r parse_strings_inverse canon_def
        d [symmetric])
qed

text \<open>C36. The nmstate document carries every managed field except what its schema leaves out: reading
  back what was rendered gives the state with every address family in canonical form, and the
  state itself exactly when its families are canonical.\<close>

theorem nmstate_roundtrip:
  "from_nmstate (Some (to_nmstate s)) = canon s
   \<and> (from_nmstate (Some (to_nmstate s)) = s \<longleftrightarrow>
        list_all (\<lambda>i. pred_option (\<lambda>c. canon_family c = c) (ipv4 i) \<and>
          pred_option (\<lambda>c. canon_family c = c) (ipv6 i)) (interfaces s))"
proof -
  have "canon_interface i = i \<longleftrightarrow> pred_option (\<lambda>c. canon_family c = c) (ipv4 i) \<and>
      pred_option (\<lambda>c. canon_family c = c) (ipv6 i)" for i
    by (cases i; cases "ipv4 i"; cases "ipv6 i") (auto simp: canon_interface_def)
  moreover have "canon s = s \<longleftrightarrow> list_all (\<lambda>i. canon_interface i = i) (interfaces s)"
  proof -
    have "map canon_interface xs = xs \<longleftrightarrow> list_all (\<lambda>i. canon_interface i = i) xs" for xs
      by (induction xs) auto
    then show ?thesis by (cases s) (simp add: canon_def)
  qed
  ultimately show ?thesis by (simp add: from_to_nmstate)
qed

section \<open>The diff\<close>

lemma get_fold_put:
  "om_get (fold (\<lambda>x m. om_put (f x) x m) xs m) k =
     (case find (\<lambda>x. f x = k) (rev xs) of Some x \<Rightarrow> Some x | None \<Rightarrow> om_get m k)"
proof (induction xs arbitrary: m)
  case (Cons x xs)
  have "find P (ys @ [x]) = (case find P ys of Some y \<Rightarrow> Some y | None \<Rightarrow> if P x then Some x else None)" for P ys
    by (induction ys) auto
  with Cons show ?case by (auto simp: om_get_put split: option.splits)
qed simp

definition present_interface :: "net_state \<Rightarrow> net_interface \<Rightarrow> bool" where
  "present_interface s i = (find (\<lambda>j. if_name j = if_name i) (rev (interfaces s)) = Some i)"

definition present_route :: "net_state \<Rightarrow> route \<Rightarrow> bool" where
  "present_route s r = (find (\<lambda>q. route_key q = route_key r) (rev (net_routes s)) = Some r)"

lemma diff_interface_Nil: "diff_interface s i = [] \<longleftrightarrow> present_interface s i"
  by (simp add: diff_interface_def interface_map_def get_fold_put present_interface_def
      split: option.splits)

lemma diff_route_Nil: "diff_route s r = [] \<longleftrightarrow> present_route s r"
  by (simp add: diff_route_def route_map_def get_fold_put present_route_def split: option.splits)

lemma net_diff_Nil:
  "net_diff want actual = [] \<longleftrightarrow>
     list_all (present_interface actual) (interfaces want) \<and>
     list_all (present_route actual) (net_routes want) \<and>
     (dns_is_empty (dns want) \<or> dns want = dns actual)"
  by (simp add: net_diff_def diff_interface_Nil diff_route_Nil list_all_iff)

lemma find_rev_distinct:
  "distinct (map f xs) \<Longrightarrow> x \<in> set xs \<Longrightarrow> find (\<lambda>y. f y = f x) (rev xs) = Some x"
proof -
  assume d: "distinct (map f xs)" and x: "x \<in> set xs"
  obtain y where y: "find (\<lambda>y. f y = f x) (rev xs) = Some y"
    using x by (cases "find (\<lambda>y. f y = f x) (rev xs)") (auto simp: find_None_iff)
  then have "y \<in> set xs" "f y = f x" by (auto dest: find_SomeD)
  with d x have "y = x" by (auto simp: distinct_map inj_on_def)
  with y show ?thesis by simp
qed

lemma find_rev_mem: "find P (rev xs) = Some x \<Longrightarrow> x \<in> set xs"
  by (auto dest: find_SomeD)

text \<open>The diff is empty exactly when every declared interface and route is what the box last
  reports under its key, field by field, and the resolver is unmanaged or equal; what the box has
  beyond the declaration is never reported.  Applying a declaration with distinct names and
  routes and reading it back settles the diff exactly when the declaration is canonical.\<close>

theorem diff_settles:
  assumes "distinct (map if_name (interfaces s))" and "distinct (map route_key (net_routes s))"
  shows "(net_diff want actual = [] \<longleftrightarrow>
        list_all (present_interface actual) (interfaces want) \<and>
        list_all (present_route actual) (net_routes want) \<and>
        (dns_is_empty (dns want) \<or> dns want = dns actual))
    \<and> (net_diff s (from_nmstate (Some (to_nmstate s))) = [] \<longleftrightarrow> canon s = s)"
proof -
  have same: "net_diff s s = []"
    unfolding net_diff_Nil
    using find_rev_distinct [OF assms(1)] find_rev_distinct [OF assms(2)]
    by (simp add: list_all_iff present_interface_def present_route_def)
  have "canon s = s" if "net_diff s (canon s) = []"
  proof -
    have "canon_interface i = i" if i: "i \<in> set (interfaces s)" for i
    proof -
      have "present_interface (canon s) i"
        using \<open>net_diff s (canon s) = []\<close> i by (simp add: net_diff_Nil list_all_iff)
      then have "i \<in> set (interfaces (canon s))"
        unfolding present_interface_def by (rule find_rev_mem)
      then obtain j where j: "j \<in> set (interfaces s)" "i = canon_interface j" by (auto simp: canon_def)
      then have "if_name i = if_name j" by (simp add: canon_interface_def)
      then have "j = i" using assms(1) i j(1) by (metis distinct_map inj_onD)
      show ?thesis using j(2) unfolding \<open>j = i\<close> by (rule sym)
    qed
    then have "map canon_interface (interfaces s) = interfaces s" by (rule map_idI)
    then show ?thesis by (cases s) (simp add: canon_def)
  qed
  with same show ?thesis
    by (auto simp: net_diff_Nil from_to_nmstate)
qed

definition eth :: net_interface where
  "eth = \<lparr>if_name = ''eth0'', iface_type = ''ethernet'', if_state = Up,
     ipv4 = Some \<lparr>enabled = True, dhcp = False, addresses = [\<lparr>ip = ''10.42.0.7'', prefix_len = 24\<rparr>]\<rparr>,
     ipv6 = None\<rparr>"

theorem diff_settles_witness:
  "net_diff (net_default\<lparr>interfaces := [eth]\<rparr>)
     (from_nmstate (Some (to_nmstate (net_default\<lparr>interfaces := [eth]\<rparr>)))) = []"
  using diff_settles [of "net_default\<lparr>interfaces := [eth]\<rparr>" net_default net_default]
  by (simp add: net_default_def canon_def canon_interface_def canon_family_def eth_def)

section \<open>The guarded apply\<close>

text \<open>An interface declared as absent is reported as missing whenever the box, as asked, does not
  have it: the diff then always holds an addition, so the guarded apply never finds the state
  settled and starts a checkpoint on every run.\<close>

theorem absent_interface_never_settles:
  assumes "i \<in> set (interfaces want)" and "if_state i = Absent"
    and "if_name i \<notin> set (map if_name (interfaces (op_read ops w)))"
  shows "interface_change (if_name i) ''add'' ''not present'' i \<in> set (net_diff want (op_read ops w))
    \<and> fst (apply_with_self_test ops want probes w) \<noteq> NoChange"
proof -
  have "find (\<lambda>j. if_name j = if_name i) (rev (interfaces (op_read ops w))) = None"
    using assms(3) by (auto simp: find_None_iff image_iff)
  then have "diff_interface (op_read ops w) i = [interface_change (if_name i) ''add'' ''not present'' i]"
    by (simp add: diff_interface_def interface_map_def get_fold_put)
  with assms(1) have mem: "interface_change (if_name i) ''add'' ''not present'' i \<in> set (net_diff want (op_read ops w))"
    unfolding net_diff_def by fastforce
  then have "net_diff want (op_read ops w) \<noteq> []" by auto
  with mem show ?thesis
    by (auto simp: apply_with_self_test_def Let_def split: prod.splits sum.splits)
qed

text \<open>A box whose configuration is replaced by an apply and restored by a rollback: the state and the
  checkpointed one.\<close>

definition demo_ops :: "(string list \<Rightarrow> string list) \<Rightarrow> (net_state \<times> net_state) net_ops" where
  "demo_ops bad =
     \<lparr>op_read = fst, op_checkpoint = (\<lambda>(s, c). (Inr ''cp'', (s, s))),
      op_apply = (\<lambda>doc (s, c). (Inr (), (from_nmstate (Some doc), c))),
      op_unreachable = (\<lambda>ts w. bad ts), op_commit = (\<lambda>cp w. (Inr (), w)),
      op_rollback = (\<lambda>cp (s, c). (c, c))\<rparr>"

theorem absent_interface_never_settles_witness:
  "fst (apply_with_self_test (demo_ops (\<lambda>_. [])) (net_default\<lparr>interfaces := [eth\<lparr>if_state := Absent\<rparr>]\<rparr>) []
      (net_default, net_default)) \<noteq> NoChange"
proof -
  have "if_name (eth\<lparr>if_state := Absent\<rparr>) \<notin>
      set (map if_name (interfaces (op_read (demo_ops (\<lambda>_. [])) (net_default, net_default))))"
    by (simp add: demo_ops_def net_default_def)
  from absent_interface_never_settles [OF _ _ this, of "net_default\<lparr>interfaces := [eth\<lparr>if_state := Absent\<rparr>]\<rparr>"]
  show ?thesis by simp
qed

text \<open>What the host tools promise: taking a checkpoint does not change the configuration, and a
  rollback to it restores the configuration whatever an apply, and a failed commit after it, did
  in between.\<close>

definition checkpoint_contract :: "'w net_ops \<Rightarrow> bool" where
  "checkpoint_contract ops =
     (\<forall>w. (case op_checkpoint ops w of
        (Inl e, w1) \<Rightarrow> op_read ops w1 = op_read ops w
      | (Inr cp, w1) \<Rightarrow>
          (\<forall>doc. op_read ops (op_rollback ops cp (snd (op_apply ops doc w1))) = op_read ops w \<and>
             op_read ops (op_rollback ops cp (snd (op_commit ops cp (snd (op_apply ops doc w1))))) = op_read ops w)))"



end
