(* ===== verification/FleetBaseline.thy ===== *)
theory FleetBaseline
  imports FleetNetstate
begin

text \<open>
  The desired-state baseline of the fleet (\<open>crates/mesh/magic-fleet/src/lib.rs\<close>): the
  resource requests, a node's local exceptions, the rendering into Ansible tasks, the apply
  report and its drift classification, and the revisions with their election.
\<close>

section \<open>The apply report\<close>

record apply_report =
  rep_ok :: u32
  rep_changed :: u32
  rep_failures :: u32
  rep_unreachable :: u32

definition converged :: "apply_report \<Rightarrow> bool" where
  "converged r = (rep_failures r = 0 \<and> rep_unreachable r = 0)"

definition made_changes :: "apply_report \<Rightarrow> bool" where
  "made_changes r = (rep_changed r > 0)"

text \<open>The counts of one bucket, each capped at the largest \<open>u32\<close>, summed; the sum of
  \<open>u32\<close> values wraps in a release build.\<close>

definition capped_u32 :: "int \<Rightarrow> u32" where
  "capped_u32 n = (if n < 2 ^ 32 then of_int n else - 1)"

definition sum_bucket :: "json \<Rightarrow> string \<Rightarrow> u32" where
  "sum_bucket ed key =
     (case Option.bind (jget ed key) as_object of
        None \<Rightarrow> 0
      | Some m \<Rightarrow> sum_list (map capped_u32 (List.map_filter as_u64 (om_values m))))"

text \<open>The event as parsed; \<open>None\<close> where the text is no JSON.\<close>

definition parse_stats :: "json option \<Rightarrow> apply_report option" where
  "parse_stats event =
     Option.bind event (\<lambda>v.
       Option.bind (Option.bind (jget v ''event'') as_str) (\<lambda>name.
         if name \<noteq> ''playbook_on_stats'' then None
         else Option.bind (jget v ''event_data'') (\<lambda>ed.
           Some \<lparr>rep_ok = sum_bucket ed ''ok'', rep_changed = sum_bucket ed ''changed'',
                 rep_failures = sum_bucket ed ''failures'', rep_unreachable = sum_bucket ed ''dark''\<rparr>)))"

datatype drift_status = InSync | Healed | DriftFailed

definition classify :: "apply_report \<Rightarrow> drift_status" where
  "classify r = (if \<not> converged r then DriftFailed else if made_changes r then Healed else InSync)"

section \<open>Requests\<close>

datatype present_absent = Present | AbsentR

datatype service_state = Started | Stopped

record package_req =
  pkg_name :: string
  pkg_state :: present_absent

record service_req =
  svc_name :: string
  svc_enabled :: bool
  svc_state :: service_state

record file_req =
  file_path :: string
  file_content :: string
  file_state :: present_absent

fun pa :: "present_absent \<Rightarrow> string" where
  "pa Present = ''present''"
| "pa AbsentR = ''absent''"

record user_req =
  user_name :: string
  user_state :: present_absent
  user_groups :: "string list"
  user_shell :: "string option"
  user_system :: bool

record group_req =
  group_name :: string
  group_state :: present_absent
  group_system :: bool

record cron_req =
  cron_name :: string
  cron_job :: string
  cron_state :: present_absent
  cron_minute :: "string option"
  cron_hour :: "string option"
  cron_weekday :: "string option"
  cron_user :: "string option"

record sysctl_req =
  sysctl_name :: string
  sysctl_value :: string
  sysctl_reload :: bool

record firewall_req =
  fw_service :: "string option"
  fw_port :: "string option"
  fw_state :: present_absent
  fw_zone :: "string option"
  fw_permanent :: bool
  fw_immediate :: bool

record baseline_spec =
  packages :: "package_req list"
  services :: "service_req list"
  files :: "file_req list"
  users :: "user_req list"
  groups :: "group_req list"
  cron :: "cron_req list"
  sysctl :: "sysctl_req list"
  firewall :: "firewall_req list"
  netstate :: net_state
  settings :: "(string, string) omap"

record local_exceptions =
  ex_packages :: "string list"
  ex_services :: "string list"
  ex_files :: "string list"
  ex_users :: "string list"
  ex_groups :: "string list"
  ex_cron :: "string list"
  ex_sysctl :: "string list"
  ex_firewall :: "string list"

definition ex_len :: "local_exceptions \<Rightarrow> nat" where
  "ex_len ex = length (ex_packages ex) + length (ex_services ex) + length (ex_files ex) +
     length (ex_users ex) + length (ex_groups ex) + length (ex_cron ex) +
     length (ex_sysctl ex) + length (ex_firewall ex)"

definition ex_is_empty :: "local_exceptions \<Rightarrow> bool" where
  "ex_is_empty ex = (ex_len ex = 0)"

definition keep :: "string list \<Rightarrow> string \<Rightarrow> bool" where
  "keep lst i = (\<not> list_ex (\<lambda>e. e = i) lst)"

definition fw_id :: "firewall_req \<Rightarrow> string" where
  "fw_id f = (case fw_service f of Some s \<Rightarrow> s
              | None \<Rightarrow> (case fw_port f of Some p \<Rightarrow> p | None \<Rightarrow> []))"

definition without_exceptions :: "local_exceptions \<Rightarrow> baseline_spec \<Rightarrow> baseline_spec" where
  "without_exceptions ex b =
     \<lparr>packages = filter (\<lambda>p. keep (ex_packages ex) (pkg_name p)) (packages b),
      services = filter (\<lambda>s. keep (ex_services ex) (svc_name s)) (services b),
      files = filter (\<lambda>f. keep (ex_files ex) (file_path f)) (files b),
      users = filter (\<lambda>u. keep (ex_users ex) (user_name u)) (users b),
      groups = filter (\<lambda>g. keep (ex_groups ex) (group_name g)) (groups b),
      cron = filter (\<lambda>c. keep (ex_cron ex) (cron_name c)) (cron b),
      sysctl = filter (\<lambda>s. keep (ex_sysctl ex) (sysctl_name s)) (sysctl b),
      firewall = filter (\<lambda>f. keep (ex_firewall ex) (fw_id f)) (firewall b),
      netstate = netstate b, settings = settings b\<rparr>"

section \<open>Tasks\<close>

text \<open>A format string's pieces; \<open>->\<close> and the like are literal.\<close>

definition show_bool :: "bool \<Rightarrow> string" where
  "show_bool b = (if b then ''true'' else ''false'')"

definition package_task :: "package_req \<Rightarrow> json" where
  "package_task p =
     (let state = pa (pkg_state p) in
      jobj [(''name'', JStr (''package '' @ pkg_name p @ '' -> '' @ state)),
            (''ansible.builtin.package'', jobj [(''name'', JStr (pkg_name p)), (''state'', JStr state)])])"

definition service_task :: "service_req \<Rightarrow> json" where
  "service_task s =
     (let state = (case svc_state s of Started \<Rightarrow> ''started'' | Stopped \<Rightarrow> ''stopped'') in
      jobj [(''name'', JStr (''service '' @ svc_name s @ '' -> '' @ state @ '' (enabled='' @
               show_bool (svc_enabled s) @ '')'')),
            (''ansible.builtin.service'', jobj [(''name'', JStr (svc_name s)), (''state'', JStr state),
               (''enabled'', JBool (svc_enabled s))])])"

definition file_task :: "file_req \<Rightarrow> json" where
  "file_task f =
     (case file_state f of
        Present \<Rightarrow>
          jobj [(''name'', JStr (''file '' @ file_path f @ '' -> present'')),
                (''ansible.builtin.copy'', jobj [(''dest'', JStr (file_path f)),
                   (''content'', JStr (file_content f))])]
      | AbsentR \<Rightarrow>
          jobj [(''name'', JStr (''file '' @ file_path f @ '' -> absent'')),
                (''ansible.builtin.file'', jobj [(''path'', JStr (file_path f)),
                   (''state'', JStr ''absent'')])])"

definition group_task :: "group_req \<Rightarrow> json" where
  "group_task g =
     (let state = pa (group_state g);
          args = [(''name'', JStr (group_name g)), (''state'', JStr state)] @
            (if group_system g then [(''system'', JBool True)] else [])
      in jobj [(''name'', JStr (''group '' @ group_name g @ '' -> '' @ state)),
               (''ansible.builtin.group'', jobj args)])"

definition user_task :: "user_req \<Rightarrow> json" where
  "user_task u =
     (let state = pa (user_state u);
          args = [(''name'', JStr (user_name u)), (''state'', JStr state)] @
            (if user_groups u \<noteq> []
             then [(''groups'', JStr (join_with '','' (user_groups u))), (''append'', JBool True)] else []) @
            (case user_shell u of Some sh \<Rightarrow> [(''shell'', JStr sh)] | None \<Rightarrow> []) @
            (if user_system u then [(''system'', JBool True)] else [])
      in jobj [(''name'', JStr (''user '' @ user_name u @ '' -> '' @ state)),
               (''ansible.builtin.user'', jobj args)])"

definition cron_fields :: "cron_req \<Rightarrow> (string \<times> json) list" where
  "cron_fields c =
     List.map_filter (\<lambda>(k, v). map_option (\<lambda>x. (k, JStr x)) v)
       [(''minute'', cron_minute c), (''hour'', cron_hour c), (''weekday'', cron_weekday c)]"

definition cron_task :: "cron_req \<Rightarrow> json" where
  "cron_task c =
     (let state = pa (cron_state c);
          args = [(''name'', JStr (cron_name c)), (''state'', JStr state)] @
            (if cron_state c = Present then (''job'', JStr (cron_job c)) # cron_fields c else []) @
            (case cron_user c of Some u \<Rightarrow> [(''user'', JStr u)] | None \<Rightarrow> [])
      in jobj [(''name'', JStr (''cron '' @ cron_name c @ '' -> '' @ state)),
               (''ansible.builtin.cron'', jobj args)])"

definition sysctl_task :: "sysctl_req \<Rightarrow> json" where
  "sysctl_task s =
     jobj [(''name'', JStr (''sysctl '' @ sysctl_name s @ '' = '' @ sysctl_value s)),
           (''ansible.posix.sysctl'', jobj [(''name'', JStr (sysctl_name s)),
              (''value'', JStr (sysctl_value s)), (''sysctl_set'', JBool True),
              (''reload'', JBool (sysctl_reload s)), (''state'', JStr ''present'')])]"

definition firewall_task :: "firewall_req \<Rightarrow> json option" where
  "firewall_task f =
     (let state = (case fw_state f of Present \<Rightarrow> ''enabled'' | AbsentR \<Rightarrow> ''disabled'');
          target = (case fw_service f of
                      Some svc \<Rightarrow> Some (svc, (''service'', JStr svc))
                    | None \<Rightarrow> map_option (\<lambda>p. (p, (''port'', JStr p))) (fw_port f))
      in map_option (\<lambda>(t, entry).
           jobj [(''name'', JStr (''firewall '' @ t @ '' -> '' @ state)),
                 (''ansible.posix.firewalld'', jobj ([entry, (''state'', JStr state),
                    (''permanent'', JBool (fw_permanent f)), (''immediate'', JBool (fw_immediate f))] @
                    (case fw_zone f of Some z \<Rightarrow> [(''zone'', JStr z)] | None \<Rightarrow> [])))]) target)"

definition playbook_tasks :: "baseline_spec \<Rightarrow> json list" where
  "playbook_tasks b =
     map package_task (packages b) @ map service_task (services b) @ map file_task (files b) @
     map group_task (groups b) @ map user_task (users b) @ map cron_task (cron b) @
     map sysctl_task (sysctl b) @ List.map_filter firewall_task (firewall b)"

text \<open>The value that \<open>to_playbook\<close> hands to the YAML writer.\<close>

definition to_playbook :: "baseline_spec \<Rightarrow> json" where
  "to_playbook b =
     JArr [jobj [(''hosts'', JStr ''local''), (''become'', JBool True), (''gather_facts'', JBool False),
                 (''tasks'', JArr (playbook_tasks b))]]"

section \<open>Revisions\<close>

record revision =
  version :: u64
  rev_author :: string
  rev_at :: u64
  spec :: baseline_spec

definition author_char :: "char \<Rightarrow> bool" where
  "author_char c = (is_ascii_alnum c \<or> c \<in> {CHR '':'', CHR ''.'', CHR ''_'', CHR ''-''})"

definition revision_validate :: "revision \<Rightarrow> (string, unit) result" where
  "revision_validate r =
     (if version r = 0 then Inl ''revision version must be greater than zero''
      else if rev_author r = [] then Inl ''revision author must not be empty''
      else if length (rev_author r) > 128 then Inl ''revision author is too long''
      else if rev_author r \<noteq> trim (rev_author r) \<or> \<not> list_all author_char (rev_author r)
        then Inl ''revision author must be a canonical node id''
      else Inr ())"

definition rev_key :: "revision \<Rightarrow> u64 \<times> u64 \<times> string" where
  "rev_key r = (version r, rev_at r, rev_author r)"

definition supersedes :: "revision \<Rightarrow> revision \<Rightarrow> bool" where
  "supersedes a b = (rev_key a > rev_key b)"

definition elect_revision :: "revision list \<Rightarrow> revision option" where
  "elect_revision rs = reduce_list (\<lambda>win r. if supersedes r win then r else win) rs"

section \<open>The audit record and a converge\<close>

record audit_record =
  aud_at :: u64
  aud_status :: drift_status
  aud_ok :: u32
  aud_changed :: u32
  aud_failures :: u32
  aud_unreachable :: u32

definition audit_record_new :: "u64 \<Rightarrow> drift_status \<Rightarrow> apply_report \<Rightarrow> audit_record" where
  "audit_record_new at status r =
     \<lparr>aud_at = at, aud_status = status, aud_ok = rep_ok r, aud_changed = rep_changed r,
      aud_failures = rep_failures r, aud_unreachable = rep_unreachable r\<rparr>"

text \<open>\<open>runner\<close> is the layout of the data directory and the run of
  \<open>ansible-runner\<close> on the rendered playbook: its error, or the events it leaves in the newest
  artifact directory, as parsed.  The first that parses as statistics is the report.\<close>

type_synonym ansible_runner = "json \<Rightarrow> (string, json option list) result"

definition latest_stats :: "json option list \<Rightarrow> apply_report option" where
  "latest_stats events = (case List.map_filter parse_stats events of [] \<Rightarrow> None | r # _ \<Rightarrow> Some r)"

definition apply_playbook :: "ansible_runner \<Rightarrow> json \<Rightarrow> (string, apply_report) result" where
  "apply_playbook runner pb =
     bind_res (runner pb) (\<lambda>events. case latest_stats events of
        Some r \<Rightarrow> Inr r
      | None \<Rightarrow> Inl ''ansible-runner produced no playbook_on_stats'')"

definition heal_to_baseline ::
  "ansible_runner \<Rightarrow> json \<Rightarrow> (string, drift_status \<times> apply_report) result" where
  "heal_to_baseline runner pb = bind_res (apply_playbook runner pb) (\<lambda>r. Inr (classify r, r))"

definition converge ::
  "ansible_runner \<Rightarrow> baseline_spec \<Rightarrow> (string, drift_status \<times> apply_report) result" where
  "converge runner b = heal_to_baseline runner (to_playbook b)"

text \<open>\<open>io\<close> is what the append to the audit log's file returns.\<close>

definition append_audit ::
  "(string, unit) result \<Rightarrow> audit_record \<Rightarrow> audit_record list \<Rightarrow> (string, unit) result \<times> audit_record list"
where
  "append_audit io rec log = (case io of Inl e \<Rightarrow> (Inl e, log) | Inr u \<Rightarrow> (Inr u, log @ [rec]))"

definition drift_watch_tick ::
  "ansible_runner \<Rightarrow> (string, unit) result \<Rightarrow> u64 \<Rightarrow> baseline_spec \<Rightarrow> audit_record list
    \<Rightarrow> (string, audit_record) result \<times> audit_record list" where
  "drift_watch_tick runner io now b log =
     (case converge runner b of
        Inl e \<Rightarrow> (Inl e, log)
      | Inr (status, r) \<Rightarrow>
          let rec = audit_record_new now status r in
          (case append_audit io rec log of
             (Inl e, log') \<Rightarrow> (Inl e, log')
           | (Inr _, log') \<Rightarrow> (Inr rec, log')))"

section \<open>Election\<close>

text \<open>Newest wins, with no fixed centre: whoever holds the same candidates elects the same one.\<close>

locale newest_wins =
  fixes key :: "'r \<Rightarrow> 'k::linorder"
    and beats :: "'r \<Rightarrow> 'r \<Rightarrow> bool"
  assumes beats_key: "beats a b \<longleftrightarrow> key b < key a"
begin

definition elect :: "'r list \<Rightarrow> 'r option" where
  "elect rs = reduce_list (\<lambda>win r. if beats r win then r else win) rs"

lemma foldl_max:
  "\<forall>y \<in> set (x # xs). key y \<le> key (foldl (\<lambda>win r. if beats r win then r else win) x xs)"
proof (induction xs arbitrary: x)
  case (Cons z xs)
  let ?w = "if beats z x then z else x"
  have "key x \<le> key ?w \<and> key z \<le> key ?w" by (auto simp: beats_key)
  with Cons [of ?w] show ?case by (auto intro: order_trans)
qed simp

lemma elect_max: "elect rs = Some w \<Longrightarrow> w \<in> set rs \<and> (\<forall>r \<in> set rs. key r \<le> key w)"
proof (cases rs)
  case (Cons x xs)
  assume "elect rs = Some w"
  then have w: "w = foldl (\<lambda>win r. if beats r win then r else win) x xs"
    by (simp add: elect_def Cons)
  have "w \<in> set (x # xs)" unfolding w by (rule foldl_select_mem) simp
  with foldl_max [of x xs] show ?thesis by (simp add: Cons w)
qed (simp add: elect_def)

lemma elect_None: "elect rs = None \<longleftrightarrow> rs = []"
  by (cases rs) (simp_all add: elect_def)

lemma elect_agree:
  assumes "set rs = set qs" and "inj_on key (set rs)"
  shows "elect rs = elect qs"
proof (cases "rs = []")
  case False
  then have "qs \<noteq> []" using assms(1) by auto
  with False obtain v w where v: "elect rs = Some v" and w: "elect qs = Some w"
    using elect_None by (metis not_Some_eq)
  have "key v = key w" using elect_max [OF v] elect_max [OF w] assms(1) by (auto intro: order_antisym)
  then have "v = w" using elect_max [OF v] elect_max [OF w] assms by (auto dest: inj_onD)
  with v w show ?thesis by simp
qed (use assms in \<open>simp add: elect_def\<close>)

end

interpretation rev_election: newest_wins rev_key supersedes
  by unfold_locales (simp add: supersedes_def)

lemma elect_revision_eq: "elect_revision rs = rev_election.elect rs"
  by (simp add: elect_revision_def rev_election.elect_def)

text \<open>The elected revision is one of those held and none supersedes it; there is one unless none
  is held; two nodes that hold the same revisions, in any order and with any repetitions, elect
  the same one, as long as no two different revisions share version, time and author.\<close>

theorem election_agrees:
  assumes "set rs = set qs" and "inj_on rev_key (set rs)"
  shows "elect_revision rs = elect_revision qs \<and> (elect_revision rs = None \<longleftrightarrow> rs = [])
    \<and> pred_option (\<lambda>w. w \<in> set rs \<and> list_all (\<lambda>r. \<not> supersedes r w) rs) (elect_revision rs)"
proof -
  have "pred_option (\<lambda>w. w \<in> set rs \<and> list_all (\<lambda>r. \<not> supersedes r w) rs) (elect_revision rs)"
    using rev_election.elect_max [of rs]
    by (auto simp: elect_revision_eq option.pred_set list_all_iff supersedes_def not_less)
  with rev_election.elect_agree [OF assms] rev_election.elect_None [of rs]
  show ?thesis by (simp add: elect_revision_eq)
qed

definition empty_spec :: baseline_spec where
  "empty_spec = \<lparr>packages = [], services = [], files = [], users = [], groups = [], cron = [],
     sysctl = [], firewall = [], netstate = net_default, settings = om_empty\<rparr>"

definition rev_of :: "u64 \<Rightarrow> string \<Rightarrow> revision" where
  "rev_of v a = \<lparr>version = v, rev_author = a, rev_at = 7, spec = empty_spec\<rparr>"

theorem election_agrees_witness:
  "elect_revision [rev_of 2 ''a'', rev_of 2 ''b'', rev_of 1 ''c'']
     = elect_revision [rev_of 1 ''c'', rev_of 2 ''b'', rev_of 2 ''b'', rev_of 2 ''a'']"
  using election_agrees [of "[rev_of 2 ''a'', rev_of 2 ''b'', rev_of 1 ''c'']"
      "[rev_of 1 ''c'', rev_of 2 ''b'', rev_of 2 ''b'', rev_of 2 ''a'']"]
  by (auto simp: rev_of_def rev_key_def)

section \<open>Admission of a revision\<close>

lemma author_char_range: "author_char c \<Longrightarrow> 45 \<le> (of_char c :: nat) \<and> of_char c \<le> (122 :: nat) \<and> c \<noteq> CHR ''/''"
  by (auto simp: author_char_def dest: is_ascii_alnum_range)

lemma validate_accepts:
  "revision_validate r = Inr () \<longleftrightarrow> version r \<noteq> 0 \<and> rev_author r \<noteq> [] \<and> length (rev_author r) \<le> 128
     \<and> list_all author_char (rev_author r)"
proof -
  have "trim (rev_author r) = rev_author r" if "list_all author_char (rev_author r)"
  proof (rule trim_id)
    have "no_ws_byte c" if "c \<in> set (rev_author r)" for c
      using that \<open>list_all author_char (rev_author r)\<close> author_char_range [of c]
      by (intro no_ws_byte_ascii) (auto simp: list_all_iff)
    then show "rev_author r = [] \<or> no_ws_byte (hd (rev_author r)) \<and> no_ws_byte (last (rev_author r))"
      by (cases "rev_author r = []") auto
  qed
  then show ?thesis by (auto simp: revision_validate_def split: if_splits)
qed

text \<open>Exactly the revisions with a positive version and an author of 1 to 128 letters, digits,
  colons, dots, underscores and hyphens are admitted; the comparison with the trimmed author
  refuses nothing more, and no admitted author has a path separator.\<close>

theorem validate_exact:
  "(revision_validate r = Inr () \<longleftrightarrow> version r \<noteq> 0 \<and> rev_author r \<noteq> [] \<and> length (rev_author r) \<le> 128
     \<and> list_all author_char (rev_author r))
   \<and> \<not> (revision_validate r = Inr () \<and> CHR ''/'' \<in> set (rev_author r))"
  using author_char_range by (auto simp: validate_accepts list_all_iff)

section \<open>Exceptions and tasks\<close>

lemma keep_iff [simp]: "keep xs i \<longleftrightarrow> i \<notin> set xs"
  by (auto simp: keep_def list_ex_iff)

definition task_arg :: "string \<Rightarrow> string \<Rightarrow> json \<Rightarrow> json option" where
  "task_arg module k t = Option.bind (jget t module) (\<lambda>a. jget a k)"

lemmas task_defs = package_task_def service_task_def file_task_def group_task_def user_task_def
  cron_task_def sysctl_task_def Let_def json_simps

lemma cron_fields_keys: "map_of (rev (cron_fields c)) k \<noteq> None \<Longrightarrow> k \<in> {''minute'', ''hour'', ''weekday''}"
  by (cases "cron_minute c"; cases "cron_hour c"; cases "cron_weekday c")
    (auto simp: cron_fields_def List.map_filter_simps split: if_splits)

lemma cron_fields_name: "map_of (rev (cron_fields c)) ''name'' = None"
  using cron_fields_keys [of c "''name''"] by (cases "map_of (rev (cron_fields c)) ''name''") auto

text \<open>The modules a task calls, and what it names under them.\<close>

lemma package_target:
  "task_arg ''ansible.builtin.package'' ''name'' (package_task p) = Some (JStr (pkg_name p))"
  by (simp add: task_arg_def task_defs)

lemma service_target:
  "task_arg ''ansible.builtin.service'' ''name'' (service_task s) = Some (JStr (svc_name s))"
  by (simp add: task_arg_def task_defs)

lemma group_target:
  "task_arg ''ansible.builtin.group'' ''name'' (group_task g) = Some (JStr (group_name g))"
  by (simp add: task_arg_def task_defs)

lemma user_target:
  "task_arg ''ansible.builtin.user'' ''name'' (user_task u) = Some (JStr (user_name u))"
  by (cases "user_shell u") (simp_all add: task_arg_def task_defs)

lemma cron_target:
  "task_arg ''ansible.builtin.cron'' ''name'' (cron_task c) = Some (JStr (cron_name c))"
  using cron_fields_name [of c] by (cases "cron_user c") (simp_all add: task_arg_def task_defs map_add_def)

lemma sysctl_target:
  "task_arg ''ansible.posix.sysctl'' ''name'' (sysctl_task s) = Some (JStr (sysctl_name s))"
  by (simp add: task_arg_def task_defs)

lemma task_modules:
  "jget (package_task p) m = None \<or> m = ''name'' \<or> m = ''ansible.builtin.package''"
  "jget (service_task sv) m = None \<or> m = ''name'' \<or> m = ''ansible.builtin.service''"
  "jget (file_task f) m = None \<or> m = ''name'' \<or> m = ''ansible.builtin.copy'' \<or> m = ''ansible.builtin.file''"
  "jget (group_task g) m = None \<or> m = ''name'' \<or> m = ''ansible.builtin.group''"
  "jget (user_task u) m = None \<or> m = ''name'' \<or> m = ''ansible.builtin.user''"
  "jget (cron_task c) m = None \<or> m = ''name'' \<or> m = ''ansible.builtin.cron''"
  "jget (sysctl_task sy) m = None \<or> m = ''name'' \<or> m = ''ansible.posix.sysctl''"
  "firewall_task fw = Some t \<Longrightarrow> jget t m = None \<or> m = ''name'' \<or> m = ''ansible.posix.firewalld''"
  by (auto simp: task_defs firewall_task_def split: present_absent.splits option.splits if_splits)

lemma firewall_target:
  assumes "firewall_task f = Some t"
  shows "task_arg ''ansible.posix.firewalld'' ''service'' t = map_option JStr (fw_service f)"
    and "task_arg ''ansible.posix.firewalld'' ''port'' t =
      (if fw_service f = None then map_option JStr (fw_port f) else None)"
  using assms by (cases "fw_zone f"; auto simp: firewall_task_def task_arg_def json_simps Let_def
      split: option.splits)+

lemma file_target:
  "task_arg ''ansible.builtin.copy'' ''dest'' (file_task f) =
     (if file_state f = Present then Some (JStr (file_path f)) else None)"
  "task_arg ''ansible.builtin.file'' ''path'' (file_task f) =
     (if file_state f = Present then None else Some (JStr (file_path f)))"
  by (cases "file_state f"; simp add: task_arg_def task_defs)+

lemma foreign:
  "m \<noteq> ''name'' \<Longrightarrow> m \<noteq> ''ansible.builtin.package'' \<Longrightarrow> task_arg m k (package_task p) = None"
  "m \<noteq> ''name'' \<Longrightarrow> m \<noteq> ''ansible.builtin.service'' \<Longrightarrow> task_arg m k (service_task sv) = None"
  "m \<noteq> ''name'' \<Longrightarrow> m \<noteq> ''ansible.builtin.copy'' \<Longrightarrow> m \<noteq> ''ansible.builtin.file'' \<Longrightarrow>
     task_arg m k (file_task f) = None"
  "m \<noteq> ''name'' \<Longrightarrow> m \<noteq> ''ansible.builtin.group'' \<Longrightarrow> task_arg m k (group_task g) = None"
  "m \<noteq> ''name'' \<Longrightarrow> m \<noteq> ''ansible.builtin.user'' \<Longrightarrow> task_arg m k (user_task u) = None"
  "m \<noteq> ''name'' \<Longrightarrow> m \<noteq> ''ansible.builtin.cron'' \<Longrightarrow> task_arg m k (cron_task c) = None"
  "m \<noteq> ''name'' \<Longrightarrow> m \<noteq> ''ansible.posix.sysctl'' \<Longrightarrow> task_arg m k (sysctl_task sy) = None"
  "firewall_task fw = Some t \<Longrightarrow> m \<noteq> ''name'' \<Longrightarrow> m \<noteq> ''ansible.posix.firewalld'' \<Longrightarrow> task_arg m k t = None"
  using task_modules(1) [of p m] task_modules(2) [of sv m] task_modules(3) [of f m] task_modules(4) [of g m]
    task_modules(5) [of u m] task_modules(6) [of c m] task_modules(7) [of sy m] task_modules(8) [of fw t m]
  by (auto simp: task_arg_def)

lemmas target_facts = package_target service_target group_target user_target cron_target
  sysctl_target file_target firewall_target

text \<open>The modules, the argument that names the resource, and the node's exceptions for it.\<close>

definition exception_table :: "local_exceptions \<Rightarrow> (string \<times> string \<times> string list) list" where
  "exception_table ex =
     [(''ansible.builtin.package'', ''name'', ex_packages ex),
      (''ansible.builtin.service'', ''name'', ex_services ex),
      (''ansible.builtin.copy'', ''dest'', ex_files ex), (''ansible.builtin.file'', ''path'', ex_files ex),
      (''ansible.builtin.group'', ''name'', ex_groups ex), (''ansible.builtin.user'', ''name'', ex_users ex),
      (''ansible.builtin.cron'', ''name'', ex_cron ex), (''ansible.posix.sysctl'', ''name'', ex_sysctl ex),
      (''ansible.posix.firewalld'', ''service'', ex_firewall ex),
      (''ansible.posix.firewalld'', ''port'', ex_firewall ex)]"

definition excepted :: "local_exceptions \<Rightarrow> json \<Rightarrow> bool" where
  "excepted ex t =
     list_ex (\<lambda>(m, k, ns). list_ex (\<lambda>n. task_arg m k t = Some (JStr n)) ns) (exception_table ex)"

lemma excepted_targets:
  "excepted ex (package_task p) \<longleftrightarrow> pkg_name p \<in> set (ex_packages ex)"
  "excepted ex (service_task s) \<longleftrightarrow> svc_name s \<in> set (ex_services ex)"
  "excepted ex (file_task f) \<longleftrightarrow> file_path f \<in> set (ex_files ex)"
  "excepted ex (group_task g) \<longleftrightarrow> group_name g \<in> set (ex_groups ex)"
  "excepted ex (user_task u) \<longleftrightarrow> user_name u \<in> set (ex_users ex)"
  "excepted ex (cron_task c) \<longleftrightarrow> cron_name c \<in> set (ex_cron ex)"
  "excepted ex (sysctl_task y) \<longleftrightarrow> sysctl_name y \<in> set (ex_sysctl ex)"
  by (auto simp: excepted_def exception_table_def target_facts foreign list_ex_iff)

lemma excepted_firewall:
  "firewall_task f = Some t \<Longrightarrow> excepted ex t \<longleftrightarrow> fw_id f \<in> set (ex_firewall ex)"
proof -
  assume t: "firewall_task f = Some t"
  then have "fw_service f = None \<Longrightarrow> fw_port f \<noteq> None"
    by (cases "fw_port f") (simp_all add: firewall_task_def Let_def)
  then show ?thesis
    by (cases "fw_service f"; cases "fw_port f")
      (auto simp: excepted_def exception_table_def firewall_target [OF t] foreign(8) [OF t] list_ex_iff fw_id_def)
qed

lemma filter_map_filter:
  "(\<And>x y. f x = Some y \<Longrightarrow> P y \<longleftrightarrow> Q x) \<Longrightarrow> filter P (List.map_filter f xs) = List.map_filter f (filter Q xs)"
  by (induction xs) (auto simp: List.map_filter_simps split: option.splits)

lemma without_sections:
  "packages (without_exceptions ex b) = filter (\<lambda>p. pkg_name p \<notin> set (ex_packages ex)) (packages b)"
  "services (without_exceptions ex b) = filter (\<lambda>s. svc_name s \<notin> set (ex_services ex)) (services b)"
  "files (without_exceptions ex b) = filter (\<lambda>f. file_path f \<notin> set (ex_files ex)) (files b)"
  "users (without_exceptions ex b) = filter (\<lambda>u. user_name u \<notin> set (ex_users ex)) (users b)"
  "groups (without_exceptions ex b) = filter (\<lambda>g. group_name g \<notin> set (ex_groups ex)) (groups b)"
  "cron (without_exceptions ex b) = filter (\<lambda>c. cron_name c \<notin> set (ex_cron ex)) (cron b)"
  "sysctl (without_exceptions ex b) = filter (\<lambda>s. sysctl_name s \<notin> set (ex_sysctl ex)) (sysctl b)"
  "firewall (without_exceptions ex b) = filter (\<lambda>f. fw_id f \<notin> set (ex_firewall ex)) (firewall b)"
  "netstate (without_exceptions ex b) = netstate b" "settings (without_exceptions ex b) = settings b"
  by (simp_all add: without_exceptions_def)

text \<open>A node's exceptions act exactly: the playbook of the filtered baseline is the playbook of
  the full one, in its order, without the tasks that name, under the module of their kind, a
  package, service, file, group, user, cron job, kernel parameter or firewall rule the node has
  declared its own; the network state and the settings are the full ones.\<close>

theorem exceptions_hold_in_the_playbook:
  "playbook_tasks (without_exceptions ex b) = filter (\<lambda>t. \<not> excepted ex t) (playbook_tasks b)
   \<and> netstate (without_exceptions ex b) = netstate b \<and> settings (without_exceptions ex b) = settings b"
proof -
  have "filter (\<lambda>t. \<not> excepted ex t) (List.map_filter firewall_task (firewall b))
      = List.map_filter firewall_task (filter (\<lambda>f. fw_id f \<notin> set (ex_firewall ex)) (firewall b))"
    by (rule filter_map_filter) (simp add: excepted_firewall)
  then show ?thesis
    by (simp add: playbook_tasks_def without_sections filter_map comp_def excepted_targets)
qed

section \<open>The report of a run\<close>

lemma sum_words_bounded:
  "sum_list (map unat ws) < 2 ^ 32 \<Longrightarrow> unat (sum_list (ws :: u32 list)) = sum_list (map unat ws)"
  by (induction ws) (auto simp: unat_word_ariths)

text \<open>A bucket's counts of one key.\<close>

definition bucket_counts :: "json \<Rightarrow> string \<Rightarrow> u32 list" where
  "bucket_counts ed key =
     (case Option.bind (jget ed key) as_object of
        None \<Rightarrow> [] | Some m \<Rightarrow> map capped_u32 (List.map_filter as_u64 (om_values m)))"

lemma sum_bucket_counts: "sum_bucket ed key = sum_list (bucket_counts ed key)"
  by (simp add: sum_bucket_def bucket_counts_def split: option.splits)

lemma sum_bucket_zero:
  assumes "sum_list (map unat (bucket_counts ed key)) < 2 ^ 32"
  shows "sum_bucket ed key = 0 \<longleftrightarrow> list_all (\<lambda>n. n = 0) (bucket_counts ed key)"
proof -
  have "sum_bucket ed key = 0 \<longleftrightarrow> sum_list (map unat (bucket_counts ed key)) = 0"
    using sum_words_bounded [OF assms] unfolding sum_bucket_counts by (metis unsigned_eq_0_iff)
  then show ?thesis by (simp add: list_all_iff unsigned_eq_0_iff)
qed

definition stats_event :: "json \<Rightarrow> json" where
  "stats_event ed = jobj [(''event'', JStr ''playbook_on_stats''), (''event_data'', ed)]"

lemma report_of_stats:
  "parse_stats (Some (stats_event ed)) =
     Some \<lparr>rep_ok = sum_bucket ed ''ok'', rep_changed = sum_bucket ed ''changed'',
           rep_failures = sum_bucket ed ''failures'', rep_unreachable = sum_bucket ed ''dark''\<rparr>"
  by (simp add: parse_stats_def stats_event_def json_simps)

lemma latest_stats_first:
  "list_all (\<lambda>e. parse_stats e = None) earlier \<Longrightarrow>
     latest_stats (earlier @ e # later) = (case parse_stats e of None \<Rightarrow> latest_stats later | Some r \<Rightarrow> Some r)"
  by (induction earlier) (auto simp: latest_stats_def List.map_filter_simps split: option.splits)

text \<open>A converge is reported by what the run's statistics say: as long as no bucket's total
  overflows, it is a failure exactly if some host counts a failed or unreachable task, healed
  exactly if none does and some host counts a change, and in sync otherwise; the tick appends
  exactly one record that says so with the time of the tick. Where the runner fails, leaves no
  statistics or the log cannot be written, the tick is an error and the log stays as it is.\<close>

theorem tick_reports_the_run:
  assumes fits: "list_all (\<lambda>key. sum_list (map unat (bucket_counts ed key)) < 2 ^ 32)
      [''failures'', ''dark'', ''changed'']"
    and before: "list_all (\<lambda>e. parse_stats e = None) earlier"
    and run: "runner (to_playbook b) = Inr (earlier @ Some (stats_event ed) # later)"
    and bad: "case bad (to_playbook b) of Inl _ \<Rightarrow> True | Inr es \<Rightarrow> list_all (\<lambda>e. parse_stats e = None) es"
  shows "(\<exists>rec. drift_watch_tick runner (Inr ()) now b log = (Inr rec, log @ [rec]) \<and> aud_at rec = now
        \<and> aud_status rec =
            (if \<not> list_all (\<lambda>n. n = 0) (bucket_counts ed ''failures'' @ bucket_counts ed ''dark'') then DriftFailed
             else if \<not> list_all (\<lambda>n. n = 0) (bucket_counts ed ''changed'') then Healed else InSync))
    \<and> drift_watch_tick runner (Inl err) now b log = (Inl err, log)
    \<and> (\<exists>e'. drift_watch_tick bad io now b log = (Inl e', log))"
proof (intro conjI)
  have [simp]: "sum_bucket ed ''failures'' = 0 \<longleftrightarrow> list_all (\<lambda>n. n = 0) (bucket_counts ed ''failures'')"
    "sum_bucket ed ''dark'' = 0 \<longleftrightarrow> list_all (\<lambda>n. n = 0) (bucket_counts ed ''dark'')"
    "sum_bucket ed ''changed'' = 0 \<longleftrightarrow> list_all (\<lambda>n. n = 0) (bucket_counts ed ''changed'')"
    using fits by (simp_all add: sum_bucket_zero)
  note defs = drift_watch_tick_def converge_def heal_to_baseline_def apply_playbook_def append_audit_def
  show "\<exists>rec. drift_watch_tick runner (Inr ()) now b log = (Inr rec, log @ [rec]) \<and> aud_at rec = now
        \<and> aud_status rec =
            (if \<not> list_all (\<lambda>n. n = 0) (bucket_counts ed ''failures'' @ bucket_counts ed ''dark'') then DriftFailed
             else if \<not> list_all (\<lambda>n. n = 0) (bucket_counts ed ''changed'') then Healed else InSync)"
    by (simp add: defs run latest_stats_first [OF before] report_of_stats
        audit_record_new_def classify_def converged_def made_changes_def Let_def word_gt_0)
  show "drift_watch_tick runner (Inl err) now b log = (Inl err, log)"
    by (simp add: defs run latest_stats_first [OF before] report_of_stats Let_def)
  have none: "latest_stats es = None" if "list_all (\<lambda>e. parse_stats e = None) es" for es
    using latest_stats_first [of es None "[]"] latest_stats_first [of "[]"] that
    by (induction es) (simp_all add: latest_stats_def List.map_filter_simps)
  show "\<exists>e'. drift_watch_tick bad io now b log = (Inl e', log)"
    using bad none by (auto simp: defs split: sum.splits)
qed

theorem tick_reports_the_run_witness:
  "\<exists>rec. drift_watch_tick (\<lambda>_. Inr [None, Some (stats_event (jobj
       [(''changed'', jobj [(''localhost'', JInt 2)]), (''failures'', jobj [])]))]) (Inr ()) 9 empty_spec []
     = (Inr rec, [rec]) \<and> aud_at rec = 9 \<and> aud_status rec = Healed"
  using tick_reports_the_run [of "jobj [(''changed'', jobj [(''localhost'', JInt 2)]), (''failures'', jobj [])]"
      "[None]"
      "\<lambda>_. Inr [None, Some (stats_event (jobj [(''changed'', jobj [(''localhost'', JInt 2)]), (''failures'', jobj [])]))]"
      empty_spec "[]" "\<lambda>_. Inl ''x''" 9 "[]"]
  by (simp add: bucket_counts_def jget_jobj as_object_jobj capped_u32_def List.map_filter_simps
      obj_def om_values_def om_empty_def parse_stats_def)

end
