(* ===== verification/FileStore.thy ===== *)
theory FileStore
  imports OrdMap
begin

text \<open>
  A directory of the replicated volume, as the stores use it: names mapped to what lies there, and
  the calls of \<open>std::fs\<close> on one name, each of them one atomic step.  Processes that share a
  directory take their steps in any order; \<open>sched\<close> runs them along a given order.
\<close>

section \<open>Directories\<close>

datatype 'c fs_node = Regular 'c | Symlink | Subdir

type_synonym 'c dir = "(string, 'c fs_node) omap"

datatype io_error =
    NotFound
  | AlreadyExists
  | InvalidInput string
  | InvalidData string
  | OtherIo string

type_synonym 'a io = "(io_error, 'a) result"

definition is_regular :: "'c fs_node option \<Rightarrow> bool" where
  "is_regular n = (case n of Some (Regular _) \<Rightarrow> True | _ \<Rightarrow> False)"

text \<open>\<open>OpenOptions::create_new\<close> with the contents written.\<close>

definition fs_create_new :: "string \<Rightarrow> 'c \<Rightarrow> 'c dir \<Rightarrow> unit io \<times> 'c dir" where
  "fs_create_new n c d =
     (if om_get d n \<noteq> None then (Inl AlreadyExists, d) else (Inr (), om_put n (Regular c) d))"

definition fs_hard_link :: "string \<Rightarrow> string \<Rightarrow> 'c dir \<Rightarrow> unit io \<times> 'c dir" where
  "fs_hard_link src dst d =
     (case om_get d src of
        None \<Rightarrow> (Inl NotFound, d)
      | Some n \<Rightarrow>
          if om_get d dst \<noteq> None then (Inl AlreadyExists, d)
          else if n = Subdir then (Inl (OtherIo ''link''), d)
          else (Inr (), om_put dst n d))"

definition fs_remove_file :: "string \<Rightarrow> 'c dir \<Rightarrow> unit io \<times> 'c dir" where
  "fs_remove_file n d =
     (case om_get d n of
        None \<Rightarrow> (Inl NotFound, d)
      | Some Subdir \<Rightarrow> (Inl (OtherIo ''unlink''), d)
      | Some _ \<Rightarrow> (Inr (), om_del n d))"

text \<open>\<open>fs::write\<close> follows a symbolic link, whose target lies elsewhere.\<close>

definition fs_write :: "string \<Rightarrow> 'c \<Rightarrow> 'c dir \<Rightarrow> unit io \<times> 'c dir" where
  "fs_write n c d =
     (case om_get d n of
        Some Subdir \<Rightarrow> (Inl (OtherIo ''write''), d)
      | Some Symlink \<Rightarrow> (Inr (), d)
      | _ \<Rightarrow> (Inr (), om_put n (Regular c) d))"

definition fs_rename :: "string \<Rightarrow> string \<Rightarrow> 'c dir \<Rightarrow> unit io \<times> 'c dir" where
  "fs_rename src dst d =
     (case om_get d src of
        None \<Rightarrow> (Inl NotFound, d)
      | Some n \<Rightarrow>
          if om_get d dst = Some Subdir \<and> n \<noteq> Subdir then (Inl (OtherIo ''rename''), d)
          else (Inr (), om_put dst n (om_del src d)))"

text \<open>A bounded read of a regular file that follows no link; \<open>len\<close> is its length in bytes.\<close>

definition read_bounded :: "('c \<Rightarrow> nat) \<Rightarrow> nat \<Rightarrow> 'c fs_node option \<Rightarrow> 'c option" where
  "read_bounded len limit n =
     (case n of Some (Regular c) \<Rightarrow> if len c \<le> limit then Some c else None | _ \<Rightarrow> None)"

lemma read_bounded_Some:
  "read_bounded len limit n = Some c \<longleftrightarrow> n = Some (Regular c) \<and> len c \<le> limit"
  by (auto simp: read_bounded_def split: option.splits fs_node.splits)

section \<open>The interface\<close>

text \<open>What the stores rely on: the reads after a write and after a removal.  A staged install,
  by link or by rename, is then one write.\<close>

locale name_dir = keyed_store get put wf
  for get :: "'m \<Rightarrow> 'k \<Rightarrow> 'v option" and put :: "'k \<Rightarrow> 'v \<Rightarrow> 'm \<Rightarrow> 'm" and wf :: "'m \<Rightarrow> bool" +
  fixes del :: "'k \<Rightarrow> 'm \<Rightarrow> 'm"
  assumes get_del: "get (del k m) k' = (if k' = k then None else get m k')"
    and wf_del: "wf m \<Longrightarrow> wf (del k m)"
begin

lemma del_put: "wf m \<Longrightarrow> get m k = None \<Longrightarrow> del k (put k v m) = m"
  by (rule get_ext) (auto simp: get_put get_del wf_put wf_del)

lemma link_install:
  "wf m \<Longrightarrow> get m t = None \<Longrightarrow> t \<noteq> p \<Longrightarrow> del t (put p v (put t v m)) = put p v m"
  by (rule get_ext) (auto simp: get_put get_del wf_put wf_del)

lemma rename_install: "wf m \<Longrightarrow> t \<noteq> p \<Longrightarrow> put p v (del t (put t v m)) = put p v (del t m)"
  by (rule get_ext) (auto simp: get_put get_del wf_put wf_del)

end

interpretation omd: name_dir om_get om_put om_wf om_del
  by unfold_locales (simp_all add: om_get_del om_wf_del)

lemma fs_wf:
  assumes "om_wf d"
  shows "om_wf (snd (fs_create_new n c d))" "om_wf (snd (fs_hard_link a b d))"
    "om_wf (snd (fs_remove_file n d))" "om_wf (snd (fs_write n c d))" "om_wf (snd (fs_rename a b d))"
  using assms by (auto simp: fs_create_new_def fs_hard_link_def fs_remove_file_def fs_write_def
      fs_rename_def om_wf_put om_wf_del split: option.splits fs_node.splits)

section \<open>One leaf per author\<close>

text \<open>A record is written under its author's leaf, staged beside it and renamed; the records are
  read from every leaf that the reader keeps, as far as they decode within the bound, and sorted.\<close>

definition write_leaf :: "string \<Rightarrow> string \<Rightarrow> 'c \<Rightarrow> 'c dir \<Rightarrow> unit io \<times> 'c dir" where
  "write_leaf tmp leaf c d =
     (case fs_write tmp c d of
        (Inl e, d') \<Rightarrow> (Inl e, d')
      | (Inr _, d') \<Rightarrow> fs_rename tmp leaf d')"

definition decode_leaf ::
  "(string \<Rightarrow> bool) \<Rightarrow> ('c \<Rightarrow> nat) \<Rightarrow> nat \<Rightarrow> ('c \<Rightarrow> 'r option) \<Rightarrow> string \<times> 'c fs_node \<Rightarrow> 'r option" where
  "decode_leaf keep len limit dec e =
     (if keep (fst e) then Option.bind (read_bounded len limit (Some (snd e))) dec else None)"

definition read_leaves ::
  "(string \<Rightarrow> bool) \<Rightarrow> ('c \<Rightarrow> nat) \<Rightarrow> nat \<Rightarrow> ('c \<Rightarrow> 'r option) \<Rightarrow> ('r \<Rightarrow> 'k::linorder)
    \<Rightarrow> (string \<times> 'c fs_node) list \<Rightarrow> 'r list" where
  "read_leaves keep len limit dec key entries =
     sort_key key (List.map_filter (decode_leaf keep len limit dec) entries)"

lemma map_filter_mem: "y \<in> set (List.map_filter f xs) \<longleftrightarrow> (\<exists>x \<in> set xs. f x = Some y)"
  by (induction xs) (auto simp: List.map_filter_simps split: option.splits)

lemma mset_map_filter:
  "mset (List.map_filter f xs) = image_mset (the \<circ> f) (filter_mset (\<lambda>x. f x \<noteq> None) (mset xs))"
  by (simp add: List.map_filter_def mset_filter)

text \<open>Where the leaf is no directory and the staging name is free, a write is one write of the
  leaf, and no other name changes.\<close>

lemma write_leaf_alone:
  assumes "om_wf d" "om_get d tmp = None" "om_get d leaf \<noteq> Some Subdir" "tmp \<noteq> leaf"
  shows "write_leaf tmp leaf c d = (Inr (), om_put leaf (Regular c) d)"
proof -
  have "om_del tmp d = d" using assms(1,2) by (intro om_ext) (auto simp: om_wf_del om_get_del)
  with assms omd.rename_install [OF assms(1,4)] show ?thesis
    by (auto simp: write_leaf_def fs_write_def fs_rename_def om_get_put)
qed

lemma read_leaves_set:
  assumes "om_wf d" and "mset entries = mset d"
  shows "r \<in> set (read_leaves keep len limit dec key entries) \<longleftrightarrow>
    (\<exists>n c. om_get d n = Some (Regular c) \<and> keep n \<and> len c \<le> limit \<and> dec c = Some r)"
proof -
  have "e \<in> set entries \<longleftrightarrow> om_get d (fst e) = Some (snd e)" for e
    using mset_eq_setD [OF assms(2)] om_get_mem [OF assms(1), of "fst e" "snd e"]
    by (cases e) (auto simp: om_get_def dest: map_of_SomeD)
  then have "(\<exists>e \<in> set entries. decode_leaf keep len limit dec e = Some r) \<longleftrightarrow>
      (\<exists>n x. om_get d n = Some x \<and> decode_leaf keep len limit dec (n, x) = Some r)"
    by (metis prod.collapse fst_conv snd_conv)
  then show ?thesis
    by (auto simp: read_leaves_def map_filter_mem decode_leaf_def bind_eq_Some_conv read_bounded_Some
        split: if_splits)
qed

section \<open>Interleaved processes\<close>

text \<open>\<open>sched act ks\<close> lets the processes named by \<open>ks\<close> take a step each, in that order; a name
  beyond the processes is skipped.\<close>

fun sched :: "('l \<Rightarrow> 's \<Rightarrow> 'l \<times> 's) \<Rightarrow> nat list \<Rightarrow> 's \<times> 'l list \<Rightarrow> 's \<times> 'l list" where
  "sched act [] (s, ls) = (s, ls)"
| "sched act (i # ks) (s, ls) =
     (if i < length ls
      then (case act (ls ! i) s of (l', s') \<Rightarrow> sched act ks (s', ls[i := l']))
      else sched act ks (s, ls))"

lemma sched_length: "length (snd (sched act ks (s, ls))) = length ls"
  by (induction "act" ks "(s, ls)" arbitrary: s ls rule: sched.induct) (auto split: prod.splits)

text \<open>How often a property holds along the list after one process has changed.\<close>

lemma filter_update:
  "i < length xs \<Longrightarrow> length (filter P (xs[i := y])) + (if P (xs ! i) then 1 else 0)
     = length (filter P xs) + (if P y then 1 else 0)"
proof (induction xs arbitrary: i)
  case (Cons x xs)
  then show ?case using Cons.IH [of "i - 1"] by (cases i) (simp_all split: if_splits)
qed simp

locale interleaved =
  fixes act :: "'l \<Rightarrow> 's \<Rightarrow> 'l \<times> 's"
    and inv :: "'s \<Rightarrow> 'l list \<Rightarrow> bool"
  assumes step_keeps:
    "inv s ls \<Longrightarrow> i < length ls \<Longrightarrow> act (ls ! i) s = (l', s') \<Longrightarrow> inv s' (ls[i := l'])"
begin

lemma sched_keeps: "inv s ls \<Longrightarrow> sched act ks (s, ls) = (s', ls') \<Longrightarrow> inv s' ls'"
proof (induction ks arbitrary: s ls)
  case (Cons i ks)
  then show ?case
    by (cases "i < length ls"; cases "act (ls ! i) s") (auto intro: step_keeps)
qed simp

end

end
