(* ===== verification/FleetStore.thy ===== *)
theory FleetStore
  imports FileStore FleetBaseline
begin

text \<open>
  The replicated revision log of the fleet, the apply acknowledgements and the reconcile nudges
  (\<open>crates/mesh/magic-fleet/src/store.rs\<close>).  A writer of the log is the three steps of
  \<open>write_revision\<close> that touch the directory, so that writers on one volume can be interleaved;
  the YAML codec is an argument.
\<close>

section \<open>The log\<close>

definition pad20 :: "u64 \<Rightarrow> string" where
  "pad20 v = (let s = show_nat (unat v) in replicate (20 - length s) (CHR ''0'') @ s)"

definition revision_path :: "u64 \<Rightarrow> string" where
  "revision_path v = pad20 v @ ''.yaml''"

definition MAX_REVISION_BYTES :: nat where
  "MAX_REVISION_BYTES = 4 * 1024 * 1024"

text \<open>The staging file of a writer with the given process id and nanosecond stamp.\<close>

definition tmp_path :: "u64 \<Rightarrow> nat \<Rightarrow> nat \<Rightarrow> string" where
  "tmp_path v pid stamp = ''.'' @ pad20 v @ ''.'' @ show_nat pid @ ''.'' @ show_nat stamp @ ''.yaml.tmp''"

datatype write_phase = Starting | Staged | Linked "unit io" | Finished "unit io"

text \<open>\<open>w_fault\<close> is the error of writing or syncing the staging file, where there is one.\<close>

record log_writer =
  w_rev :: revision
  w_pid :: nat
  w_stamp :: nat
  w_fault :: "io_error option"
  w_phase :: write_phase

definition w_tmp :: "log_writer \<Rightarrow> string" where
  "w_tmp w = tmp_path (version (w_rev w)) (w_pid w) (w_stamp w)"

definition w_path :: "log_writer \<Rightarrow> string" where
  "w_path w = revision_path (version (w_rev w))"

text \<open>What is checked and rendered before the directory is touched.\<close>

definition prepare :: "(revision \<Rightarrow> (string, 'c) result) \<Rightarrow> revision \<Rightarrow> 'c io" where
  "prepare to_yaml r =
     (case revision_validate r of
        Inl e \<Rightarrow> Inl (InvalidInput (''refusing invalid revision: '' @ e))
      | Inr _ \<Rightarrow> (case to_yaml r of Inl e \<Rightarrow> Inl (InvalidData e) | Inr y \<Rightarrow> Inr y))"

definition write_step ::
  "(revision \<Rightarrow> (string, 'c) result) \<Rightarrow> log_writer \<Rightarrow> 'c dir \<Rightarrow> log_writer \<times> 'c dir" where
  "write_step to_yaml w d =
     (case w_phase w of
        Starting \<Rightarrow>
          (case prepare to_yaml (w_rev w) of
             Inl e \<Rightarrow> (w\<lparr>w_phase := Finished (Inl e)\<rparr>, d)
           | Inr y \<Rightarrow>
               (case fs_create_new (w_tmp w) y d of
                  (Inl e, d') \<Rightarrow> (w\<lparr>w_phase := Linked (Inl e)\<rparr>, d')
                | (Inr _, d') \<Rightarrow>
                    (case w_fault w of
                       Some e \<Rightarrow> (w\<lparr>w_phase := Linked (Inl e)\<rparr>, d')
                     | None \<Rightarrow> (w\<lparr>w_phase := Staged\<rparr>, d'))))
      | Staged \<Rightarrow>
          (case fs_hard_link (w_tmp w) (w_path w) d of (res, d') \<Rightarrow> (w\<lparr>w_phase := Linked res\<rparr>, d'))
      | Linked res \<Rightarrow> (w\<lparr>w_phase := Finished res\<rparr>, snd (fs_remove_file (w_tmp w) d))
      | Finished _ \<Rightarrow> (w, d))"

definition new_writer :: "nat \<Rightarrow> nat \<Rightarrow> io_error option \<Rightarrow> revision \<Rightarrow> log_writer" where
  "new_writer pid stamp fault r =
     \<lparr>w_rev = r, w_pid = pid, w_stamp = stamp, w_fault = fault, w_phase = Starting\<rparr>"

text \<open>A call on its own: the steps in a row; the path is returned where the link was made.\<close>

definition write_revision ::
  "(revision \<Rightarrow> (string, 'c) result) \<Rightarrow> nat \<Rightarrow> nat \<Rightarrow> io_error option \<Rightarrow> revision \<Rightarrow> 'c dir
    \<Rightarrow> string io \<times> 'c dir" where
  "write_revision to_yaml pid stamp fault r d =
     (case sched (write_step to_yaml) [0, 0, 0] (d, [new_writer pid stamp fault r]) of
        (d', ws) \<Rightarrow>
          (case w_phase (hd ws) of
             Finished (Inr _) \<Rightarrow> (Inr (revision_path (version r)), d')
           | Finished (Inl e) \<Rightarrow> (Inl e, d')
           | _ \<Rightarrow> (Inl (OtherIo ''unfinished''), d')))"

section \<open>Reading\<close>

definition strip_suffix :: "string \<Rightarrow> string \<Rightarrow> string option" where
  "strip_suffix suf s = (if suffix suf s then Some (take (length s - length suf) s) else None)"

definition read_entry ::
  "('c \<Rightarrow> nat) \<Rightarrow> ('c \<Rightarrow> revision option) \<Rightarrow> string \<times> 'c fs_node \<Rightarrow> revision option" where
  "read_entry len from_yaml e =
     Option.bind (strip_suffix ''.yaml'' (fst e)) (\<lambda>stem.
       if length stem \<noteq> 20 \<or> \<not> list_all is_ascii_digit stem then None
       else Option.bind (parse_word stem) (\<lambda>v.
         if revision_path v \<noteq> fst e \<or> \<not> is_regular (Some (snd e)) then None
         else Option.bind (read_bounded len MAX_REVISION_BYTES (Some (snd e))) (\<lambda>raw.
           Option.bind (from_yaml raw) (\<lambda>r.
             if version r \<noteq> v \<or> revision_validate r \<noteq> Inr () then None else Some r))))"

text \<open>The entries arrive in whatever order the directory lists them.\<close>

definition read_revisions ::
  "('c \<Rightarrow> nat) \<Rightarrow> ('c \<Rightarrow> revision option) \<Rightarrow> (string \<times> 'c fs_node) list \<Rightarrow> revision list" where
  "read_revisions len from_yaml entries =
     sort_key rev_key (List.map_filter (read_entry len from_yaml) entries)"

definition next_version ::
  "('c \<Rightarrow> nat) \<Rightarrow> ('c \<Rightarrow> revision option) \<Rightarrow> (string \<times> 'c fs_node) list \<Rightarrow> u64" where
  "next_version len from_yaml entries =
     (case map version (read_revisions len from_yaml entries) of
        [] \<Rightarrow> 1
      | v # vs \<Rightarrow> sat_add (foldl max v vs) 1)"

definition elect_head ::
  "('c \<Rightarrow> nat) \<Rightarrow> ('c \<Rightarrow> revision option) \<Rightarrow> (string \<times> 'c fs_node) list \<Rightarrow> revision option" where
  "elect_head len from_yaml entries = elect_revision (read_revisions len from_yaml entries)"

section \<open>File names\<close>

lemma show_nat_length: "n < 10 ^ k \<Longrightarrow> 0 < k \<Longrightarrow> length (show_nat n) \<le> k"
proof (induction k arbitrary: n)
  case (Suc k)
  then show ?case
    by (cases "n < 10"; cases k) (subst show_nat.simps; simp add: less_mult_imp_div_less)+
qed simp

lemma pad20_length: "length (pad20 v) = 20"
proof -
  have "unat v < 10 ^ 20" using unsigned_less [of v, where 'a=nat] by simp
  from show_nat_length [OF this] show ?thesis by (simp add: pad20_def Let_def)
qed

lemma pad20_digits: "list_all is_ascii_digit (pad20 v)"
  by (auto simp: pad20_def Let_def show_nat_digits is_ascii_digit_def list_all_iff
      dest: show_nat_digits [unfolded list_all_iff, rule_format])

lemma digits_val_zeros: "digits_val (replicate n (CHR ''0'') @ s) = digits_val s"
  by (induction n) (simp_all add: digits_val_def digit_val_def)

lemma pad20_val: "digits_val (pad20 v) = unat v"
  by (simp add: pad20_def Let_def digits_val_zeros)

lemma pad20_inj: "pad20 v = pad20 w \<longleftrightarrow> v = w"
  by (metis pad20_val word_unat_eq_iff)

lemma parse_pad20: "parse_word (pad20 v) = Some v"
proof -
  have "(case pad20 v of c # t \<Rightarrow> if c = CHR ''+'' then t else pad20 v | [] \<Rightarrow> pad20 v) = pad20 v"
    using pad20_digits [of v] by (cases "pad20 v") (auto simp: is_ascii_digit_of_char)
  moreover have "pad20 v \<noteq> []" using pad20_length [of v] by auto
  ultimately show ?thesis
    using unsigned_less [of v, where 'a=nat] pad20_digits [of v]
    by (simp add: parse_word_Some parse_nat_below_def pad20_val)
qed

lemma revision_path_inj: "revision_path v = revision_path w \<longleftrightarrow> v = w"
  by (simp add: revision_path_def pad20_inj)

lemma tmp_not_revision: "tmp_path v pid stamp \<noteq> revision_path w"
  using pad20_digits [of w] pad20_length [of w]
  by (cases "pad20 w") (auto simp: tmp_path_def revision_path_def is_ascii_digit_of_char)

lemma strip_revision_path: "strip_suffix ''.yaml'' (revision_path v) = Some (pad20 v)"
  by (simp add: strip_suffix_def revision_path_def suffix_def)

lemma read_entry_path:
  "read_entry len from_yaml (revision_path v, n) =
     Option.bind (read_bounded len MAX_REVISION_BYTES (Some n)) (\<lambda>raw.
       Option.bind (from_yaml raw) (\<lambda>r.
         if version r \<noteq> v \<or> revision_validate r \<noteq> Inr () then None else Some r))"
  by (auto simp: read_entry_def strip_revision_path pad20_length pad20_digits parse_pad20 is_regular_def
      read_bounded_def split: fs_node.splits)

lemma read_entry_Some:
  "read_entry len from_yaml e = Some r \<Longrightarrow>
     fst e = revision_path (version r) \<and> revision_validate r = Inr ()"
  by (auto simp: read_entry_def bind_eq_Some_conv split: if_splits)

section \<open>Concurrent writers\<close>

text \<open>What holds of one writer against the directory \<open>d0\<close> it all started from.\<close>

definition succeeded :: "log_writer \<Rightarrow> bool" where
  "succeeded w = (w_phase w \<in> {Linked (Inr ()), Finished (Inr ())})"

definition settled :: "(revision \<Rightarrow> (string, 'c) result) \<Rightarrow> 'c dir \<Rightarrow> 'c dir \<Rightarrow> log_writer \<Rightarrow> unit io \<Rightarrow> bool"
where
  "settled to_yaml d0 d w res =
     (case res of
        Inr _ \<Rightarrow> \<exists>y. prepare to_yaml (w_rev w) = Inr y \<and> om_get d0 (w_path w) = None
                   \<and> om_get d (w_path w) = Some (Regular y)
      | Inl e \<Rightarrow> prepare to_yaml (w_rev w) = Inl e \<or> w_fault w = Some e
                   \<or> e = AlreadyExists \<and> om_get d (w_path w) \<noteq> None)"

definition writer_ok :: "(revision \<Rightarrow> (string, 'c) result) \<Rightarrow> 'c dir \<Rightarrow> 'c dir \<Rightarrow> log_writer \<Rightarrow> bool" where
  "writer_ok to_yaml d0 d w =
     (case w_phase w of
        Starting \<Rightarrow> om_get d (w_tmp w) = None
      | Staged \<Rightarrow> w_fault w = None \<and>
          (\<exists>y. prepare to_yaml (w_rev w) = Inr y \<and> om_get d (w_tmp w) = Some (Regular y))
      | Linked res \<Rightarrow> (\<exists>y. om_get d (w_tmp w) = Some (Regular y)) \<and> settled to_yaml d0 d w res
      | Finished res \<Rightarrow> om_get d (w_tmp w) = None \<and> settled to_yaml d0 d w res)"

definition same_writer :: "log_writer \<Rightarrow> log_writer \<Rightarrow> bool" where
  "same_writer a b = (a = b\<lparr>w_phase := w_phase a\<rparr>)"

lemma same_writer_fields:
  "same_writer a b \<Longrightarrow> w_rev a = w_rev b \<and> w_fault a = w_fault b \<and> w_tmp a = w_tmp b \<and> w_path a = w_path b"
  by (cases a; cases b) (simp add: same_writer_def w_tmp_def w_path_def)

lemma same_writer_trans: "same_writer a b \<Longrightarrow> same_writer b c \<Longrightarrow> same_writer a c"
  by (cases a; cases b; cases c) (simp add: same_writer_def)

text \<open>A step of one writer touches its staging file and, when the link is made, its revision's
  name, which was free.\<close>

lemma write_step_effect:
  assumes ok: "writer_ok to_yaml d0 d w" and wf: "om_wf d"
    and keep: "om_get d (w_path w) = None \<longrightarrow> om_get d0 (w_path w) = None"
    and step: "write_step to_yaml w d = (w', d')"
  shows "om_wf d'" and "same_writer w' w" and "writer_ok to_yaml d0 d' w'"
    and "n \<noteq> w_tmp w \<Longrightarrow> n \<noteq> w_path w \<Longrightarrow> om_get d' n = om_get d n"
    and "om_get d (w_path w) = Some x \<Longrightarrow> om_get d' (w_path w) = Some x"
    and "succeeded w' \<longleftrightarrow> succeeded w \<or> om_get d (w_path w) = None \<and> om_get d' (w_path w) \<noteq> None"
proof -
  have neq: "w_tmp w \<noteq> w_path w" by (simp add: w_tmp_def w_path_def tmp_not_revision)
  have tmp: "w_tmp (w\<lparr>w_phase := p\<rparr>) = w_tmp w" "w_path (w\<lparr>w_phase := p\<rparr>) = w_path w" for p
    by (simp_all add: w_tmp_def w_path_def)
  note defs = write_step_def writer_ok_def settled_def same_writer_def succeeded_def tmp
    fs_create_new_def fs_hard_link_def fs_remove_file_def om_get_put om_get_del
  show "om_wf d'" "same_writer w' w" "writer_ok to_yaml d0 d' w'"
    "n \<noteq> w_tmp w \<Longrightarrow> n \<noteq> w_path w \<Longrightarrow> om_get d' n = om_get d n"
    "om_get d (w_path w) = Some x \<Longrightarrow> om_get d' (w_path w) = Some x"
    "succeeded w' \<longleftrightarrow> succeeded w \<or> om_get d (w_path w) = None \<and> om_get d' (w_path w) \<noteq> None"
    using ok wf keep step neq neq [symmetric]
    by (cases "w_phase w"; auto simp: defs om_wf_put om_wf_del split: sum.splits option.splits if_splits)+
qed

definition winners :: "u64 \<Rightarrow> log_writer list \<Rightarrow> nat" where
  "winners v ws = length (filter (\<lambda>w. succeeded w \<and> version (w_rev w) = v) ws)"

definition log_inv ::
  "(revision \<Rightarrow> (string, 'c) result) \<Rightarrow> 'c dir \<Rightarrow> log_writer list \<Rightarrow> 'c dir \<Rightarrow> log_writer list \<Rightarrow> bool" where
  "log_inv to_yaml d0 ws0 d ws \<longleftrightarrow>
     om_wf d \<and> list_all2 same_writer ws ws0 \<and> distinct (map w_tmp ws) \<and>
     (\<forall>v x. om_get d0 (revision_path v) = Some x \<longrightarrow> om_get d (revision_path v) = Some x) \<and>
     (\<forall>w \<in> set ws. writer_ok to_yaml d0 d w) \<and>
     (\<forall>v. winners v ws =
        (if om_get d0 (revision_path v) = None \<and> om_get d (revision_path v) \<noteq> None then 1 else 0))"

lemma writer_ok_frame:
  assumes "writer_ok to_yaml d0 d w" and "om_get d' (w_tmp w) = om_get d (w_tmp w)"
    and "\<And>x. om_get d (w_path w) = Some x \<Longrightarrow> om_get d' (w_path w) = Some x"
  shows "writer_ok to_yaml d0 d' w"
  using assms by (cases "w_phase w"; cases "om_get d (w_path w)")
    (auto simp: writer_ok_def settled_def split: sum.splits)

lemma distinct_update:
  "distinct (map f xs) \<Longrightarrow> i < length xs \<Longrightarrow> f y = f (xs ! i) \<Longrightarrow> distinct (map f (xs[i := y]))"
  by (metis list_update_id map_update)

lemma log_inv_step:
  assumes inv: "log_inv to_yaml d0 ws0 d ws" and i: "i < length ws"
    and step: "write_step to_yaml (ws ! i) d = (w', d')"
  shows "log_inv to_yaml d0 ws0 d' (ws[i := w'])"
proof -
  let ?w = "ws ! i"
  have wf: "om_wf d" and same: "list_all2 same_writer ws ws0" and dist: "distinct (map w_tmp ws)"
    and mono: "\<And>v x. om_get d0 (revision_path v) = Some x \<Longrightarrow> om_get d (revision_path v) = Some x"
    and ok: "\<And>w. w \<in> set ws \<Longrightarrow> writer_ok to_yaml d0 d w"
    and win: "\<And>v. winners v ws =
        (if om_get d0 (revision_path v) = None \<and> om_get d (revision_path v) \<noteq> None then 1 else 0)"
    using inv by (auto simp: log_inv_def)
  have keep: "om_get d (w_path ?w) = None \<longrightarrow> om_get d0 (w_path ?w) = None"
    using mono [of "version (w_rev ?w)"] by (cases "om_get d0 (w_path ?w)") (auto simp: w_path_def)
  note eff = write_step_effect [OF ok [OF nth_mem [OF i]] wf keep step]
  have paths: "revision_path v \<noteq> w_tmp ?w" for v by (simp add: w_tmp_def tmp_not_revision [symmetric])
  have grow: "om_get d' (revision_path v) = Some x" if "om_get d (revision_path v) = Some x" for v x
    using eff(4) [of "revision_path v"] eff(5) [of x] that paths [of v]
    by (cases "revision_path v = w_path ?w") auto
  have others: "writer_ok to_yaml d0 d' (ws ! j)" if "j < length ws" "j \<noteq> i" for j
  proof (rule writer_ok_frame [OF ok])
    show "ws ! j \<in> set ws" using that by simp
    have "w_tmp (ws ! j) \<noteq> w_tmp ?w" using dist that i by (auto simp: distinct_conv_nth)
    then show "om_get d' (w_tmp (ws ! j)) = om_get d (w_tmp (ws ! j))"
      by (intro eff(4)) (simp_all add: w_tmp_def w_path_def tmp_not_revision)
  qed (simp add: w_path_def grow)
  have count: "winners v (ws[i := w']) + (if succeeded ?w \<and> version (w_rev ?w) = v then 1 else 0)
      = winners v ws + (if succeeded w' \<and> version (w_rev ?w) = v then 1 else 0)" for v
    using filter_update [OF i, of "\<lambda>w. succeeded w \<and> version (w_rev w) = v" w']
      same_writer_fields [OF eff(2)] by (simp add: winners_def)
  have won: "succeeded ?w \<Longrightarrow> om_get d (w_path ?w) \<noteq> None"
    using ok [OF nth_mem [OF i]] by (auto simp: writer_ok_def settled_def succeeded_def)
  have won': "succeeded w' \<longleftrightarrow> succeeded ?w \<or> om_get d (w_path ?w) = None \<and> om_get d' (w_path ?w) \<noteq> None"
    by (rule eff(6))
  have win': "winners v (ws[i := w']) =
        (if om_get d0 (revision_path v) = None \<and> om_get d' (revision_path v) \<noteq> None then 1 else 0)" for v
  proof (cases "version (w_rev ?w) = v")
    case False
    then have "om_get d' (revision_path v) = om_get d (revision_path v)"
      using eff(4) [of "revision_path v"] paths [of v] by (simp add: w_path_def revision_path_inj)
    with count [of v] win [of v] False show ?thesis by simp
  next
    case True
    then have p: "w_path ?w = revision_path v" by (simp add: w_path_def)
    show ?thesis
    proof (cases "om_get d (revision_path v)")
      case None
      with won won' keep count [of v] win [of v] True show ?thesis by (auto simp: p split: if_splits)
    next
      case (Some x)
      with won' grow [OF Some] count [of v] win [of v] True show ?thesis by (auto simp: p split: if_splits)
    qed
  qed
  have "list_all2 same_writer (ws[i := w']) (ws0[i := ws0 ! i])"
    by (rule list_all2_update_cong [OF same same_writer_trans [OF eff(2) list_all2_nthD [OF same i]]])
  moreover have "distinct (map w_tmp (ws[i := w']))"
    using dist i same_writer_fields [OF eff(2)] by (intro distinct_update) simp_all
  moreover have "\<forall>w \<in> set (ws[i := w']). writer_ok to_yaml d0 d' w"
  proof
    fix w assume "w \<in> set (ws[i := w'])"
    then obtain j where "j < length ws" "w = ws[i := w'] ! j" by (auto simp: in_set_conv_nth)
    then show "writer_ok to_yaml d0 d' w" using eff(3) others [of j] i by (cases "j = i") simp_all
  qed
  ultimately show ?thesis
    using eff(1) mono grow win' unfolding log_inv_def by simp
qed

interpretation log_writers: interleaved "write_step to_yaml" "log_inv to_yaml d0 ws0" for to_yaml d0 ws0
  by unfold_locales (rule log_inv_step)

text \<open>C6. The revision log is append-only under any interleaving of writers: whatever name a version
  has in the log keeps it; a version that was free gets exactly one winner once it is taken, and
  none before; a finished writer has removed its staging file, and it either put its own rendered
  revision under a name that was free, or reports why not: the refusal of the revision, the fault
  of its staging file, or that the version is taken.\<close>

theorem log_is_append_only:
  assumes "om_wf d0" and "distinct (map w_tmp ws0)"
    and "\<forall>w \<in> set ws0. w_phase w = Starting \<and> om_get d0 (w_tmp w) = None"
    and run: "sched (write_step to_yaml) ks (d0, ws0) = (d, ws)"
  shows "(\<forall>v x. om_get d0 (revision_path v) = Some x \<longrightarrow> om_get d (revision_path v) = Some x)
    \<and> (\<forall>v. winners v ws = (if om_get d0 (revision_path v) = None \<and> om_get d (revision_path v) \<noteq> None then 1 else 0))
    \<and> (\<forall>w res. w \<in> set ws \<and> w_phase w = Finished res \<longrightarrow>
         om_get d (w_tmp w) = None \<and> settled to_yaml d0 d w res)"
proof -
  have "winners v ws0 = 0" for v
    using assms(3) by (auto simp: winners_def succeeded_def filter_empty_conv)
  moreover have "list_all2 same_writer ws0 ws0"
    by (rule list_all2_refl) (simp add: same_writer_def)
  ultimately have "log_inv to_yaml d0 ws0 d0 ws0"
    using assms(1-3) by (auto simp: log_inv_def writer_ok_def)
  then have "log_inv to_yaml d0 ws0 d ws" using run by (rule log_writers.sched_keeps)
  then show ?thesis by (fastforce simp: log_inv_def writer_ok_def)
qed

theorem log_is_append_only_witness:
  "\<exists>d ws. sched (write_step Inr) [0, 1, 1, 0, 0, 1]
       (om_empty, [new_writer 7 1 None (rev_of 3 ''a''), new_writer 8 1 None (rev_of 3 ''b'')]) = (d, ws)
     \<and> winners 3 ws = 1 \<and> om_get d (revision_path 3) = Some (Regular (rev_of 3 ''b''))"
proof -
  let ?ws = "[new_writer 7 1 None (rev_of 3 ''a''), new_writer 8 1 None (rev_of 3 ''b'')]"
  obtain d ws where run: "sched (write_step Inr) [0, 1, 1, 0, 0, 1] (om_empty, ?ws) = (d, ws)"
    by fastforce
  have neq: "tmp_path 3 7 1 \<noteq> tmp_path 3 8 1" by (simp add: tmp_path_def show_nat.simps)
  have prep: "prepare Inr (rev_of 3 ''a'') = Inr (rev_of 3 ''a'')" "prepare Inr (rev_of 3 ''b'') = Inr (rev_of 3 ''b'')"
    using validate_accepts [of "rev_of 3 ''a''"] validate_accepts [of "rev_of 3 ''b''"]
    by (simp_all add: prepare_def rev_of_def author_char_def is_ascii_alnum_def is_ascii_alpha_def)
  have "version (rev_of 3 a) = 3" for a by (simp add: rev_of_def)
  then have "om_get d (revision_path 3) = Some (Regular (rev_of 3 ''b''))"
    using run neq by (simp add: write_step_def new_writer_def prep w_tmp_def w_path_def fs_create_new_def
        fs_hard_link_def fs_remove_file_def om_get_put om_get_del tmp_not_revision
        tmp_not_revision [symmetric] split: if_splits)
      (auto simp: om_get_put om_get_del tmp_not_revision [symmetric])
  moreover have "winners 3 ws = (if om_get d (revision_path 3) \<noteq> None then 1 else 0)"
    using log_is_append_only [OF _ _ _ run] neq
    by (simp add: new_writer_def w_tmp_def rev_of_def)
  ultimately show ?thesis using run by auto
qed

section \<open>A call on its own\<close>

text \<open>Alone, the staged install is one write of the name.\<close>

lemma write_revision_alone:
  assumes "om_wf d" and "om_get d (tmp_path (version r) pid stamp) = None"
  shows "write_revision to_yaml pid stamp fault r d =
    (case prepare to_yaml r of
       Inl e \<Rightarrow> (Inl e, d)
     | Inr y \<Rightarrow>
         (case fault of
            Some e \<Rightarrow> (Inl e, d)
          | None \<Rightarrow>
              if om_get d (revision_path (version r)) \<noteq> None then (Inl AlreadyExists, d)
              else (Inr (revision_path (version r)), om_put (revision_path (version r)) (Regular y) d)))"
  using assms tmp_not_revision [of "version r" pid stamp "version r"]
  by (auto simp: write_revision_def write_step_def new_writer_def w_tmp_def w_path_def fs_create_new_def
      fs_hard_link_def fs_remove_file_def om_get_put omd.del_put omd.link_install
      split: sum.splits option.splits)

section \<open>What is read\<close>

lemma mset_om_put: "om_get m k = None \<Longrightarrow> mset (om_put k v m) = add_mset (k, v) (mset m)"
  by (induction k v m rule: om_put.induct) (auto simp: om_get_def split: if_splits)

text \<open>The entries read have different keys, so the order of the listing does not show.\<close>

lemma read_keys_differ:
  assumes "om_wf d"
  shows "inj_on rev_key (set (List.map_filter (read_entry len from_yaml) d))"
proof (rule inj_onI)
  fix r q assume "r \<in> set (List.map_filter (read_entry len from_yaml) d)"
    "q \<in> set (List.map_filter (read_entry len from_yaml) d)" "rev_key r = rev_key q"
  then obtain e f where e: "e \<in> set d" "read_entry len from_yaml e = Some r"
    and f: "f \<in> set d" "read_entry len from_yaml f = Some q" and v: "version r = version q"
    by (auto simp: map_filter_mem rev_key_def)
  have "fst e = fst f" using read_entry_Some [OF e(2)] read_entry_Some [OF f(2)] v by simp
  with om_wf_distinct [OF assms] e(1) f(1) have "e = f"
    by (auto simp: om_keys_def distinct_map dest: inj_onD)
  with e(2) f(2) show "r = q" by simp
qed

lemma read_order_irrelevant:
  assumes "om_wf d" and "mset entries = mset d"
  shows "read_revisions len from_yaml entries = read_revisions len from_yaml d"
proof -
  let ?f = "List.map_filter (read_entry len from_yaml)"
  have m: "mset (?f entries) = mset (?f d)" by (simp add: mset_map_filter assms(2))
  show ?thesis
    unfolding read_revisions_def
  proof (rule sort_key_inj_key_eq)
    show "inj_on rev_key (set (?f entries))"
      using read_keys_differ [OF assms(1)] mset_eq_setD [OF m] by simp
  qed (use m in simp_all)
qed

lemma foldl_max_upper: "x \<in> set (v # vs) \<Longrightarrow> x \<le> foldl max v vs" for v :: "'a::linorder"
proof (induction vs arbitrary: v x)
  case (Cons a vs)
  have "max v a \<le> foldl max (max v a) vs" by (rule Cons.IH) simp
  with Cons.IH [of x "max v a"] Cons.prems show ?case by (auto simp: le_max_iff_disj)
qed simp

lemma foldl_max_mem: "foldl max v vs \<in> set (v # vs)" for v :: "'a::linorder"
  by (rule foldl_select_mem) (auto simp: max_def)

lemma next_version_above:
  assumes "q \<in> set (read_revisions len from_yaml d)"
    and "\<forall>q \<in> set (read_revisions len from_yaml d). version q \<noteq> - 1"
  shows "version q < next_version len from_yaml d"
proof (cases "map version (read_revisions len from_yaml d)")
  case (Cons v vs)
  have "foldl max v vs \<in> version ` set (read_revisions len from_yaml d)"
    using foldl_max_mem [of v vs] Cons by (metis list.set_map)
  then have "foldl max v vs < sat_add (foldl max v vs) 1" using assms(2) by (intro sat_add_one_less [THEN iffD2]) auto
  moreover have "version q \<le> foldl max v vs"
    using foldl_max_upper [of "version q" v vs] Cons assms(1) by (metis image_eqI list.set_map)
  ultimately show ?thesis by (simp add: next_version_def Cons)
qed (use assms(1) in auto)

lemma elect_last:
  assumes "\<And>q. q \<in> set qs \<Longrightarrow> supersedes r q"
  shows "elect_revision (qs @ [r]) = Some r"
proof (cases qs)
  case (Cons a qs')
  have "foldl (\<lambda>win r. if supersedes r win then r else win) a qs' \<in> set qs"
    unfolding Cons by (rule foldl_select_mem) auto
  with assms show ?thesis by (simp add: elect_revision_def Cons)
qed (simp add: elect_revision_def)

text \<open>Minting works from any log: a revision stamped with the next version, rendered within the
  size bound and admitted, is stored and read back as the new last revision of the log, which is
  otherwise as it was; it is elected at once, and the version after it is next. The directory may
  list its entries in any order. The one thing in the way is an entry under that very name that no
  read admits: then every attempt is refused, and since the reads do not change, so is every later
  attempt with the next version.\<close>

theorem minted_revision_is_elected:
  assumes wf: "om_wf d" and tmp: "om_get d (tmp_path (version r) pid stamp) = None"
    and codec: "to_yaml r = Inr y" "from_yaml y = Some r" "len y \<le> MAX_REVISION_BYTES"
    and valid: "revision_validate r = Inr ()" and nxt: "version r = next_version len from_yaml d"
    and room: "\<forall>q \<in> set (read_revisions len from_yaml d). version q \<noteq> - 1"
  shows "case write_revision to_yaml pid stamp None r d of
      (Inr p, d') \<Rightarrow> p = revision_path (version r) \<and>
        (\<forall>entries. mset entries = mset d' \<longrightarrow>
           read_revisions len from_yaml entries = read_revisions len from_yaml d @ [r]
           \<and> elect_head len from_yaml entries = Some r
           \<and> next_version len from_yaml entries = sat_add (version r) 1)
    | (Inl e, d') \<Rightarrow> d' = d \<and> e = AlreadyExists \<and> om_get d (revision_path (version r)) \<noteq> None"
proof (cases "om_get d (revision_path (version r))")
  case (Some n)
  with write_revision_alone [OF wf tmp] codec valid show ?thesis by (simp add: prepare_def)
next
  case None
  let ?p = "revision_path (version r)" and ?read = "read_revisions len from_yaml"
  let ?d = "om_put ?p (Regular y) d" and ?f = "List.map_filter (read_entry len from_yaml)"
  have above: "version q < version r" if "q \<in> set (?read d)" for q
    using next_version_above [OF that room] nxt by simp
  have key: "rev_key q \<le> rev_key r" "supersedes r q" if "q \<in> set (?read d)" for q
    using above [OF that] by (simp_all add: rev_key_def supersedes_def)
  have e: "read_entry len from_yaml (?p, Regular y) = Some r"
    using codec valid by (simp add: read_entry_path read_bounded_def)
  have read: "?read ?d = ?read d @ [r]"
  proof (unfold read_revisions_def, rule sort_key_inj_key_eq)
    show "mset (?f ?d) = mset (sort_key rev_key (?f d) @ [r])"
      by (simp add: mset_map_filter mset_om_put [OF None] e)
    show "inj_on rev_key (set (?f ?d))" by (rule read_keys_differ) (rule om_wf_put [OF wf])
    show "sorted (map rev_key (sort_key rev_key (?f d) @ [r]))"
      using key(1) by (auto simp: sorted_append read_revisions_def)
  qed
  have "elect_revision (?read d @ [r]) = Some r"
    using key(2) by (rule elect_last)
  moreover have "foldl max v (vs @ [version r]) = version r" if "map version (?read d) = v # vs" for v vs
  proof -
    have "foldl max v vs \<in> version ` set (?read d)"
      using foldl_max_mem [of v vs] that by (metis list.set_map)
    then have "foldl max v vs \<le> version r" using above by (auto intro: less_imp_le)
    then show ?thesis by (simp add: max_absorb2)
  qed
  then have "next_version len from_yaml ?d = sat_add (version r) 1"
    by (cases "map version (?read d)") (simp_all add: next_version_def read)
  ultimately show ?thesis
    using write_revision_alone [OF wf tmp] codec valid None read_order_irrelevant [OF om_wf_put [OF wf]]
    by (simp add: prepare_def elect_head_def next_version_def read)
qed

theorem minted_revision_is_elected_witness:
  "elect_head (\<lambda>_. 0) Some (snd (write_revision Inr 7 1 None (rev_of 1 ''a'') om_empty)) = Some (rev_of 1 ''a'')"
proof -
  have "revision_validate (rev_of 1 ''a'') = Inr ()"
    using validate_accepts [of "rev_of 1 ''a''"]
    by (simp add: rev_of_def author_char_def is_ascii_alnum_def is_ascii_alpha_def)
  moreover have "read_revisions (\<lambda>_. 0) Some om_empty = []"
    by (simp add: read_revisions_def om_empty_def List.map_filter_simps)
  ultimately show ?thesis
    using minted_revision_is_elected [of om_empty "rev_of 1 ''a''" 7 1 Inr "rev_of 1 ''a''" Some "\<lambda>_. 0"]
    by (auto simp: next_version_def rev_of_def split: prod.splits sum.splits)
qed

section \<open>Acknowledgements\<close>

record apply_ack =
  ack_peer :: string
  ack_status :: string
  ack_at :: u64
  ack_detail :: string

definition MAX_ACK_BYTES :: nat where
  "MAX_ACK_BYTES = 64 * 1024"

text \<open>\<open>Path::extension\<close> of a file name: what follows its last dot, unless nothing precedes it.\<close>

definition path_extension :: "string \<Rightarrow> string option" where
  "path_extension n =
     (if n = ''..'' then None
      else case split_once (CHR ''.'') (rev n) of
        None \<Rightarrow> None
      | Some (e, stem) \<Rightarrow> if stem = [] then None else Some (rev e))"

definition write_ack :: "(apply_ack \<Rightarrow> (string, 'c) result) \<Rightarrow> apply_ack \<Rightarrow> 'c dir \<Rightarrow> string io \<times> 'c dir" where
  "write_ack to_json ack d =
     (let leaf = ack_peer ack @ ''.json'' in
      case to_json ack of
        Inl e \<Rightarrow> (Inl (InvalidData e), d)
      | Inr c \<Rightarrow>
          (case write_leaf (''.'' @ ack_peer ack @ ''.json.tmp'') leaf c d of
             (Inl e, d') \<Rightarrow> (Inl e, d')
           | (Inr _, d') \<Rightarrow> (Inr leaf, d')))"

definition read_acks ::
  "('c \<Rightarrow> nat) \<Rightarrow> ('c \<Rightarrow> apply_ack option) \<Rightarrow> (string \<times> 'c fs_node) list \<Rightarrow> apply_ack list" where
  "read_acks len from_json =
     read_leaves (\<lambda>n. path_extension n = Some ''json'') len MAX_ACK_BYTES from_json ack_peer"

lemma extension_json: "path_extension (h @ ''.json'') = (if h = [] then None else Some ''json'')"
  by (cases h rule: rev_cases) (simp_all add: path_extension_def)

lemma extension_tmp: "path_extension (''.'' @ h @ ''.json.tmp'') = Some ''tmp''"
  by (simp add: path_extension_def)

text \<open>A peer's acknowledgement is its own: after it has written one, exactly its latest one is
  read under its name, together with what the other leaves held before, sorted by peer; staging
  files are never read.\<close>

theorem latest_ack_is_read:
  assumes "om_wf d" and "om_get d (''.'' @ ack_peer ack @ ''.json.tmp'') = None"
    and "om_get d (ack_peer ack @ ''.json'') \<noteq> Some Subdir" and "ack_peer ack \<noteq> []"
    and "to_json ack = Inr c" and "from_json c = Some ack" and "len c \<le> MAX_ACK_BYTES"
  shows "\<exists>d'. write_ack to_json ack d = (Inr (ack_peer ack @ ''.json''), d') \<and>
    (\<forall>entries. mset entries = mset d' \<longrightarrow>
       sorted (map ack_peer (read_acks len from_json entries)) \<and>
       set (read_acks len from_json entries) =
         insert ack (set (read_acks len from_json (om_del (ack_peer ack @ ''.json'') d))))"
proof -
  let ?leaf = "ack_peer ack @ ''.json''"
  have ne: "''.'' @ ack_peer ack @ ''.json.tmp'' \<noteq> ?leaf"
    using extension_tmp [of "ack_peer ack"] extension_json [of "ack_peer ack"] by auto
  have w: "write_ack to_json ack d = (Inr ?leaf, om_put ?leaf (Regular c) d)"
    using write_leaf_alone [OF assms(1-3) ne, of c] assms(5) by (simp add: write_ack_def Let_def)
  have wf: "om_wf (om_put ?leaf (Regular c) d)" "om_wf (om_del ?leaf d)"
    using assms(1) by (simp_all add: om_wf_put om_wf_del)
  have "a \<in> set (read_acks len from_json entries) \<longleftrightarrow>
      a = ack \<or> a \<in> set (read_acks len from_json (om_del ?leaf d))"
    if "mset entries = mset (om_put ?leaf (Regular c) d)" for entries a
    using assms(4,6,7) extension_json [of "ack_peer ack"]
    by (auto simp: read_acks_def read_leaves_set [OF wf(1) that] read_leaves_set [OF wf(2) refl]
        om_get_put om_get_del split: if_splits)
  with w show ?thesis by (auto simp: read_acks_def read_leaves_def)
qed

theorem latest_ack_is_read_witness:
  "read_acks (\<lambda>_. 0) Some (snd (write_ack Inr \<lparr>ack_peer = ''oak'', ack_status = ''applied'', ack_at = 7, ack_detail = []\<rparr>
      [(''oak.json'', Regular \<lparr>ack_peer = ''oak'', ack_status = ''failed'', ack_at = 6, ack_detail = []\<rparr>)]))
   = [\<lparr>ack_peer = ''oak'', ack_status = ''applied'', ack_at = 7, ack_detail = []\<rparr>]"
proof -
  let ?new = "\<lparr>ack_peer = ''oak'', ack_status = ''applied'', ack_at = 7 :: u64, ack_detail = []\<rparr>"
  let ?d = "[(''oak.json'', Regular \<lparr>ack_peer = ''oak'', ack_status = ''failed'', ack_at = 6 :: u64, ack_detail = []\<rparr>)]"
  have "om_wf ?d" by (simp add: om_wf_def)
  with latest_ack_is_read [of ?d ?new Inr ?new Some "\<lambda>_. 0"]
  have "set (read_acks (\<lambda>_. 0) Some (snd (write_ack Inr ?new ?d))) = {?new}"
    by (auto simp: om_get_def om_del_def read_acks_def read_leaves_def List.map_filter_simps)
  moreover have "snd (write_ack Inr ?new ?d) = [(''oak.json'', Regular ?new)]"
    by code_simp
  ultimately show ?thesis
    by (simp add: read_acks_def read_leaves_def List.map_filter_simps decode_leaf_def split: option.splits if_splits)
qed

section \<open>Nudges\<close>

definition MAX_NUDGE_BYTES :: nat where
  "MAX_NUDGE_BYTES = 64 * 1024"

definition write_nudge_payload :: "string \<Rightarrow> 'c \<Rightarrow> 'c dir \<Rightarrow> string io \<times> 'c dir" where
  "write_nudge_payload host payload d =
     (case fs_write host payload d of
        (Inl e, d') \<Rightarrow> (Inl e, d')
      | (Inr _, d') \<Rightarrow> (Inr host, d'))"

text \<open>\<open>text_of\<close> is the UTF-8 check.\<close>

definition take_nudge_payload :: "('c \<Rightarrow> nat) \<Rightarrow> ('c \<Rightarrow> 't option) \<Rightarrow> string \<Rightarrow> 'c dir \<Rightarrow> 't option \<times> 'c dir" where
  "take_nudge_payload len text_of host d =
     (case Option.bind (read_bounded len MAX_NUDGE_BYTES (om_get d host)) text_of of
        None \<Rightarrow> (None, d)
      | Some payload \<Rightarrow> (Some payload, snd (fs_remove_file host d)))"

definition take_nudge :: "('c \<Rightarrow> nat) \<Rightarrow> ('c \<Rightarrow> 't option) \<Rightarrow> string \<Rightarrow> 'c dir \<Rightarrow> bool \<times> 'c dir" where
  "take_nudge len text_of host d = (case take_nudge_payload len text_of host d of (p, d') \<Rightarrow> (p \<noteq> None, d'))"

text \<open>A nudge is taken once, whatever it was written over, and no other host's nudge is touched;
  one that is longer than the bound or no text is never taken and stays.\<close>

lemma nudge_taken_once:
  assumes "om_get d host \<noteq> Some Subdir" and "om_get d host \<noteq> Some Symlink"
  shows "\<exists>d'. write_nudge_payload host payload d = (Inr host, d') \<and>
    (if len payload \<le> MAX_NUDGE_BYTES \<and> text_of payload \<noteq> None
     then \<exists>d''. take_nudge_payload len text_of host d' = (text_of payload, d'')
        \<and> take_nudge_payload len text_of host d'' = (None, d'')
        \<and> (\<forall>h. h \<noteq> host \<longrightarrow> om_get d'' h = om_get d h)
     else take_nudge_payload len text_of host d' = (None, d'))"
proof -
  have "write_nudge_payload host payload d = (Inr host, om_put host (Regular payload) d)"
    using assms by (auto simp: write_nudge_payload_def fs_write_def split: option.splits fs_node.splits)
  then show ?thesis
    by (auto simp: take_nudge_payload_def read_bounded_def fs_remove_file_def om_get_put om_get_del
        split: option.splits)
qed

end
