(* ===== verification/FleetRuns.thy ===== *)
theory FleetRuns
  imports FileStore
begin

text \<open>
  The overlay validation runs and the job runs of the fleet
  (\<open>crates/mesh/magic-fleet/src/validation.rs\<close>, \<open>jobs.rs\<close>): the replicated rows and results,
  the aggregation of the rows into a verdict, the target selector and the playbook references.
  The JSON codecs are arguments; a round-trip time, a float that nothing computes with, has an
  abstract type.
\<close>

section \<open>Validation runs\<close>

datatype run_kind = PostApply | Nightly | RunNow

record validation_run =
  run_id :: string
  run_kind :: run_kind
  launched_by :: string
  run_at :: u64
  participants :: "string list"

record 'f peer_reach =
  pr_peer :: string
  pr_overlay_ip :: string
  pr_reachable :: bool
  pr_rtt_ms :: "'f option"

record 'f node_reachability =
  row_from :: string
  row_at :: u64
  row_results :: "'f peer_reach list"

definition MAX_VALIDATION_ROW_BYTES :: nat where
  "MAX_VALIDATION_ROW_BYTES = 256 * 1024"

definition row_leaf :: "string \<Rightarrow> string" where
  "row_leaf host = host @ ''.json''"

definition write_row ::
  "('f node_reachability \<Rightarrow> 'c) \<Rightarrow> 'f node_reachability \<Rightarrow> 'c dir \<Rightarrow> unit io \<times> 'c dir" where
  "write_row to_json row d =
     write_leaf (''.'' @ row_from row @ ''.json.tmp'') (row_leaf (row_from row)) (to_json row) d"

definition result_leaf :: "string \<Rightarrow> bool" where
  "result_leaf n = (ends_with n ''.json'' \<and> n \<noteq> ''run.json'')"

definition read_rows ::
  "('c \<Rightarrow> nat) \<Rightarrow> ('c \<Rightarrow> 'f node_reachability option) \<Rightarrow> (string \<times> 'c fs_node) list
    \<Rightarrow> 'f node_reachability list" where
  "read_rows len from_json = read_leaves result_leaf len MAX_VALIDATION_ROW_BYTES from_json row_from"

text \<open>\<open>Path::exists\<close>, links taken to lead somewhere.\<close>

definition row_pending_for :: "validation_run \<Rightarrow> string \<Rightarrow> 'c dir \<Rightarrow> bool" where
  "row_pending_for run self d =
     (list_ex (\<lambda>p. p = self) (participants run) \<and> om_get d (row_leaf self) = None)"

section \<open>The verdict\<close>

text \<open>A directed edge is the pair of its ends.\<close>

record fleet_reachability =
  fr_reachable :: "(string \<times> string) set"
  fr_failed :: "(string \<times> string) set"
  fr_missing :: "string set"

definition passed :: "fleet_reachability \<Rightarrow> bool" where
  "passed v = (fr_failed v = {} \<and> fr_missing v = {})"

text \<open>The maps that \<open>collect\<close> builds from pairs: a later pair replaces an earlier one.\<close>

definition collect_map :: "('a \<Rightarrow> string) \<Rightarrow> 'a list \<Rightarrow> (string, 'a) omap" where
  "collect_map f xs = fold (\<lambda>x m. om_put (f x) x m) xs om_empty"

definition judge_edge ::
  "string \<Rightarrow> (string, 'f peer_reach) omap \<Rightarrow> string \<Rightarrow> fleet_reachability \<Rightarrow> fleet_reachability" where
  "judge_edge src seen dst v =
     (if dst = src then v
      else case om_get seen dst of
        Some pr \<Rightarrow>
          if pr_reachable pr then v\<lparr>fr_reachable := insert (src, dst) (fr_reachable v)\<rparr>
          else v\<lparr>fr_failed := insert (src, dst) (fr_failed v)\<rparr>
      | None \<Rightarrow> v\<lparr>fr_failed := insert (src, dst) (fr_failed v)\<rparr>)"

definition judge_row ::
  "string list \<Rightarrow> string \<times> 'f node_reachability \<Rightarrow> fleet_reachability \<Rightarrow> fleet_reachability" where
  "judge_row targets fr v =
     (let seen = collect_map pr_peer (row_results (snd fr)) in fold (judge_edge (fst fr) seen) targets v)"

definition aggregate :: "validation_run \<Rightarrow> 'f node_reachability list \<Rightarrow> fleet_reachability" where
  "aggregate run rows =
     (let targets = sort (remdups (participants run));
          reported = collect_map row_from rows;
          out = \<lparr>fr_reachable = {}, fr_failed = {}, fr_missing = {}\<rparr>;
          out = fold (\<lambda>p v. if om_get reported p = None then v\<lparr>fr_missing := insert p (fr_missing v)\<rparr> else v)
                  (participants run) out
      in fold (judge_row targets) reported out)"

text \<open>What a collected map holds: the last element with the key.\<close>

definition last_with :: "('a \<Rightarrow> string) \<Rightarrow> string \<Rightarrow> 'a list \<Rightarrow> 'a option" where
  "last_with f k xs = find (\<lambda>x. f x = k) (rev xs)"

lemma collect_map_get: "om_get (collect_map f xs) k = last_with f k xs"
  by (induction xs rule: rev_induct) (auto simp: collect_map_def last_with_def om_get_put)

lemma collect_map_wf: "om_wf (collect_map f xs)"
  by (induction xs rule: rev_induct) (auto simp: collect_map_def om_wf_put)

lemma last_with_Some: "last_with f k xs = Some x \<Longrightarrow> x \<in> set xs \<and> f x = k"
  by (auto simp: last_with_def find_Some_iff) (metis nth_mem set_rev length_rev)

lemma last_with_None: "last_with f k xs = None \<longleftrightarrow> k \<notin> f ` set xs"
  by (auto simp: last_with_def find_None_iff)

text \<open>Whether a row says, last, that the target answered, and whether the reporter's last row does.\<close>

definition row_saw :: "'f node_reachability \<Rightarrow> string \<Rightarrow> bool" where
  "row_saw row dst = (case last_with pr_peer dst (row_results row) of None \<Rightarrow> False | Some pr \<Rightarrow> pr_reachable pr)"

definition saw :: "'f node_reachability list \<Rightarrow> string \<Rightarrow> string \<Rightarrow> bool" where
  "saw rows src dst = (case last_with row_from src rows of None \<Rightarrow> False | Some row \<Rightarrow> row_saw row dst)"

definition reporters :: "'f node_reachability list \<Rightarrow> string set" where
  "reporters rows = row_from ` set rows"

lemma judge_row_step:
  "judge_row ts (src, row) v =
     v\<lparr>fr_reachable := fr_reachable v \<union> {(src, dst) |dst. dst \<in> set ts \<and> dst \<noteq> src \<and> row_saw row dst},
       fr_failed := fr_failed v \<union> {(src, dst) |dst. dst \<in> set ts \<and> dst \<noteq> src \<and> \<not> row_saw row dst}\<rparr>"
  unfolding judge_row_def Let_def fst_conv snd_conv
proof (induction ts arbitrary: v)
  case (Cons t ts)
  have "judge_edge src (collect_map pr_peer (row_results row)) t v =
     v\<lparr>fr_reachable := fr_reachable v \<union> {(src, dst) |dst. dst = t \<and> dst \<noteq> src \<and> row_saw row dst},
       fr_failed := fr_failed v \<union> {(src, dst) |dst. dst = t \<and> dst \<noteq> src \<and> \<not> row_saw row dst}\<rparr>"
    by (cases v) (auto simp: judge_edge_def row_saw_def collect_map_get split: option.splits)
  then show ?case by (cases v) (auto simp: Cons.IH)
qed simp

lemma judge_rows:
  "(s, t) \<in> fr_reachable (fold (judge_row ts) rs v) \<longleftrightarrow> (s, t) \<in> fr_reachable v \<or>
     t \<in> set ts \<and> t \<noteq> s \<and> (\<exists>row. (s, row) \<in> set rs \<and> row_saw row t)"
  "(s, t) \<in> fr_failed (fold (judge_row ts) rs v) \<longleftrightarrow> (s, t) \<in> fr_failed v \<or>
     t \<in> set ts \<and> t \<noteq> s \<and> (\<exists>row. (s, row) \<in> set rs \<and> \<not> row_saw row t)"
  "fr_missing (fold (judge_row ts) rs v) = fr_missing v"
proof (induction rs arbitrary: v)
  case (Cons fr rs)
  obtain f row where [simp]: "fr = (f, row)" by (cases fr)
  { case 1 show ?case by (simp add: Cons(1) judge_row_step) blast }
  { case 2 show ?case by (simp add: Cons(2) judge_row_step) blast }
  { case 3 show ?case by (simp add: Cons(3) judge_row_step) }
qed simp_all

lemma missing_fold:
  "fold (\<lambda>p v. if om_get m p = None then v\<lparr>fr_missing := insert p (fr_missing v)\<rparr> else v) ps v
     = v\<lparr>fr_missing := fr_missing v \<union> {p \<in> set ps. om_get m p = None}\<rparr>"
  by (induction ps arbitrary: v) (auto intro!: arg_cong [where f = "\<lambda>x. _\<lparr>fr_missing := x\<rparr>"])

lemma collected_entry:
  "fr \<in> set (collect_map f xs) \<longleftrightarrow> last_with f (fst fr) xs = Some (snd fr)"
  using om_get_mem [OF collect_map_wf, of "fst fr" "snd fr" f xs] collect_map_get [of f xs "fst fr"]
  by (cases fr) (auto simp: om_get_def dest: map_of_SomeD)

lemma collected_row: "(s, row) \<in> set (collect_map row_from rows) \<longleftrightarrow> last_with row_from s rows = Some row"
  by (simp add: collected_entry)

lemma aggregate_sets:
  "fr_reachable (aggregate run rows) =
     {(s, t). s \<in> reporters rows \<and> t \<in> set (participants run) \<and> t \<noteq> s \<and> saw rows s t}"
  "fr_failed (aggregate run rows) =
     {(s, t). s \<in> reporters rows \<and> t \<in> set (participants run) \<and> t \<noteq> s \<and> \<not> saw rows s t}"
  "fr_missing (aggregate run rows) = set (participants run) - reporters rows"
proof -
  have rep: "(\<exists>row. last_with row_from s rows = Some row) \<longleftrightarrow> s \<in> reporters rows" for s
    using last_with_None [of row_from s rows] by (auto simp: reporters_def)
  have "(s, t) \<in> fr_reachable (aggregate run rows) \<longleftrightarrow>
      s \<in> reporters rows \<and> t \<in> set (participants run) \<and> t \<noteq> s \<and> saw rows s t" for s t
    using rep [of s] by (auto simp: aggregate_def Let_def judge_rows missing_fold collected_row saw_def)
  moreover have "(s, t) \<in> fr_failed (aggregate run rows) \<longleftrightarrow>
      s \<in> reporters rows \<and> t \<in> set (participants run) \<and> t \<noteq> s \<and> \<not> saw rows s t" for s t
    using rep [of s] by (auto simp: aggregate_def Let_def judge_rows missing_fold collected_row saw_def)
  moreover have "fr_missing (aggregate run rows) = set (participants run) - reporters rows"
    by (auto simp: aggregate_def Let_def judge_rows missing_fold collect_map_get last_with_None reporters_def)
  ultimately show
    "fr_reachable (aggregate run rows) =
       {(s, t). s \<in> reporters rows \<and> t \<in> set (participants run) \<and> t \<noteq> s \<and> saw rows s t}"
    "fr_failed (aggregate run rows) =
       {(s, t). s \<in> reporters rows \<and> t \<in> set (participants run) \<and> t \<noteq> s \<and> \<not> saw rows s t}"
    "fr_missing (aggregate run rows) = set (participants run) - reporters rows"
    by auto
qed

text \<open>C31. The verdict of a run is exact. Reachable are the edges from a host that reported to another
  participant that its last row saw; failed are all other edges from a host that reported to a
  participant, silent omissions included; missing are the participants that did not report. A run
  passes exactly if every participant reported and no reporter missed a participant; a host that
  is no participant but has a row counts as a reporter.\<close>

theorem aggregate_exact:
  "fr_reachable (aggregate run rows) =
     {(s, t). s \<in> reporters rows \<and> t \<in> set (participants run) \<and> t \<noteq> s \<and> saw rows s t}
   \<and> fr_failed (aggregate run rows) =
     {(s, t). s \<in> reporters rows \<and> t \<in> set (participants run) \<and> t \<noteq> s \<and> \<not> saw rows s t}
   \<and> fr_missing (aggregate run rows) = set (participants run) - reporters rows
   \<and> (passed (aggregate run rows) \<longleftrightarrow> set (participants run) \<subseteq> reporters rows \<and>
        {(s, t). s \<in> reporters rows \<and> t \<in> set (participants run) \<and> t \<noteq> s \<and> \<not> saw rows s t} = {})"
  unfolding passed_def aggregate_sets by blast

section \<open>Rows on the volume\<close>

lemma row_leaf_result: "result_leaf (row_leaf h) \<longleftrightarrow> h \<noteq> ''run''"
  by (auto simp: result_leaf_def row_leaf_def ends_with_def suffix_def)

lemma row_leaf_inj: "row_leaf g = row_leaf h \<longleftrightarrow> g = h"
  by (simp add: row_leaf_def)

lemma row_tmp_leaf: "''.'' @ g @ ''.json.tmp'' \<noteq> row_leaf h" "\<not> result_leaf (''.'' @ g @ ''.json.tmp'')"
proof -
  have "\<not> suffix ''.json'' (''.'' @ g @ ''.json.tmp'')" by (simp add: suffix_to_prefix)
  moreover have "suffix ''.json'' (row_leaf h)" by (simp add: row_leaf_def suffix_def)
  ultimately show "''.'' @ g @ ''.json.tmp'' \<noteq> row_leaf h" "\<not> result_leaf (''.'' @ g @ ''.json.tmp'')"
    by (auto simp: result_leaf_def ends_with_def)
qed

text \<open>A directory in which rows can be written: no staging file is left and no row's leaf is a
  directory.\<close>

definition rows_dir :: "'c dir \<Rightarrow> bool" where
  "rows_dir d \<longleftrightarrow> om_wf d \<and> (\<forall>h. om_get d (''.'' @ h @ ''.json.tmp'') = None \<and> om_get d (row_leaf h) \<noteq> Some Subdir)"

lemma rows_dir_empty: "rows_dir om_empty"
  by (simp add: rows_dir_def)

lemma write_row_dir:
  "rows_dir d \<Longrightarrow> write_row to_json row d = (Inr (), om_put (row_leaf (row_from row)) (Regular (to_json row)) d)"
  unfolding write_row_def by (rule write_leaf_alone) (simp_all add: rows_dir_def row_tmp_leaf [simplified])

lemma rows_dir_write: "rows_dir d \<Longrightarrow> rows_dir (snd (write_row to_json row d))"
  using row_tmp_leaf(1) by (auto simp: write_row_dir) (auto simp: rows_dir_def om_wf_put om_get_put)

definition write_rows :: "('f node_reachability \<Rightarrow> 'c) \<Rightarrow> 'f node_reachability list \<Rightarrow> 'c dir \<Rightarrow> 'c dir" where
  "write_rows to_json rows d = fold (\<lambda>row d. snd (write_row to_json row d)) rows d"

lemma write_rows_get:
  assumes "rows_dir d"
  shows "rows_dir (write_rows to_json rows d) \<and>
    om_get (write_rows to_json rows d) n =
      (case find (\<lambda>row. row_leaf (row_from row) = n) (rev rows) of
         Some row \<Rightarrow> Some (Regular (to_json row)) | None \<Rightarrow> om_get d n)"
  using assms
proof (induction rows rule: rev_induct)
  case (snoc row rows)
  then show ?case
    using rows_dir_write [of "write_rows to_json rows d" to_json row]
    by (simp add: write_rows_def write_row_dir om_get_put)
qed (simp add: write_rows_def)

lemma find_leaf:
  "find (\<lambda>row. row_leaf (row_from row) = row_leaf h) (rev rows) = last_with row_from h rows"
  by (simp add: last_with_def row_leaf_inj)

lemma last_with_unique:
  "inj_on f (set xs) \<Longrightarrow> last_with f k xs = Some x \<longleftrightarrow> x \<in> set xs \<and> f x = k"
  using last_with_None [of f k xs]
  by (cases "last_with f k xs") (auto dest!: last_with_Some dest: inj_onD)

lemma aggregate_same_set:
  assumes "set rows = set rows'" and "inj_on row_from (set rows)"
  shows "aggregate run rows = aggregate run rows'"
proof -
  have "last_with row_from h rows = last_with row_from h rows'" for h
    using last_with_unique [OF assms(2), of h] last_with_unique [OF assms(2) [unfolded assms(1)], of h] assms(1)
    by (metis option.exhaust)
  then have "saw rows = saw rows'" by (simp add: saw_def fun_eq_iff)
  then show ?thesis
    using aggregate_sets [of run rows] aggregate_sets [of run rows'] assms(1)
    by (cases "aggregate run rows"; cases "aggregate run rows'") (simp add: reporters_def)
qed

text \<open>A run closes when its rows are in. From a volume without rows, after every reporting host
  has written its row, in any order, a reader gets exactly these rows, in whatever order the
  directory lists them, and the verdict on what it read is the verdict on the rows; exactly the
  participants that wrote nothing still owe one. This needs that no host is called \<open>run\<close>.\<close>

theorem run_closes:
  assumes dir: "rows_dir d" and empty: "\<forall>n. result_leaf n \<longrightarrow> om_get d n = None"
    and dist: "distinct (map row_from rows)"
    and run: "''run'' \<notin> reporters rows" "''run'' \<notin> set (participants run)"
    and codec: "\<forall>row \<in> set rows. from_json (to_json row) = Some row \<and> len (to_json row) \<le> MAX_VALIDATION_ROW_BYTES"
    and listing: "mset entries = mset (write_rows to_json rows d)"
  shows "set (read_rows len from_json entries) = set rows
    \<and> aggregate run (read_rows len from_json entries) = aggregate run rows
    \<and> (\<forall>h. row_pending_for run h (write_rows to_json rows d) \<longleftrightarrow> h \<in> set (participants run) - reporters rows)"
proof -
  let ?d = "write_rows to_json rows d"
  note get = write_rows_get [OF dir, of to_json rows, THEN conjunct2]
  have wf: "om_wf ?d" using write_rows_get [OF dir, of to_json rows] by (simp add: rows_dir_def)
  have inj: "inj_on row_from (set rows)" using dist by (simp add: distinct_map)
  have leaf: "om_get ?d n = Some (Regular c) \<and> result_leaf n \<longleftrightarrow>
      (\<exists>row \<in> set rows. row_leaf (row_from row) = n \<and> to_json row = c)" for n c
  proof (cases "find (\<lambda>row. row_leaf (row_from row) = n) (rev rows)")
    case None
    with get [of n] empty show ?thesis by (auto simp: find_None_iff)
  next
    case (Some row)
    then have row: "row \<in> set rows" "row_leaf (row_from row) = n" by (auto dest: find_SomeD)
    then have "row_from row \<noteq> ''run''" using run(1) by (metis image_eqI reporters_def)
    then have res: "result_leaf n" using row(2) row_leaf_result by blast
    have uniq: "r = row" if "r \<in> set rows" "row_leaf (row_from r) = n" for r
    proof -
      have "row_leaf (row_from r) = row_leaf (row_from row)" using that row by simp
      then have "row_from r = row_from row" by (simp only: row_leaf_inj)
      then show ?thesis using inj_onD [OF inj] that row by blast
    qed
    have g: "om_get ?d n = Some (Regular (to_json row))" using get [of n] Some by simp
    show ?thesis unfolding g using res row uniq by blast
  qed
  have "row \<in> set (read_rows len from_json entries) \<longleftrightarrow>
      (\<exists>n c. (\<exists>row \<in> set rows. row_leaf (row_from row) = n \<and> to_json row = c) \<and>
         len c \<le> MAX_VALIDATION_ROW_BYTES \<and> from_json c = Some row)" for row
    unfolding read_rows_def read_leaves_set [OF wf listing] leaf [symmetric] by blast
  then have read: "row \<in> set (read_rows len from_json entries) \<longleftrightarrow> row \<in> set rows" for row
    using codec by (metis option.inject)
  have "row_pending_for run h ?d \<longleftrightarrow> h \<in> set (participants run) - reporters rows" for h
  proof (cases "h \<in> set (participants run)")
    case True
    then have "h \<noteq> ''run''" using run(2) by metis
    then have "om_get d (row_leaf h) = None" using empty row_leaf_result by blast
    then have "om_get ?d (row_leaf h) = None \<longleftrightarrow> last_with row_from h rows = None"
      using get [of "row_leaf h"] by (simp add: find_leaf split: option.splits)
    with True show ?thesis
      by (simp add: row_pending_for_def list_ex_iff last_with_None reporters_def)
  qed (simp add: row_pending_for_def list_ex_iff)
  moreover have "set (read_rows len from_json entries) = set rows" by (rule set_eqI) (rule read)
  moreover from this have "aggregate run (read_rows len from_json entries) = aggregate run rows"
    using inj by (intro aggregate_same_set) simp_all
  ultimately show ?thesis by blast
qed

theorem run_closes_witness:
  "aggregate \<lparr>run_id = ''r'', run_kind = RunNow, launched_by = ''a'', run_at = 1, participants = [''a'', ''b'']\<rparr>
     (read_rows (\<lambda>_. 0) Some (write_rows id
        [\<lparr>row_from = ''a'', row_at = 2, row_results =
            [\<lparr>pr_peer = ''b'', pr_overlay_ip = ''10.0.0.2'', pr_reachable = True, pr_rtt_ms = Some ()\<rparr>]\<rparr>] om_empty))
   = \<lparr>fr_reachable = {(''a'', ''b'')}, fr_failed = {}, fr_missing = {''b''}\<rparr>"
proof -
  let ?run = "\<lparr>run_id = ''r'', run_kind = RunNow, launched_by = ''a'', run_at = 1 :: u64, participants = [''a'', ''b'']\<rparr>"
  let ?rows = "[\<lparr>row_from = ''a'', row_at = 2 :: u64, row_results =
            [\<lparr>pr_peer = ''b'', pr_overlay_ip = ''10.0.0.2'', pr_reachable = True, pr_rtt_ms = Some ()\<rparr>]\<rparr>]"
  have "aggregate ?run (read_rows (\<lambda>_. 0) Some (write_rows id ?rows om_empty)) = aggregate ?run ?rows"
    using run_closes [of om_empty ?rows ?run Some id "\<lambda>_. 0" "write_rows id ?rows om_empty"]
    by (simp add: reporters_def rows_dir_empty)
  also have "aggregate ?run ?rows = \<lparr>fr_reachable = {(''a'', ''b'')}, fr_failed = {}, fr_missing = {''b''}\<rparr>"
    by code_simp
  finally show ?thesis .
qed

text \<open>A host called \<open>run\<close> writes its row over the run's manifest, and no reader sees the row.\<close>

lemma run_host_overwrites_manifest:
  assumes "rows_dir d" and "row_from row = ''run''"
  shows "om_get (write_rows to_json [row] d) ''run.json'' = Some (Regular (to_json row))"
    and "set (read_rows len from_json (write_rows to_json [row] d)) = set (read_rows len from_json d)"
proof -
  have w: "write_rows to_json [row] d = om_put ''run.json'' (Regular (to_json row)) d"
    using assms by (simp add: write_rows_def write_row_dir row_leaf_def)
  then show "om_get (write_rows to_json [row] d) ''run.json'' = Some (Regular (to_json row))"
    by (simp add: om_get_put)
  have "om_get (om_put ''run.json'' x d) n = Some y \<and> result_leaf n \<and> P \<longleftrightarrow>
      om_get d n = Some y \<and> result_leaf n \<and> P" for n x y P
    by (auto simp: result_leaf_def om_get_put)
  then show "set (read_rows len from_json (write_rows to_json [row] d)) = set (read_rows len from_json d)"
    using assms(1) by (simp add: w read_rows_def set_eq_iff read_leaves_set [OF _ refl] rows_dir_def om_wf_put)
qed

end
