(* ===== verification/FleetJobs.thy ===== *)
theory FleetJobs
  imports FleetRuns
begin

text \<open>
  The jobs engine's store and pure model (\<open>crates/mesh/magic-fleet/src/jobs.rs\<close>): the target
  selector, the confinement of playbook references, templates, runs and per-target results.  The
  paths of the standard library are modelled as on Unix.
\<close>

section \<open>Target selection\<close>

record target_selector =
  sel_tags :: "string list"
  sel_roles :: "string list"
  sel_peers :: "string list"

record candidate =
  cand_hostname :: string
  cand_role :: string
  cand_tags :: "string set"

definition selects :: "target_selector \<Rightarrow> candidate \<Rightarrow> bool" where
  "selects sel c =
     (list_ex (\<lambda>p. p = cand_hostname c) (sel_peers sel) \<or>
      list_ex (\<lambda>r. r = cand_role c) (sel_roles sel) \<or>
      list_ex (\<lambda>t. t \<in> cand_tags c) (sel_tags sel))"

definition resolve :: "target_selector \<Rightarrow> candidate list \<Rightarrow> string list" where
  "resolve sel cs = remdups_adj (sort (map cand_hostname (filter (selects sel) cs)))"

section \<open>Paths\<close>

datatype path_component = RootDir | CurDir | ParentDir | Normal string

definition is_absolute :: "string \<Rightarrow> bool" where
  "is_absolute p = starts_with p ''/''"

text \<open>\<open>Path::components\<close>: repeated separators and inner dots vanish, a leading dot stays.\<close>

definition path_component_of :: "string \<Rightarrow> path_component" where
  "path_component_of seg = (if seg = ''..'' then ParentDir else Normal seg)"

definition path_tail :: "string \<Rightarrow> path_component list" where
  "path_tail p =
     map path_component_of (filter (\<lambda>seg. seg \<noteq> [] \<and> seg \<noteq> ''.'') (split_on (CHR ''/'') p))"

definition path_components :: "string \<Rightarrow> path_component list" where
  "path_components p =
     (if is_absolute p then [RootDir]
      else if hd (split_on (CHR ''/'') p) = ''.'' then [CurDir] else []) @ path_tail p"

definition path_join :: "string \<Rightarrow> string \<Rightarrow> string" where
  "path_join base p =
     (if is_absolute p then p
      else if base = [] \<or> last base = CHR ''/'' then base @ p
      else base @ ''/'' @ p)"

section \<open>Playbook references\<close>

definition unsafe_component :: "path_component \<Rightarrow> bool" where
  "unsafe_component c = (case c of Normal _ \<Rightarrow> False | _ \<Rightarrow> True)"

definition normalize_playbook_ref :: "string \<Rightarrow> (string, string) result" where
  "normalize_playbook_ref raw0 =
     (let raw = trim raw0 in
      if raw = [] then Inl ''playbook reference is empty''
      else if is_absolute raw then Inl ''playbook reference must be relative''
      else
        let components = path_components raw in
        if components = [] \<or> list_ex unsafe_component components
        then Inl ''playbook reference contains unsafe path components''
        else
          let normalized = (if hd components = Normal ''playbooks'' then raw
                            else path_join ''playbooks'' raw)
          in if path_components normalized = path_components ''playbooks''
             then Inl ''playbook reference names the playbooks directory''
             else Inr normalized)"

definition resolve_playbook_path :: "string \<Rightarrow> string \<Rightarrow> (string, string) result" where
  "resolve_playbook_path root raw =
     bind_res (normalize_playbook_ref raw) (\<lambda>normalized. Inr (path_join root normalized))"

lemma split_on_join: "split_on c (a @ c # b) = split_on c a @ split_on c b"
  by (induction a) (auto split: list.splits)

lemma hd_split_on_append: "a \<noteq> [] \<Longrightarrow> hd (split_on c (a @ c # b)) = hd (split_on c a)"
  by (simp add: split_on_join)

lemma path_tail_join: "path_tail (a @ ''/'' @ b) = path_tail a @ path_tail b"
  by (simp add: path_tail_def split_on_join)

lemma is_absolute_Cons: "is_absolute (c # s) \<longleftrightarrow> c = CHR ''/''"
  by (auto simp: is_absolute_def starts_with_def)

lemma components_slash:
  assumes "b \<noteq> []"
  shows "path_components (b @ ''/'' @ p) = path_components b @ path_tail p"
proof -
  have "is_absolute (b @ ''/'' @ p) = is_absolute b"
    using assms by (cases b) (simp_all add: is_absolute_Cons)
  with assms hd_split_on_append [of b "CHR ''/''" p] path_tail_join [of b p]
  show ?thesis unfolding path_components_def by simp
qed

lemma components_tail:
  "\<not> is_absolute p \<Longrightarrow> hd (split_on (CHR ''/'') p) \<noteq> ''.'' \<Longrightarrow> path_components p = path_tail p"
  by (simp add: path_components_def)

lemma path_components_join:
  assumes "base \<noteq> []" and p: "\<not> is_absolute p" "hd (split_on (CHR ''/'') p) \<noteq> ''.''"
  shows "path_components (path_join base p) = path_components base @ path_components p"
proof (cases "last base = CHR ''/''")
  case True
  then obtain b where b: "base = b @ ''/'' @ []" using assms(1) by (metis append_butlast_last_id append_Nil2)
  show ?thesis
  proof (cases "b = []")
    case True
    with b p path_tail_join [of "[]" p] path_tail_join [of "[]" "[]"] show ?thesis
      by (simp add: path_join_def path_components_def is_absolute_Cons path_tail_def)
  next
    case False
    then have "path_components base = path_components b @ path_tail []"
      unfolding b by (rule components_slash)
    with b False p components_slash [OF False, of p] show ?thesis
      by (simp add: path_join_def components_tail path_tail_def)
  qed
next
  case False
  with assms components_slash [OF assms(1), of p] show ?thesis by (simp add: path_join_def components_tail)
qed

text \<open>A reference that is accepted is confined: it is the trimmed text, or that under
  \<open>playbooks\<close>.\<close>

lemma unsafe_components:
  "list_ex unsafe_component (path_components p) \<longleftrightarrow> \<not> (\<exists>ss. path_components p = map Normal ss)"
proof -
  have "unsafe_component c \<longleftrightarrow> \<not> (\<exists>s. c = Normal s)" for c
    by (cases c) (simp_all add: unsafe_component_def)
  then show ?thesis by (auto simp: ex_map_conv list_ex_iff)
qed

lemma ws_codes_no_path_chars: "list_all (\<lambda>w. CHR ''/'' \<notin> set w \<and> CHR ''p'' \<notin> set w) ws_codes"
  by code_simp

lemma playbooks_trimmed: "trimmed raw \<Longrightarrow> raw \<noteq> [] \<Longrightarrow> trimmed (''playbooks/'' @ raw)"
proof -
  assume t: "trimmed raw" "raw \<noteq> []"
  have ne: "CHR ''/'' \<notin> set w" "CHR ''p'' \<notin> set w" if "w \<in> set ws_codes" for w
    using that ws_codes_no_path_chars by (auto simp: list_all_iff)
  have "\<not> suffix w (''playbooks/'' @ raw)" if w: "w \<in> set ws_codes" "w \<noteq> []" for w
  proof
    assume "suffix w (''playbooks/'' @ raw)"
    then obtain ys where ys: "''playbooks/'' @ raw = ys @ w" by (auto simp: suffix_def)
    then obtain u where "''playbooks/'' = ys @ u \<and> u @ raw = w \<or> raw = u @ w"
      unfolding append_eq_append_conv2 by blast
    then consider "suffix w raw" | "w = u @ raw" "''playbooks/'' = ys @ u" "u \<noteq> []"
      by (metis append_Nil suffixI)
    then show False
    proof cases
      case 2
      then have "CHR ''/'' = last u" by (metis last_appendR last.simps list.distinct(1))
      then have "CHR ''/'' \<in> set w" using 2 by simp
      with ne(1) [OF w(1)] show False by simp
    qed (use t w in \<open>auto simp: trimmed_def\<close>)
  qed
  moreover have "\<not> prefix w (''playbooks/'' @ raw)" if "w \<in> set ws_codes" "w \<noteq> []" for w
    using ne(2) [OF that(1)] that(2) by (auto simp: neq_Nil_conv)
  ultimately show ?thesis by (simp add: trimmed_def)
qed

lemma playbooks_components: "path_components ''playbooks'' = [Normal ''playbooks'']"
  by code_simp

lemma components_no_lead:
  "path_components t = map Normal ss \<Longrightarrow> hd (split_on (CHR ''/'') t) \<noteq> ''.''"
  by (cases ss) (auto simp: path_components_def is_absolute_def starts_with_def split: if_splits)

lemma under_playbooks:
  assumes "\<not> is_absolute t" "path_components t = map Normal ss"
  shows "path_components (''playbooks/'' @ t) = Normal ''playbooks'' # map Normal ss"
  using path_components_join [of "''playbooks''" t, OF _ assms(1) components_no_lead [OF assms(2)]]
    assms by (simp add: path_join_def playbooks_components)

definition accepted_ref :: "string \<Rightarrow> string \<Rightarrow> bool" where
  "accepted_ref t n \<longleftrightarrow> \<not> is_absolute t \<and>
     (\<exists>s ss. path_components t = map Normal (s # ss) \<and>
        (if s = ''playbooks'' then n = t \<and> ss \<noteq> [] else n = ''playbooks/'' @ t))"

lemma normalize_accepts: "normalize_playbook_ref raw = Inr n \<longleftrightarrow> accepted_ref (trim raw) n"
proof -
  define t where "t = trim raw"
  have empty: "t = [] \<Longrightarrow> path_components t = []"
    by (simp add: path_components_def path_tail_def is_absolute_def starts_with_def)
  show ?thesis
  proof (cases "\<exists>s ss. \<not> is_absolute t \<and> path_components t = map Normal (s # ss)")
    case True
    then obtain s ss where c: "\<not> is_absolute t" "path_components t = map Normal (s # ss)" by blast
    have "t \<noteq> []" using c(2) empty by auto
    moreover have "\<not> list_ex unsafe_component (path_components t)" using unsafe_components c(2) by blast
    ultimately show ?thesis
      using c under_playbooks [OF c]
      by (auto simp: normalize_playbook_ref_def accepted_ref_def t_def [symmetric] Let_def
          playbooks_components path_join_def)
  next
    case False
    have "is_absolute t \<or> path_components t = [] \<or> list_ex unsafe_component (path_components t)"
    proof (rule ccontr)
      assume a: "\<not> ?thesis"
      then obtain ss where "path_components t = map Normal ss" using unsafe_components by blast
      with a False show False by (cases ss) auto
    qed
    then have "normalize_playbook_ref raw \<noteq> Inr n"
      by (auto simp: normalize_playbook_ref_def t_def [symmetric] Let_def)
    with False show ?thesis by (auto simp: accepted_ref_def t_def [symmetric])
  qed
qed

lemma accepted_again:
  assumes "accepted_ref t n" and "trimmed t"
  shows "accepted_ref n n \<and> trimmed n \<and> (\<exists>s ss. path_components n = map Normal (''playbooks'' # s # ss))"
proof -
  from assms(1) obtain s ss where t: "\<not> is_absolute t" "path_components t = map Normal (s # ss)"
    and n: "if s = ''playbooks'' then n = t \<and> ss \<noteq> [] else n = ''playbooks/'' @ t"
    by (auto simp: accepted_ref_def)
  have "t \<noteq> []" using t(2) by (auto simp: path_components_def path_tail_def is_absolute_def starts_with_def)
  obtain r rs where c: "path_components n = map Normal (''playbooks'' # r # rs)"
  proof (cases "s = ''playbooks''")
    case True
    with t n that show ?thesis by (cases ss) auto
  next
    case False
    with n under_playbooks [OF t] that [of s ss] show ?thesis by simp
  qed
  have "\<not> is_absolute n" using t(1) n by (auto simp: is_absolute_Cons split: if_splits)
  then have "accepted_ref n n"
    unfolding accepted_ref_def using c by (intro conjI exI [of _ "''playbooks''"] exI [of _ "r # rs"]) simp_all
  moreover have "trimmed n"
    using n assms(2) playbooks_trimmed [OF assms(2) \<open>t \<noteq> []\<close>] by (auto split: if_splits)
  ultimately show ?thesis using c by blast
qed


text \<open>Inner dot components are not refused: they vanish from the components and stay in the text.\<close>

lemma inner_dot_accepted: "normalize_playbook_ref ''site/./web.yml'' = Inr ''playbooks/site/./web.yml''"
  by code_simp

section \<open>Selection\<close>

text \<open>A job runs on exactly the candidates that are named, hold a listed role or carry a listed
  tag, each host once and in order; an empty selector selects none.\<close>

theorem resolve_exact:
  "set (resolve sel cs) = {cand_hostname c |c. c \<in> set cs \<and>
      (cand_hostname c \<in> set (sel_peers sel) \<or> cand_role c \<in> set (sel_roles sel)
       \<or> set (sel_tags sel) \<inter> cand_tags c \<noteq> {})}
   \<and> sorted_wrt (<) (resolve sel cs)
   \<and> resolve \<lparr>sel_tags = [], sel_roles = [], sel_peers = []\<rparr> cs = []"
proof -
  have "sorted (resolve sel cs)" "distinct (resolve sel cs)"
    by (simp_all add: resolve_def remdups_adj_sorted_distinct sorted_remdups_adj)
  then have "sorted_wrt (<) (resolve sel cs)" by (simp add: strict_sorted_iff)
  moreover have "filter (selects \<lparr>sel_tags = [], sel_roles = [], sel_peers = []\<rparr>) cs = []"
    by (simp add: filter_empty_conv selects_def)
  ultimately show ?thesis by (auto simp: resolve_def selects_def list_ex_iff)
qed

section \<open>Templates, runs and results\<close>

record job_template =
  tpl_id :: string
  tpl_description :: string
  tpl_playbook :: string
  tpl_vars :: "(string, string) omap"
  tpl_targets :: target_selector
  tpl_schedule :: "string option"

record job_run =
  jr_id :: string
  jr_playbook :: string
  jr_digest :: string
  jr_vars :: "(string, string) omap"
  jr_targets :: "string list"
  jr_launched_by :: string
  jr_at :: u64
  jr_execution_auth :: "(string, string) omap"

record target_result =
  tr_hostname :: string
  tr_status :: string
  tr_detail :: string

definition MAX_TEMPLATE_BYTES :: nat where
  "MAX_TEMPLATE_BYTES = 4 * 1024 * 1024"

definition MAX_RUN_BYTES :: nat where
  "MAX_RUN_BYTES = 4 * 1024 * 1024"

definition MAX_RESULT_BYTES :: nat where
  "MAX_RESULT_BYTES = 256 * 1024"

definition write_template :: "(job_template \<Rightarrow> 'c) \<Rightarrow> job_template \<Rightarrow> 'c dir \<Rightarrow> unit io \<times> 'c dir" where
  "write_template to_yaml t d =
     write_leaf (''.'' @ tpl_id t @ ''.yaml.tmp'') (tpl_id t @ ''.yaml'') (to_yaml t) d"

definition yaml_leaf :: "string \<Rightarrow> bool" where
  "yaml_leaf n =
     (n \<noteq> ''..'' \<and> (case split_once (CHR ''.'') (rev n) of
        None \<Rightarrow> False | Some (e, stem) \<Rightarrow> stem \<noteq> [] \<and> rev e = ''yaml''))"

definition read_templates ::
  "('c \<Rightarrow> nat) \<Rightarrow> ('c \<Rightarrow> job_template option) \<Rightarrow> (string \<times> 'c fs_node) list \<Rightarrow> job_template list" where
  "read_templates len from_yaml = read_leaves yaml_leaf len MAX_TEMPLATE_BYTES from_yaml tpl_id"

text \<open>The manifest and the results of one run lie in the run's directory.\<close>

definition write_run :: "(job_run \<Rightarrow> 'c) \<Rightarrow> job_run \<Rightarrow> 'c dir \<Rightarrow> unit io \<times> 'c dir" where
  "write_run to_json run d = fs_write ''run.json'' (to_json run) d"

definition read_run :: "('c \<Rightarrow> nat) \<Rightarrow> ('c \<Rightarrow> job_run option) \<Rightarrow> 'c dir \<Rightarrow> job_run option" where
  "read_run len from_json d = Option.bind (read_bounded len MAX_RUN_BYTES (om_get d ''run.json'')) from_json"

definition write_target_result :: "(target_result \<Rightarrow> 'c) \<Rightarrow> target_result \<Rightarrow> 'c dir \<Rightarrow> unit io \<times> 'c dir" where
  "write_target_result to_json r d = fs_write (row_leaf (tr_hostname r)) (to_json r) d"

definition read_target_results ::
  "('c \<Rightarrow> nat) \<Rightarrow> ('c \<Rightarrow> target_result option) \<Rightarrow> (string \<times> 'c fs_node) list \<Rightarrow> target_result list" where
  "read_target_results len from_json = read_leaves result_leaf len MAX_RESULT_BYTES from_json tr_hostname"

definition run_pending_for :: "job_run \<Rightarrow> string \<Rightarrow> 'c dir \<Rightarrow> bool" where
  "run_pending_for run self d =
     (list_ex (\<lambda>t. t = self) (jr_targets run) \<and> om_get d (row_leaf self) = None)"

text \<open>A target of a run is pending until it has written its result, which is then read with the
  others' and leaves the manifest and every other host's result as they were.\<close>

lemma result_settles_target:
  assumes wf: "om_wf d" and plain: "om_get d (row_leaf (tr_hostname r)) \<notin> {Some Subdir, Some Symlink}"
    and host: "tr_hostname r \<noteq> ''run''"
    and codec: "from_json (to_json r) = Some r" "len (to_json r) \<le> MAX_RESULT_BYTES"
  shows "\<exists>d'. write_target_result to_json r d = (Inr (), d')
    \<and> (\<forall>h. run_pending_for run h d' \<longleftrightarrow> run_pending_for run h d \<and> h \<noteq> tr_hostname r)
    \<and> read_run len from_run d' = read_run len from_run d
    \<and> r \<in> set (read_target_results len from_json d')"
proof -
  let ?d = "om_put (row_leaf (tr_hostname r)) (Regular (to_json r)) d"
  have "write_target_result to_json r d = (Inr (), ?d)"
    using plain by (auto simp: write_target_result_def fs_write_def split: option.splits fs_node.splits)
  moreover have "run_pending_for run h ?d \<longleftrightarrow> run_pending_for run h d \<and> h \<noteq> tr_hostname r" for h
    by (auto simp: run_pending_for_def om_get_put row_leaf_inj)
  moreover have "row_leaf (tr_hostname r) \<noteq> ''run.json''"
    using host row_leaf_result [of "tr_hostname r"] by (metis result_leaf_def)
  then have "read_run len from_run ?d = read_run len from_run d"
    by (simp add: read_run_def om_get_put)
  moreover have "r \<in> set (read_target_results len from_json ?d)"
    unfolding read_target_results_def read_leaves_set [OF om_wf_put [OF wf] refl]
    using codec host by (intro exI [of _ "row_leaf (tr_hostname r)"] exI [of _ "to_json r"])
      (simp add: om_get_put row_leaf_result)
  ultimately show ?thesis by blast
qed

end
