(* ===== verification/BearerLedger.thy ===== *)
theory BearerLedger
  imports FileStore HexText JsonValue
begin

text \<open>
  The ledger of enrolment bearers (\<open>crates/mesh/mackesd/src/bearer_ledger.rs\<close>): one sealed file per
  bearer that is issued and not yet redeemed, named by the digest of the bearer.  The digest, the
  base64 alphabet and the JSON text are arguments; a consumer is the two steps of \<open>consume\<close> that
  touch the directory, so that racing requests can be interleaved.
\<close>

section \<open>Entries\<close>

definition hash_hex :: "(string \<Rightarrow> u8 list) \<Rightarrow> string \<Rightarrow> string" where
  "hash_hex sha256 bearer = hex_of_bytes (sha256 bearer)"

definition ledger_leaf :: "(string \<Rightarrow> u8 list) \<Rightarrow> string \<Rightarrow> string" where
  "ledger_leaf sha256 bearer = hash_hex sha256 bearer @ ''.json''"

text \<open>\<open>write_atomic_sealed\<close>: the first free name of at most sixteen candidates is created, and
  renamed over the leaf.\<close>

definition write_atomic_sealed :: "string list \<Rightarrow> string \<Rightarrow> 'c \<Rightarrow> 'c dir \<Rightarrow> unit io \<times> 'c dir" where
  "write_atomic_sealed candidates leaf c d =
     (case find (\<lambda>t. om_get d t = None) (take 16 candidates) of
        None \<Rightarrow> (Inl (OtherIo ''tempfile collisions''), d)
      | Some t \<Rightarrow>
          (case fs_create_new t c d of
             (Inl e, d') \<Rightarrow> (Inl e, d')
           | (Inr _, d') \<Rightarrow>
               (case fs_rename t leaf d' of
                  (Inl e, d'') \<Rightarrow> (Inl e, snd (fs_remove_file t d''))
                | ok \<Rightarrow> ok)))"

definition issue_entry :: "u64 \<Rightarrow> string \<Rightarrow> json" where
  "issue_entry now_ms note = jobj [(''issued_at_ms'', JInt (uint now_ms)), (''note'', JStr note)]"

text \<open>\<open>random\<close> are the 32 bytes drawn; \<open>print\<close> is the text of a JSON value.\<close>

definition issue ::
  "(string \<Rightarrow> u8 list) \<Rightarrow> (u8 list \<Rightarrow> string) \<Rightarrow> (json \<Rightarrow> 'c) \<Rightarrow> u8 list \<Rightarrow> string list \<Rightarrow> u64 \<Rightarrow> string
    \<Rightarrow> 'c dir \<Rightarrow> string io \<times> 'c dir" where
  "issue sha256 base64 print random candidates now_ms note d =
     (let bearer = base64 random in
      case write_atomic_sealed candidates (ledger_leaf sha256 bearer) (print (issue_entry now_ms note)) d of
        (Inl e, d') \<Rightarrow> (Inl e, d')
      | (Inr _, d') \<Rightarrow> (Inr bearer, d'))"

definition record_issued ::
  "(string \<Rightarrow> u8 list) \<Rightarrow> (json \<Rightarrow> 'c) \<Rightarrow> string list \<Rightarrow> string \<Rightarrow> 'c dir \<Rightarrow> unit io \<times> 'c dir" where
  "record_issued sha256 print candidates bearer d =
     write_atomic_sealed candidates (ledger_leaf sha256 bearer)
       (print (jobj [(''issued_at_ms'', JInt 0), (''note'', JStr ''recorded'')])) d"

definition is_pending :: "(string \<Rightarrow> u8 list) \<Rightarrow> string \<Rightarrow> 'c dir \<Rightarrow> bool" where
  "is_pending sha256 bearer d = is_regular (om_get d (ledger_leaf sha256 bearer))"

definition LIGHTHOUSE_ROLE_NOTE :: string where
  "LIGHTHOUSE_ROLE_NOTE = ''role:lighthouse''"

text \<open>\<open>parse\<close> reads the text of a file, where it is UTF-8 and JSON.\<close>

definition is_lighthouse_bearer ::
  "(string \<Rightarrow> u8 list) \<Rightarrow> ('c \<Rightarrow> json option) \<Rightarrow> string \<Rightarrow> 'c dir \<Rightarrow> bool" where
  "is_lighthouse_bearer sha256 parse bearer d =
     (case om_get d (ledger_leaf sha256 bearer) of
        Some (Regular c) \<Rightarrow>
          (case Option.bind (parse c) (\<lambda>v. Option.bind (jget v ''note'') as_str) of
             None \<Rightarrow> False
           | Some note \<Rightarrow> contains_str note LIGHTHOUSE_ROLE_NOTE)
      | _ \<Rightarrow> False)"

section \<open>Consumption\<close>

datatype consume_phase = Asking | Seen | Answered bool

record consumer =
  c_bearer :: string
  c_phase :: consume_phase

definition consume_step :: "(string \<Rightarrow> u8 list) \<Rightarrow> consumer \<Rightarrow> 'c dir \<Rightarrow> consumer \<times> 'c dir" where
  "consume_step sha256 w d =
     (let leaf = ledger_leaf sha256 (c_bearer w) in
      case c_phase w of
        Asking \<Rightarrow>
          if is_regular (om_get d leaf) then (w\<lparr>c_phase := Seen\<rparr>, d)
          else (w\<lparr>c_phase := Answered False\<rparr>, d)
      | Seen \<Rightarrow>
          (case fs_remove_file leaf d of (res, d') \<Rightarrow> (w\<lparr>c_phase := Answered (res = Inr ())\<rparr>, d'))
      | Answered _ \<Rightarrow> (w, d))"

definition consume :: "(string \<Rightarrow> u8 list) \<Rightarrow> string \<Rightarrow> 'c dir \<Rightarrow> bool \<times> 'c dir" where
  "consume sha256 bearer d =
     (case sched (consume_step sha256) [0, 0] (d, [\<lparr>c_bearer = bearer, c_phase = Asking\<rparr>]) of
        (d', ws) \<Rightarrow> (c_phase (hd ws) = Answered True, d'))"

definition redeem :: "(string \<Rightarrow> u8 list) \<Rightarrow> string \<Rightarrow> 'c dir \<Rightarrow> bool \<times> 'c dir" where
  "redeem = consume"

section \<open>One winner\<close>

definition wins :: "(string \<Rightarrow> u8 list) \<Rightarrow> string \<Rightarrow> consumer list \<Rightarrow> nat" where
  "wins sha256 leaf ws =
     length (filter (\<lambda>w. ledger_leaf sha256 (c_bearer w) = leaf \<and> c_phase w = Answered True) ws)"

definition consumer_ok :: "(string \<Rightarrow> u8 list) \<Rightarrow> 'c dir \<Rightarrow> 'c dir \<Rightarrow> consumer \<Rightarrow> bool" where
  "consumer_ok sha256 d0 d w =
     (let leaf = ledger_leaf sha256 (c_bearer w) in
      case c_phase w of
        Asking \<Rightarrow> True
      | Seen \<Rightarrow> is_regular (om_get d0 leaf)
      | Answered b \<Rightarrow> \<not> is_regular (om_get d leaf) \<and> (b \<longrightarrow> is_regular (om_get d0 leaf)))"

definition ledger_inv ::
  "(string \<Rightarrow> u8 list) \<Rightarrow> 'c dir \<Rightarrow> consumer list \<Rightarrow> 'c dir \<Rightarrow> consumer list \<Rightarrow> bool" where
  "ledger_inv sha256 d0 ws0 d ws \<longleftrightarrow>
     map c_bearer ws = map c_bearer ws0 \<and>
     (\<forall>n. om_get d n = om_get d0 n \<or> om_get d n = None \<and> is_regular (om_get d0 n)) \<and>
     (\<forall>w \<in> set ws. consumer_ok sha256 d0 d w) \<and>
     (\<forall>n. wins sha256 n ws = (if om_get d n = None \<and> om_get d0 n \<noteq> None then 1 else 0))"

lemma is_regular_Some: "is_regular n \<longleftrightarrow> (\<exists>c. n = Some (Regular c))"
  by (auto simp: is_regular_def split: option.splits fs_node.splits)

text \<open>A step changes nothing, or it removes the entry and answers that it won.\<close>

lemma consume_step_effect:
  assumes ok: "consumer_ok sha256 d0 d w"
    and same: "om_get d leaf = om_get d0 leaf \<or> om_get d leaf = None \<and> is_regular (om_get d0 leaf)"
    and leaf: "leaf = ledger_leaf sha256 (c_bearer w)"
    and step: "consume_step sha256 w d = (w', d')"
  shows "c_bearer w' = c_bearer w \<and> consumer_ok sha256 d0 d' w' \<and>
    (d' = d \<and> (c_phase w' = Answered True \<longleftrightarrow> c_phase w = Answered True)
     \<or> d' = om_del leaf d \<and> is_regular (om_get d leaf) \<and> c_phase w \<noteq> Answered True \<and> c_phase w' = Answered True)"
  using assms
  by (cases "c_phase w"; cases "om_get d leaf")
    (auto simp: consume_step_def consumer_ok_def Let_def fs_remove_file_def is_regular_Some om_get_del
      split: if_splits fs_node.splits option.splits)

lemma ledger_inv_step:
  assumes inv: "ledger_inv sha256 d0 ws0 d ws" and i: "i < length ws"
    and step: "consume_step sha256 (ws ! i) d = (w', d')"
  shows "ledger_inv sha256 d0 ws0 d' (ws[i := w'])"
proof -
  let ?w = "ws ! i" and ?leaf = "ledger_leaf sha256 (c_bearer (ws ! i))"
  have bearers: "map c_bearer ws = map c_bearer ws0"
    and same: "\<And>n. om_get d n = om_get d0 n \<or> om_get d n = None \<and> is_regular (om_get d0 n)"
    and ok: "\<And>w. w \<in> set ws \<Longrightarrow> consumer_ok sha256 d0 d w"
    and win: "\<And>n. wins sha256 n ws = (if om_get d n = None \<and> om_get d0 n \<noteq> None then 1 else 0)"
    using inv by (auto simp: ledger_inv_def)
  note eff = consume_step_effect [OF ok [OF nth_mem [OF i]] same refl step]
  have bearers': "map c_bearer (ws[i := w']) = map c_bearer ws0"
    using eff bearers i by (metis list_update_id map_update)
  have count: "wins sha256 n (ws[i := w']) + (if ?leaf = n \<and> c_phase ?w = Answered True then 1 else 0)
      = wins sha256 n ws + (if ?leaf = n \<and> c_phase w' = Answered True then 1 else 0)" for n
    using filter_update [OF i, of "\<lambda>w. ledger_leaf sha256 (c_bearer w) = n \<and> c_phase w = Answered True" w'] eff
    by (simp add: wins_def)
  have members: "w = w' \<or> w \<in> set ws" if "w \<in> set (ws[i := w'])" for w
    using that set_update_subset_insert [of ws i w'] by blast
  from eff consider "d' = d" "c_phase w' = Answered True \<longleftrightarrow> c_phase ?w = Answered True"
    | "d' = om_del ?leaf d" "is_regular (om_get d ?leaf)" "c_phase ?w \<noteq> Answered True" "c_phase w' = Answered True"
    by blast
  then show ?thesis
  proof cases
    case 1
    then have "wins sha256 n (ws[i := w']) = wins sha256 n ws" for n using count [of n] by simp
    with 1 bearers' same ok win eff members show ?thesis by (auto simp: ledger_inv_def)
  next
    case 2
    have reg: "is_regular (om_get d0 ?leaf)" using same [of ?leaf] 2(2) by (auto simp: is_regular_Some)
    have oks: "consumer_ok sha256 d0 d' w" if "w \<in> set ws" for w
      using ok [OF that] 2(1) by (auto simp: consumer_ok_def Let_def om_get_del is_regular_Some split: consume_phase.splits)
    have "wins sha256 n (ws[i := w']) = (if om_get d' n = None \<and> om_get d0 n \<noteq> None then 1 else 0)" for n
      using count [of n] win [of n] 2 reg by (cases "?leaf = n") (auto simp: om_get_del is_regular_Some)
    moreover have "om_get d' n = om_get d0 n \<or> om_get d' n = None \<and> is_regular (om_get d0 n)" for n
      using same [of n] reg 2(1) by (auto simp: om_get_del)
    ultimately show ?thesis using bearers' oks eff members unfolding ledger_inv_def by blast
  qed
qed

interpretation ledger: interleaved "consume_step sha256" "ledger_inv sha256 d0 ws0" for sha256 d0 ws0
  by unfold_locales (rule ledger_inv_step)

text \<open>C5. A bearer is redeemed at most once, however the requests race: along any interleaving of
  consumers, at most one of those that present a bearer is told that it won, and only where the
  bearer was issued and unredeemed before and is not afterwards; once all of them have their
  answer, exactly one of them has won if there was an entry to win. Nothing else in the ledger
  changes.\<close>

theorem bearer_is_single_use:
  assumes start: "\<forall>w \<in> set ws0. c_phase w = Asking"
    and run: "sched (consume_step sha256) ks (d0, ws0) = (d, ws)"
    and leaf: "leaf = ledger_leaf sha256 bearer"
  shows "wins sha256 leaf ws =
      (if is_pending sha256 bearer d0 \<and> om_get d leaf = None then 1 else 0)
    \<and> (is_pending sha256 bearer d0 \<and> (\<exists>w \<in> set ws. c_bearer w = bearer)
        \<and> (\<forall>w \<in> set ws. c_bearer w = bearer \<longrightarrow> (\<exists>b. c_phase w = Answered b)) \<longrightarrow> wins sha256 leaf ws = 1)
    \<and> (wins sha256 leaf ws = 0 \<longrightarrow> om_get d leaf = om_get d0 leaf)
    \<and> map c_bearer ws = map c_bearer ws0"
proof -
  have "wins sha256 n ws0 = 0" for n using start by (auto simp: wins_def filter_empty_conv)
  then have "ledger_inv sha256 d0 ws0 d0 ws0"
    using start by (auto simp: ledger_inv_def consumer_ok_def)
  then have inv: "ledger_inv sha256 d0 ws0 d ws" using run by (rule ledger.sched_keeps)
  then have same: "om_get d leaf = om_get d0 leaf \<or> om_get d leaf = None \<and> is_regular (om_get d0 leaf)"
    and win: "wins sha256 leaf ws = (if om_get d leaf = None \<and> om_get d0 leaf \<noteq> None then 1 else 0)"
    and bearers: "map c_bearer ws = map c_bearer ws0"
    by (auto simp: ledger_inv_def)
  have gone: "\<not> is_regular (om_get d leaf)" if "w \<in> set ws" "c_bearer w = bearer" "c_phase w = Answered b" for w b
    using inv that by (auto simp: ledger_inv_def consumer_ok_def leaf)
  show ?thesis
    using same win gone bearers
    by (auto simp: is_pending_def leaf [symmetric] is_regular_Some split: if_splits) blast
qed

text \<open>A stand-in for the digest, to run the ledger on concrete bearers.\<close>

definition toy_digest :: "string \<Rightarrow> u8 list" where
  "toy_digest s = map (\<lambda>c. of_nat (of_char c)) s"

theorem bearer_is_single_use_witness:
  "\<exists>d ws. sched (consume_step toy_digest) [0, 1, 2, 1, 0, 2]
       ([(ledger_leaf toy_digest ''k'', Regular ())],
        [\<lparr>c_bearer = ''k'', c_phase = Asking\<rparr>, \<lparr>c_bearer = ''k'', c_phase = Asking\<rparr>,
         \<lparr>c_bearer = ''z'', c_phase = Asking\<rparr>]) = (d, ws)
     \<and> wins toy_digest (ledger_leaf toy_digest ''k'') ws = 1 \<and> d = []"
proof -
  let ?ws = "[\<lparr>c_bearer = ''k'', c_phase = Asking\<rparr>, \<lparr>c_bearer = ''k'', c_phase = Asking\<rparr>,
         \<lparr>c_bearer = ''z'', c_phase = Asking\<rparr>]"
  let ?d = "[(ledger_leaf toy_digest ''k'', Regular ())]"
  obtain d ws where run: "sched (consume_step toy_digest) [0, 1, 2, 1, 0, 2] (?d, ?ws) = (d, ws)"
    by fastforce
  have neq: "ledger_leaf toy_digest ''z'' \<noteq> ledger_leaf toy_digest ''k''" by code_simp
  have d: "d = []"
    using run neq by (simp add: consume_step_def Let_def is_regular_def fs_remove_file_def om_get_def om_del_def)
  have "is_pending toy_digest ''k'' ?d" by (simp add: is_pending_def is_regular_def om_get_def)
  then have "wins toy_digest (ledger_leaf toy_digest ''k'') ws = 1"
    using bearer_is_single_use [OF _ run refl, of "''k''"] by (simp add: d om_get_def)
  with run d show ?thesis by blast
qed

section \<open>The life of a bearer\<close>

lemma write_atomic_sealed_free:
  assumes wf: "om_wf d" and t: "t \<in> set (take 16 candidates)" "om_get d t = None"
    and leaf: "om_get d leaf \<noteq> Some Subdir" "leaf \<notin> set candidates"
  shows "write_atomic_sealed candidates leaf c d = (Inr (), om_put leaf (Regular c) d)"
proof -
  obtain u where u: "find (\<lambda>t. om_get d t = None) (take 16 candidates) = Some u"
    using t by (cases "find (\<lambda>t. om_get d t = None) (take 16 candidates)") (auto simp: find_None_iff)
  then have free: "om_get d u = None" and ne: "u \<noteq> leaf"
    using leaf(2) by (auto dest!: find_SomeD dest: in_set_takeD)
  have "om_put leaf x (om_del u (om_put u x d)) = om_put leaf x d" for x
    using omd.rename_install [OF wf ne] omd.del_put [OF wf free] by simp
  with u free ne leaf(1) show ?thesis
    by (auto simp: write_atomic_sealed_def fs_create_new_def fs_rename_def om_get_put)
qed

lemma consume_alone:
  "consume sha256 bearer d =
     (if is_pending sha256 bearer d then (True, om_del (ledger_leaf sha256 bearer) d) else (False, d))"
  by (cases "om_get d (ledger_leaf sha256 bearer)")
    (auto simp: consume_def consume_step_def Let_def is_pending_def is_regular_def fs_remove_file_def
      split: fs_node.splits)

text \<open>The life of a bearer: once issued it is pending and carries the lighthouse scope exactly if its
  note names it; the first redemption succeeds, after which it is neither pending nor scoped and
  every further redemption fails; bearers with another digest are not touched by any of this, and
  the ledger holds no more than the digest and the note of a bearer.\<close>

theorem bearer_life:
  assumes wf: "om_wf d" and room: "t \<in> set (take 16 candidates)" "om_get d t = None"
    and names: "om_get d leaf \<noteq> Some Subdir" "leaf \<notin> set candidates"
    and leaf: "leaf = ledger_leaf sha256 (base64 random)"
    and jtext: "\<And>j. parse (print j) = Some j"
  shows "\<exists>d'. issue sha256 base64 print random candidates now_ms note d = (Inr (base64 random), d')
    \<and> is_pending sha256 (base64 random) d'
    \<and> (is_lighthouse_bearer sha256 parse (base64 random) d' \<longleftrightarrow> contains_str note LIGHTHOUSE_ROLE_NOTE)
    \<and> (\<exists>d''. redeem sha256 (base64 random) d' = (True, d'') \<and> redeem sha256 (base64 random) d'' = (False, d'')
        \<and> \<not> is_pending sha256 (base64 random) d'' \<and> \<not> is_lighthouse_bearer sha256 parse (base64 random) d''
        \<and> (\<forall>b. sha256 b \<noteq> sha256 (base64 random) \<longrightarrow>
             om_get d'' (ledger_leaf sha256 b) = om_get d (ledger_leaf sha256 b)))"
proof -
  let ?d = "om_put leaf (Regular (print (issue_entry now_ms note))) d"
  have "ledger_leaf sha256 b \<noteq> leaf" if "sha256 b \<noteq> sha256 (base64 random)" for b
    using that bytes_of_hex_of_bytes by (metis append_same_eq hash_hex_def leaf ledger_leaf_def option.inject)
  moreover have "issue sha256 base64 print random candidates now_ms note d = (Inr (base64 random), ?d)"
    using write_atomic_sealed_free [OF wf room names] by (simp add: issue_def leaf Let_def)
  moreover have "is_pending sha256 (base64 random) ?d"
    by (simp add: is_pending_def leaf om_get_put is_regular_def)
  moreover have "is_lighthouse_bearer sha256 parse (base64 random) ?d \<longleftrightarrow> contains_str note LIGHTHOUSE_ROLE_NOTE"
    by (simp add: is_lighthouse_bearer_def leaf [symmetric] om_get_put jtext issue_entry_def json_simps)
  ultimately show ?thesis
    by (auto simp: redeem_def consume_alone is_pending_def is_lighthouse_bearer_def leaf [symmetric]
        om_get_put om_get_del is_regular_def)
qed

theorem bearer_life_witness:
  "fst (redeem toy_digest ''tok'' (snd (issue toy_digest (\<lambda>_. ''tok'') id [] [''.t''] 5 ''add-peer role:lighthouse'' om_empty)))"
proof -
  have neq: "ledger_leaf toy_digest ''tok'' \<notin> set [''.t'']" by code_simp
  have "\<exists>d' d''. issue toy_digest (\<lambda>_. ''tok'') id [] [''.t''] 5 ''add-peer role:lighthouse'' om_empty = (Inr ''tok'', d')
      \<and> redeem toy_digest ''tok'' d' = (True, d'')"
    using bearer_life [of om_empty "''.t''" "[''.t'']" "ledger_leaf toy_digest ''tok''" toy_digest "\<lambda>_. ''tok''"
        "[]" Some id 5 "''add-peer role:lighthouse''"] neq
    by (simp, blast)
  then show ?thesis by auto
qed

end
