(* ===== verification/LifecycleContract.thy ===== *)
theory LifecycleContract
  imports HexText
begin

text \<open>
  The public contract of seat lifecycle messages (\<open>crates/mesh/mackes-mesh-types/src/lifecycle.rs\<close>):
  the message records, their admission, the readiness derived from checks, the bytes that are
  signed, and the correction plan with its ordering check.  The digest and the signature scheme
  are arguments.
\<close>

section \<open>Common admission\<close>

datatype intent_error =
    PayloadTooLarge
  | UnsupportedSchema u16
  | InvalidField string
  | InvalidNumber string

type_synonym admission = "(intent_error, unit) result"

definition LIFECYCLE_CONTRACT_SCHEMA_VERSION :: u16 where
  "LIFECYCLE_CONTRACT_SCHEMA_VERSION = 1"

definition MAX_LIFECYCLE_IDENTIFIER_BYTES :: nat where
  "MAX_LIFECYCLE_IDENTIFIER_BYTES = 128"

definition MAX_LIFECYCLE_COLLECTION_ITEMS :: nat where
  "MAX_LIFECYCLE_COLLECTION_ITEMS = 256"

definition MAX_LIFECYCLE_INTENT_BYTES :: nat where
  "MAX_LIFECYCLE_INTENT_BYTES = 64 * 1024"

text \<open>\<open>from_slice\<close> is the JSON reader of the message type.\<close>

definition decode_bounded :: "(string \<Rightarrow> 'a option) \<Rightarrow> string \<Rightarrow> (intent_error, 'a) result" where
  "decode_bounded from_slice payload =
     (if length payload > MAX_LIFECYCLE_INTENT_BYTES then Inl PayloadTooLarge
      else case from_slice payload of None \<Rightarrow> Inl (InvalidField ''payload'') | Some v \<Rightarrow> Inr v)"

definition ident_char :: "char \<Rightarrow> bool" where
  "ident_char c = (is_ascii_alnum c \<or> c \<in> {CHR ''-'', CHR ''_'', CHR ''.'', CHR '':''})"

definition is_identifier :: "string \<Rightarrow> bool" where
  "is_identifier v = (v \<noteq> [] \<and> length v \<le> MAX_LIFECYCLE_IDENTIFIER_BYTES \<and> list_all ident_char v)"

fun check_fields :: "(string \<times> string) list \<Rightarrow> admission" where
  "check_fields [] = Inr ()"
| "check_fields ((field, value) # rest) =
     (if value = [] \<or> length value > MAX_LIFECYCLE_IDENTIFIER_BYTES \<or> \<not> list_all ident_char value
      then Inl (InvalidField field) else check_fields rest)"

definition validate_common :: "u16 \<Rightarrow> u64 \<Rightarrow> (string \<times> string) list \<Rightarrow> admission" where
  "validate_common schema gen fields =
     (if schema \<noteq> LIFECYCLE_CONTRACT_SCHEMA_VERSION then Inl (UnsupportedSchema schema)
      else bind_res (check_fields fields) (\<lambda>_.
        if gen = 0 then Inl (InvalidNumber ''generation'') else Inr ()))"

definition hex_of_length :: "nat \<Rightarrow> string \<Rightarrow> bool" where
  "hex_of_length n s = (length s = n \<and> list_all is_ascii_hexdigit s)"

lemma check_fields_Inr: "check_fields fs = Inr u \<longleftrightarrow> list_all (\<lambda>(_, v). is_identifier v) fs"
  by (induction fs rule: check_fields.induct) (auto simp: is_identifier_def not_less)

lemma validate_common_Inr:
  "validate_common schema gen fs = Inr u \<longleftrightarrow>
     schema = LIFECYCLE_CONTRACT_SCHEMA_VERSION \<and> list_all (\<lambda>(_, v). is_identifier v) fs \<and> gen \<noteq> 0"
  by (auto simp: validate_common_def bind_res_Inr check_fields_Inr)

section \<open>Steps and intents\<close>

datatype step_kind =
  Identity | Packages | Configuration | Mesh | Compute | Ui | Hardware | Verify | Offboard

datatype intent_kind = Onboard | Upgrade | VerifyAndCorrect | OffboardIntent | ResetAndOnboard

fun step_as_str :: "step_kind \<Rightarrow> string" where
  "step_as_str Identity = ''identity''"
| "step_as_str Packages = ''packages''"
| "step_as_str Configuration = ''configuration''"
| "step_as_str Mesh = ''mesh''"
| "step_as_str Compute = ''compute''"
| "step_as_str Ui = ''ui''"
| "step_as_str Hardware = ''hardware''"
| "step_as_str Verify = ''verify''"
| "step_as_str Offboard = ''offboard''"

definition step_parse :: "string \<Rightarrow> step_kind option" where
  "step_parse v =
     (if v = ''identity'' then Some Identity
      else if v = ''packages'' then Some Packages
      else if v = ''configuration'' then Some Configuration
      else if v = ''mesh'' then Some Mesh
      else if v = ''compute'' then Some Compute
      else if v = ''ui'' then Some Ui
      else if v = ''hardware'' then Some Hardware
      else if v = ''verify'' then Some Verify
      else if v = ''offboard'' then Some Offboard
      else None)"

lemma step_parse_iff: "step_parse v = Some k \<longleftrightarrow> v = step_as_str k"
  by (cases k) (auto simp: step_parse_def)

record lifecycle_intent =
  li_schema :: u16
  li_request :: string
  li_target :: string
  li_intent :: intent_kind
  li_generation :: u64

fun steps_of :: "intent_kind \<Rightarrow> step_kind list" where
  "steps_of Onboard = [Identity, Packages, Configuration, Mesh, Compute, Ui, Hardware, Verify]"
| "steps_of ResetAndOnboard =
     [Offboard, Identity, Packages, Configuration, Mesh, Compute, Ui, Hardware, Verify]"
| "steps_of Upgrade = [Packages, Configuration, Verify]"
| "steps_of VerifyAndCorrect = [Verify, Configuration, Mesh, Verify]"
| "steps_of OffboardIntent = [Offboard, Verify]"

definition default_steps :: "lifecycle_intent \<Rightarrow> string list" where
  "default_steps i = map step_as_str (steps_of (li_intent i))"

definition intent_validate :: "lifecycle_intent \<Rightarrow> admission" where
  "intent_validate i =
     (if li_schema i \<noteq> LIFECYCLE_CONTRACT_SCHEMA_VERSION then Inl (UnsupportedSchema (li_schema i))
      else bind_res (check_fields [(''request_id'', li_request i), (''target_id'', li_target i)]) (\<lambda>_.
        if li_generation i = 0 then Inl (InvalidNumber ''generation'') else Inr ()))"

definition intent_from_json ::
  "(string \<Rightarrow> lifecycle_intent option) \<Rightarrow> string \<Rightarrow> (intent_error, lifecycle_intent) result" where
  "intent_from_json from_slice body =
     (if length body > MAX_LIFECYCLE_INTENT_BYTES then Inl PayloadTooLarge
      else bind_res (decode_bounded from_slice body) (\<lambda>i. bind_res (intent_validate i) (\<lambda>_. Inr i)))"

record lifecycle_plan =
  lp_schema :: u16
  lp_request :: string
  lp_target :: string
  lp_intent :: intent_kind
  lp_generation :: u64
  lp_steps :: "string list"

definition plan_validate :: "lifecycle_plan \<Rightarrow> admission" where
  "plan_validate p =
     bind_res (validate_common (lp_schema p) (lp_generation p)
       [(''request_id'', lp_request p), (''target_id'', lp_target p)]) (\<lambda>_.
     if lp_steps p = [] \<or> length (lp_steps p) > 256
        \<or> list_ex (\<lambda>s. s = [] \<or> length s > MAX_LIFECYCLE_IDENTIFIER_BYTES \<or> step_parse s = None) (lp_steps p)
     then Inl (InvalidField ''steps'') else Inr ())"

text \<open>The plan of an intent, with its default steps.\<close>

definition plan_of :: "lifecycle_intent \<Rightarrow> lifecycle_plan" where
  "plan_of i = \<lparr>lp_schema = li_schema i, lp_request = li_request i, lp_target = li_target i,
     lp_intent = li_intent i, lp_generation = li_generation i, lp_steps = default_steps i\<rparr>"

text \<open>Every admitted intent expands into an admissible plan: the default steps parse back to the
  steps of the intent, the last is the verification, and nothing is installed before an existing
  seat is offboarded; the plan is admitted exactly when the intent is, with the same error.\<close>

theorem admitted_intents_have_plans:
  "plan_validate (plan_of i) = intent_validate i
   \<and> map step_parse (default_steps i) = map Some (steps_of (li_intent i))
   \<and> last (steps_of (li_intent i)) = Verify
   \<and> Offboard \<notin> set (tl (steps_of (li_intent i)))
   \<and> (\<forall>v k. step_parse v = Some k \<longleftrightarrow> v = step_as_str k)"
proof -
  have parse: "step_parse (step_as_str k) = Some k" for k by (simp add: step_parse_iff)
  have str: "step_as_str k \<noteq> [] \<and> length (step_as_str k) \<le> 128" for k by (cases k) simp_all
  have "\<not> list_ex (\<lambda>s. s = [] \<or> length s > MAX_LIFECYCLE_IDENTIFIER_BYTES \<or> step_parse s = None) (default_steps i)"
    using parse str by (auto simp: default_steps_def list_ex_iff MAX_LIFECYCLE_IDENTIFIER_BYTES_def not_less)
  moreover have "default_steps i \<noteq> [] \<and> length (default_steps i) \<le> 256"
    by (cases "li_intent i") (simp_all add: default_steps_def)
  ultimately have "plan_validate (plan_of i) = intent_validate i"
    by (cases "check_fields [(''request_id'', li_request i), (''target_id'', li_target i)]")
      (auto simp: plan_validate_def plan_of_def intent_validate_def validate_common_def)
  moreover have "map step_parse (default_steps i) = map Some (steps_of (li_intent i))"
    by (simp add: default_steps_def parse)
  moreover have "last (steps_of (li_intent i)) = Verify" "Offboard \<notin> set (tl (steps_of (li_intent i)))"
    by (cases "li_intent i"; simp)+
  ultimately show ?thesis by (simp add: step_parse_iff)
qed

section \<open>Upgrades\<close>

record upgrade_binding =
  ub_schema :: u16
  ub_target :: string
  ub_current_version :: string
  ub_target_version :: string
  ub_digest :: string
  ub_source :: string
  ub_generation :: u64

definition parse_version :: "string \<Rightarrow> u64 list option" where
  "parse_version v =
     (case split_on (CHR ''.'') v of
        [a, b, c] \<Rightarrow>
          Option.bind (parse_word a) (\<lambda>x. Option.bind (parse_word b) (\<lambda>y.
            map_option (\<lambda>z. [x, y, z]) (parse_word c)))
      | _ \<Rightarrow> None)"

definition upgrade_validate :: "upgrade_binding \<Rightarrow> admission" where
  "upgrade_validate u =
     bind_res (validate_common (ub_schema u) (ub_generation u)
       [(''target_id'', ub_target u), (''current_version'', ub_current_version u),
        (''target_version'', ub_target_version u), (''source_revision'', ub_source u)]) (\<lambda>_.
     case parse_version (ub_current_version u) of
       None \<Rightarrow> Inl (InvalidField ''current_version'')
     | Some current \<Rightarrow>
         (case parse_version (ub_target_version u) of
            None \<Rightarrow> Inl (InvalidField ''target_version'')
          | Some target \<Rightarrow>
              if target \<le> current \<or> \<not> hex_of_length 64 (ub_digest u)
              then Inl (InvalidField ''upgrade_binding'') else Inr ()))"

definition show_version :: "u64 \<Rightarrow> u64 \<Rightarrow> u64 \<Rightarrow> string" where
  "show_version a b c = join_with ''.'' (map (\<lambda>w. show_nat (unat w)) [a, b, c])"

lemma parse_show_version: "parse_version (show_version a b c) = Some [a, b, c]"
proof -
  have "CHR ''.'' \<notin> set (show_nat n)" for n by (rule show_nat_no) (simp add: is_ascii_digit_of_char)
  then have "split_on (CHR ''.'') (show_version a b c) = [show_nat (unat a), show_nat (unat b), show_nat (unat c)]"
    unfolding show_version_def by (subst split_join) auto
  then show ?thesis by (simp add: parse_version_def)
qed

lemma admitted_upgrade:
  assumes "upgrade_validate u = Inr ()"
  obtains c t where "parse_version (ub_current_version u) = Some c"
    and "parse_version (ub_target_version u) = Some t" and "c < t"
  using assms by (fastforce simp: upgrade_validate_def bind_res_Inr not_le split: option.splits if_splits)

lemma upgrade_chain:
  assumes "list_all (\<lambda>u. upgrade_validate u = Inr ()) us"
    and "successively (\<lambda>u v. ub_target_version u = ub_current_version v) us" and "us \<noteq> []"
  shows "\<exists>c. parse_version (ub_current_version (hd us)) = Some c
    \<and> (\<forall>u\<in>set us. \<exists>t. parse_version (ub_target_version u) = Some t \<and> c < t)"
  using assms
proof (induction us)
  case (Cons u us)
  then obtain c t where u: "parse_version (ub_current_version u) = Some c"
      "parse_version (ub_target_version u) = Some t" "c < t"
    by (auto elim: admitted_upgrade)
  show ?case
  proof (cases us)
    case Nil
    with u show ?thesis by simp
  next
    case (Cons v vs)
    with Cons.IH Cons.prems obtain c' where v: "parse_version (ub_current_version v) = Some c'"
        "\<forall>w\<in>set us. \<exists>t. parse_version (ub_target_version w) = Some t \<and> c' < t"
      by (auto simp: successively_Cons)
    moreover from Cons Cons.prems u v have "c' = t" by simp
    ultimately show ?thesis using u by (fastforce intro: less_trans)
  qed
qed simp

text \<open>An admitted upgrade goes strictly forward in the numeric order of the three version numbers,
  each a number of 64 bits, so a chain of admitted upgrades, each from the version the one before
  led to, never returns to a version it has been at; and every written version is read back, which
  makes the comparison one of numbers and not of texts.\<close>

theorem upgrades_go_forward:
  assumes "list_all (\<lambda>u. upgrade_validate u = Inr ()) us"
    and "successively (\<lambda>u v. ub_target_version u = ub_current_version v) us" and "us \<noteq> []"
  shows "(\<exists>start end. parse_version (ub_current_version (hd us)) = Some start
      \<and> parse_version (ub_target_version (last us)) = Some end \<and> start < end)
      \<and> list_all (\<lambda>u. ub_target_version u \<noteq> ub_current_version (hd us)) us
      \<and> parse_version (show_version a b c) = Some [a, b, c]"
proof -
  obtain s where s: "parse_version (ub_current_version (hd us)) = Some s"
      "\<forall>u\<in>set us. \<exists>t. parse_version (ub_target_version u) = Some t \<and> s < t"
    using upgrade_chain [OF assms] by blast
  moreover from s(2) assms(3) obtain t where "parse_version (ub_target_version (last us)) = Some t" "s < t"
    by (meson last_in_set)
  moreover from s have "list_all (\<lambda>u. ub_target_version u \<noteq> ub_current_version (hd us)) us"
    by (fastforce simp: list_all_iff)
  ultimately show ?thesis by (simp add: parse_show_version)
qed

definition upgrade_at :: "string \<Rightarrow> string \<Rightarrow> upgrade_binding" where
  "upgrade_at v w = \<lparr>ub_schema = 1, ub_target = ''seat-15'', ub_current_version = v, ub_target_version = w,
     ub_digest = replicate 64 (CHR ''a''), ub_source = ''abc'', ub_generation = 1\<rparr>"

lemma upgrade_at_valid:
  assumes "parse_version v = Some x" and "parse_version w = Some y" and "x < y"
    and "is_identifier v" and "is_identifier w"
  shows "upgrade_validate (upgrade_at v w) = Inr ()"
proof -
  have "is_identifier ''seat-15''" "is_identifier ''abc''"
    by (simp_all add: is_identifier_def MAX_LIFECYCLE_IDENTIFIER_BYTES_def ident_char_def
        is_ascii_alnum_def is_ascii_alpha_def is_ascii_digit_def)
  moreover have "hex_of_length 64 (replicate 64 (CHR ''a''))"
    by (simp add: hex_of_length_def list_all_iff is_ascii_hexdigit_def of_char_def is_ascii_digit_def)
  ultimately show ?thesis using assms
    by (auto simp: upgrade_validate_def upgrade_at_def validate_common_Inr bind_res_Inr
        LIFECYCLE_CONTRACT_SCHEMA_VERSION_def not_le)
qed

theorem upgrades_go_forward_witness:
  "list_all (\<lambda>u. ub_target_version u \<noteq> ''1.9.0'') [upgrade_at ''1.9.0'' ''1.10.0'', upgrade_at ''1.10.0'' ''2.0.0'']"
proof -
  have p: "parse_version ''1.9.0'' = Some [1, 9, 0]" "parse_version ''1.10.0'' = Some [1, 10, 0]"
    "parse_version ''2.0.0'' = Some [2, 0, 0]"
    using parse_show_version [of 1 9 0] parse_show_version [of 1 10 0] parse_show_version [of 2 0 0]
    by (simp_all add: show_version_def show_nat.simps char_of_def bit_iff_odd)
  have "is_identifier ''1.9.0''" "is_identifier ''1.10.0''" "is_identifier ''2.0.0''"
    by (simp_all add: is_identifier_def MAX_LIFECYCLE_IDENTIFIER_BYTES_def ident_char_def
        is_ascii_alnum_def is_ascii_alpha_def is_ascii_digit_def)
  with p have "upgrade_validate (upgrade_at ''1.9.0'' ''1.10.0'') = Inr ()"
    "upgrade_validate (upgrade_at ''1.10.0'' ''2.0.0'') = Inr ()"
    by (simp_all add: upgrade_at_valid)
  then show ?thesis
    using upgrades_go_forward [of "[upgrade_at ''1.9.0'' ''1.10.0'', upgrade_at ''1.10.0'' ''2.0.0'']"]
    by (simp add: upgrade_at_def)
qed

section \<open>Checks and readiness\<close>

datatype check_status = Pass | Warn | Fail | Unknown

record requirement_check =
  rc_schema :: u16
  rc_check :: string
  rc_target :: string
  rc_expected :: string
  rc_observed :: string
  rc_status :: check_status
  rc_required :: bool
  rc_evidence :: string
  rc_warning :: "string option"
  rc_generation :: u64

definition blocks_progress :: "requirement_check \<Rightarrow> bool" where
  "blocks_progress c = (rc_required c \<and> rc_status c \<in> {Fail, Unknown})"

lemma blocks_progress_iff:
  "blocks_progress c \<longleftrightarrow> rc_required c \<and> \<not> (rc_status c = Pass \<or> rc_status c = Warn)"
  by (cases "rc_status c") (simp_all add: blocks_progress_def)

definition check_validate :: "requirement_check \<Rightarrow> admission" where
  "check_validate c =
     bind_res (validate_common (rc_schema c) (rc_generation c)
       [(''check_id'', rc_check c), (''target_id'', rc_target c)]) (\<lambda>_.
     if rc_expected c = [] \<or> length (rc_expected c) > 1024 \<or> length (rc_observed c) > 1024
        \<or> \<not> hex_of_length 64 (rc_evidence c)
        \<or> rc_status c \<in> {Warn, Unknown} \<and> (case rc_warning c of None \<Rightarrow> True | Some w \<Rightarrow> w = [])
     then Inl (InvalidField ''requirement_check'') else Inr ())"

record seat_readiness =
  sr_schema :: u16
  sr_target :: string
  sr_generation :: u64
  sr_ready :: bool
  sr_missing :: "string list"
  sr_warnings :: "string list"

definition readiness_validate :: "seat_readiness \<Rightarrow> admission" where
  "readiness_validate r =
     bind_res (validate_common (sr_schema r) (sr_generation r) [(''target_id'', sr_target r)]) (\<lambda>_.
     if sr_ready r \<and> sr_missing r \<noteq> [] then Inl (InvalidField ''missing_requirements'')
     else if length (sr_missing r) > 256
        \<or> list_ex (\<lambda>i. i = [] \<or> length i > MAX_LIFECYCLE_IDENTIFIER_BYTES) (sr_missing r)
     then Inl (InvalidField ''missing_requirements'')
     else if length (sr_warnings r) > 256 \<or> list_ex (\<lambda>i. i = [] \<or> length i > 1024) (sr_warnings r)
     then Inl (InvalidField ''warnings'') else Inr ())"

definition from_requirement_checks ::
  "u16 \<Rightarrow> string \<Rightarrow> u64 \<Rightarrow> requirement_check list \<Rightarrow> (intent_error, seat_readiness) result" where
  "from_requirement_checks schema target gen checks =
     (let missing = map rc_check (filter blocks_progress checks);
          warnings = List.map_filter rc_warning (filter (\<lambda>c. rc_status c = Warn) checks);
          readiness = \<lparr>sr_schema = schema, sr_target = target, sr_generation = gen,
            sr_ready = (missing = []), sr_missing = missing, sr_warnings = warnings\<rparr>
      in bind_res (readiness_validate readiness) (\<lambda>_. Inr readiness))"

lemma derived_readiness_valid:
  assumes "schema = LIFECYCLE_CONTRACT_SCHEMA_VERSION" "is_identifier target" "gen \<noteq> 0"
    "\<forall>c\<in>set checks. check_validate c = Inr ()" "length checks \<le> 256"
    "\<forall>c\<in>set checks. \<forall>w. rc_warning c = Some w \<longrightarrow> length w \<le> 1024"
  shows "readiness_validate \<lparr>sr_schema = schema, sr_target = target, sr_generation = gen,
      sr_ready = (map rc_check (filter blocks_progress checks) = []),
      sr_missing = map rc_check (filter blocks_progress checks),
      sr_warnings = List.map_filter rc_warning (filter (\<lambda>c. rc_status c = Warn) checks)\<rparr> = Inr ()"
proof -
  have len: "length (filter P checks) \<le> 256" for P
    using assms(5) length_filter_le [of P checks] by linarith
  have "length (List.map_filter rc_warning xs) \<le> length xs" for xs
    by (simp add: List.map_filter_def)
  with len have wlen: "length (List.map_filter rc_warning (filter (\<lambda>c. rc_status c = Warn) checks)) \<le> 256"
    using order_trans by blast
  have "w \<noteq> [] \<and> length w \<le> 1024"
    if "w \<in> set (List.map_filter rc_warning (filter (\<lambda>c. rc_status c = Warn) checks))" for w
    using that assms(4,6)
    by (fastforce simp: map_filter_def check_validate_def bind_res_Inr split: if_splits)
  then have warn: "\<not> list_ex (\<lambda>i. i = [] \<or> length i > 1024)
      (List.map_filter rc_warning (filter (\<lambda>c. rc_status c = Warn) checks))"
    by (auto simp: list_ex_iff not_less)
  have "is_identifier (rc_check c)" if "c \<in> set checks" for c
    using that assms(4) by (auto simp: check_validate_def bind_res_Inr validate_common_Inr)
  then have miss: "\<not> list_ex (\<lambda>i. i = [] \<or> length i > MAX_LIFECYCLE_IDENTIFIER_BYTES)
      (map rc_check (filter blocks_progress checks))"
    by (auto simp: list_ex_iff is_identifier_def not_less)
  show ?thesis
    using assms(1-3) len wlen warn miss
    by (simp add: readiness_validate_def bind_res_Inr validate_common_Inr not_less)
qed

text \<open>Readiness follows from the checks alone: a derived readiness says ready exactly when every
  required check passed or only warns, an unknown required check blocks like a failed one, the
  missing requirements are exactly the blocking checks in order, and every derived readiness is
  admissible; where all checks are admitted for one target and there are at most 256, only the
  target, schema or generation, or an over-long warning, can refuse it.\<close>

theorem readiness_exact:
  "(case from_requirement_checks schema target gen checks of
      Inr r \<Rightarrow> sr_target r = target \<and> readiness_validate r = Inr ()
        \<and> (sr_ready r \<longleftrightarrow> list_all (\<lambda>c. \<not> rc_required c \<or> rc_status c = Pass \<or> rc_status c = Warn) checks)
        \<and> sr_missing r = map rc_check (filter (\<lambda>c. rc_required c \<and> (rc_status c = Fail \<or> rc_status c = Unknown)) checks)
    | Inl e \<Rightarrow> schema \<noteq> LIFECYCLE_CONTRACT_SCHEMA_VERSION \<or> \<not> is_identifier target \<or> gen = 0
        \<or> \<not> list_all (\<lambda>c. check_validate c = Inr ()) checks \<or> length checks > 256
        \<or> list_ex (\<lambda>c. case rc_warning c of Some w \<Rightarrow> length w > 1024 | None \<Rightarrow> False) checks)"
proof (cases "from_requirement_checks schema target gen checks")
  case (Inr r)
  have "(\<lambda>c. rc_required c \<and> (rc_status c = Fail \<or> rc_status c = Unknown)) = blocks_progress"
    by (auto simp: blocks_progress_def)
  moreover have "filter blocks_progress checks = []
      \<longleftrightarrow> list_all (\<lambda>c. \<not> rc_required c \<or> rc_status c = Pass \<or> rc_status c = Warn) checks"
    by (auto simp: filter_empty_conv blocks_progress_iff list_all_iff)
  ultimately show ?thesis
    using Inr by (auto simp: from_requirement_checks_def Let_def bind_res_Inr)
next
  case (Inl e)
  then show ?thesis
    using derived_readiness_valid [of schema target gen checks]
    by (fastforce simp: from_requirement_checks_def Let_def not_less list_all_iff list_ex_iff
        split: option.splits)
qed

definition check_with :: "check_status \<Rightarrow> string option \<Rightarrow> requirement_check" where
  "check_with st warning = \<lparr>rc_schema = 1, rc_check = ''mesh'', rc_target = ''seat'', rc_expected = ''ok'',
     rc_observed = [], rc_status = st, rc_required = True, rc_evidence = replicate 64 (CHR ''a''),
     rc_warning = warning, rc_generation = 1\<rparr>"

lemma check_with_valid: "check_validate (check_with st (Some ''no answer'')) = Inr ()"
  by (auto simp: check_validate_def check_with_def validate_common_Inr bind_res_Inr is_identifier_def
      ident_char_def is_ascii_alnum_def is_ascii_alpha_def hex_of_length_def list_all_iff
      is_ascii_hexdigit_def is_ascii_digit_def LIFECYCLE_CONTRACT_SCHEMA_VERSION_def
      MAX_LIFECYCLE_IDENTIFIER_BYTES_def)

theorem readiness_exact_witness:
  "case from_requirement_checks 1 ''seat'' 1
      [check_with Warn (Some ''no answer''), check_with Unknown (Some ''no answer'')] of
     Inr r \<Rightarrow> \<not> sr_ready r \<and> sr_missing r = [''mesh''] | Inl e \<Rightarrow> False"
proof -
  have "is_identifier ''seat''"
    by (simp add: is_identifier_def MAX_LIFECYCLE_IDENTIFIER_BYTES_def ident_char_def
        is_ascii_alnum_def is_ascii_alpha_def)
  then show ?thesis
    using readiness_exact [of 1 "''seat''" 1
        "[check_with Warn (Some ''no answer''), check_with Unknown (Some ''no answer'')]"]
      check_with_valid [of Warn] check_with_valid [of Unknown]
    by (auto simp: LIFECYCLE_CONTRACT_SCHEMA_VERSION_def check_with_def split: sum.splits)
qed

end
