(* ===== verification/LifecyclePlan.thy ===== *)
theory LifecyclePlan
  imports LifecycleContract
begin

text \<open>
  The correction plan of a seat (\<open>LifecycleCorrectionPlanV1\<close> of \<open>lifecycle.rs\<close>) with the check that its
  edges can be ordered, which is Kahn's algorithm over two hash tables.  The order in which a hash
  table lists its keys is an argument.  A failed \<open>expect\<close>, a count below zero and a loop that does not
  end are all the value \<open>None\<close>.
\<close>

record correction =
  co_check :: string
  co_step :: string
  co_reason :: string
  co_prerequisites :: "string list"

record correction_plan =
  cp_schema :: u16
  cp_request :: string
  cp_target :: string
  cp_generation :: u64
  cp_corrections :: "correction list"
  cp_edges :: "(string \<times> string) list"
  cp_rollback_forbidden :: bool

definition bad_correction :: "correction \<Rightarrow> bool" where
  "bad_correction c =
     (co_check c = [] \<or> length (co_check c) > MAX_LIFECYCLE_IDENTIFIER_BYTES
      \<or> step_parse (co_step c) = None \<or> co_reason c = [] \<or> length (co_reason c) > 1024
      \<or> length (co_prerequisites c) > MAX_LIFECYCLE_COLLECTION_ITEMS)"

definition bad_edge :: "string list \<Rightarrow> string \<times> string \<Rightarrow> bool" where
  "bad_edge ids = (\<lambda>(s, t). s = t \<or> s \<notin> set ids \<or> t \<notin> set ids)"

type_synonym counts = "string \<rightharpoonup> nat"

text \<open>The incoming edges of every check are counted.\<close>

fun count_incoming :: "(string \<times> string) list \<Rightarrow> counts \<Rightarrow> counts option" where
  "count_incoming [] indegree = Some indegree"
| "count_incoming ((_, t) # es) indegree =
     (case indegree t of None \<Rightarrow> None | Some n \<Rightarrow> count_incoming es (indegree(t \<mapsto> n + 1)))"

text \<open>A visited check releases the targets of its edges; one whose count reaches zero becomes ready.\<close>

fun release :: "string \<Rightarrow> (string \<times> string) list \<Rightarrow> counts \<Rightarrow> string list \<Rightarrow> (counts \<times> string list) option" where
  "release c [] indegree ready = Some (indegree, ready)"
| "release c ((s, t) # es) indegree ready =
     (if s = c then
        (case indegree t of
           Some (Suc n) \<Rightarrow> release c es (indegree(t \<mapsto> n)) (if n = 0 then ready @ [t] else ready)
         | _ \<Rightarrow> None)
      else release c es indegree ready)"

partial_function (option) kahn ::
  "(string \<times> string) list \<Rightarrow> counts \<Rightarrow> string list \<Rightarrow> nat \<Rightarrow> nat option" where
  "kahn edges indegree ready visited =
     (if ready = [] then Some visited
      else Option.bind (release (last ready) edges indegree (butlast ready))
        (\<lambda>(indegree', ready'). kahn edges indegree' ready' (visited + 1)))"

definition visited_checks ::
  "(string list \<Rightarrow> string list) \<Rightarrow> string list \<Rightarrow> (string \<times> string) list \<Rightarrow> nat option" where
  "visited_checks listing ids edges =
     Option.bind (count_incoming edges (\<lambda>c. if c \<in> set ids then Some 0 else None))
       (\<lambda>indegree. kahn edges indegree (filter (\<lambda>c. indegree c = Some 0) (listing ids)) 0)"

definition correction_validate ::
  "(string list \<Rightarrow> string list) \<Rightarrow> correction_plan \<Rightarrow> admission option" where
  "correction_validate listing p =
     (let ids = remdups (map co_check (cp_corrections p)) in
      case validate_common (cp_schema p) (cp_generation p)
          [(''request_id'', cp_request p), (''target_id'', cp_target p)] of
        Inl e \<Rightarrow> Some (Inl e)
      | Inr _ \<Rightarrow>
          if cp_corrections p = [] \<or> length (cp_corrections p) > MAX_LIFECYCLE_COLLECTION_ITEMS
             \<or> \<not> cp_rollback_forbidden p \<or> list_ex bad_correction (cp_corrections p)
          then Some (Inl (InvalidField ''correction_plan''))
          else if length (cp_edges p) > MAX_LIFECYCLE_COLLECTION_ITEMS \<or> list_ex (bad_edge ids) (cp_edges p)
          then Some (Inl (InvalidField ''correction_edges''))
          else map_option
            (\<lambda>visited. if visited \<noteq> length ids then Inl (InvalidField ''correction_cycle'') else Inr ())
            (visited_checks listing ids (cp_edges p)))"

section \<open>Counting edges\<close>

text \<open>The edges into \<open>t\<close> that come from outside \<open>V\<close>.\<close>

definition degree :: "(string \<times> string) list \<Rightarrow> string set \<Rightarrow> string \<Rightarrow> nat" where
  "degree es V t = length (filter (\<lambda>(s, t'). t' = t \<and> s \<notin> V) es)"

lemma degree_zero: "degree es V t = 0 \<longleftrightarrow> (\<forall>s. (s, t) \<in> set es \<longrightarrow> s \<in> V)"
  by (auto simp: degree_def filter_empty_conv)

lemma degree_insert:
  "c \<notin> V \<Longrightarrow> degree es V t = degree es (insert c V) t + count_list es (c, t)"
  by (induction es) (auto simp: degree_def)

lemma count_incoming_degree:
  assumes "\<forall>(s, t) \<in> set es. t \<in> N" and "\<forall>t. indegree t = (if t \<in> N then Some (k t) else None)"
  shows "\<exists>indegree'. count_incoming es indegree = Some indegree'
    \<and> (\<forall>t. indegree' t = (if t \<in> N then Some (k t + degree es {} t) else None))"
  using assms
proof (induction es arbitrary: indegree k)
  case (Cons e es)
  obtain s t where e: "e = (s, t)" by fastforce
  from Cons.prems e have "t \<in> N" "indegree t = Some (k t)" by auto
  moreover have "\<forall>u. (indegree(t \<mapsto> k t + 1)) u = (if u \<in> N then Some ((k(t := k t + 1)) u) else None)"
    using Cons.prems \<open>t \<in> N\<close> by auto
  ultimately show ?case
    using Cons.IH [of "indegree(t \<mapsto> k t + 1)" "k(t := k t + 1)"] Cons.prems e
    by (fastforce simp: degree_def)
qed (simp add: degree_def)

lemma release_effect:
  assumes "\<forall>(s, t) \<in> set es. t \<in> N" and "\<forall>t. indegree t = (if t \<in> N then Some (k t) else None)"
    and "\<forall>t. count_list es (c, t) \<le> k t"
  shows "\<exists>indegree' freed. release c es indegree ready = Some (indegree', ready @ freed)
    \<and> (\<forall>t. indegree' t = (if t \<in> N then Some (k t - count_list es (c, t)) else None))
    \<and> distinct freed \<and> set freed = {t. 0 < count_list es (c, t) \<and> k t = count_list es (c, t)}"
  using assms
proof (induction es arbitrary: indegree k ready)
  case (Cons e es)
  obtain s t where e: "e = (s, t)" by fastforce
  show ?case
  proof (cases "s = c")
    case True
    let ?k = "k(t := k t - 1)"
    from Cons.prems(3) e True have "0 < k t" by (auto dest: spec [of _ t])
    with Cons.prems e obtain n where n: "indegree t = Some (Suc n)" "k t = Suc n" "t \<in> N"
      by (cases "k t") auto
    have le: "\<forall>u. count_list es (c, u) \<le> ?k u"
    proof
      fix u
      from Cons.prems(3) have "count_list (e # es) (c, u) \<le> k u" by blast
      then show "count_list es (c, u) \<le> ?k u" using e True by (auto split: if_splits)
    qed
    from n Cons.prems(2) have "\<forall>u. (indegree(t \<mapsto> n)) u = (if u \<in> N then Some (?k u) else None)" by auto
    with Cons.IH [of "indegree(t \<mapsto> n)" ?k "if n = 0 then ready @ [t] else ready"] Cons.prems(1) le
    obtain indegree' freed where
      r: "release c es (indegree(t \<mapsto> n)) (if n = 0 then ready @ [t] else ready)
           = Some (indegree', (if n = 0 then ready @ [t] else ready) @ freed)"
      and i: "\<forall>u. indegree' u = (if u \<in> N then Some (?k u - count_list es (c, u)) else None)"
      and d: "distinct freed" and f: "set freed = {u. 0 < count_list es (c, u) \<and> ?k u = count_list es (c, u)}"
      by fastforce
    have zero: "count_list es (c, t) = 0" if "n = 0" using le n that by (auto dest: spec [of _ t])
    have "release c (e # es) indegree ready = Some (indegree', ready @ (if n = 0 then [t] else []) @ freed)"
      using r n e True by simp
    moreover have "\<forall>u. indegree' u = (if u \<in> N then Some (k u - count_list (e # es) (c, u)) else None)"
      using i e True by auto
    moreover have "distinct ((if n = 0 then [t] else []) @ freed)" using d f zero by auto
    moreover have "set ((if n = 0 then [t] else []) @ freed)
        = {u. 0 < count_list (e # es) (c, u) \<and> k u = count_list (e # es) (c, u)}"
    proof (rule set_eqI)
      fix u
      show "u \<in> set ((if n = 0 then [t] else []) @ freed) \<longleftrightarrow>
          u \<in> {u. 0 < count_list (e # es) (c, u) \<and> k u = count_list (e # es) (c, u)}"
        using f zero n e True by (cases "u = t"; cases "n = 0") auto
    qed
    ultimately show ?thesis by blast
  next
    case False
    with Cons.IH [of indegree k ready] Cons.prems e show ?thesis by auto
  qed
qed simp

section \<open>The visit\<close>

text \<open>What holds whenever the loop looks for the next ready check; \<open>V\<close> are the checks visited.\<close>

definition kahn_inv ::
  "(string \<times> string) list \<Rightarrow> string set \<Rightarrow> string set \<Rightarrow> counts \<Rightarrow> string list \<Rightarrow> bool" where
  "kahn_inv es N V indegree ready \<longleftrightarrow>
     V \<subseteq> N \<and> distinct ready \<and> set ready = {t \<in> N - V. degree es V t = 0}
     \<and> (\<forall>t. indegree t = (if t \<in> N then Some (degree es V t) else None))
     \<and> (\<exists>rank :: string \<Rightarrow> nat. (\<forall>v \<in> V. rank v < card V)
          \<and> (\<forall>(s, t) \<in> set es. t \<in> V \<longrightarrow> s \<in> V \<and> rank s < rank t))"

lemma kahn_inv_step:
  assumes inv: "kahn_inv es N V indegree ready" and ready: "ready \<noteq> []" and fin: "finite N"
    and ends: "\<forall>(s, t) \<in> set es. t \<in> N"
  shows "\<exists>indegree' ready'. release (last ready) es indegree (butlast ready) = Some (indegree', ready')
    \<and> kahn_inv es N (insert (last ready) V) indegree' ready' \<and> last ready \<in> N - V"
proof -
  let ?c = "last ready"
  let ?V = "insert ?c V"
  from inv obtain rank :: "string \<Rightarrow> nat" where
      V: "V \<subseteq> N" "distinct ready" and set: "set ready = {t \<in> N - V. degree es V t = 0}"
      and deg: "\<forall>t. indegree t = (if t \<in> N then Some (degree es V t) else None)"
      and rank: "\<forall>v \<in> V. rank v < card V" "\<forall>(s, t) \<in> set es. t \<in> V \<longrightarrow> s \<in> V \<and> rank s < rank t"
    by (auto simp: kahn_inv_def)
  have c: "?c \<in> N - V" "degree es V ?c = 0" using set last_in_set [OF ready] by auto
  have deg': "degree es V t = degree es ?V t + count_list es (?c, t)" for t
    using degree_insert c by blast
  then have le: "\<forall>t. count_list es (?c, t) \<le> degree es V t" by simp
  obtain indegree' freed where
    r: "release ?c es indegree (butlast ready) = Some (indegree', butlast ready @ freed)"
    and i: "\<forall>t. indegree' t = (if t \<in> N then Some (degree es V t - count_list es (?c, t)) else None)"
    and d: "distinct freed"
    and f: "set freed = {t. 0 < count_list es (?c, t) \<and> degree es V t = count_list es (?c, t)}"
    using release_effect [OF ends deg le] by blast
  have split: "set ready = insert ?c (set (butlast ready))" "?c \<notin> set (butlast ready)" "distinct (butlast ready)"
    using V(2) append_butlast_last_id [OF ready]
    by (metis Un_insert_right append_Nil2 list.simps(15) set_append, metis distinct_append distinct.simps(2)
        disjoint_insert(1) list.set(2), metis distinct_butlast)
  have freed: "set freed = {t \<in> N - ?V. 0 < degree es V t \<and> degree es ?V t = 0}"
  proof -
    have "t \<in> N" if "0 < count_list es (?c, t)" for t
      using that ends by (auto simp: count_list_0_iff zero_less_iff_neq_zero)
    moreover have "t \<notin> ?V" if "0 < count_list es (?c, t)" for t
    proof -
      from that have e: "(?c, t) \<in> set es" by (metis count_list_0_iff less_irrefl)
      then show ?thesis using rank(2) c by (auto simp: degree_zero)
    qed
    ultimately show ?thesis using f deg' by (auto; fastforce)
  qed
  have "set (butlast ready @ freed) = {t \<in> N - ?V. degree es ?V t = 0}"
    using split(1,2) set freed deg' by (auto; fastforce)
  moreover have "distinct (butlast ready @ freed)"
    using split set freed d by auto
  moreover have "\<forall>t. indegree' t = (if t \<in> N then Some (degree es ?V t) else None)"
    using i deg' by simp
  moreover have "\<exists>rank' :: string \<Rightarrow> nat. (\<forall>v \<in> ?V. rank' v < card ?V)
      \<and> (\<forall>(s, t) \<in> set es. t \<in> ?V \<longrightarrow> s \<in> ?V \<and> rank' s < rank' t)"
  proof (intro exI conjI)
    have "card ?V = Suc (card V)" using c(1) V(1) fin by (simp add: finite_subset)
    then show "\<forall>v \<in> ?V. (rank(?c := card V)) v < card ?V" using rank(1) by auto
    show "\<forall>(s, t) \<in> set es. t \<in> ?V \<longrightarrow> s \<in> ?V \<and> (rank(?c := card V)) s < (rank(?c := card V)) t"
      using rank c by (fastforce simp: degree_zero)
  qed
  ultimately show ?thesis using r c V(1) by (auto simp: kahn_inv_def)
qed

lemma kahn_returns:
  assumes "kahn_inv es N V indegree ready" and "finite N" and "\<forall>(s, t) \<in> set es. s \<in> N \<and> t \<in> N"
    and "visited = card V"
  shows "\<exists>n. kahn es indegree ready visited = Some n \<and> (n = card N \<longleftrightarrow> acyclic (set es))"
  using assms
proof (induction "card (N - V)" arbitrary: V indegree ready visited rule: less_induct)
  case less
  have ends: "\<forall>(s, t) \<in> set es. t \<in> N" using less.prems(3) by auto
  show ?case
  proof (cases "ready = []")
    case False
    from kahn_inv_step [OF less.prems(1) this less.prems(2) ends]
    obtain indegree' ready' where
      step: "release (last ready) es indegree (butlast ready) = Some (indegree', ready')"
      and inv: "kahn_inv es N (insert (last ready) V) indegree' ready'" and c: "last ready \<in> N - V" by blast
    have "card (N - insert (last ready) V) < card (N - V)"
      using c less.prems(2) by (intro psubset_card_mono) auto
    moreover have "visited + 1 = card (insert (last ready) V)"
      using c less.prems(1,2,4) by (auto simp: kahn_inv_def finite_subset)
    ultimately have "\<exists>n. kahn es indegree' ready' (visited + 1) = Some n \<and> (n = card N \<longleftrightarrow> acyclic (set es))"
      using less.hyps [OF _ inv less.prems(2,3)] by blast
    then show ?thesis using False step by (simp add: kahn.simps [of es indegree ready])
  next
    case True
    from less.prems(1) True obtain rank :: "string \<Rightarrow> nat" where
        V: "V \<subseteq> N" and stuck: "\<forall>t \<in> N - V. degree es V t \<noteq> 0"
        and rank: "\<forall>(s, t) \<in> set es. t \<in> V \<longrightarrow> s \<in> V \<and> rank s < rank t"
      by (auto simp: kahn_inv_def)
    have "card V = card N \<longleftrightarrow> V = N" using V less.prems(2) card_subset_eq by blast
    moreover have "acyclic (set es)" if "V = N"
    proof -
      have "set es \<subseteq> measure rank" using rank less.prems(3) that by auto
      then show ?thesis using wf_subset wf_acyclic wf_measure by blast
    qed
    moreover have "V = N" if "acyclic (set es)"
    proof (rule ccontr)
      assume "V \<noteq> N"
      with V obtain x where "x \<in> N - V" by blast
      moreover have "wf (set es)" using that by (simp add: finite_acyclic_wf)
      ultimately obtain t where "t \<in> N - V" and least: "\<And>s. (s, t) \<in> set es \<Longrightarrow> s \<notin> N - V"
        using wfE_min [of "set es" x "N - V"] by blast
      moreover have "s \<in> N" if "(s, t) \<in> set es" for s using that less.prems(3) by auto
      ultimately show False using stuck by (auto simp: degree_zero)
    qed
    ultimately show ?thesis using True less.prems(4) by (auto simp: kahn.simps [of es indegree "[]"])
  qed
qed

lemma correction_validate_acyclic:
  assumes listing: "\<And>xs. mset (listing xs) = mset xs"
  shows "correction_validate listing p = Some
     (bind_res (validate_common (cp_schema p) (cp_generation p)
        [(''request_id'', cp_request p), (''target_id'', cp_target p)]) (\<lambda>_.
      if cp_corrections p = [] \<or> length (cp_corrections p) > 256 \<or> \<not> cp_rollback_forbidden p
         \<or> list_ex bad_correction (cp_corrections p)
      then Inl (InvalidField ''correction_plan'')
      else if length (cp_edges p) > 256 \<or> list_ex (bad_edge (map co_check (cp_corrections p))) (cp_edges p)
      then Inl (InvalidField ''correction_edges'')
      else if \<not> acyclic (set (cp_edges p)) then Inl (InvalidField ''correction_cycle'')
      else Inr ()))"
proof -
  let ?ids = "remdups (map co_check (cp_corrections p))"
  let ?es = "cp_edges p"
  have ids: "bad_edge ?ids = bad_edge (map co_check (cp_corrections p))" by (simp add: bad_edge_def)
  have order: "\<exists>n. visited_checks listing ?ids ?es = Some n \<and> (n = length ?ids \<longleftrightarrow> acyclic (set ?es))"
    if "\<not> list_ex (bad_edge ?ids) ?es"
  proof -
    from that have ends: "\<forall>(s, t) \<in> set ?es. s \<in> set ?ids \<and> t \<in> set ?ids"
      by (auto simp: list_ex_iff bad_edge_def)
    then have "\<forall>(s, t) \<in> set ?es. t \<in> set ?ids" by auto
    from count_incoming_degree [OF this, of _ "\<lambda>_. 0"]
    obtain indegree where count: "count_incoming ?es (\<lambda>c. if c \<in> set ?ids then Some 0 else None) = Some indegree"
      and deg: "\<forall>t. indegree t = (if t \<in> set ?ids then Some (degree ?es {} t) else None)"
      by fastforce
    have "distinct (listing ?ids)" "set (listing ?ids) = set ?ids"
      using listing [of ?ids] by (metis distinct_remdups mset_eq_imp_distinct_iff, metis mset_eq_setD)
    then have inv: "kahn_inv ?es (set ?ids) {} indegree (filter (\<lambda>c. indegree c = Some 0) (listing ?ids))"
      using deg by (auto simp: kahn_inv_def)
    have "visited_checks listing ?ids ?es
        = kahn ?es indegree (filter (\<lambda>c. indegree c = Some 0) (listing ?ids)) 0"
      by (simp only: visited_checks_def count bind.simps)
    with kahn_returns [OF inv finite_set ends, of 0] show ?thesis by (simp add: length_remdups_card_conv)
  qed
  show ?thesis
  proof (cases "list_ex (bad_edge ?ids) ?es")
    case True
    then show ?thesis
      unfolding ids [symmetric] correction_validate_def Let_def MAX_LIFECYCLE_COLLECTION_ITEMS_def
      by (auto simp: Suc_le_eq split: sum.split)
  next
    case False
    with order obtain n where "visited_checks listing ?ids ?es = Some n" "n = length ?ids \<longleftrightarrow> acyclic (set ?es)"
      by blast
    with False show ?thesis
      unfolding ids [symmetric] correction_validate_def Let_def MAX_LIFECYCLE_COLLECTION_ITEMS_def
      by (auto simp: Suc_le_eq split: sum.split)
  qed
qed

text \<open>C14. A correction plan is admitted exactly if its fields are in bounds, rollback is forbidden, every
  edge joins two different checks of the plan and the edges have no cycle; the check always
  answers, never fails an internal expectation or counts below zero, and its answer does not
  depend on the order in which the hash tables list their keys.\<close>

theorem correction_plan_exact:
  assumes listing: "\<And>xs. mset (listing xs) = mset xs"
  shows "correction_validate listing p = Some
     (bind_res (validate_common (cp_schema p) (cp_generation p)
        [(''request_id'', cp_request p), (''target_id'', cp_target p)]) (\<lambda>_.
      if \<not> (1 \<le> length (cp_corrections p) \<and> length (cp_corrections p) \<le> 256 \<and> cp_rollback_forbidden p
            \<and> list_all (Not \<circ> bad_correction) (cp_corrections p))
      then Inl (InvalidField ''correction_plan'')
      else if \<not> (length (cp_edges p) \<le> 256
            \<and> set (cp_edges p) \<subseteq> {(s, t). s \<noteq> t \<and> {s, t} \<subseteq> co_check ` set (cp_corrections p)})
      then Inl (InvalidField ''correction_edges'')
      else if \<not> acyclic (set (cp_edges p)) then Inl (InvalidField ''correction_cycle'')
      else Inr ()))"
proof -
  have edges: "set (cp_edges p) \<subseteq> {(s, t). s \<noteq> t \<and> {s, t} \<subseteq> co_check ` set (cp_corrections p)}
      \<longleftrightarrow> \<not> list_ex (bad_edge (map co_check (cp_corrections p))) (cp_edges p)"
    by (auto simp: list_ex_iff bad_edge_def)
  have shape: "list_all (Not \<circ> bad_correction) (cp_corrections p) \<longleftrightarrow> \<not> list_ex bad_correction (cp_corrections p)"
    by (auto simp: list_ex_iff list_all_iff)
  show ?thesis
    unfolding edges shape correction_validate_acyclic [OF listing] by (auto simp: Suc_le_eq not_le)
qed

definition correction_of :: "string \<Rightarrow> correction" where
  "correction_of c = \<lparr>co_check = c, co_step = ''mesh'', co_reason = ''down'', co_prerequisites = []\<rparr>"

definition plan_with :: "(string \<times> string) list \<Rightarrow> correction_plan" where
  "plan_with es = \<lparr>cp_schema = 1, cp_request = ''r'', cp_target = ''t'', cp_generation = 1,
     cp_corrections = map correction_of [''a'', ''b''], cp_edges = es, cp_rollback_forbidden = True\<rparr>"

theorem correction_plan_exact_witness:
  "correction_validate rev (plan_with [(''a'', ''b'')]) = Some (Inr ())
   \<and> correction_validate rev (plan_with [(''a'', ''b''), (''b'', ''a'')])
     = Some (Inl (InvalidField ''correction_cycle''))"
proof -
  have common: "validate_common 1 1 [(''request_id'', ''r''), (''target_id'', ''t'')] = Inr ()"
    by (simp add: validate_common_Inr is_identifier_def ident_char_def is_ascii_alnum_def is_ascii_alpha_def
        LIFECYCLE_CONTRACT_SCHEMA_VERSION_def MAX_LIFECYCLE_IDENTIFIER_BYTES_def)
  have corrections: "\<not> bad_correction (correction_of ''a'')" "\<not> bad_correction (correction_of ''b'')"
    by (simp_all add: bad_correction_def correction_of_def step_parse_def
        MAX_LIFECYCLE_IDENTIFIER_BYTES_def MAX_LIFECYCLE_COLLECTION_ITEMS_def)
  have "{(''a'', ''b'')} \<subseteq> measure (\<lambda>c. if c = ''a'' then 0 else 1)" by simp
  then have "acyclic {(''a'', ''b'')}" using wf_subset wf_acyclic wf_measure by blast
  moreover have "\<not> acyclic {(''a'', ''b''), (''b'', ''a'')}"
    by (auto simp: acyclic_def intro: trancl_into_trancl [OF r_into_trancl])
  ultimately show ?thesis
    using correction_plan_exact [of rev "plan_with [(''a'', ''b'')]"]
      correction_plan_exact [of rev "plan_with [(''a'', ''b''), (''b'', ''a'')]"] common corrections
    by (simp add: plan_with_def) (simp add: correction_of_def)
qed

section \<open>The canonical baseline\<close>

record baseline_entry =
  be_schema :: u16
  be_requirement :: string
  be_owner :: step_kind
  be_required :: bool
  be_provider :: string
  be_critical :: bool
  be_prerequisites :: "string list"
  be_correction :: step_kind

definition baseline_entry_of :: "string \<times> step_kind \<times> string list \<Rightarrow> baseline_entry" where
  "baseline_entry_of = (\<lambda>(requirement, owner, prerequisites).
     \<lparr>be_schema = LIFECYCLE_CONTRACT_SCHEMA_VERSION, be_requirement = requirement, be_owner = owner,
      be_required = True, be_provider = ''mackesd'', be_critical = True,
      be_prerequisites = prerequisites, be_correction = owner\<rparr>)"

definition canonical_lifecycle_baseline :: "baseline_entry list" where
  "canonical_lifecycle_baseline = map baseline_entry_of
     [(''packages'', Packages, []),
      (''units'', Configuration, [''packages'']),
      (''configuration'', Configuration, [''packages'']),
      (''mesh_identity'', Mesh, [''configuration'']),
      (''compute'', Compute, [''mesh_identity'']),
      (''ui'', Ui, [''mesh_identity'']),
      (''hardware'', Hardware, [''packages'']),
      (''verification'', Verify, [''packages'', ''configuration'', ''mesh_identity''])]"

definition baseline_validate :: "baseline_entry \<Rightarrow> admission" where
  "baseline_validate e =
     bind_res (validate_common (be_schema e) 1
       [(''requirement_id'', be_requirement e), (''provider'', be_provider e)]) (\<lambda>_.
     if length (be_prerequisites e) > MAX_LIFECYCLE_COLLECTION_ITEMS
        \<or> list_ex (\<lambda>i. i = [] \<or> length i > MAX_LIFECYCLE_IDENTIFIER_BYTES) (be_prerequisites e)
     then Inl (InvalidField ''baseline_prerequisites'') else Inr ())"

text \<open>Every prerequisite is a requirement of an earlier entry; \<open>seen\<close> are those before.\<close>

fun in_order :: "string list \<Rightarrow> baseline_entry list \<Rightarrow> bool" where
  "in_order seen [] = True"
| "in_order seen (e # es) =
     (set (be_prerequisites e) \<subseteq> set seen \<and> be_requirement e \<notin> set seen
      \<and> in_order (be_requirement e # seen) es)"

text \<open>The corrections of a list of entries, with an edge from every prerequisite.\<close>

definition baseline_corrections :: "string \<Rightarrow> baseline_entry list \<Rightarrow> correction list" where
  "baseline_corrections reason = map (\<lambda>e. \<lparr>co_check = be_requirement e, co_step = step_as_str (be_correction e),
     co_reason = reason, co_prerequisites = be_prerequisites e\<rparr>)"

definition baseline_edges :: "baseline_entry list \<Rightarrow> (string \<times> string) list" where
  "baseline_edges es = concat (map (\<lambda>e. map (\<lambda>q. (q, be_requirement e)) (be_prerequisites e)) es)"

text \<open>The canonical baseline is sound: every entry is admissible, required and corrected by its owner's
  step, which is a step of onboarding; requirements are named once and after their prerequisites;
  and the corrections of the whole baseline, ordered by its prerequisites, are admitted as a plan
  whenever the plan's own identifiers are.\<close>

theorem baseline_is_a_plan:
  assumes listing: "\<And>xs. mset (listing xs) = mset xs" and "reason \<noteq> []" and "length reason \<le> 1024"
  shows "list_all (\<lambda>e. baseline_validate e = Inr () \<and> be_required e \<and> be_correction e = be_owner e
        \<and> be_owner e \<in> set (steps_of Onboard)) canonical_lifecycle_baseline
    \<and> in_order [] canonical_lifecycle_baseline
    \<and> correction_validate listing \<lparr>cp_schema = schema, cp_request = request, cp_target = target, cp_generation = gen,
        cp_corrections = baseline_corrections reason canonical_lifecycle_baseline,
        cp_edges = baseline_edges canonical_lifecycle_baseline, cp_rollback_forbidden = True\<rparr>
      = Some (validate_common schema gen [(''request_id'', request), (''target_id'', target)])"
proof -
  let ?edges = "baseline_edges canonical_lifecycle_baseline"
  let ?cs = "baseline_corrections reason canonical_lifecycle_baseline"
  have "set ?edges \<subseteq> measure (\<lambda>r. if r = ''packages'' then 0 else if r = ''configuration'' then 1
      else if r = ''mesh_identity'' then 2 else 3)"
    by (simp add: baseline_edges_def canonical_lifecycle_baseline_def baseline_entry_of_def)
  then have acyclic: "acyclic (set ?edges)" using wf_subset wf_acyclic wf_measure by blast
  have edges: "length ?edges \<le> 256" "\<not> list_ex (bad_edge (map co_check ?cs)) ?edges"
    by (simp_all add: baseline_edges_def canonical_lifecycle_baseline_def baseline_entry_of_def
        bad_edge_def baseline_corrections_def)
  have cs: "?cs \<noteq> []" "length ?cs \<le> 256" "\<not> list_ex bad_correction ?cs"
    using assms(2,3)
    by (simp_all add: canonical_lifecycle_baseline_def baseline_entry_of_def baseline_corrections_def
        bad_correction_def step_parse_def MAX_LIFECYCLE_IDENTIFIER_BYTES_def MAX_LIFECYCLE_COLLECTION_ITEMS_def)
  have admitted: "list_all (\<lambda>e. baseline_validate e = Inr () \<and> be_required e \<and> be_correction e = be_owner e
      \<and> be_owner e \<in> set (steps_of Onboard)) canonical_lifecycle_baseline"
    by (simp add: canonical_lifecycle_baseline_def baseline_entry_of_def baseline_validate_def bind_res_Inr
        validate_common_Inr is_identifier_def ident_char_def is_ascii_alnum_def is_ascii_alpha_def
        MAX_LIFECYCLE_IDENTIFIER_BYTES_def MAX_LIFECYCLE_COLLECTION_ITEMS_def)
  have order: "in_order [] canonical_lifecycle_baseline"
    by (simp add: canonical_lifecycle_baseline_def baseline_entry_of_def)
  have "bind_res r (\<lambda>_. Inr ()) = r" for r :: admission by (cases r) simp_all
  with acyclic edges cs admitted order show ?thesis
    by (simp add: correction_validate_acyclic [OF listing])
qed

theorem baseline_is_a_plan_witness:
  "correction_validate rev \<lparr>cp_schema = 2, cp_request = ''r'', cp_target = ''t'', cp_generation = 1,
     cp_corrections = baseline_corrections ''drift'' canonical_lifecycle_baseline,
     cp_edges = baseline_edges canonical_lifecycle_baseline, cp_rollback_forbidden = True\<rparr>
   = Some (Inl (UnsupportedSchema 2))"
  using baseline_is_a_plan [of rev "''drift''" 2 "''r''" "''t''" 1]
  by (simp add: validate_common_def LIFECYCLE_CONTRACT_SCHEMA_VERSION_def)

section \<open>Artifacts and progress\<close>

datatype artifact_channel = Stable | Candidate | Dev

record artifact_selection =
  as_schema :: u16
  as_selection :: string
  as_target :: string
  as_channel :: artifact_channel
  as_digest :: string
  as_source :: string
  as_signed :: bool
  as_unverified :: bool
  as_generation :: u64

definition artifact_validate :: "artifact_selection \<Rightarrow> admission" where
  "artifact_validate a =
     bind_res (validate_common (as_schema a) (as_generation a)
       [(''selection_id'', as_selection a), (''target_id'', as_target a), (''source_revision'', as_source a)]) (\<lambda>_.
     if \<not> hex_of_length 64 (as_digest a) \<or> as_signed a = as_unverified a
     then Inl (InvalidField ''artifact_admission'') else Inr ())"

datatype lifecycle_phase = Planned | Running | WaitingForOperator | Succeeded | PhaseFailed | Cancelled

record lifecycle_progress =
  pg_schema :: u16
  pg_request :: string
  pg_target :: string
  pg_generation :: u64
  pg_phase :: lifecycle_phase
  pg_completed :: u32
  pg_total :: u32

definition progress_validate :: "lifecycle_progress \<Rightarrow> admission" where
  "progress_validate p =
     bind_res (validate_common (pg_schema p) (pg_generation p)
       [(''request_id'', pg_request p), (''target_id'', pg_target p)]) (\<lambda>_.
     if pg_total p = 0 \<or> pg_completed p > pg_total p then Inl (InvalidNumber ''steps'') else Inr ())"

definition staged_package_identity :: "(string \<Rightarrow> u8 list) \<Rightarrow> string \<Rightarrow> string \<Rightarrow> string \<Rightarrow> string option" where
  "staged_package_identity sha256 digest_hex shape bytes =
     (if \<not> hex_of_length 64 digest_hex then None
      else if shape \<notin> {''rpm'', ''bootc'', ''kickstart'', ''nocloud'', ''usb''} then None
      else if map to_ascii_lowercase (hex_of_bytes (sha256 bytes)) = map to_ascii_lowercase digest_hex
      then Some (''staged:'' @ digest_hex @ '':'' @ shape) else None)"

lemma of_char_digit16: "n < 16 \<Longrightarrow> of_char (or_zero (from_digit16 n)) = (if n < 10 then 48 + n else 87 + n)"
  by (simp add: from_digit16_def or_zero_def)

lemma lowercase_digit:
  assumes "n < 16" and "is_ascii_hexdigit c"
  shows "to_ascii_lowercase (or_zero (from_digit16 n)) = to_ascii_lowercase c \<longleftrightarrow> to_digit16 c = Some n"
proof -
  have "to_ascii_lowercase (or_zero (from_digit16 n)) = to_ascii_lowercase c \<longleftrightarrow>
      (of_char (to_ascii_lowercase (or_zero (from_digit16 n))) :: nat) = of_char (to_ascii_lowercase c)"
    by (rule of_char_eq_iff [symmetric])
  then show ?thesis
    unfolding of_char_lowercase of_char_digit16 [OF assms(1)]
    using assms by (auto simp: to_digit16_def Let_def is_ascii_hexdigit_def is_ascii_digit_of_char char_le_of_char)
qed

lemma packed_nibbles:
  fixes b :: u8
  assumes "h < 16" and "l < 16"
  shows "push_bit 4 (of_nat h) OR of_nat l = b \<longleftrightarrow> h = unat (drop_bit 4 b) \<and> l = unat (b AND 15)"
proof -
  let ?h = "of_nat h :: u8" and ?l = "of_nat l :: u8"
  have small: "take_bit 4 ?h = ?h" "take_bit 4 ?l = ?l" "unat ?h = h" "unat ?l = l"
    using assms by (simp_all add: take_bit_of_nat take_bit_nat_eq_self unat_of_nat)
  have m: "(15 :: u8) = mask 4" by (simp add: mask_eq_exp_minus_1)
  have "drop_bit 4 (push_bit 4 (take_bit 4 ?h) OR take_bit 4 ?l) = take_bit 4 ?h"
    "(push_bit 4 (take_bit 4 ?h) OR take_bit 4 ?l) AND 15 = take_bit 4 ?l"
    unfolding m by (rule bit_word_eqI; auto simp: bit_simps)+
  then have "drop_bit 4 (push_bit 4 ?h OR ?l) = ?h" "(push_bit 4 ?h OR ?l) AND 15 = ?l"
    unfolding small by simp_all
  moreover have "?h = drop_bit 4 b \<longleftrightarrow> h = unat (drop_bit 4 b)" "?l = b AND 15 \<longleftrightarrow> l = unat (b AND 15)"
    using small(3,4) by (simp_all add: word_unat_eq_iff)
  ultimately show ?thesis using pack_nibbles [of b] by metis
qed

text \<open>The comparison that ignores case decides whether the text denotes the digest.\<close>

lemma lowercase_hex:
  "list_all is_ascii_hexdigit d \<Longrightarrow> map to_ascii_lowercase (hex_of_bytes h) = map to_ascii_lowercase d
     \<longleftrightarrow> length d = 2 * length h \<and> bytes_of_hex d = Some h"
proof (induction h arbitrary: d)
  case (Cons b h)
  show ?case
  proof (cases d)
    case d: (Cons hi d')
    show ?thesis
    proof (cases d')
      case (Cons lo s)
      have "x < 16" if "to_digit16 c = Some x" for c x
        using that by (auto simp: to_digit16_def Let_def split: if_splits)
      with Cons.IH [of s] Cons.prems d Cons show ?thesis
        by (auto simp: lowercase_digit unat_nibbles packed_nibbles split: option.splits)
    qed (use d in auto)
  qed simp
qed auto

text \<open>A staged package has an identity exactly if its shape is known and the pinned text denotes the digest
  of its bytes, in either case of the letters.\<close>

lemma staged_identity_exact:
  "staged_package_identity sha256 d shape bytes =
     (if length d = 64 \<and> list_all is_ascii_hexdigit d \<and> bytes_of_hex d = Some (sha256 bytes)
         \<and> shape \<in> {''rpm'', ''bootc'', ''kickstart'', ''nocloud'', ''usb''}
      then Some (''staged:'' @ d @ '':'' @ shape) else None)"
  using lowercase_hex [of d "sha256 bytes"] length_bytes_of_hex [of d "sha256 bytes"]
  by (auto simp: staged_package_identity_def hex_of_length_def)

end
