(* ===== verification/LifecycleSigning.thy ===== *)
theory LifecycleSigning
  imports LifecyclePlan
begin

text \<open>
  The signed lifecycle messages of \<open>lifecycle.rs\<close>: commissioning capsules, confirmations, offboarding
  receipts and fleet reports, with the text that is signed, and the sessions whose scope a
  confirmation names.  The signature scheme, the digest and the JSON text of a list of strings are
  arguments; texts are their bytes.  A signed number of 64 bits is a word read with \<open>sint\<close>.
\<close>

section \<open>Signatures as text\<close>

definition decode_hex_64 :: "string \<Rightarrow> u8 list option" where
  "decode_hex_64 v =
     (if length v \<noteq> 128 \<or> \<not> list_all is_ascii_hexdigit v then None else bytes_of_hex v)"

definition check_signature ::
  "('key \<Rightarrow> string \<Rightarrow> u8 list \<Rightarrow> bool) \<Rightarrow> 'key \<Rightarrow> string \<Rightarrow> string \<Rightarrow> admission" where
  "check_signature ed_verify key bytes signature =
     (case decode_hex_64 signature of
        None \<Rightarrow> Inl (InvalidField ''signature_hex'')
      | Some s \<Rightarrow> if ed_verify key bytes s then Inr () else Inl (InvalidField ''signature_hex''))"

definition display_bool :: "bool \<Rightarrow> string" where
  "display_bool b = (if b then ''true'' else ''false'')"

definition display_i64 :: "64 word \<Rightarrow> string" where
  "display_i64 w = show_int (sint w)"

lemma hex_of_bytes_digits: "list_all is_ascii_hexdigit (hex_of_bytes bs)"
proof -
  have "is_ascii_hexdigit (or_zero (from_digit16 n))" if "n < 16" for n
    using that by (auto simp: from_digit16_def or_zero_def is_ascii_hexdigit_def is_ascii_digit_of_char
        char_le_of_char)
  then show ?thesis by (induction bs) (simp_all add: unat_nibbles)
qed

section \<open>Capsules\<close>

record capsule =
  ca_schema :: u16
  ca_id :: string
  ca_target :: string
  ca_expires :: "64 word"
  ca_digest :: string
  ca_one_time :: bool
  ca_key :: string
  ca_signature :: string

definition capsule_bytes :: "capsule \<Rightarrow> string" where
  "capsule_bytes c = join_with ''|''
     [''magic-mesh:commissioning-capsule:v1'', display (ca_schema c), ca_id c, ca_target c,
      display_i64 (ca_expires c), ca_digest c, display_bool (ca_one_time c), ca_key c]"

definition capsule_sign :: "('sk \<Rightarrow> string \<Rightarrow> u8 list) \<Rightarrow> string \<Rightarrow> 'sk \<Rightarrow> capsule \<Rightarrow> capsule" where
  "capsule_sign ed_sign key_id sk c =
     (let c' = c\<lparr>ca_key := key_id, ca_signature := []\<rparr>
      in c'\<lparr>ca_signature := hex_of_bytes (ed_sign sk (capsule_bytes c'))\<rparr>)"

definition capsule_validate_at :: "64 word \<Rightarrow> capsule \<Rightarrow> admission" where
  "capsule_validate_at now c =
     bind_res (validate_common (ca_schema c) (if sint (ca_expires c) \<le> 1 then 1 else ca_expires c)
       [(''capsule_id'', ca_id c), (''target_id'', ca_target c), (''key_id'', ca_key c)]) (\<lambda>_.
     if sint (ca_expires c) \<le> sint now \<or> \<not> hex_of_length 64 (ca_digest c)
        \<or> \<not> hex_of_length 128 (ca_signature c) \<or> \<not> ca_one_time c
     then Inl (InvalidField ''capsule_bounds'') else Inr ())"

definition capsule_verify_at ::
  "('key \<Rightarrow> string \<Rightarrow> u8 list \<Rightarrow> bool) \<Rightarrow> 64 word \<Rightarrow> 'key \<Rightarrow> capsule \<Rightarrow> admission" where
  "capsule_verify_at ed_verify now key c =
     bind_res (capsule_validate_at now c)
       (\<lambda>_. check_signature ed_verify key (capsule_bytes c) (ca_signature c))"

section \<open>Confirmations\<close>

datatype confirmation_action = ConfirmOffboard | ConfirmReset | InstallUnsigned

text \<open>The JSON text of an action: its name in snake case, quoted.\<close>

fun action_json :: "confirmation_action \<Rightarrow> string" where
  "action_json ConfirmOffboard = [CHR 0x22] @ ''offboard'' @ [CHR 0x22]"
| "action_json ConfirmReset = [CHR 0x22] @ ''reset'' @ [CHR 0x22]"
| "action_json InstallUnsigned = [CHR 0x22] @ ''install_unsigned'' @ [CHR 0x22]"

record confirmation =
  cf_schema :: u16
  cf_session :: string
  cf_action :: confirmation_action
  cf_count :: u32
  cf_scope :: string
  cf_phrase :: string
  cf_generation :: u64
  cf_key :: string
  cf_signature :: string

definition confirmation_bytes :: "confirmation \<Rightarrow> string" where
  "confirmation_bytes c = join_with ''|''
     [''magic-mesh:lifecycle-confirmation:v1'', display (cf_schema c), cf_session c,
      action_json (cf_action c), display (cf_count c), cf_scope c, cf_phrase c,
      display (cf_generation c), cf_key c]"

definition confirmation_sign ::
  "('sk \<Rightarrow> string \<Rightarrow> u8 list) \<Rightarrow> string \<Rightarrow> 'sk \<Rightarrow> confirmation \<Rightarrow> confirmation" where
  "confirmation_sign ed_sign key_id sk c =
     (let c' = c\<lparr>cf_key := key_id\<rparr>
      in c'\<lparr>cf_signature := hex_of_bytes (ed_sign sk (confirmation_bytes c'))\<rparr>)"

fun expected_phrase :: "confirmation_action \<Rightarrow> u32 \<Rightarrow> string" where
  "expected_phrase ConfirmOffboard n = ''FORCE OFFBOARD '' @ display n @ '' SYSTEMS''"
| "expected_phrase ConfirmReset n = ''WIPE '' @ display n @ '' SYSTEMS''"
| "expected_phrase InstallUnsigned n = ''INSTALL UNSIGNED '' @ display n @ '' SYSTEMS''"

definition confirmation_validate :: "confirmation \<Rightarrow> admission" where
  "confirmation_validate c =
     bind_res (validate_common (cf_schema c) (cf_generation c) [(''session_id'', cf_session c)]) (\<lambda>_.
     if cf_count c = 0 \<or> \<not> hex_of_length 64 (cf_scope c) then Inl (InvalidField ''scope_digest_hex'')
     else if cf_key c = [] \<or> length (cf_key c) > MAX_LIFECYCLE_IDENTIFIER_BYTES
     then Inl (InvalidField ''key_id'')
     else if \<not> hex_of_length 128 (cf_signature c) then Inl (InvalidField ''signature_hex'')
     else if cf_phrase c \<noteq> expected_phrase (cf_action c) (cf_count c) then Inl (InvalidField ''phrase'')
     else Inr ())"

definition confirmation_verify ::
  "('key \<Rightarrow> string \<Rightarrow> u8 list \<Rightarrow> bool) \<Rightarrow> 'key \<Rightarrow> confirmation \<Rightarrow> admission" where
  "confirmation_verify ed_verify key c =
     bind_res (confirmation_validate c)
       (\<lambda>_. check_signature ed_verify key (confirmation_bytes c) (cf_signature c))"

section \<open>Receipts and reports\<close>

fun phase_json :: "lifecycle_phase \<Rightarrow> string" where
  "phase_json Planned = [CHR 0x22] @ ''planned'' @ [CHR 0x22]"
| "phase_json Running = [CHR 0x22] @ ''running'' @ [CHR 0x22]"
| "phase_json WaitingForOperator = [CHR 0x22] @ ''waiting_for_operator'' @ [CHR 0x22]"
| "phase_json Succeeded = [CHR 0x22] @ ''succeeded'' @ [CHR 0x22]"
| "phase_json PhaseFailed = [CHR 0x22] @ ''failed'' @ [CHR 0x22]"
| "phase_json Cancelled = [CHR 0x22] @ ''cancelled'' @ [CHR 0x22]"

record receipt =
  re_schema :: u16
  re_request :: string
  re_target :: string
  re_generation :: u64
  re_completed :: bool
  re_retained :: "string list"
  re_signature :: string

definition receipt_bytes :: "(string list \<Rightarrow> string) \<Rightarrow> receipt \<Rightarrow> string" where
  "receipt_bytes json_strings r = join_with ''|''
     [''magic-mesh:offboarding-receipt:v1'', display (re_schema r), re_request r, re_target r,
      display (re_generation r), display_bool (re_completed r), json_strings (re_retained r)]"

definition receipt_sign ::
  "(string list \<Rightarrow> string) \<Rightarrow> ('sk \<Rightarrow> string \<Rightarrow> u8 list) \<Rightarrow> 'sk \<Rightarrow> receipt \<Rightarrow> receipt" where
  "receipt_sign json_strings ed_sign sk r =
     r\<lparr>re_signature := hex_of_bytes (ed_sign sk (receipt_bytes json_strings r))\<rparr>"

definition optional_signature :: "string \<Rightarrow> bool" where
  "optional_signature s = (s = [] \<or> hex_of_length 128 s)"

definition receipt_validate :: "receipt \<Rightarrow> admission" where
  "receipt_validate r =
     bind_res (validate_common (re_schema r) (re_generation r)
       [(''request_id'', re_request r), (''target_id'', re_target r)]) (\<lambda>_.
     if \<not> re_completed r \<or> re_retained r \<noteq> [] then Inl (InvalidField ''retained_resources'')
     else if \<not> optional_signature (re_signature r) then Inl (InvalidField ''signature_hex'')
     else Inr ())"

definition receipt_verify ::
  "(string list \<Rightarrow> string) \<Rightarrow> ('key \<Rightarrow> string \<Rightarrow> u8 list \<Rightarrow> bool) \<Rightarrow> 'key \<Rightarrow> receipt \<Rightarrow> admission" where
  "receipt_verify json_strings ed_verify key r =
     bind_res (receipt_validate r)
       (\<lambda>_. check_signature ed_verify key (receipt_bytes json_strings r) (re_signature r))"

record report =
  rp_schema :: u16
  rp_request :: string
  rp_generation :: u64
  rp_phase :: lifecycle_phase
  rp_targets :: u32
  rp_succeeded :: u32
  rp_failed :: u32
  rp_coordinator :: string
  rp_signature :: string

definition report_bytes :: "report \<Rightarrow> string" where
  "report_bytes r = join_with ''|''
     [''magic-mesh:fleet-lifecycle-report:v1'', display (rp_schema r), rp_request r,
      display (rp_generation r), phase_json (rp_phase r), display (rp_targets r),
      display (rp_succeeded r), display (rp_failed r), rp_coordinator r]"

definition report_sign :: "('sk \<Rightarrow> string \<Rightarrow> u8 list) \<Rightarrow> 'sk \<Rightarrow> report \<Rightarrow> report" where
  "report_sign ed_sign sk r = r\<lparr>rp_signature := hex_of_bytes (ed_sign sk (report_bytes r))\<rparr>"

definition report_validate :: "report \<Rightarrow> admission" where
  "report_validate r =
     bind_res (validate_common (rp_schema r) (rp_generation r) [(''request_id'', rp_request r)]) (\<lambda>_.
     if rp_targets r = 0 \<or> rp_succeeded r > rp_targets r \<or> rp_failed r > rp_targets r
        \<or> sat_add (rp_succeeded r) (rp_failed r) > rp_targets r
     then Inl (InvalidNumber ''target_count'')
     else if rp_coordinator r \<noteq> [] \<and>
        (length (rp_coordinator r) > MAX_LIFECYCLE_IDENTIFIER_BYTES \<or> \<not> list_all ident_char (rp_coordinator r))
     then Inl (InvalidField ''coordinator_id'')
     else if \<not> optional_signature (rp_signature r) then Inl (InvalidField ''signature_hex'')
     else Inr ())"

definition report_verify ::
  "('key \<Rightarrow> string \<Rightarrow> u8 list \<Rightarrow> bool) \<Rightarrow> 'key \<Rightarrow> report \<Rightarrow> admission" where
  "report_verify ed_verify key r =
     bind_res (report_validate r)
       (\<lambda>_. check_signature ed_verify key (report_bytes r) (rp_signature r))"

section \<open>The signed text determines the message\<close>

named_theorems bar_free \<open>texts without the separator of the signed text\<close>

lemma join_bar:
  "c \<notin> set s \<Longrightarrow> c \<notin> set t \<Longrightarrow> join_with [c] (s # u # us) = join_with [c] (t # v # vs)
    \<longleftrightarrow> s = t \<and> join_with [c] (u # us) = join_with [c] (v # vs)"
  by (simp add: sep_first)

lemma display_bar [bar_free]: "CHR ''|'' \<notin> set (display w)"
  unfolding display_def by (rule show_nat_no) (simp add: is_ascii_digit_of_char)

lemma display_i64_bar [bar_free]: "CHR ''|'' \<notin> set (display_i64 w)"
  unfolding display_i64_def by (rule show_int_no) (simp_all add: is_ascii_digit_of_char)

lemma display_i64_inj [simp]: "display_i64 v = display_i64 w \<longleftrightarrow> v = w"
  by (auto simp: display_i64_def intro: signed_word_eqI)

lemma display_bool_bar [bar_free]: "CHR ''|'' \<notin> set (display_bool b)"
  by (simp add: display_bool_def)

lemma identifier_bar [bar_free]: "is_identifier s \<Longrightarrow> CHR ''|'' \<notin> set s"
  by (auto simp: is_identifier_def list_all_iff ident_char_def is_ascii_alnum_def is_ascii_alpha_def
      is_ascii_digit_def)

lemma hex_bar [bar_free]: "hex_of_length 64 s \<Longrightarrow> CHR ''|'' \<notin> set s"
  by (auto simp: hex_of_length_def list_all_iff is_ascii_hexdigit_def is_ascii_digit_def)

lemma action_json_bar [bar_free]: "CHR ''|'' \<notin> set (action_json a)"
  by (cases a) simp_all

lemma action_json_inj [simp]: "action_json a = action_json b \<longleftrightarrow> a = b"
  by (cases a; cases b) simp_all

lemma phase_json_bar [bar_free]: "CHR ''|'' \<notin> set (phase_json p)"
  by (cases p) simp_all

lemma phase_json_inj [simp]: "phase_json p = phase_json q \<longleftrightarrow> p = q"
  by (cases p; cases q) simp_all

lemma expected_phrase_bar [bar_free]: "CHR ''|'' \<notin> set (expected_phrase a n)"
  using display_bar by (cases a) simp_all

section \<open>The contract of a signed message\<close>

text \<open>
  A kind of signed message: its signed text starts with the name of its kind, does not depend on
  the signature and, for messages of admissible shape, determines everything but the signature.
\<close>

locale signed_kind =
  fixes bytes :: "'m \<Rightarrow> string"
    and signature :: "'m \<Rightarrow> string"
    and put_signature :: "string \<Rightarrow> 'm \<Rightarrow> 'm"
    and shape :: "'m \<Rightarrow> bool"
    and domain :: string
  assumes bytes_put: "bytes (put_signature s m) = bytes m"
    and signature_put: "signature (put_signature s m) = s"
    and put_put: "put_signature s (put_signature r m) = put_signature s m"
    and put_signature: "put_signature (signature m) m = m"
    and shape_put: "shape (put_signature s m) = shape m"
    and domain_bar: "CHR ''|'' \<notin> set domain"
    and bytes_domain: "\<exists>x. bytes m = domain @ CHR ''|'' # x"
    and bytes_determine: "shape m \<Longrightarrow> shape m' \<Longrightarrow> bytes m = bytes m'
      \<Longrightarrow> put_signature s m = put_signature s m'"
begin

lemma bytes_split: "\<exists>x. split_once (CHR ''|'') (bytes m) = Some (domain, x)"
  using bytes_domain [of m] domain_bar by (auto simp: split_once_append)

lemma same_content:
  "shape m \<Longrightarrow> shape (put_signature r m') \<Longrightarrow> bytes m = bytes m' \<Longrightarrow> put_signature s m = put_signature s m'"
  using bytes_determine shape_put by blast

end

definition capsule_shape :: "capsule \<Rightarrow> bool" where
  "capsule_shape c \<longleftrightarrow> ca_schema c = LIFECYCLE_CONTRACT_SCHEMA_VERSION \<and> is_identifier (ca_id c)
     \<and> is_identifier (ca_target c) \<and> is_identifier (ca_key c) \<and> hex_of_length 64 (ca_digest c) \<and> ca_one_time c"

definition confirmation_shape :: "confirmation \<Rightarrow> bool" where
  "confirmation_shape c \<longleftrightarrow> cf_schema c = LIFECYCLE_CONTRACT_SCHEMA_VERSION \<and> is_identifier (cf_session c)
     \<and> hex_of_length 64 (cf_scope c) \<and> cf_phrase c = expected_phrase (cf_action c) (cf_count c)"

definition receipt_shape :: "receipt \<Rightarrow> bool" where
  "receipt_shape r \<longleftrightarrow> re_schema r = LIFECYCLE_CONTRACT_SCHEMA_VERSION \<and> is_identifier (re_request r)
     \<and> is_identifier (re_target r) \<and> re_completed r \<and> re_retained r = []"

definition report_shape :: "report \<Rightarrow> bool" where
  "report_shape r \<longleftrightarrow> rp_schema r = LIFECYCLE_CONTRACT_SCHEMA_VERSION \<and> is_identifier (rp_request r)"

lemma admitted_shape:
  "capsule_validate_at now c = Inr () \<Longrightarrow> capsule_shape c"
  "confirmation_validate f = Inr () \<Longrightarrow> confirmation_shape f"
  "receipt_validate e = Inr () \<Longrightarrow> receipt_shape e"
  "report_validate p = Inr () \<Longrightarrow> report_shape p"
  by (auto simp: capsule_validate_at_def capsule_shape_def confirmation_validate_def
      confirmation_shape_def receipt_validate_def receipt_shape_def report_validate_def report_shape_def
      bind_res_Inr validate_common_Inr split: if_splits)

interpretation capsules: signed_kind capsule_bytes ca_signature "\<lambda>s c. c\<lparr>ca_signature := s\<rparr>"
  capsule_shape "''magic-mesh:commissioning-capsule:v1''"
proof
  show "c\<lparr>ca_signature := s\<rparr> = c'\<lparr>ca_signature := s\<rparr>"
    if "capsule_shape c" "capsule_shape c'" "capsule_bytes c = capsule_bytes c'" for c c' s
    using that by (cases c; cases c') (simp add: capsule_bytes_def capsule_shape_def join_bar bar_free
      del: join_with.simps(3))
qed (auto simp: capsule_bytes_def capsule_shape_def)

interpretation confirmations: signed_kind confirmation_bytes cf_signature
  "\<lambda>s c. c\<lparr>cf_signature := s\<rparr>" confirmation_shape "''magic-mesh:lifecycle-confirmation:v1''"
proof
  show "c\<lparr>cf_signature := s\<rparr> = c'\<lparr>cf_signature := s\<rparr>"
    if "confirmation_shape c" "confirmation_shape c'" "confirmation_bytes c = confirmation_bytes c'" for c c' s
    using that by (cases c; cases c') (simp add: confirmation_bytes_def confirmation_shape_def join_bar
      bar_free del: join_with.simps(3))
qed (auto simp: confirmation_bytes_def confirmation_shape_def)

interpretation receipts: signed_kind "receipt_bytes json_strings" re_signature
  "\<lambda>s r. r\<lparr>re_signature := s\<rparr>" receipt_shape "''magic-mesh:offboarding-receipt:v1''" for json_strings
proof
  show "r\<lparr>re_signature := s\<rparr> = r'\<lparr>re_signature := s\<rparr>"
    if "receipt_shape r" "receipt_shape r'" "receipt_bytes json_strings r = receipt_bytes json_strings r'" for r r' s
    using that by (cases r; cases r') (simp add: receipt_bytes_def receipt_shape_def join_bar
      bar_free del: join_with.simps(3))
qed (auto simp: receipt_bytes_def receipt_shape_def)

interpretation reports: signed_kind report_bytes rp_signature "\<lambda>s r. r\<lparr>rp_signature := s\<rparr>"
  report_shape "''magic-mesh:fleet-lifecycle-report:v1''"
proof
  show "r\<lparr>rp_signature := s\<rparr> = r'\<lparr>rp_signature := s\<rparr>"
    if "report_shape r" "report_shape r'" "report_bytes r = report_bytes r'" for r r' s
    using that by (cases r; cases r') (simp add: report_bytes_def report_shape_def join_bar
      bar_free del: join_with.simps(3))
qed (auto simp: report_bytes_def report_shape_def)

section \<open>All signed messages\<close>

datatype lifecycle_message =
    MCapsule capsule
  | MConfirmation confirmation
  | MReceipt receipt
  | MReport report

fun message_bytes :: "(string list \<Rightarrow> string) \<Rightarrow> lifecycle_message \<Rightarrow> string" where
  "message_bytes js (MCapsule c) = capsule_bytes c"
| "message_bytes js (MConfirmation c) = confirmation_bytes c"
| "message_bytes js (MReceipt r) = receipt_bytes js r"
| "message_bytes js (MReport r) = report_bytes r"

fun message_admit :: "64 word \<Rightarrow> lifecycle_message \<Rightarrow> admission" where
  "message_admit now (MCapsule c) = capsule_validate_at now c"
| "message_admit now (MConfirmation c) = confirmation_validate c"
| "message_admit now (MReceipt r) = receipt_validate r"
| "message_admit now (MReport r) = report_validate r"

fun message_verify ::
  "(string list \<Rightarrow> string) \<Rightarrow> ('key \<Rightarrow> string \<Rightarrow> u8 list \<Rightarrow> bool) \<Rightarrow> 64 word \<Rightarrow> 'key \<Rightarrow> lifecycle_message \<Rightarrow> admission"
where
  "message_verify js ed_verify now key (MCapsule c) = capsule_verify_at ed_verify now key c"
| "message_verify js ed_verify now key (MConfirmation c) = confirmation_verify ed_verify key c"
| "message_verify js ed_verify now key (MReceipt r) = receipt_verify js ed_verify key r"
| "message_verify js ed_verify now key (MReport r) = report_verify ed_verify key r"

fun message_sign ::
  "(string list \<Rightarrow> string) \<Rightarrow> ('sk \<Rightarrow> string \<Rightarrow> u8 list) \<Rightarrow> string \<Rightarrow> 'sk \<Rightarrow> lifecycle_message \<Rightarrow> lifecycle_message"
where
  "message_sign js ed_sign key_id sk (MCapsule c) = MCapsule (capsule_sign ed_sign key_id sk c)"
| "message_sign js ed_sign key_id sk (MConfirmation c) = MConfirmation (confirmation_sign ed_sign key_id sk c)"
| "message_sign js ed_sign key_id sk (MReceipt r) = MReceipt (receipt_sign js ed_sign sk r)"
| "message_sign js ed_sign key_id sk (MReport r) = MReport (report_sign ed_sign sk r)"

fun put_signature :: "string \<Rightarrow> lifecycle_message \<Rightarrow> lifecycle_message" where
  "put_signature s (MCapsule c) = MCapsule (c\<lparr>ca_signature := s\<rparr>)"
| "put_signature s (MConfirmation c) = MConfirmation (c\<lparr>cf_signature := s\<rparr>)"
| "put_signature s (MReceipt r) = MReceipt (r\<lparr>re_signature := s\<rparr>)"
| "put_signature s (MReport r) = MReport (r\<lparr>rp_signature := s\<rparr>)"

text \<open>The key a message names, where its kind names one.\<close>

fun put_key :: "string \<Rightarrow> lifecycle_message \<Rightarrow> lifecycle_message" where
  "put_key k (MCapsule c) = MCapsule (c\<lparr>ca_key := k\<rparr>)"
| "put_key k (MConfirmation c) = MConfirmation (c\<lparr>cf_key := k\<rparr>)"
| "put_key k m = m"

fun message_shape :: "lifecycle_message \<Rightarrow> bool" where
  "message_shape (MCapsule c) = capsule_shape c"
| "message_shape (MConfirmation c) = confirmation_shape c"
| "message_shape (MReceipt r) = receipt_shape r"
| "message_shape (MReport r) = report_shape r"

lemma message_admit_shape: "message_admit now m = Inr () \<Longrightarrow> message_shape m"
  by (cases m) (auto dest: admitted_shape)

lemma message_shape_put [simp]: "message_shape (put_signature s m) = message_shape m"
  by (cases m) (simp_all add: capsules.shape_put confirmations.shape_put receipts.shape_put reports.shape_put)

lemma verify_check:
  "message_verify js ed_verify now key m = Inr () \<Longrightarrow>
     message_admit now m = Inr () \<and> (\<exists>s. ed_verify key (message_bytes js m) s)"
  by (cases m) (auto simp: capsule_verify_at_def confirmation_verify_def receipt_verify_def report_verify_def
      bind_res_Inr check_signature_def split: option.splits if_splits)

fun kind_domain :: "lifecycle_message \<Rightarrow> string" where
  "kind_domain (MCapsule c) = ''magic-mesh:commissioning-capsule:v1''"
| "kind_domain (MConfirmation c) = ''magic-mesh:lifecycle-confirmation:v1''"
| "kind_domain (MReceipt r) = ''magic-mesh:offboarding-receipt:v1''"
| "kind_domain (MReport r) = ''magic-mesh:fleet-lifecycle-report:v1''"

lemma bytes_kind: "\<exists>x. split_once (CHR ''|'') (message_bytes js m) = Some (kind_domain m, x)"
  using capsules.bytes_split confirmations.bytes_split receipts.bytes_split [of js] reports.bytes_split
  by (cases m) simp_all

lemma message_bytes_determine:
  assumes "message_shape m" and "message_shape m'" and eq: "message_bytes js m = message_bytes js m'"
  shows "put_signature s m = put_signature s m'"
proof -
  have kind: "kind_domain m = kind_domain m'" using bytes_kind [of js m] bytes_kind [of js m'] eq by auto
  show ?thesis
  proof (cases m)
    case (MCapsule c)
    moreover from kind MCapsule obtain c' where "m' = MCapsule c'" by (cases m') simp_all
    ultimately show ?thesis using assms capsules.bytes_determine [of c c' s] by simp
  next
    case (MConfirmation c)
    moreover from kind MConfirmation obtain c' where "m' = MConfirmation c'" by (cases m') simp_all
    ultimately show ?thesis using assms confirmations.bytes_determine [of c c' s] by simp
  next
    case (MReceipt c)
    moreover from kind MReceipt obtain c' where "m' = MReceipt c'" by (cases m') simp_all
    ultimately show ?thesis using assms receipts.bytes_determine [of c c' js s] by simp
  next
    case (MReport c)
    moreover from kind MReport obtain c' where "m' = MReport c'" by (cases m') simp_all
    ultimately show ?thesis using assms reports.bytes_determine [of c c' s] by simp
  qed
qed

lemma decode_encode_signature: "length s = 64 \<Longrightarrow> decode_hex_64 (hex_of_bytes s) = Some s"
  by (simp add: decode_hex_64_def bytes_of_hex_of_bytes hex_of_bytes_digits)

text \<open>C9. Only what was issued is accepted. If a signature under the key verifies only over the text of a
  message its holder issued, and every issued message was admissible when it was issued (at some
  time, with some signature), then an accepted message is one of the issued ones in every field
  but the text of its signature: no field can be exchanged, and a message of one kind is never
  taken for one of another.\<close>

theorem accepted_messages_were_issued:
  assumes unforgeable: "\<And>bytes s. ed_verify key bytes s \<longrightarrow> bytes \<in> message_bytes js ` issued"
    and checked: "\<And>m'. m' \<in> issued \<Longrightarrow> \<exists>now' s. message_admit now' (put_signature s m') = Inr ()"
    and accepted: "message_verify js ed_verify now key m = Inr ()"
  shows "message_admit now m = Inr () \<and> (\<exists>m' \<in> issued. put_signature s m' = put_signature s m)"
proof -
  from accepted verify_check obtain sig where adm: "message_admit now m = Inr ()"
      and sig: "ed_verify key (message_bytes js m) sig" by metis
  from sig unforgeable obtain m' where m': "m' \<in> issued" "message_bytes js m = message_bytes js m'" by blast
  with checked have "message_shape m'" using message_admit_shape message_shape_put by metis
  with m' adm message_admit_shape message_bytes_determine show ?thesis by metis
qed

definition empty_receipt :: receipt where
  "empty_receipt = \<lparr>re_schema = 1, re_request = ''r'', re_target = ''t'', re_generation = 1,
     re_completed = True, re_retained = [], re_signature = []\<rparr>"

lemma empty_receipt_valid:
  "hex_of_length 128 s \<Longrightarrow> receipt_validate (empty_receipt\<lparr>re_signature := s\<rparr>) = Inr ()"
  by (simp add: receipt_validate_def empty_receipt_def validate_common_Inr bind_res_Inr is_identifier_def
      ident_char_def is_ascii_alnum_def is_ascii_alpha_def LIFECYCLE_CONTRACT_SCHEMA_VERSION_def
      MAX_LIFECYCLE_IDENTIFIER_BYTES_def optional_signature_def)

theorem accepted_messages_were_issued_witness:
  "\<exists>m' \<in> {MReceipt empty_receipt}. put_signature [] m'
     = put_signature [] (MReceipt (empty_receipt\<lparr>re_signature := hex_of_bytes (replicate 64 0)\<rparr>))"
proof -
  let ?s = "hex_of_bytes (replicate 64 0)"
  let ?m = "MReceipt (empty_receipt\<lparr>re_signature := ?s\<rparr>)"
  let ?js = "\<lambda>_ :: string list. ''[]''"
  let ?ok = "\<lambda>(k :: nat) b (s :: u8 list). b = message_bytes ?js (MReceipt empty_receipt)"
  have "hex_of_length 128 ?s" by (simp add: hex_of_length_def hex_of_bytes_digits)
  then have valid: "receipt_validate (empty_receipt\<lparr>re_signature := ?s\<rparr>) = Inr ()" by (rule empty_receipt_valid)
  then have "\<exists>now' s. message_admit now' (put_signature s m') = Inr ()" if "m' \<in> {MReceipt empty_receipt}" for m'
    using that by (auto intro!: exI [of _ ?s])
  moreover have "message_verify ?js ?ok 0 7 ?m = Inr ()"
    using valid by (simp add: receipt_verify_def check_signature_def decode_encode_signature receipts.bytes_put)
  ultimately show ?thesis
    using accepted_messages_were_issued [of ?ok 7 ?js "{MReceipt empty_receipt}" 0 ?m "[]"] by blast
qed

lemma resigned_admitted:
  "message_admit now (put_signature r m) = Inr () \<Longrightarrow> hex_of_length 128 t
    \<Longrightarrow> message_admit now (put_signature t m) = Inr ()"
  by (cases m) (auto simp: capsule_validate_at_def confirmation_validate_def receipt_validate_def
      report_validate_def optional_signature_def bind_res_Inr split: if_splits)

lemma signed_message:
  "message_sign js ed_sign key_id sk m = put_signature
     (hex_of_bytes (ed_sign sk (message_bytes js (put_key key_id m)))) (put_key key_id m)"
  by (cases m) (simp_all add: capsule_sign_def confirmation_sign_def receipt_sign_def report_sign_def Let_def
      capsules.bytes_put)

lemma verify_put:
  "message_verify js ed_verify now key (put_signature s m) =
     bind_res (message_admit now (put_signature s m))
       (\<lambda>_. check_signature ed_verify key (message_bytes js m) s)"
  by (cases m) (simp_all add: capsule_verify_at_def confirmation_verify_def receipt_verify_def
      report_verify_def capsules.bytes_put confirmations.bytes_put receipts.bytes_put reports.bytes_put)

lemma put_put: "put_signature s (put_signature t m) = put_signature s m"
  by (cases m) simp_all

text \<open>What is signed is accepted: a message that is admissible with the key it is signed under and
  some well-formed signature is accepted, right after it was signed, by every verifier that accepts
  what the signer signs.\<close>

theorem signed_messages_are_accepted:
  assumes scheme: "\<And>bytes. ed_verify key bytes (ed_sign sk bytes)"
    and width: "\<And>bytes. length (ed_sign sk bytes) = 64"
    and admitted: "message_admit now (put_signature r (put_key key_id m)) = Inr ()"
  shows "message_verify js ed_verify now key (message_sign js ed_sign key_id sk m) = Inr ()
    \<and> put_signature r (message_sign js ed_sign key_id sk m) = put_signature r (put_key key_id m)"
proof -
  let ?m = "put_key key_id m"
  let ?sig = "ed_sign sk (message_bytes js ?m)"
  have "hex_of_length 128 (hex_of_bytes ?sig)" by (simp add: hex_of_length_def hex_of_bytes_digits width)
  with admitted have "message_admit now (put_signature (hex_of_bytes ?sig) ?m) = Inr ()"
    by (rule resigned_admitted)
  then show ?thesis
    by (simp add: signed_message verify_put put_put check_signature_def decode_encode_signature width scheme)
qed

theorem signed_messages_are_accepted_witness:
  "message_verify (\<lambda>_. ''[]'') (\<lambda>k b s. s = replicate 64 (k + of_nat (length b))) 0 7
     (message_sign (\<lambda>_. ''[]'') (\<lambda>k b. replicate 64 (k + of_nat (length b))) ''k'' 7 (MReceipt empty_receipt)) = Inr ()"
proof -
  have "hex_of_length 128 (hex_of_bytes (replicate 64 0))"
    by (simp add: hex_of_length_def hex_of_bytes_digits)
  then show ?thesis
    using signed_messages_are_accepted [of "\<lambda>k b s. s = replicate 64 (k + of_nat (length b))" 7
        "\<lambda>k b. replicate 64 (k + of_nat (length b))" 7 0 "hex_of_bytes (replicate 64 0)" "''k''" "MReceipt empty_receipt"
        "\<lambda>_. ''[]''"]
    by (simp add: empty_receipt_valid)
qed

section \<open>Sessions and their scope\<close>

record session =
  ss_schema :: u16
  ss_session :: string
  ss_operator :: string
  ss_intent :: intent_kind
  ss_targets :: "string list"
  ss_generation :: u64
  ss_phase :: lifecycle_phase

definition session_validate :: "session \<Rightarrow> admission" where
  "session_validate s =
     bind_res (validate_common (ss_schema s) (ss_generation s)
       [(''session_id'', ss_session s), (''operator_id'', ss_operator s)]) (\<lambda>_.
     if ss_targets s = [] \<or> length (ss_targets s) > 256
        \<or> list_ex (\<lambda>t. t = [] \<or> length t > MAX_LIFECYCLE_IDENTIFIER_BYTES \<or> \<not> list_all ident_char t) (ss_targets s)
     then Inl (InvalidField ''target_ids'') else Inr ())"

text \<open>What is fed to the digest: the sorted identifiers without repetitions, a line each.\<close>

definition scope_text :: "string list \<Rightarrow> string" where
  "scope_text ids = concat (map (\<lambda>i. i @ [CHR 0x0A]) (remdups_adj (sort ids)))"

definition fleet_scope_digest :: "(string \<Rightarrow> u8 list) \<Rightarrow> string list \<Rightarrow> string" where
  "fleet_scope_digest sha256 ids = hex_of_bytes (sha256 (scope_text ids))"

lemma lines_inj:
  "\<forall>l \<in> set ls \<union> set ks. c \<notin> set l \<Longrightarrow> concat (map (\<lambda>i. i @ [c]) ls) = concat (map (\<lambda>i. i @ [c]) ks) \<Longrightarrow> ls = ks"
  for c :: char
proof (induction ls arbitrary: ks)
  case Nil
  then show ?case by (cases ks) auto
next
  case (Cons l ls)
  from Cons.prems(2) obtain k ks' where ks: "ks = k # ks'" by (cases ks) auto
  with Cons.prems(2) have "l @ c # concat (map (\<lambda>i. i @ [c]) ls) = k @ c # concat (map (\<lambda>i. i @ [c]) ks')" by simp
  moreover have "c \<notin> set l" and "c \<notin> set k" using Cons.prems(1) ks by auto
  note sep_first [OF this]
  ultimately have "l = k" "concat (map (\<lambda>i. i @ [c]) ls) = concat (map (\<lambda>i. i @ [c]) ks')"
    by simp_all
  then show ?case using Cons.IH [of ks'] Cons.prems(1) ks by auto
qed

lemma identifier_newline: "is_identifier s \<Longrightarrow> CHR 0x0A \<notin> set s"
  by (auto simp: is_identifier_def list_all_iff ident_char_def is_ascii_alnum_def is_ascii_alpha_def
      is_ascii_digit_def)

lemma scope_text_set:
  assumes "list_all is_identifier ids" and "list_all is_identifier ids'"
  shows "scope_text ids = scope_text ids' \<longleftrightarrow> set ids = set ids'"
proof
  have "CHR 0x0A \<notin> set i" if "is_identifier i" for i
    using that by (rule identifier_newline)
  with assms have "\<forall>l \<in> set (remdups_adj (sort ids)) \<union> set (remdups_adj (sort ids')). CHR 0x0A \<notin> set l"
    by (auto simp: list_all_iff)
  moreover assume "scope_text ids = scope_text ids'"
  ultimately have "remdups_adj (sort ids) = remdups_adj (sort ids')"
    unfolding scope_text_def by (rule lines_inj)
  then have "set (remdups_adj (sort ids)) = set (remdups_adj (sort ids'))" by simp
  then show "set ids = set ids'" by simp
next
  assume "set ids = set ids'"
  then have "remdups_adj (sort ids) = remdups_adj (sort ids')"
    by (intro sorted_distinct_set_unique) (simp_all add: remdups_adj_sorted_distinct sorted_remdups_adj)
  then show "scope_text ids = scope_text ids'" by (simp add: scope_text_def)
qed

lemma session_targets: "session_validate s = Inr () \<Longrightarrow> list_all is_identifier (ss_targets s)"
  by (auto simp: session_validate_def bind_res_Inr list_ex_iff list_all_iff is_identifier_def not_less
      split: if_splits)

text \<open>A confirmation binds the scope of its session: barring a collision of the digest on these two
  texts, the scope digests of two admissible sessions agree exactly if the sessions name the same
  seats, whatever their order and repetitions; so a confirmation that is accepted for both covers
  the same seats, and its phrase states the action and the count that the message carries.\<close>

theorem confirmation_binds_scope:
  assumes "session_validate s = Inr ()" and "session_validate s' = Inr ()"
    and collision: "sha256 (scope_text (ss_targets s)) = sha256 (scope_text (ss_targets s'))
      \<longrightarrow> scope_text (ss_targets s) = scope_text (ss_targets s')"
  shows "(fleet_scope_digest sha256 (ss_targets s) = fleet_scope_digest sha256 (ss_targets s')
        \<longleftrightarrow> set (ss_targets s) = set (ss_targets s'))
    \<and> (confirmation_validate c = Inr () \<and> cf_scope c = fleet_scope_digest sha256 (ss_targets s)
        \<and> cf_scope c = fleet_scope_digest sha256 (ss_targets s')
        \<longrightarrow> set (ss_targets s) = set (ss_targets s')
          \<and> cf_phrase c = expected_phrase (cf_action c) (cf_count c) \<and> cf_count c \<noteq> 0)"
proof -
  have "sha256 (scope_text (ss_targets s)) = sha256 (scope_text (ss_targets s'))
      \<longleftrightarrow> set (ss_targets s) = set (ss_targets s')"
    using scope_text_set [OF assms(1,2) [THEN session_targets]] collision by auto
  moreover have "hex_of_bytes a = hex_of_bytes b \<longleftrightarrow> a = b" for a b
    by (metis bytes_of_hex_of_bytes option.inject)
  ultimately have digest: "fleet_scope_digest sha256 (ss_targets s) = fleet_scope_digest sha256 (ss_targets s')
      \<longleftrightarrow> set (ss_targets s) = set (ss_targets s')" by (simp add: fleet_scope_digest_def)
  moreover have "cf_phrase c = expected_phrase (cf_action c) (cf_count c) \<and> cf_count c \<noteq> 0"
    if "confirmation_validate c = Inr ()"
    using that by (auto simp: confirmation_validate_def bind_res_Inr split: if_splits)
  ultimately show ?thesis by auto
qed

definition session_over :: "string list \<Rightarrow> session" where
  "session_over ids = \<lparr>ss_schema = 1, ss_session = ''s'', ss_operator = ''a'', ss_intent = OffboardIntent,
     ss_targets = ids, ss_generation = 1, ss_phase = Planned\<rparr>"

theorem confirmation_binds_scope_witness:
  "fleet_scope_digest (map of_char) (ss_targets (session_over [''b'', ''a'', ''b'']))
     = fleet_scope_digest (map of_char) (ss_targets (session_over [''a'', ''b'']))"
proof -
  have "session_validate (session_over [''b'', ''a'', ''b'']) = Inr ()"
    "session_validate (session_over [''a'', ''b'']) = Inr ()"
    by (simp_all add: session_validate_def session_over_def validate_common_Inr bind_res_Inr is_identifier_def
        ident_char_def is_ascii_alnum_def is_ascii_alpha_def LIFECYCLE_CONTRACT_SCHEMA_VERSION_def
        MAX_LIFECYCLE_IDENTIFIER_BYTES_def)
  moreover have "scope_text [''b'', ''a'', ''b''] = scope_text [''a'', ''b'']" by (simp add: scope_text_def)
  ultimately show ?thesis
    using confirmation_binds_scope [of "session_over [''b'', ''a'', ''b'']" "session_over [''a'', ''b'']"
        "map of_char"]
    by (auto simp: session_over_def)
qed

end
