(* ===== verification/CollabTypes.thy ===== *)
theory CollabTypes
  imports OrdMap HexText
begin

text \<open>
  The types of the collaboration spaces (\<open>crates/shared/mde-collab-types/src\<close>): the hybrid logical
  clock (\<open>clock.rs\<close>), the values (\<open>value.rs\<close>, \<open>space.rs\<close>), the event kinds (\<open>event.rs\<close>) and the
  envelope of one event (\<open>envelope.rs\<close>).  An identifier is the 128 bits of its UUID;
  milliseconds (\<open>i64\<close>) are integers, with the saturation of a subtraction written out.
\<close>

section \<open>The clock\<close>

datatype actor_clock = ActorClock (wall_ms: u64) (ck_counter: u32)

instantiation actor_clock :: linorder
begin

definition less_eq_actor_clock :: "actor_clock \<Rightarrow> actor_clock \<Rightarrow> bool" where
  "less_eq_actor_clock a b = ((wall_ms a, ck_counter a) \<le> (wall_ms b, ck_counter b))"

definition less_actor_clock :: "actor_clock \<Rightarrow> actor_clock \<Rightarrow> bool" where
  "less_actor_clock a b = ((wall_ms a, ck_counter a) < (wall_ms b, ck_counter b))"

instance
  by standard (auto simp: less_eq_actor_clock_def less_actor_clock_def actor_clock.expand)

end

definition clock_zero :: actor_clock where
  "clock_zero = ActorClock 0 0"

definition clock_tick :: "actor_clock \<Rightarrow> u64 \<Rightarrow> actor_clock" where
  "clock_tick c now =
     (if now > wall_ms c then ActorClock now 0 else ActorClock (wall_ms c) (sat_add (ck_counter c) 1))"

definition clock_merge :: "actor_clock \<Rightarrow> actor_clock \<Rightarrow> u64 \<Rightarrow> actor_clock" where
  "clock_merge c observed now =
     (let wall = max (max (wall_ms c) (wall_ms observed)) now;
          counter =
            (if wall = wall_ms c \<and> wall = wall_ms observed
             then sat_add (max (ck_counter c) (ck_counter observed)) 1
             else if wall = wall_ms c then sat_add (ck_counter c) 1
             else if wall = wall_ms observed then sat_add (ck_counter observed) 1
             else 0)
      in ActorClock wall counter)"

lemma clock_zero_least: "clock_zero \<le> c"
  by (simp add: less_eq_actor_clock_def clock_zero_def less_eq_prod_def)

lemma clock_tick_ge: "c \<le> clock_tick c now"
  by (auto simp: less_eq_actor_clock_def clock_tick_def sat_add_one_le)

text \<open>A local stamp is later than the clock unless the counter is exhausted and the wall time stands.\<close>

lemma clock_tick_greater: "c < clock_tick c now \<longleftrightarrow> now > wall_ms c \<or> ck_counter c \<noteq> - 1"
  by (auto simp: less_actor_clock_def clock_tick_def sat_add_one_less)

lemma clock_merge_ge: "c \<le> clock_merge c observed now \<and> observed \<le> clock_merge c observed now"
proof -
  have "ck_counter c \<le> sat_add (max (ck_counter c) (ck_counter observed)) 1"
    "ck_counter observed \<le> sat_add (max (ck_counter c) (ck_counter observed)) 1"
    by (meson max.cobounded1 max.cobounded2 order_trans sat_add_one_le)+
  then show ?thesis
    by (auto simp: less_eq_actor_clock_def clock_merge_def Let_def sat_add_one_le max_def)
qed

section \<open>Values\<close>

type_synonym uuid = "128 word"
type_synonym space_id = uuid
type_synonym event_id = uuid
type_synonym thread_id = uuid
type_synonym document_id = uuid
type_synonym file_ref_id = uuid
type_synonym transfer_id = uuid
type_synonym call_id = uuid
type_synonym actor_id = string
type_synonym millis = int

definition sat_millis_sub :: "millis \<Rightarrow> millis \<Rightarrow> millis" where
  "sat_millis_sub a b = max (- (2 ^ 63)) (min (2 ^ 63 - 1) (a - b))"

datatype space_kind = Direct | Team | Incident | Project
datatype space_role = Owner | Member
datatype presence_state = Online | Away | Dnd | FreeForChat | Invisible | Offline
datatype alert_severity = SevInfo | SevWarning | SevCritical
datatype alert_action_kind = Safe | Destructive | AckAction | SnoozeAction

record alert_action =
  aa_id :: string
  aa_label :: string
  aa_verb :: "string option"
  aa_kind :: alert_action_kind

record alert_payload =
  al_severity :: alert_severity
  al_source :: string
  al_headline :: string
  al_fields :: "(string, string) omap"
  al_actions :: "alert_action list"
  al_goto :: "string option"

datatype clip_item_kind = TextClip | UriClip

record clipboard_item =
  ci_kind :: clip_item_kind
  ci_preview :: string
  ci_sha256 :: string
  ci_len :: u64
  ci_source :: string

record payload_ref =
  pr_sha256 :: string
  pr_len :: u64
  pr_content_type :: "string option"

record file_ref =
  fl_name :: string
  fl_size :: u64
  fl_sha256 :: string
  fl_mime :: "string option"

datatype transfer_method = NodeTransfer | Sftp | Http | Rsync | BrowserDownload | MusicLibrary
datatype transfer_direction = Inbound | Outbound
datatype transfer_state = Queued | Active | Paused | Completed | TransferFailed | Canceled
datatype transfer_control = Pause | Resume | Cancel
datatype call_kind = Audio | Video | Screen | CoEdit | RemoteDesktop
datatype participant_state = Ringing | Connected | Declined | Left
datatype review_verdict = Approved | ChangesRequested | Commented

record document_change =
  dc_payload :: payload_ref
  dc_summary :: "string option"

datatype ai_suggestion_kind = SmartReply | Summary | ActionItem | DraftEdit

record ai_suggestion =
  ai_id :: string
  ai_kind :: ai_suggestion_kind
  ai_target :: "event_id option"
  ai_summary :: string
  ai_confidence :: "u8 option"
  ai_provenance :: string

section \<open>Events\<close>

datatype (plugins only: code size) event_kind =
    SpaceCreated space_kind string
  | SpaceRenamed string
  | SpaceArchived
  | SpaceDeleted
  | MemberJoined actor_id space_role
  | MemberLeft actor_id
  | MemberRoleChanged actor_id space_role
  | PresenceChanged actor_id presence_state "string option"
  | MessagePosted string "thread_id option"
  | MessageEdited event_id string
  | MessageDeleted event_id
  | MessagePinned event_id
  | MessageUnpinned event_id
  | MessageSaved event_id
  | MessageUnsaved event_id
  | ThreadStarted thread_id event_id "string option"
  | ThreadResolved thread_id
  | ThreadReopened thread_id
  | TaskCreated string "event_id option"
  | TaskUpdated event_id string
  | TaskChecked event_id bool
  | TaskCompleted event_id
  | TaskReopened event_id
  | AlertRaised alert_payload
  | AlertAcknowledged event_id
  | AlertSnoozed event_id millis
  | AlertActionInvoked event_id string bool "string option"
  | ClipboardPublished clipboard_item
  | ClipboardPinned event_id
  | ClipboardUnpinned event_id
  | ClipboardDeleted event_id
  | DocumentCreated document_id string
  | DocumentUpdated document_id document_change
  | ReviewRequested document_id "actor_id list"
  | ReviewSubmitted document_id review_verdict "string option"
  | FileLinked file_ref_id file_ref
  | FileUnlinked file_ref_id
  | TransferStarted transfer_id file_ref_id transfer_method transfer_direction
  | TransferStateChanged transfer_id transfer_state
  | CallStarted call_id call_kind actor_id
  | CallParticipantChanged call_id actor_id participant_state
  | CallParticipantMuted call_id actor_id bool
  | CallEnded call_id "string option"
  | AiSuggestionOffered ai_suggestion
  | AiSuggestionResolved string bool

record event_signature =
  es_pubkey :: string
  es_sig :: string

record envelope =
  en_schema :: u16
  en_id :: event_id
  en_space :: space_id
  en_actor :: actor_id
  en_clock :: actor_clock
  en_created :: millis
  en_kind :: event_kind
  en_payload :: "payload_ref option"
  en_signature :: "event_signature option"

definition SCHEMA_VERSION :: u16 where
  "SCHEMA_VERSION = 1"

definition envelope_new ::
  "event_id \<Rightarrow> space_id \<Rightarrow> actor_id \<Rightarrow> actor_clock \<Rightarrow> millis \<Rightarrow> event_kind \<Rightarrow> envelope" where
  "envelope_new i space actor clock created kind =
     \<lparr>en_schema = SCHEMA_VERSION, en_id = i, en_space = space, en_actor = actor, en_clock = clock,
      en_created = created, en_kind = kind, en_payload = None, en_signature = None\<rparr>"

end
