(* ===== verification/CollabEnvelope.thy ===== *)
theory CollabEnvelope
  imports CollabTypes
begin

text \<open>
  The signed envelope of one event (\<open>crates/shared/mde-collab-types/src/envelope.rs\<close>): the text that
  is signed, the signature and its check, and the last writer among the events of one entity.
  What the code calls and the repository does not hold is collected in \<open>wire\<close>: the display of a
  UUID, the JSON of an event kind and of a payload reference, and the Ed25519 operations.
\<close>

record 'sk wire =
  wi_uuid :: "uuid \<Rightarrow> string"
  wi_kind :: "event_kind \<Rightarrow> string"
  wi_ref :: "payload_ref option \<Rightarrow> string"
  wi_public :: "'sk \<Rightarrow> u8 list"
  wi_sign :: "'sk \<Rightarrow> string \<Rightarrow> u8 list"
  wi_check :: "u8 list \<Rightarrow> string \<Rightarrow> u8 list \<Rightarrow> bool"

section \<open>The text that is signed\<close>

definition SIGNING_DOMAIN :: string where
  "SIGNING_DOMAIN = ''mde-collab-event-v1''"

abbreviation newline :: char where
  "newline \<equiv> CHR 0x0A"

definition signing_bytes :: "'sk wire \<Rightarrow> envelope \<Rightarrow> string" where
  "signing_bytes W e =
     SIGNING_DOMAIN @ newline # display (en_schema e) @ newline # wi_uuid W (en_id e)
       @ newline # wi_uuid W (en_space e) @ newline # en_actor e
       @ newline # display (wall_ms (en_clock e)) @ CHR '':'' # display (ck_counter (en_clock e))
       @ newline # show_int (en_created e) @ newline # wi_kind W (en_kind e) @ newline # wi_ref W (en_payload e)"


section \<open>Signing and checking\<close>

definition sign_envelope :: "'sk wire \<Rightarrow> 'sk \<Rightarrow> envelope \<Rightarrow> envelope" where
  "sign_envelope W sk e =
     e\<lparr>en_signature := Some \<lparr>es_pubkey = hex_of_bytes (wi_public W sk),
                             es_sig = hex_of_bytes (wi_sign W sk (signing_bytes W e))\<rparr>\<rparr>"

definition hex_to_bytes :: "nat \<Rightarrow> string \<Rightarrow> u8 list option" where
  "hex_to_bytes n s = (if length s \<noteq> n * 2 then None else bytes_of_hex s)"

text \<open>\<open>wi_check\<close> also refuses a key that is not a point of the curve.\<close>

definition verify_envelope :: "'sk wire \<Rightarrow> envelope \<Rightarrow> bool" where
  "verify_envelope W e =
     (case en_signature e of
        None \<Rightarrow> False
      | Some s \<Rightarrow>
          (case (hex_to_bytes 32 (es_pubkey s), hex_to_bytes 64 (es_sig s)) of
             (Some pub, Some sig) \<Rightarrow> wi_check W pub (signing_bytes W e) sig
           | _ \<Rightarrow> False))"

definition lww_key :: "envelope \<Rightarrow> actor_clock \<times> event_id" where
  "lww_key e = (en_clock e, en_id e)"

definition last_writer_wins :: "envelope list \<Rightarrow> envelope option" where
  "last_writer_wins es = reduce_list (\<lambda>a b. if lww_key a \<le> lww_key b then b else a) es"

lemma signing_bytes_signature [simp]: "signing_bytes W (e\<lparr>en_signature := s\<rparr>) = signing_bytes W e"
  by (simp add: signing_bytes_def)

text \<open>
  What the development relies on in the code it does not hold.  A UUID is shown without a line
  break and two are shown differently; so is a JSON text, a break inside a string being escaped
  (stated for the events \<open>es\<close> at hand).  A key checks the signatures it makes, in 32 and 64 bytes.
\<close>

definition texts_ok :: "'sk wire \<Rightarrow> envelope list \<Rightarrow> bool" where
  "texts_ok W es \<longleftrightarrow>
     inj (wi_uuid W) \<and> (\<forall>u. newline \<notin> set (wi_uuid W u))
     \<and> inj_on (wi_kind W) (en_kind ` set es) \<and> inj_on (wi_ref W) (en_payload ` set es)
     \<and> list_all (\<lambda>e. newline \<notin> set (wi_kind W (en_kind e)) \<and> newline \<notin> set (wi_ref W (en_payload e))) es"

definition signs_and_checks :: "'sk wire \<Rightarrow> 'sk \<Rightarrow> bool" where
  "signs_and_checks W sk \<longleftrightarrow>
     length (wi_public W sk) = 32 \<and> (\<forall>m. length (wi_sign W sk m) = 64)
     \<and> (\<forall>m. wi_check W (wi_public W sk) m (wi_sign W sk m))"

lemma verify_signed: "signs_and_checks W sk \<Longrightarrow> verify_envelope W (sign_envelope W sk e)"
  by (simp add: signs_and_checks_def verify_envelope_def sign_envelope_def hex_to_bytes_def
      bytes_of_hex_of_bytes)

section \<open>The signed text determines the event\<close>

lemma newline_no_digit: "\<not> is_ascii_digit newline"
  by (simp add: is_ascii_digit_def)

lemma colon_no_digit: "\<not> is_ascii_digit (CHR '':'')"
  by (simp add: is_ascii_digit_def)

text \<open>
  The first four fields and the last four have no line break of their own, so the actor is what
  stands between them, whatever it contains.
\<close>

lemma signing_bytes_inj:
  assumes ok: "texts_ok W es" and mem: "e \<in> set es" "f \<in> set es"
    and eq: "signing_bytes W e = signing_bytes W f"
  shows "e\<lparr>en_signature := s\<rparr> = f\<lparr>en_signature := s\<rparr>"
proof -
  let ?tail = "\<lambda>e. en_actor e @ newline # display (wall_ms (en_clock e)) @ CHR '':'' # display (ck_counter (en_clock e))
       @ newline # show_int (en_created e) @ newline # wi_kind W (en_kind e) @ newline # wi_ref W (en_payload e)"
  let ?clock = "\<lambda>e. display (wall_ms (en_clock e)) @ CHR '':'' # display (ck_counter (en_clock e))"
  have uuid: "newline \<notin> set (wi_uuid W u)" "wi_uuid W u = wi_uuid W v \<longleftrightarrow> u = v" for u v
    using ok by (auto simp: texts_ok_def inj_eq)
  have texts: "newline \<notin> set (wi_kind W (en_kind x))" "newline \<notin> set (wi_ref W (en_payload x))"
    if "x \<in> set es" for x
    using ok that by (auto simp: texts_ok_def list_all_iff)
  have schema: "newline \<notin> set (display (w :: u16))" for w by (rule display_no [OF newline_no_digit])
  have created: "newline \<notin> set (show_int i)" for i by (rule show_int_no) (simp_all add: newline_no_digit)
  have clock: "newline \<notin> set (?clock x)" for x by (simp add: display_no newline_no_digit)
  from eq have "display (en_schema e) = display (en_schema f)" and ids: "en_id e = en_id f" "en_space e = en_space f"
    and tail: "?tail e = ?tail f"
    by (simp_all add: signing_bytes_def sep_first [OF schema schema] sep_first [OF uuid(1) uuid(1)] uuid(2))
  from tail have "(((en_actor e @ newline # ?clock e) @ newline # show_int (en_created e)) @ newline # wi_kind W (en_kind e))
        @ newline # wi_ref W (en_payload e)
      = (((en_actor f @ newline # ?clock f) @ newline # show_int (en_created f)) @ newline # wi_kind W (en_kind f))
        @ newline # wi_ref W (en_payload f)"
    by simp
  then have "en_actor e = en_actor f" "?clock e = ?clock f" "show_int (en_created e) = show_int (en_created f)"
    "wi_kind W (en_kind e) = wi_kind W (en_kind f)" "wi_ref W (en_payload e) = wi_ref W (en_payload f)"
    by (simp_all only: sep_last texts mem created clock simp_thms)
  moreover from this have "en_clock e = en_clock f"
    by (simp add: sep_first [OF display_no display_no] colon_no_digit actor_clock.expand)
  moreover have "en_kind e = en_kind f" "en_payload e = en_payload f"
    using calculation ok mem by (auto simp: texts_ok_def dest: inj_onD)
  ultimately show ?thesis using ids \<open>display (en_schema e) = display (en_schema f)\<close>
    by (simp add: envelope.equality)
qed

definition only_signed :: "'sk wire \<Rightarrow> 'sk \<Rightarrow> envelope list \<Rightarrow> bool" where
  "only_signed W sk es \<longleftrightarrow> (\<forall>m s. wi_check W (wi_public W sk) m s \<longrightarrow> m \<in> signing_bytes W ` set es)"

definition claims_key :: "envelope \<Rightarrow> u8 list \<Rightarrow> bool" where
  "claims_key e pub \<longleftrightarrow> (\<exists>s. en_signature e = Some s \<and> hex_to_bytes 32 (es_pubkey s) = Some pub)"

text \<open>C15. A key vouches for what it signed and for nothing else.  Where every text that checks under the
  key of \<open>sk\<close> is the signed text of one of the events \<open>es\<close>, a received event \<open>f\<close> that verifies under
  that key is one of \<open>es\<close> up to the signature it carries: no field of it was changed on the way, and
  no choice of fields (an actor's name with line breaks included) passes for another event.
\<close>

theorem verified_events_were_signed:
  assumes "texts_ok W (f # es)" and "only_signed W sk es"
    and "claims_key f (wi_public W sk)" and "verify_envelope W f"
  shows "list_ex (\<lambda>e. e\<lparr>en_signature := en_signature f\<rparr> = f) es"
proof -
  obtain sig where "wi_check W (wi_public W sk) (signing_bytes W f) sig"
    using assms(3,4) by (auto simp: claims_key_def verify_envelope_def split: option.splits prod.splits)
  with assms(2) obtain e where e: "e \<in> set es" "signing_bytes W e = signing_bytes W f"
    by (auto simp: only_signed_def)
  then have "e\<lparr>en_signature := en_signature f\<rparr> = f\<lparr>en_signature := en_signature f\<rparr>"
    by (intro signing_bytes_inj [OF assms(1)]) simp_all
  with e show ?thesis by (auto simp: list_ex_iff)
qed

definition event0 :: envelope where
  "event0 = envelope_new 7 3 ''seat-1'' (ActorClock 5 0) 5 (SpaceRenamed ''ops'')"

definition wire0 :: "unit wire" where
  "wire0 = \<lparr>wi_uuid = display, wi_kind = (\<lambda>_. ''rename''), wi_ref = (\<lambda>_. ''null''),
            wi_public = (\<lambda>_. replicate 32 1), wi_sign = (\<lambda>_ _. replicate 64 2),
            wi_check = (\<lambda>_ _ _. False)\<rparr>"

theorem verified_events_were_signed_witness:
  "list_ex (\<lambda>e. e\<lparr>en_signature := en_signature (sign_envelope wire0 () event0)\<rparr>
               = sign_envelope wire0 () event0) [event0]"
proof -
  let ?W = "wire0\<lparr>wi_check := \<lambda>pub m s. m = signing_bytes wire0 event0\<rparr>"
  let ?f = "sign_envelope wire0 () event0"
  have same: "signing_bytes ?W e = signing_bytes wire0 e" for e by (simp add: signing_bytes_def)
  have "inj display" by (simp add: inj_def)
  then have "texts_ok ?W (?f # [event0])"
    by (simp add: texts_ok_def wire0_def sign_envelope_def event0_def envelope_new_def display_no newline_no_digit)
  moreover have "only_signed ?W () [event0]" by (simp add: only_signed_def same)
  moreover have "claims_key ?f (wi_public ?W ())"
    by (simp add: claims_key_def sign_envelope_def hex_to_bytes_def bytes_of_hex_of_bytes wire0_def)
  moreover have "verify_envelope ?W ?f"
    by (simp add: verify_envelope_def sign_envelope_def hex_to_bytes_def bytes_of_hex_of_bytes same)
      (simp add: wire0_def)
  ultimately show ?thesis by (rule verified_events_were_signed)
qed

section \<open>The last writer\<close>

lemma last_writer_foldl:
  "lww_key (foldl (\<lambda>a b. if lww_key a \<le> lww_key b then b else a) e es) = Max (lww_key ` set (e # es))"
proof (induction es arbitrary: e)
  case (Cons x es)
  then show ?case
    by (cases "es = []") (auto simp: max_def max.assoc [symmetric] Max_insert2 insert_commute)
qed simp

lemma last_writer_Some:
  "last_writer_wins es = Some e \<Longrightarrow> e \<in> set es \<and> lww_key e = Max (lww_key ` set es)"
proof (cases es)
  case (Cons x xs)
  assume "last_writer_wins es = Some e"
  then have e: "e = foldl (\<lambda>a b. if lww_key a \<le> lww_key b then b else a) x xs"
    by (simp add: last_writer_wins_def Cons)
  have "e \<in> set (x # xs)" unfolding e by (rule foldl_select_mem) simp
  then show ?thesis using last_writer_foldl [of x xs] e Cons by simp
qed (simp add: last_writer_wins_def)

text \<open>The last writer of an entity does not depend on the order in which the events arrived: any two
  arrangements of the same events, with one event per identifier, have the same last writer.
\<close>

theorem last_writer_order_independent:
  assumes "set es = set fs" and "inj_on en_id (set es)"
  shows "last_writer_wins es = last_writer_wins fs"
proof (cases "es = []")
  case True
  with assms show ?thesis by simp
next
  case False
  then obtain e f where ef: "last_writer_wins es = Some e" "last_writer_wins fs = Some f"
    using assms(1) by (cases es; cases fs) (simp_all add: last_writer_wins_def)
  from last_writer_Some [OF ef(1)] last_writer_Some [OF ef(2)] assms(1)
  have "e \<in> set es" "f \<in> set es" "lww_key e = lww_key f" by simp_all
  then have "e = f" using assms(2) by (auto simp: lww_key_def dest: inj_onD)
  with ef show ?thesis by simp
qed

theorem last_writer_order_independent_witness:
  "last_writer_wins [event0, event0\<lparr>en_id := 8\<rparr>] = last_writer_wins [event0\<lparr>en_id := 8\<rparr>, event0]"
  by (rule last_writer_order_independent)
    (auto simp: event0_def envelope_new_def inj_on_def insert_commute)

end
