(* ===== verification/CollabDomain.thy ===== *)
theory CollabDomain
  imports CollabTypes
begin

text \<open>
  The folded aggregate of a seat (\<open>crates/services/mde-collab-core/src/domain.rs\<close>): the facts
  that commands are validated against, as a fold of the signed events in their canonical order.
  One equation of \<open>apply_kind\<close> is one branch of \<open>DomainState::apply\<close>; a \<open>BTreeMap\<close> is an ordered
  map and a \<open>BTreeSet\<close> a set.
\<close>

section \<open>The aggregate\<close>

record member_agg =
  mb_role :: space_role
  mb_present :: bool

record space_agg =
  sp_kind :: space_kind
  sp_name :: string
  sp_deleted :: bool
  sp_members :: "(actor_id, member_agg) omap"

record message_agg =
  ms_space :: space_id
  ms_author :: actor_id
  ms_created :: millis
  ms_deleted :: bool
  ms_pinned :: bool

record task_agg =
  tk_space :: space_id
  tk_by :: actor_id
  tk_completed :: bool

record clip_agg =
  cp_space :: space_id
  cp_deleted :: bool
  cp_pinned :: bool

record call_agg =
  cl_space :: space_id
  cl_ended :: bool
  cl_participants :: "(actor_id, participant_state) omap"
  cl_muted :: "(actor_id, bool) omap"

record transfer_agg =
  tf_space :: space_id
  tf_state :: transfer_state

record file_agg =
  fa_space :: space_id
  fa_present :: bool
  fa_reference :: file_ref
  fa_generation :: millis

record domain_state =
  ds_spaces :: "(space_id, space_agg) omap"
  ds_messages :: "(event_id, message_agg) omap"
  ds_saved :: "(actor_id, event_id set) omap"
  ds_threads :: "(thread_id, space_id) omap"
  ds_tasks :: "(event_id, task_agg) omap"
  ds_documents :: "(document_id, space_id) omap"
  ds_files :: "(file_ref_id, file_agg) omap"
  ds_transfers :: "(transfer_id, transfer_agg) omap"
  ds_calls :: "(call_id, call_agg) omap"
  ds_clips :: "(event_id, clip_agg) omap"
  ds_alerts :: "(event_id, space_id \<times> (string, alert_action_kind) omap) omap"

definition domain_default :: domain_state where
  "domain_default = \<lparr>ds_spaces = om_empty, ds_messages = om_empty, ds_saved = om_empty,
     ds_threads = om_empty, ds_tasks = om_empty, ds_documents = om_empty, ds_files = om_empty,
     ds_transfers = om_empty, ds_calls = om_empty, ds_clips = om_empty, ds_alerts = om_empty\<rparr>"

section \<open>Reading it\<close>

definition present_owner_count :: "space_agg \<Rightarrow> nat" where
  "present_owner_count s = length (filter (\<lambda>m. mb_present m \<and> mb_role m = Owner) (om_values (sp_members s)))"

definition space_of :: "domain_state \<Rightarrow> space_id \<Rightarrow> space_agg option" where
  "space_of s space = om_get (ds_spaces s) space"

definition member_of :: "domain_state \<Rightarrow> space_id \<Rightarrow> actor_id \<Rightarrow> member_agg option" where
  "member_of s space actor = Option.bind (space_of s space) (\<lambda>g. om_get (sp_members g) actor)"

definition is_member :: "domain_state \<Rightarrow> space_id \<Rightarrow> actor_id \<Rightarrow> bool" where
  "is_member s space actor = (case member_of s space actor of None \<Rightarrow> False | Some m \<Rightarrow> mb_present m)"

definition role_of :: "domain_state \<Rightarrow> space_id \<Rightarrow> actor_id \<Rightarrow> space_role option" where
  "role_of s space actor =
     (case member_of s space actor of None \<Rightarrow> None
      | Some m \<Rightarrow> if mb_present m then Some (mb_role m) else None)"

definition is_owner :: "domain_state \<Rightarrow> space_id \<Rightarrow> actor_id \<Rightarrow> bool" where
  "is_owner s space actor = (role_of s space actor = Some Owner)"

definition is_message_saved :: "domain_state \<Rightarrow> actor_id \<Rightarrow> event_id \<Rightarrow> bool" where
  "is_message_saved s actor message =
     (case om_get (ds_saved s) actor of None \<Rightarrow> False | Some ms \<Rightarrow> message \<in> ms)"

section \<open>Folding one event\<close>

definition upd_space :: "space_id \<Rightarrow> (space_agg \<Rightarrow> space_agg) \<Rightarrow> domain_state \<Rightarrow> domain_state" where
  "upd_space space f s = s\<lparr>ds_spaces := om_modify space f (ds_spaces s)\<rparr>"

definition upd_message :: "event_id \<Rightarrow> (message_agg \<Rightarrow> message_agg) \<Rightarrow> domain_state \<Rightarrow> domain_state" where
  "upd_message i f s = s\<lparr>ds_messages := om_modify i f (ds_messages s)\<rparr>"

definition upd_task :: "event_id \<Rightarrow> (task_agg \<Rightarrow> task_agg) \<Rightarrow> domain_state \<Rightarrow> domain_state" where
  "upd_task i f s = s\<lparr>ds_tasks := om_modify i f (ds_tasks s)\<rparr>"

definition upd_clip :: "event_id \<Rightarrow> (clip_agg \<Rightarrow> clip_agg) \<Rightarrow> domain_state \<Rightarrow> domain_state" where
  "upd_clip i f s = s\<lparr>ds_clips := om_modify i f (ds_clips s)\<rparr>"

text \<open>The call is changed only by events of its own space.\<close>

definition upd_call :: "call_id \<Rightarrow> space_id \<Rightarrow> (call_agg \<Rightarrow> call_agg) \<Rightarrow> domain_state \<Rightarrow> domain_state" where
  "upd_call i space f s =
     s\<lparr>ds_calls := om_modify i (\<lambda>c. if cl_space c = space then f c else c) (ds_calls s)\<rparr>"

definition any_connected :: "call_agg \<Rightarrow> bool" where
  "any_connected c = list_ex (\<lambda>p. p = Connected) (om_values (cl_participants c))"

definition participant_changed :: "actor_id \<Rightarrow> participant_state \<Rightarrow> call_agg \<Rightarrow> call_agg" where
  "participant_changed actor st c =
     (let c' = c\<lparr>cl_participants := om_put actor st (cl_participants c),
                 cl_muted := om_or_insert actor False (cl_muted c)\<rparr>
      in if any_connected c' then c' else c'\<lparr>cl_ended := True\<rparr>)"

definition visible_message :: "domain_state \<Rightarrow> space_id \<Rightarrow> event_id \<Rightarrow> bool" where
  "visible_message s space i =
     (case om_get (ds_messages s) i of None \<Rightarrow> False
      | Some m \<Rightarrow> ms_space m = space \<and> \<not> ms_deleted m)"

definition actions_map :: "alert_payload \<Rightarrow> (string, alert_action_kind) omap" where
  "actions_map al = fold (\<lambda>a m. om_put (aa_id a) (aa_kind a) m) (al_actions al) om_empty"

primrec apply_kind :: "event_kind \<Rightarrow> envelope \<Rightarrow> domain_state \<Rightarrow> domain_state" where
  "apply_kind (SpaceCreated k n) e s =
     s\<lparr>ds_spaces := om_or_insert (en_space e)
         \<lparr>sp_kind = k, sp_name = n, sp_deleted = False, sp_members = om_empty\<rparr> (ds_spaces s)\<rparr>"
| "apply_kind (SpaceRenamed n) e s = upd_space (en_space e) (\<lambda>g. g\<lparr>sp_name := n\<rparr>) s"
| "apply_kind SpaceArchived e s = s"
| "apply_kind SpaceDeleted e s =
     (if is_owner s (en_space e) (en_actor e)
      then upd_space (en_space e) (\<lambda>g. g\<lparr>sp_deleted := True\<rparr>) s else s)"
| "apply_kind (MemberJoined a r) e s =
     (if a \<noteq> en_actor e \<and> \<not> is_owner s (en_space e) (en_actor e) then s
      else upd_space (en_space e)
             (\<lambda>g. g\<lparr>sp_members := om_put a \<lparr>mb_role = r, mb_present = True\<rparr> (sp_members g)\<rparr>) s)"
| "apply_kind (MemberLeft a) e s =
     (if a = en_actor e \<or> is_owner s (en_space e) (en_actor e)
      then upd_space (en_space e)
             (\<lambda>g. g\<lparr>sp_members := om_modify a (\<lambda>m. m\<lparr>mb_present := False\<rparr>) (sp_members g)\<rparr>) s
      else s)"
| "apply_kind (MemberRoleChanged a r) e s =
     upd_space (en_space e)
       (\<lambda>g. g\<lparr>sp_members := om_modify a (\<lambda>m. m\<lparr>mb_role := r\<rparr>) (sp_members g)\<rparr>) s"
| "apply_kind (PresenceChanged a p st) e s = s"
| "apply_kind (MessagePosted b t) e s =
     s\<lparr>ds_messages := om_put (en_id e)
         \<lparr>ms_space = en_space e, ms_author = en_actor e, ms_created = en_created e,
          ms_deleted = False, ms_pinned = False\<rparr> (ds_messages s)\<rparr>"
| "apply_kind (MessageEdited i b) e s = s"
| "apply_kind (MessageDeleted i) e s =
     upd_message i (\<lambda>m. if ms_author m = en_actor e
                        then m\<lparr>ms_deleted := True, ms_pinned := False\<rparr> else m) s"
| "apply_kind (MessagePinned i) e s =
     upd_message i (\<lambda>m. if is_member s (en_space e) (en_actor e) \<and> ms_space m = en_space e \<and> \<not> ms_deleted m
                        then m\<lparr>ms_pinned := True\<rparr> else m) s"
| "apply_kind (MessageUnpinned i) e s =
     upd_message i (\<lambda>m. if is_member s (en_space e) (en_actor e) \<and> ms_space m = en_space e
                        then m\<lparr>ms_pinned := False\<rparr> else m) s"
| "apply_kind (MessageSaved i) e s =
     (if is_member s (en_space e) (en_actor e) \<and> visible_message s (en_space e) i
      then s\<lparr>ds_saved := om_upd {} (insert i) (en_actor e) (ds_saved s)\<rparr> else s)"
| "apply_kind (MessageUnsaved i) e s =
     (if is_member s (en_space e) (en_actor e)
      then s\<lparr>ds_saved := om_modify (en_actor e) (\<lambda>ms. ms - {i}) (ds_saved s)\<rparr> else s)"
| "apply_kind (ThreadStarted t i title) e s = s\<lparr>ds_threads := om_put t (en_space e) (ds_threads s)\<rparr>"
| "apply_kind (ThreadResolved t) e s = s"
| "apply_kind (ThreadReopened t) e s = s"
| "apply_kind (TaskCreated title source) e s =
     (if is_member s (en_space e) (en_actor e)
         \<and> (case source of None \<Rightarrow> True | Some i \<Rightarrow> visible_message s (en_space e) i)
      then s\<lparr>ds_tasks := om_put (en_id e)
               \<lparr>tk_space = en_space e, tk_by = en_actor e, tk_completed = False\<rparr> (ds_tasks s)\<rparr>
      else s)"
| "apply_kind (TaskUpdated i title) e s = s"
| "apply_kind (TaskChecked i c) e s = s"
| "apply_kind (TaskCompleted i) e s =
     (if is_member s (en_space e) (en_actor e)
      then upd_task i (\<lambda>t. if tk_space t = en_space e \<and> \<not> tk_completed t
                           then t\<lparr>tk_completed := True\<rparr> else t) s else s)"
| "apply_kind (TaskReopened i) e s =
     (if is_member s (en_space e) (en_actor e)
      then upd_task i (\<lambda>t. if tk_space t = en_space e \<and> tk_completed t
                           then t\<lparr>tk_completed := False\<rparr> else t) s else s)"
| "apply_kind (AlertRaised al) e s =
     s\<lparr>ds_alerts := om_put (en_id e) (en_space e, actions_map al) (ds_alerts s)\<rparr>"
| "apply_kind (AlertAcknowledged i) e s = s"
| "apply_kind (AlertSnoozed i u) e s = s"
| "apply_kind (AlertActionInvoked i a armed out) e s = s"
| "apply_kind (ClipboardPublished it) e s =
     s\<lparr>ds_clips := om_put (en_id e) \<lparr>cp_space = en_space e, cp_deleted = False, cp_pinned = False\<rparr>
                    (ds_clips s)\<rparr>"
| "apply_kind (ClipboardPinned i) e s = upd_clip i (\<lambda>c. c\<lparr>cp_pinned := True\<rparr>) s"
| "apply_kind (ClipboardUnpinned i) e s = upd_clip i (\<lambda>c. c\<lparr>cp_pinned := False\<rparr>) s"
| "apply_kind (ClipboardDeleted i) e s = upd_clip i (\<lambda>c. c\<lparr>cp_deleted := True\<rparr>) s"
| "apply_kind (DocumentCreated d title) e s = s\<lparr>ds_documents := om_put d (en_space e) (ds_documents s)\<rparr>"
| "apply_kind (DocumentUpdated d c) e s = s"
| "apply_kind (ReviewRequested d rs) e s = s"
| "apply_kind (ReviewSubmitted d v c) e s = s"
| "apply_kind (FileLinked f r) e s =
     s\<lparr>ds_files := om_put f \<lparr>fa_space = en_space e, fa_present = True, fa_reference = r,
                             fa_generation = en_created e\<rparr> (ds_files s)\<rparr>"
| "apply_kind (FileUnlinked f) e s = s\<lparr>ds_files := om_modify f (\<lambda>g. g\<lparr>fa_present := False\<rparr>) (ds_files s)\<rparr>"
| "apply_kind (TransferStarted t f m d) e s =
     s\<lparr>ds_transfers := om_put t \<lparr>tf_space = en_space e, tf_state = Queued\<rparr> (ds_transfers s)\<rparr>"
| "apply_kind (TransferStateChanged t st) e s =
     s\<lparr>ds_transfers := om_modify t (\<lambda>g. if tf_space g = en_space e then g\<lparr>tf_state := st\<rparr> else g)
                        (ds_transfers s)\<rparr>"
| "apply_kind (CallStarted c k a) e s =
     s\<lparr>ds_calls := om_put c \<lparr>cl_space = en_space e, cl_ended = False,
                             cl_participants = om_put a Connected om_empty,
                             cl_muted = om_put a False om_empty\<rparr> (ds_calls s)\<rparr>"
| "apply_kind (CallParticipantChanged c a st) e s = upd_call c (en_space e) (participant_changed a st) s"
| "apply_kind (CallParticipantMuted c a m) e s =
     upd_call c (en_space e) (\<lambda>g. g\<lparr>cl_muted := om_put a m (cl_muted g)\<rparr>) s"
| "apply_kind (CallEnded c r) e s = upd_call c (en_space e) (\<lambda>g. g\<lparr>cl_ended := True\<rparr>) s"
| "apply_kind (AiSuggestionOffered g) e s = s"
| "apply_kind (AiSuggestionResolved i b) e s = s"

definition apply_event :: "envelope \<Rightarrow> domain_state \<Rightarrow> domain_state" where
  "apply_event e s = apply_kind (en_kind e) e s"

section \<open>Folding a log\<close>

definition canonical_key :: "envelope \<Rightarrow> u64 \<times> u32 \<times> event_id" where
  "canonical_key e = (wall_ms (en_clock e), ck_counter (en_clock e), en_id e)"

definition canonical_sort :: "envelope list \<Rightarrow> envelope list" where
  "canonical_sort es = sort_key canonical_key es"

definition from_events :: "envelope list \<Rightarrow> domain_state" where
  "from_events es = fold apply_event (canonical_sort es) domain_default"

section \<open>Folding order\<close>

lemma canonical_sort_set [simp]: "set (canonical_sort es) = set es"
  by (simp add: canonical_sort_def)

lemma canonical_sort_unique:
  assumes "set es = set fs" and "distinct (map en_id es)" and "distinct (map en_id fs)"
  shows "canonical_sort es = canonical_sort fs"
proof -
  have "distinct es" "distinct fs" using assms(2,3) by (simp_all add: distinct_map)
  with assms(1) have "mset es = mset fs" by (simp add: set_eq_iff_mset_eq_distinct)
  moreover have "inj_on canonical_key (set es)"
    using assms(2) by (auto simp: distinct_map inj_on_def canonical_key_def)
  ultimately show ?thesis
    unfolding canonical_sort_def by (intro sort_key_inj_key_eq) simp_all
qed

text \<open>The three components of the key are the clock's order, then the identifier's.\<close>

lemma canonical_key_clock:
  "canonical_key e \<le> canonical_key f \<longleftrightarrow> (en_clock e, en_id e) \<le> (en_clock f, en_id f)"
  by (auto simp: canonical_key_def less_eq_prod_def less_eq_actor_clock_def less_actor_clock_def
      actor_clock.expand)

section \<open>The invariant of the aggregate\<close>

text \<open>Every map is in order, a call that has not ended has somebody connected, and a deleted message
  is not pinned.\<close>

definition tidy_call :: "call_agg \<Rightarrow> bool" where
  "tidy_call c \<longleftrightarrow> om_wf (cl_participants c) \<and> om_wf (cl_muted c) \<and> (cl_ended c \<or> any_connected c)"

definition tidy_message :: "message_agg \<Rightarrow> bool" where
  "tidy_message m \<longleftrightarrow> \<not> (ms_deleted m \<and> ms_pinned m)"

definition tidy_space :: "space_agg \<Rightarrow> bool" where
  "tidy_space g \<longleftrightarrow> om_wf (sp_members g)"

definition maps_wf :: "domain_state \<Rightarrow> bool" where
  "maps_wf s \<longleftrightarrow> om_wf (ds_spaces s) \<and> om_wf (ds_messages s) \<and> om_wf (ds_saved s) \<and> om_wf (ds_threads s)
     \<and> om_wf (ds_tasks s) \<and> om_wf (ds_documents s) \<and> om_wf (ds_files s) \<and> om_wf (ds_transfers s)
     \<and> om_wf (ds_calls s) \<and> om_wf (ds_clips s) \<and> om_wf (ds_alerts s)"

definition domain_inv :: "domain_state \<Rightarrow> bool" where
  "domain_inv s \<longleftrightarrow> maps_wf s \<and> list_all tidy_space (om_values (ds_spaces s))
     \<and> list_all tidy_call (om_values (ds_calls s)) \<and> list_all tidy_message (om_values (ds_messages s))"

lemmas om_wf_intros = om_wf_put om_wf_modify [THEN iffD2] om_wf_or_insert om_wf_upd
lemmas all_values_intros = all_values_put all_values_modify all_values_or_insert
lemmas upd_defs = upd_space_def upd_message_def upd_task_def upd_clip_def upd_call_def

lemma maps_wf_apply: "maps_wf s \<Longrightarrow> maps_wf (apply_event e s)"
  unfolding apply_event_def
  by (cases "en_kind e") (auto simp: maps_wf_def upd_defs intro: om_wf_intros)

lemma tidy_space_apply:
  "list_all tidy_space (om_values (ds_spaces s)) \<Longrightarrow> list_all tidy_space (om_values (ds_spaces (apply_event e s)))"
  unfolding apply_event_def
  by (cases "en_kind e")
    (auto simp: upd_defs tidy_space_def [abs_def] intro!: all_values_intros intro: om_wf_intros)

lemma any_connected_put: "any_connected (c\<lparr>cl_participants := om_put a Connected m\<rparr>)"
  unfolding any_connected_def om_values_def
  by (induction a "Connected" m rule: om_put.induct) auto

lemma tidy_started:
  "tidy_call \<lparr>cl_space = sp, cl_ended = False, cl_participants = om_put a Connected om_empty,
              cl_muted = om_put a False om_empty\<rparr>"
  by (simp add: tidy_call_def any_connected_def om_wf_def om_values_def om_empty_def)

lemma tidy_participant: "tidy_call c \<Longrightarrow> tidy_call (participant_changed a st c)"
  by (simp add: tidy_call_def participant_changed_def Let_def om_wf_put om_wf_or_insert any_connected_def)

lemma tidy_muted: "tidy_call c \<Longrightarrow> tidy_call (c\<lparr>cl_muted := om_put a m (cl_muted c)\<rparr>)"
  by (simp add: tidy_call_def om_wf_put any_connected_def)

lemma tidy_ended: "tidy_call c \<Longrightarrow> tidy_call (c\<lparr>cl_ended := True\<rparr>)"
  by (simp add: tidy_call_def)

lemma tidy_call_apply:
  "list_all tidy_call (om_values (ds_calls s)) \<Longrightarrow> list_all tidy_call (om_values (ds_calls (apply_event e s)))"
  unfolding apply_event_def
  by (cases "en_kind e")
    (auto simp: upd_defs intro!: all_values_intros tidy_started tidy_participant tidy_muted tidy_ended)

lemma tidy_message_apply:
  "list_all tidy_message (om_values (ds_messages s)) \<Longrightarrow> list_all tidy_message (om_values (ds_messages (apply_event e s)))"
  unfolding apply_event_def
  by (cases "en_kind e")
    (auto simp: upd_defs tidy_message_def [abs_def] intro!: all_values_intros split: if_splits)

lemma domain_inv_default: "domain_inv domain_default"
  by (simp add: domain_inv_def maps_wf_def domain_default_def)

lemma domain_inv_apply: "domain_inv s \<Longrightarrow> domain_inv (apply_event e s)"
  by (simp add: domain_inv_def maps_wf_apply tidy_space_apply tidy_call_apply tidy_message_apply)

lemma domain_inv_fold: "domain_inv s \<Longrightarrow> domain_inv (fold apply_event es s)"
  by (induction es arbitrary: s) (simp_all add: domain_inv_apply)

lemma domain_inv_from_events: "domain_inv (from_events es)"
  unfolding from_events_def by (rule domain_inv_fold [OF domain_inv_default])

section \<open>Properties of the fold\<close>

text \<open>Every seat folds the same facts: two seats that hold the same events, one per identifier, have
  the same aggregate, in whatever order the events reached them.
\<close>

theorem fold_is_order_independent:
  assumes "set es = set fs" and "distinct (map en_id es)" and "distinct (map en_id fs)"
  shows "from_events es = from_events fs"
  using canonical_sort_unique [OF assms] by (simp add: from_events_def)

definition ev :: "event_id \<Rightarrow> actor_id \<Rightarrow> u64 \<Rightarrow> event_kind \<Rightarrow> envelope" where
  "ev i a wall k = envelope_new i 3 a (ActorClock wall 0) 5 k"

theorem fold_is_order_independent_witness:
  "from_events [ev 1 ''a'' 1 (SpaceCreated Team ''t''), ev 2 ''a'' 2 SpaceDeleted]
   = from_events [ev 2 ''a'' 2 SpaceDeleted, ev 1 ''a'' 1 (SpaceCreated Team ''t'')]"
  by (rule fold_is_order_independent) (auto simp: ev_def envelope_new_def)

text \<open>C40. Whatever signed events are folded, hostile ones included, the aggregate is well formed: every
  map is in key order, a call that has not ended has a connected participant, so that the second half
  of \<open>require_call\<close>'s guard can never refuse a call the first half lets through, and a deleted message
  is not pinned.
\<close>

theorem fold_keeps_the_invariant: "domain_inv (from_events es)"
  by (rule domain_inv_from_events)

lemma space_of_upd_space:
  "space_of (upd_space sp f s) sp' = (if sp' = sp then map_option f (space_of s sp) else space_of s sp')"
  by (simp add: space_of_def upd_space_def om_get_modify)

lemma space_of_upd [simp]:
  "space_of (upd_message i mf s) = space_of s" "space_of (upd_task i tf s) = space_of s"
  "space_of (upd_clip i cf s) = space_of s" "space_of (upd_call c sp gf s) = space_of s"
  by (simp_all add: space_of_def upd_defs fun_eq_iff)

lemma space_of_more [simp]:
  "space_of (s\<lparr>ds_messages := a\<rparr>) = space_of s" "space_of (s\<lparr>ds_saved := b\<rparr>) = space_of s"
  "space_of (s\<lparr>ds_threads := c\<rparr>) = space_of s" "space_of (s\<lparr>ds_tasks := d\<rparr>) = space_of s"
  "space_of (s\<lparr>ds_documents := f\<rparr>) = space_of s" "space_of (s\<lparr>ds_files := g\<rparr>) = space_of s"
  "space_of (s\<lparr>ds_transfers := h\<rparr>) = space_of s" "space_of (s\<lparr>ds_calls := i\<rparr>) = space_of s"
  "space_of (s\<lparr>ds_clips := j\<rparr>) = space_of s" "space_of (s\<lparr>ds_alerts := k\<rparr>) = space_of s"
  by (simp_all add: space_of_def fun_eq_iff)

lemma space_of_or_insert:
  "space_of (s\<lparr>ds_spaces := om_or_insert sp g (ds_spaces s)\<rparr>) sp'
     = (if sp' = sp \<and> space_of s sp = None then Some g else space_of s sp')"
  by (simp add: space_of_def om_get_or_insert)

lemmas space_simps = space_of_upd_space space_of_or_insert
lemmas member_defs = is_member_def is_owner_def role_of_def member_of_def

text \<open>C26. Who may change a membership.  When folding an event changes whether \<open>a\<close> is a present member of
  a space, the event belongs to that space and its author is \<open>a\<close> itself or a present owner of the
  space at that point of the log: one member cannot bring in or remove another.
\<close>

theorem membership_needs_authority:
  assumes "is_member (apply_event e s) sp a \<noteq> is_member s sp a"
  shows "en_space e = sp \<and> (en_actor e = a \<or> is_owner s sp (en_actor e))"
  using assms unfolding apply_event_def
  by (cases "en_kind e")
    (auto simp: is_member_def member_of_def space_simps om_get_put om_get_modify
       split: if_splits option.splits bind_splits)

definition demo_space :: domain_state where
  "demo_space = from_events
     [ev 1 ''a'' 1 (SpaceCreated Team ''t''), ev 2 ''a'' 2 (MemberJoined ''a'' Owner),
      ev 3 ''b'' 3 (MemberJoined ''b'' Member)]"

lemma demo_space_spaces:
  "ds_spaces demo_space =
     [(3, \<lparr>sp_kind = Team, sp_name = ''t'', sp_deleted = False,
           sp_members = [(''a'', \<lparr>mb_role = Owner, mb_present = True\<rparr>),
                         (''b'', \<lparr>mb_role = Member, mb_present = True\<rparr>)]\<rparr>)]"
  by (simp add: demo_space_def from_events_def canonical_sort_def canonical_key_def ev_def envelope_new_def
      apply_event_def domain_default_def om_or_insert_def om_empty_def om_get_def upd_space_def om_modify_def
      member_defs space_of_def sort_key_def insort_key_def)

theorem membership_needs_authority_witness:
  "en_space (ev 4 ''a'' 4 (MemberLeft ''b'')) = 3
   \<and> (en_actor (ev 4 ''a'' 4 (MemberLeft ''b'')) = ''b'' \<or> is_owner demo_space 3 (en_actor (ev 4 ''a'' 4 (MemberLeft ''b''))))"
  by (rule membership_needs_authority)
    (simp add: ev_def envelope_new_def apply_event_def member_defs space_of_def demo_space_spaces om_get_def
      upd_space_def om_modify_def)

definition space_deleted :: "domain_state \<Rightarrow> space_id \<Rightarrow> bool" where
  "space_deleted s sp = (case space_of s sp of None \<Rightarrow> False | Some g \<Rightarrow> sp_deleted g)"

text \<open>Deleting a space takes one of its present owners, and is final: after an event the space is
  deleted exactly if it was before, or the event is a deletion of this space by a present owner.
\<close>

theorem space_deletion_exact:
  "space_deleted (apply_event e s) sp \<longleftrightarrow>
     space_deleted s sp \<or> (en_kind e = SpaceDeleted \<and> en_space e = sp \<and> is_owner s sp (en_actor e))"
  unfolding apply_event_def
  by (cases "en_kind e")
    (auto simp: space_deleted_def space_simps member_defs split: if_splits option.splits bind_splits)

text \<open>Private marks are private: an event changes which messages an actor has saved only where that
  actor wrote it and is a member of the event's space.
\<close>

theorem saved_marks_are_private:
  assumes "is_message_saved (apply_event e s) a i \<noteq> is_message_saved s a i"
  shows "en_actor e = a \<and> is_member s (en_space e) a"
  using assms unfolding apply_event_def
  by (cases "en_kind e")
    (auto simp: is_message_saved_def upd_defs om_get_upd om_get_modify split: if_splits option.splits)

lemma is_member_demo: "is_member demo_space 3 ''b''"
  by (simp add: member_defs space_of_def demo_space_spaces om_get_def)

theorem saved_marks_are_private_witness:
  "en_actor (ev 5 ''b'' 6 (MessageSaved 4)) = ''b''
   \<and> is_member (apply_event (ev 4 ''b'' 5 (MessagePosted ''hi'' None)) demo_space)
       (en_space (ev 5 ''b'' 6 (MessageSaved 4))) ''b''"
proof -
  let ?s = "apply_event (ev 4 ''b'' 5 (MessagePosted ''hi'' None)) demo_space"
  have saved: "om_get (ds_saved demo_space) x = None" for x
    by (simp add: demo_space_def from_events_def canonical_sort_def canonical_key_def ev_def envelope_new_def
        apply_event_def domain_default_def om_or_insert_def om_empty_def upd_space_def member_defs space_of_def
        sort_key_def insort_key_def om_modify_def om_get_def)
  have member: "is_member ?s 3 ''b''"
    using is_member_demo by (simp add: ev_def envelope_new_def apply_event_def is_member_def member_of_def)
  have "is_message_saved (apply_event (ev 5 ''b'' 6 (MessageSaved 4)) ?s) ''b'' 4 \<noteq> is_message_saved ?s ''b'' 4"
    using member
    by (simp add: ev_def envelope_new_def apply_event_def is_message_saved_def om_upd_def visible_message_def
        om_get_put saved)
  then show ?thesis by (rule saved_marks_are_private)
qed

definition message_deleted :: "domain_state \<Rightarrow> event_id \<Rightarrow> bool" where
  "message_deleted s i = (case om_get (ds_messages s) i of None \<Rightarrow> False | Some m \<Rightarrow> ms_deleted m)"

definition authored :: "domain_state \<Rightarrow> event_id \<Rightarrow> actor_id \<Rightarrow> bool" where
  "authored s i a = (case om_get (ds_messages s) i of None \<Rightarrow> False | Some m \<Rightarrow> ms_author m = a)"

text \<open>Only its author deletes a message, and a deletion is final: after an event with an identifier
  of its own the message is deleted exactly if it was before, or the event is its author's deletion.
\<close>

theorem message_deletion_exact:
  assumes "en_id e \<noteq> i"
  shows "message_deleted (apply_event e s) i \<longleftrightarrow>
    message_deleted s i \<or> (en_kind e = MessageDeleted i \<and> authored s i (en_actor e))"
  using assms unfolding apply_event_def
  by (cases "en_kind e")
    (auto simp: message_deleted_def authored_def upd_defs om_get_put om_get_modify split: if_splits option.splits)

theorem message_deletion_exact_witness:
  "message_deleted (apply_event (ev 5 ''b'' 6 (MessageDeleted 4)) demo_space) 4 \<longleftrightarrow>
     message_deleted demo_space 4
     \<or> (en_kind (ev 5 ''b'' 6 (MessageDeleted 4)) = MessageDeleted 4
        \<and> authored demo_space 4 (en_actor (ev 5 ''b'' 6 (MessageDeleted 4))))"
  by (rule message_deletion_exact) (simp add: ev_def envelope_new_def)

text \<open>The role is not guarded the same way.  Where the commands let only an owner hand out roles, the
  fold takes a role change from any author, and an owner's joining of oneself from anybody: a member
  named in a role change, and a stranger who joins an existing space as an owner, are its owners
  afterwards, with every right that \<open>is_owner\<close> gives.
\<close>

theorem ownership_is_not_guarded:
  "is_member s (en_space e) a \<Longrightarrow>
     is_owner (apply_event (e\<lparr>en_kind := MemberRoleChanged a Owner\<rparr>) s) (en_space e) a"
  "space_of s (en_space e) \<noteq> None \<Longrightarrow>
     is_owner (apply_event (e\<lparr>en_kind := MemberJoined (en_actor e) Owner\<rparr>) s) (en_space e) (en_actor e)"
  by (auto simp: apply_event_def member_defs space_simps om_get_put om_get_modify
      split: option.splits bind_splits)

theorem ownership_is_not_guarded_witness:
  "is_owner (apply_event ((ev 4 ''b'' 4 SpaceArchived)\<lparr>en_kind := MemberRoleChanged ''b'' Owner\<rparr>) demo_space)
     (en_space (ev 4 ''b'' 4 SpaceArchived)) ''b''
   \<and> is_owner (apply_event ((ev 4 ''x'' 4 SpaceArchived)
         \<lparr>en_kind := MemberJoined (en_actor (ev 4 ''x'' 4 SpaceArchived)) Owner\<rparr>) demo_space)
       (en_space (ev 4 ''x'' 4 SpaceArchived)) (en_actor (ev 4 ''x'' 4 SpaceArchived))
   \<and> \<not> is_owner demo_space 3 ''b'' \<and> \<not> is_member demo_space 3 ''x''"
  using ownership_is_not_guarded(1) [of demo_space "ev 4 ''b'' 4 SpaceArchived" "''b''"]
    ownership_is_not_guarded(2) [of demo_space "ev 4 ''x'' 4 SpaceArchived"] is_member_demo
  by (simp add: ev_def envelope_new_def space_of_def demo_space_spaces om_get_def member_defs)

end
