(* ===== verification/CollabCommands.thy ===== *)
theory CollabCommands
  imports CollabDomain HexText
begin

text \<open>
  The command pipeline of the collaboration core: the commands
  (\<open>crates/shared/mde-collab-types/src/command.rs\<close>), the errors
  (\<open>crates/services/mde-collab-core/src/error.rs\<close>) and \<open>apply_command\<close> with its guards
  (\<open>pipeline.rs\<close>).  One definition models one branch; it yields the first error of its guards or the
  bodies of the events it emits, each with its space.  \<open>emit\<close> then stamps and signs them in order.
\<close>

section \<open>Commands and errors\<close>

text \<open>A DTMF digit is the number of a Unicode character; texts are their UTF-8 bytes.\<close>

datatype (plugins only: code size) command =
    CreateSpace space_kind string
  | RenameSpace space_id string
  | DeleteSpace space_id
  | AddMember space_id actor_id space_role
  | RemoveMember space_id actor_id
  | SetMemberRole space_id actor_id space_role
  | JoinSpace space_id
  | LeaveSpace space_id
  | SetPresence presence_state "string option"
  | SendMessage space_id "thread_id option" string
  | EditMessage space_id event_id string
  | DeleteMessage space_id event_id
  | PinMessage space_id event_id
  | UnpinMessage space_id event_id
  | SaveMessage space_id event_id
  | UnsaveMessage space_id event_id
  | StartThread space_id event_id "string option"
  | ReplyInThread space_id thread_id string
  | ResolveThread space_id thread_id
  | ReopenThread space_id thread_id
  | CreateTask space_id string "event_id option"
  | UpdateTask space_id event_id string
  | SetTaskChecked space_id event_id bool
  | CompleteTask space_id event_id
  | ReopenTask space_id event_id
  | AckAlert space_id event_id
  | SnoozeAlert space_id event_id millis
  | RunAlertAction space_id event_id string bool
  | SetAlertMute string bool
  | SetSeverityThreshold alert_severity
  | SetDoNotDisturb bool
  | PublishClipboard space_id string clipboard_item
  | AttachClipboard space_id event_id
  | PinClipboard space_id event_id
  | UnpinClipboard space_id event_id
  | DeleteClipboard space_id event_id
  | ClearClipboard space_id
  | CreateDocument space_id document_id string
  | UpdateDocument space_id document_id document_change
  | RequestReview space_id document_id "actor_id list"
  | SubmitReview space_id document_id review_verdict "string option"
  | LinkFile space_id file_ref_id file_ref
  | CommitFileGeneration space_id file_ref_id millis string u64 file_ref
  | UnlinkFile space_id file_ref_id
  | StartTransfer space_id transfer_id file_ref_id transfer_method transfer_direction
  | ControlTransfer transfer_id transfer_control
  | StartCall space_id call_id call_kind
  | StartOutboundCall space_id call_id string
  | AnswerCall call_id
  | DeclineCall call_id
  | HangUpCall call_id
  | SendDtmf call_id nat
  | SetCallMuted call_id bool
  | RequestAiSuggestion space_id string "event_id option" ai_suggestion_kind
  | CancelAiSuggestion space_id string

datatype (plugins only: code size) collab_error =
    SpaceNotFound space_id
  | SpaceIsDeleted space_id
  | MessageNotFound event_id
  | ThreadNotFound thread_id
  | TaskNotFound event_id
  | TaskAlreadyCompleted event_id
  | TaskAlreadyOpen event_id
  | DocumentNotFound document_id
  | FileNotFound file_ref_id
  | FileGenerationConflict file_ref_id millis millis
  | FileGenerationDidNotAdvance file_ref_id millis millis
  | FileGenerationMetadataMutation file_ref_id
  | InvalidFileGeneration file_ref_id
  | TransferNotFound transfer_id
  | CallNotFound call_id
  | InvalidCallDialTarget
  | AlertNotFound event_id
  | ClipNotFound event_id
  | AiTargetNotFound space_id event_id
  | NotMember space_id actor_id
  | AlreadyMember space_id actor_id
  | NotPresent space_id actor_id
  | OwnerRequired space_id string
  | LastOwner space_id string
  | NotAuthor event_id
  | EditWindowExpired event_id millis millis
  | TargetDeleted event_id
  | MessageNotSaved event_id
  | MessageAlreadySaved event_id
  | InvalidDtmfDigit nat
  | InvalidTransferControl transfer_id transfer_state transfer_control
  | ActionNotFound event_id string
  | DestructiveNotArmed event_id string
  | InvalidAlertActionId string nat
  | InvalidAiRequestId string nat
  | BlobHashMismatch string string
  | BlobSizeMismatch u64 u64
  | BlobNotFound string
  | ConflictingEventId event_id
  | SqlError string
  | IoError string
  | SerdeError string
  | InvalidEvent event_id

type_synonym 'a outcome = "(collab_error, 'a) result"
type_synonym emission = "space_id \<times> event_kind"

definition EDIT_WINDOW_MS :: millis where
  "EDIT_WINDOW_MS = 5 * 60 * 1000"

definition MAX_MESSAGE_BODY_BYTES :: nat where
  "MAX_MESSAGE_BODY_BYTES = 256 * 1024"

definition MAX_TASK_TITLE_BYTES :: nat where
  "MAX_TASK_TITLE_BYTES = 512"

definition MAX_DOCUMENT_TEXT_BYTES :: nat where
  "MAX_DOCUMENT_TEXT_BYTES = 64 * 1024"

definition MAX_CLEAR_CLIPBOARD_EVENTS :: nat where
  "MAX_CLEAR_CLIPBOARD_EVENTS = 50"

definition MAX_AI_REQUEST_ID_BYTES :: nat where
  "MAX_AI_REQUEST_ID_BYTES = 128"

definition MAX_ALERT_ACTION_ID_BYTES :: nat where
  "MAX_ALERT_ACTION_ID_BYTES = 128"

definition MAX_CALL_DIAL_TARGET_BYTES :: nat where
  "MAX_CALL_DIAL_TARGET_BYTES = 256"

definition MAX_TRANSFER_CONTENT_BYTES :: u64 where
  "MAX_TRANSFER_CONTENT_BYTES = 4 * 1024 * 1024 * 1024"

section \<open>Guards\<close>

text \<open>The guards of a branch in their order; the first that fails is the branch's error.\<close>

fun checked :: "unit outcome list \<Rightarrow> 'a outcome \<Rightarrow> 'a outcome" where
  "checked [] r = r"
| "checked (g # gs) r = bind_res g (\<lambda>_. checked gs r)"

definition require_call_dial_target :: "string \<Rightarrow> unit outcome" where
  "require_call_dial_target target =
     (let t = trim target in
      if t = [] \<or> length t > MAX_CALL_DIAL_TARGET_BYTES \<or> t \<noteq> target
         \<or> \<not> list_all (\<lambda>c. is_ascii_alnum c \<or> c \<in> set ''+*#@._:-'') t
      then Inl InvalidCallDialTarget else Inr ())"

definition is_nonzero_lower_sha256 :: "string \<Rightarrow> bool" where
  "is_nonzero_lower_sha256 v \<longleftrightarrow>
     length v = 64 \<and> list_ex (\<lambda>c. c \<noteq> CHR ''0'') v
     \<and> list_all (\<lambda>c. is_ascii_digit c \<or> CHR ''a'' \<le> c \<and> c \<le> CHR ''f'') v"

fun next_transfer_state :: "transfer_id \<Rightarrow> transfer_state \<Rightarrow> transfer_control \<Rightarrow> transfer_state outcome" where
  "next_transfer_state t Active Pause = Inr Paused"
| "next_transfer_state t Paused Resume = Inr Active"
| "next_transfer_state t Queued Cancel = Inr Canceled"
| "next_transfer_state t Active Cancel = Inr Canceled"
| "next_transfer_state t Paused Cancel = Inr Canceled"
| "next_transfer_state t st c = Inl (InvalidTransferControl t st c)"

definition require_active_space :: "domain_state \<Rightarrow> space_id \<Rightarrow> unit outcome" where
  "require_active_space s space =
     (case space_of s space of
        None \<Rightarrow> Inl (SpaceNotFound space)
      | Some g \<Rightarrow> if sp_deleted g then Inl (SpaceIsDeleted space) else Inr ())"

definition validate_message_body :: "string \<Rightarrow> unit outcome" where
  "validate_message_body b =
     ensure (length b \<le> MAX_MESSAGE_BODY_BYTES)
       (SerdeError (''message body exceeds '' @ show_nat MAX_MESSAGE_BODY_BYTES @ '' bytes''))"

definition validate_task_title :: "string \<Rightarrow> unit outcome" where
  "validate_task_title title =
     (if trim title = [] then Inl (SerdeError ''task title is empty'')
      else if length (trim title) > MAX_TASK_TITLE_BYTES
      then Inl (SerdeError (''task title exceeds '' @ show_nat MAX_TASK_TITLE_BYTES @ '' bytes''))
      else Inr ())"

definition validate_document_text :: "string \<Rightarrow> string \<Rightarrow> unit outcome" where
  "validate_document_text v field =
     ensure (length v \<le> MAX_DOCUMENT_TEXT_BYTES)
       (SerdeError (field @ '' exceeds '' @ show_nat MAX_DOCUMENT_TEXT_BYTES @ '' bytes''))"

definition require_member :: "domain_state \<Rightarrow> space_id \<Rightarrow> actor_id \<Rightarrow> unit outcome" where
  "require_member s space actor = ensure (is_member s space actor) (NotMember space actor)"

definition require_owner :: "domain_state \<Rightarrow> space_id \<Rightarrow> actor_id \<Rightarrow> string \<Rightarrow> unit outcome" where
  "require_owner s space actor action =
     checked [require_member s space actor]
       (ensure (is_owner s space actor) (OwnerRequired space action))"

definition require_message :: "domain_state \<Rightarrow> space_id \<Rightarrow> event_id \<Rightarrow> message_agg outcome" where
  "require_message s space target =
     (case om_get (ds_messages s) target of
        Some m \<Rightarrow> if ms_space m = space then Inr m else Inl (MessageNotFound target)
      | None \<Rightarrow> Inl (MessageNotFound target))"

definition require_open_task :: "domain_state \<Rightarrow> space_id \<Rightarrow> event_id \<Rightarrow> unit outcome" where
  "require_open_task s space task =
     (case om_get (ds_tasks s) task of
        Some t \<Rightarrow> if tk_space t = space \<and> \<not> tk_completed t then Inr ()
                  else if tk_space t = space then Inl (TaskAlreadyCompleted task)
                  else Inl (TaskNotFound task)
      | None \<Rightarrow> Inl (TaskNotFound task))"

definition require_completed_task :: "domain_state \<Rightarrow> space_id \<Rightarrow> event_id \<Rightarrow> unit outcome" where
  "require_completed_task s space task =
     (case om_get (ds_tasks s) task of
        Some t \<Rightarrow> if tk_space t = space \<and> tk_completed t then Inr ()
                  else if tk_space t = space then Inl (TaskAlreadyOpen task)
                  else Inl (TaskNotFound task)
      | None \<Rightarrow> Inl (TaskNotFound task))"

definition require_alert :: "domain_state \<Rightarrow> space_id \<Rightarrow> event_id \<Rightarrow> unit outcome" where
  "require_alert s space alert =
     (case om_get (ds_alerts s) alert of
        Some (sp, _) \<Rightarrow> if sp = space then Inr () else Inl (AlertNotFound alert)
      | None \<Rightarrow> Inl (AlertNotFound alert))"

definition require_clip :: "domain_state \<Rightarrow> space_id \<Rightarrow> event_id \<Rightarrow> unit outcome" where
  "require_clip s space clip =
     (case om_get (ds_clips s) clip of
        Some c \<Rightarrow> if cp_space c = space \<and> \<not> cp_deleted c then Inr () else Inl (ClipNotFound clip)
      | None \<Rightarrow> Inl (ClipNotFound clip))"

definition file_is_present :: "domain_state \<Rightarrow> space_id \<Rightarrow> file_ref_id \<Rightarrow> bool" where
  "file_is_present s space file =
     (case om_get (ds_files s) file of None \<Rightarrow> False | Some f \<Rightarrow> fa_present f \<and> fa_space f = space)"

definition require_call :: "domain_state \<Rightarrow> call_id \<Rightarrow> space_id outcome" where
  "require_call s call =
     (case om_get (ds_calls s) call of
        Some c \<Rightarrow> if \<not> cl_ended c \<and> any_connected c then Inr (cl_space c) else Inl (CallNotFound call)
      | None \<Rightarrow> Inl (CallNotFound call))"

definition require_ai_target_in_space :: "domain_state \<Rightarrow> space_id \<Rightarrow> event_id \<Rightarrow> unit outcome" where
  "require_ai_target_in_space s space target =
     (if visible_message s space target
         \<or> (case om_get (ds_alerts s) target of None \<Rightarrow> False | Some (sp, _) \<Rightarrow> sp = space)
         \<or> (case om_get (ds_clips s) target of
              None \<Rightarrow> False | Some c \<Rightarrow> cp_space c = space \<and> \<not> cp_deleted c)
      then Inr () else Inl (AiTargetNotFound space target))"

definition require_ai_request_id :: "string \<Rightarrow> unit outcome" where
  "require_ai_request_id i =
     ensure (i \<noteq> [] \<and> length i \<le> MAX_AI_REQUEST_ID_BYTES
             \<and> list_all (\<lambda>c. is_ascii_alnum c \<or> c \<in> set ''-_.:'') i)
       (InvalidAiRequestId i MAX_AI_REQUEST_ID_BYTES)"

definition is_ascii_graphic :: "char \<Rightarrow> bool" where
  "is_ascii_graphic c = (33 \<le> (of_char c :: nat) \<and> (of_char c :: nat) \<le> 126)"

definition require_alert_action_id :: "string \<Rightarrow> unit outcome" where
  "require_alert_action_id i =
     ensure (i \<noteq> [] \<and> length i \<le> MAX_ALERT_ACTION_ID_BYTES
             \<and> list_all (\<lambda>c. is_ascii_graphic c \<and> c \<noteq> CHR ''/'' \<and> c \<noteq> CHR 0x5C) i)
       (InvalidAlertActionId i MAX_ALERT_ACTION_ID_BYTES)"

definition require_dtmf_digit :: "nat \<Rightarrow> unit outcome" where
  "require_dtmf_digit d =
     ensure (48 \<le> d \<and> d \<le> 57 \<or> d = 42 \<or> d = 35 \<or> 65 \<le> d \<and> d \<le> 68 \<or> 97 \<le> d \<and> d \<le> 100)
       (InvalidDtmfDigit d)"

definition require_active_call_participant ::
  "domain_state \<Rightarrow> call_id \<Rightarrow> actor_id \<Rightarrow> space_id outcome" where
  "require_active_call_participant s call actor =
     (case om_get (ds_calls s) call of
        None \<Rightarrow> Inl (CallNotFound call)
      | Some c \<Rightarrow>
          if cl_ended c \<or> om_get (cl_participants c) actor \<noteq> Some Connected
          then Inl (CallNotFound call)
          else checked [require_member s (cl_space c) actor] (Inr (cl_space c)))"

definition enforce_window :: "event_id \<Rightarrow> millis \<Rightarrow> millis \<Rightarrow> unit outcome" where
  "enforce_window target created now =
     (let age = sat_millis_sub now created
      in ensure (age \<le> EDIT_WINDOW_MS) (EditWindowExpired target age EDIT_WINDOW_MS))"

definition would_orphan :: "domain_state \<Rightarrow> space_id \<Rightarrow> actor_id \<Rightarrow> bool" where
  "would_orphan s space actor =
     (case space_of s space of
        None \<Rightarrow> False
      | Some g \<Rightarrow> role_of s space actor = Some Owner \<and> present_owner_count g \<le> 1)"

section \<open>The branches\<close>

text \<open>\<open>who\<close> is the actor of the seat; the first two guards are those of most branches.\<close>

definition in_space :: "domain_state \<Rightarrow> actor_id \<Rightarrow> space_id \<Rightarrow> unit outcome list" where
  "in_space s who space = [require_active_space s space, require_member s space who]"

subsection \<open>Spaces and members\<close>

definition create_space :: "actor_id \<Rightarrow> space_id \<Rightarrow> space_kind \<Rightarrow> string \<Rightarrow> emission list outcome" where
  "create_space who fresh kind name =
     Inr [(fresh, SpaceCreated kind name), (fresh, MemberJoined who Owner)]"

definition rename_space :: "domain_state \<Rightarrow> actor_id \<Rightarrow> space_id \<Rightarrow> string \<Rightarrow> emission list outcome" where
  "rename_space s who space name =
     checked (in_space s who space) (Inr [(space, SpaceRenamed name)])"

definition delete_space :: "domain_state \<Rightarrow> actor_id \<Rightarrow> space_id \<Rightarrow> emission list outcome" where
  "delete_space s who space =
     checked [require_active_space s space, require_owner s space who ''delete_space'']
       (Inr [(space, SpaceDeleted)])"

definition add_member ::
  "domain_state \<Rightarrow> actor_id \<Rightarrow> space_id \<Rightarrow> actor_id \<Rightarrow> space_role \<Rightarrow> emission list outcome" where
  "add_member s who space actor role =
     checked [require_active_space s space, require_owner s space who ''add_member'']
       (if is_member s space actor then Inl (AlreadyMember space actor)
        else Inr [(space, MemberJoined actor role)])"

definition remove_member :: "domain_state \<Rightarrow> actor_id \<Rightarrow> space_id \<Rightarrow> actor_id \<Rightarrow> emission list outcome" where
  "remove_member s who space actor =
     checked [require_active_space s space, require_owner s space who ''remove_member'']
       (if \<not> is_member s space actor then Inl (NotPresent space actor)
        else if would_orphan s space actor then Inl (LastOwner space ''remove_member'')
        else Inr [(space, MemberLeft actor)])"

definition set_member_role ::
  "domain_state \<Rightarrow> actor_id \<Rightarrow> space_id \<Rightarrow> actor_id \<Rightarrow> space_role \<Rightarrow> emission list outcome" where
  "set_member_role s who space actor role =
     checked [require_active_space s space, require_owner s space who ''set_member_role'']
       (if \<not> is_member s space actor then Inl (NotPresent space actor)
        else if role = Member \<and> would_orphan s space actor then Inl (LastOwner space ''set_member_role'')
        else Inr [(space, MemberRoleChanged actor role)])"

definition join_space :: "domain_state \<Rightarrow> actor_id \<Rightarrow> space_id \<Rightarrow> emission list outcome" where
  "join_space s who space =
     checked [require_active_space s space]
       (if is_member s space who then Inl (AlreadyMember space who)
        else Inr [(space, MemberJoined who Member)])"

definition leave_space :: "domain_state \<Rightarrow> actor_id \<Rightarrow> space_id \<Rightarrow> emission list outcome" where
  "leave_space s who space =
     checked (in_space s who space)
       (if would_orphan s space who then Inl (LastOwner space ''leave_space'')
        else Inr [(space, MemberLeft who)])"

definition set_presence :: "actor_id \<Rightarrow> presence_state \<Rightarrow> string option \<Rightarrow> emission list outcome" where
  "set_presence who presence status = Inr [(0, PresenceChanged who presence status)]"

definition set_do_not_disturb :: "actor_id \<Rightarrow> bool \<Rightarrow> emission list outcome" where
  "set_do_not_disturb who enabled =
     Inr [(0, PresenceChanged who (if enabled then Dnd else Online) None)]"

subsection \<open>Messages and threads\<close>

definition in_thread :: "domain_state \<Rightarrow> space_id \<Rightarrow> thread_id \<Rightarrow> unit outcome" where
  "in_thread s space t = ensure (om_get (ds_threads s) t = Some space) (ThreadNotFound t)"

definition send_message ::
  "domain_state \<Rightarrow> actor_id \<Rightarrow> space_id \<Rightarrow> thread_id option \<Rightarrow> string \<Rightarrow> emission list outcome" where
  "send_message s who space thread body =
     checked (in_space s who space
              @ (case thread of None \<Rightarrow> [] | Some t \<Rightarrow> [in_thread s space t])
              @ [validate_message_body body])
       (Inr [(space, MessagePosted body thread)])"

definition own_message :: "domain_state \<Rightarrow> actor_id \<Rightarrow> space_id \<Rightarrow> event_id \<Rightarrow> millis \<Rightarrow> unit outcome" where
  "own_message s who space target now =
     bind_res (require_message s space target) (\<lambda>m.
       if ms_author m \<noteq> who then Inl (NotAuthor target)
       else if ms_deleted m then Inl (TargetDeleted target)
       else enforce_window target (ms_created m) now)"

definition edit_message ::
  "domain_state \<Rightarrow> actor_id \<Rightarrow> millis \<Rightarrow> space_id \<Rightarrow> event_id \<Rightarrow> string \<Rightarrow> emission list outcome" where
  "edit_message s who now space target body =
     checked (in_space s who space @ [own_message s who space target now, validate_message_body body])
       (Inr [(space, MessageEdited target body)])"

definition delete_message ::
  "domain_state \<Rightarrow> actor_id \<Rightarrow> millis \<Rightarrow> space_id \<Rightarrow> event_id \<Rightarrow> emission list outcome" where
  "delete_message s who now space target =
     checked (in_space s who space @ [own_message s who space target now])
       (Inr [(space, MessageDeleted target)])"

definition live_message :: "domain_state \<Rightarrow> space_id \<Rightarrow> event_id \<Rightarrow> unit outcome" where
  "live_message s space target =
     bind_res (require_message s space target) (\<lambda>m. ensure (\<not> ms_deleted m) (TargetDeleted target))"

definition pin_message :: "domain_state \<Rightarrow> actor_id \<Rightarrow> space_id \<Rightarrow> event_id \<Rightarrow> emission list outcome" where
  "pin_message s who space target =
     checked (in_space s who space @ [live_message s space target]) (Inr [(space, MessagePinned target)])"

definition unpin_message :: "domain_state \<Rightarrow> actor_id \<Rightarrow> space_id \<Rightarrow> event_id \<Rightarrow> emission list outcome" where
  "unpin_message s who space target =
     checked (in_space s who space)
       (bind_res (require_message s space target) (\<lambda>_. Inr [(space, MessageUnpinned target)]))"

definition save_message :: "domain_state \<Rightarrow> actor_id \<Rightarrow> space_id \<Rightarrow> event_id \<Rightarrow> emission list outcome" where
  "save_message s who space target =
     checked (in_space s who space @ [live_message s space target])
       (if is_message_saved s who target then Inl (MessageAlreadySaved target)
        else Inr [(space, MessageSaved target)])"

definition unsave_message :: "domain_state \<Rightarrow> actor_id \<Rightarrow> space_id \<Rightarrow> event_id \<Rightarrow> emission list outcome" where
  "unsave_message s who space target =
     checked (in_space s who space)
       (bind_res (require_message s space target) (\<lambda>_.
          if \<not> is_message_saved s who target then Inl (MessageNotSaved target)
          else Inr [(space, MessageUnsaved target)]))"

definition start_thread ::
  "domain_state \<Rightarrow> actor_id \<Rightarrow> thread_id \<Rightarrow> space_id \<Rightarrow> event_id \<Rightarrow> string option \<Rightarrow> emission list outcome" where
  "start_thread s who fresh space root title =
     checked (in_space s who space)
       (bind_res (require_message s space root) (\<lambda>_. Inr [(space, ThreadStarted fresh root title)]))"

definition reply_in_thread ::
  "domain_state \<Rightarrow> actor_id \<Rightarrow> space_id \<Rightarrow> thread_id \<Rightarrow> string \<Rightarrow> emission list outcome" where
  "reply_in_thread s who space thread body =
     checked (in_space s who space @ [in_thread s space thread, validate_message_body body])
       (Inr [(space, MessagePosted body (Some thread))])"

definition resolve_thread :: "domain_state \<Rightarrow> actor_id \<Rightarrow> space_id \<Rightarrow> thread_id \<Rightarrow> emission list outcome" where
  "resolve_thread s who space thread =
     checked (in_space s who space @ [in_thread s space thread]) (Inr [(space, ThreadResolved thread)])"

definition reopen_thread :: "domain_state \<Rightarrow> actor_id \<Rightarrow> space_id \<Rightarrow> thread_id \<Rightarrow> emission list outcome" where
  "reopen_thread s who space thread =
     checked (in_space s who space @ [in_thread s space thread]) (Inr [(space, ThreadReopened thread)])"

subsection \<open>Tasks and alerts\<close>

definition create_task ::
  "domain_state \<Rightarrow> actor_id \<Rightarrow> space_id \<Rightarrow> string \<Rightarrow> event_id option \<Rightarrow> emission list outcome" where
  "create_task s who space title source =
     checked (in_space s who space @ [validate_task_title title]
              @ (case source of None \<Rightarrow> [] | Some i \<Rightarrow> [live_message s space i]))
       (Inr [(space, TaskCreated (trim title) source)])"

definition update_task ::
  "domain_state \<Rightarrow> actor_id \<Rightarrow> space_id \<Rightarrow> event_id \<Rightarrow> string \<Rightarrow> emission list outcome" where
  "update_task s who space task title =
     checked (in_space s who space @ [require_open_task s space task, validate_task_title title])
       (Inr [(space, TaskUpdated task (trim title))])"

definition set_task_checked ::
  "domain_state \<Rightarrow> actor_id \<Rightarrow> space_id \<Rightarrow> event_id \<Rightarrow> bool \<Rightarrow> emission list outcome" where
  "set_task_checked s who space task c =
     checked (in_space s who space @ [require_open_task s space task]) (Inr [(space, TaskChecked task c)])"

definition complete_task :: "domain_state \<Rightarrow> actor_id \<Rightarrow> space_id \<Rightarrow> event_id \<Rightarrow> emission list outcome" where
  "complete_task s who space task =
     checked (in_space s who space @ [require_open_task s space task]) (Inr [(space, TaskCompleted task)])"

definition reopen_task :: "domain_state \<Rightarrow> actor_id \<Rightarrow> space_id \<Rightarrow> event_id \<Rightarrow> emission list outcome" where
  "reopen_task s who space task =
     checked (in_space s who space @ [require_completed_task s space task]) (Inr [(space, TaskReopened task)])"

definition ack_alert :: "domain_state \<Rightarrow> actor_id \<Rightarrow> space_id \<Rightarrow> event_id \<Rightarrow> emission list outcome" where
  "ack_alert s who space alert =
     checked (in_space s who space @ [require_alert s space alert]) (Inr [(space, AlertAcknowledged alert)])"

definition snooze_alert ::
  "domain_state \<Rightarrow> actor_id \<Rightarrow> space_id \<Rightarrow> event_id \<Rightarrow> millis \<Rightarrow> emission list outcome" where
  "snooze_alert s who space alert until =
     checked (in_space s who space @ [require_alert s space alert]) (Inr [(space, AlertSnoozed alert until)])"

definition run_alert_action ::
  "domain_state \<Rightarrow> actor_id \<Rightarrow> space_id \<Rightarrow> event_id \<Rightarrow> string \<Rightarrow> bool \<Rightarrow> emission list outcome" where
  "run_alert_action s who space alert action armed =
     checked (in_space s who space @ [require_alert_action_id action])
       (case om_get (ds_alerts s) alert of
          None \<Rightarrow> Inl (AlertNotFound alert)
        | Some (sp, actions) \<Rightarrow>
            if sp \<noteq> space then Inl (AlertNotFound alert)
            else (case om_get actions action of
                    None \<Rightarrow> Inl (ActionNotFound alert action)
                  | Some kind \<Rightarrow>
                      if kind = Destructive \<and> \<not> armed then Inl (DestructiveNotArmed alert action)
                      else Inr [(space, AlertActionInvoked alert action armed (Some ''fired''))]))"

subsection \<open>The clipboard\<close>

definition publish_clipboard ::
  "domain_state \<Rightarrow> actor_id \<Rightarrow> space_id \<Rightarrow> clipboard_item \<Rightarrow> emission list outcome" where
  "publish_clipboard s who space item =
     checked (in_space s who space) (Inr [(space, ClipboardPublished item)])"

definition attach_clipboard ::
  "(uuid \<Rightarrow> string) \<Rightarrow> domain_state \<Rightarrow> actor_id \<Rightarrow> space_id \<Rightarrow> event_id \<Rightarrow> emission list outcome" where
  "attach_clipboard show_uuid s who space clip =
     checked (in_space s who space @ [require_clip s space clip])
       (Inr [(space, MessagePosted (''shared clipboard item '' @ [CHR 0x60] @ show_uuid clip @ [CHR 0x60]) None)])"

definition pin_clipboard :: "domain_state \<Rightarrow> actor_id \<Rightarrow> space_id \<Rightarrow> event_id \<Rightarrow> emission list outcome" where
  "pin_clipboard s who space clip =
     checked (in_space s who space @ [require_clip s space clip]) (Inr [(space, ClipboardPinned clip)])"

definition unpin_clipboard :: "domain_state \<Rightarrow> actor_id \<Rightarrow> space_id \<Rightarrow> event_id \<Rightarrow> emission list outcome" where
  "unpin_clipboard s who space clip =
     checked (in_space s who space @ [require_clip s space clip]) (Inr [(space, ClipboardUnpinned clip)])"

definition delete_clipboard :: "domain_state \<Rightarrow> actor_id \<Rightarrow> space_id \<Rightarrow> event_id \<Rightarrow> emission list outcome" where
  "delete_clipboard s who space clip =
     checked (in_space s who space @ [require_clip s space clip]) (Inr [(space, ClipboardDeleted clip)])"

definition clear_targets :: "domain_state \<Rightarrow> space_id \<Rightarrow> event_id list" where
  "clear_targets s space =
     take (MAX_CLEAR_CLIPBOARD_EVENTS + 1)
       (map fst (filter (\<lambda>(_, c). cp_space c = space \<and> \<not> cp_deleted c \<and> \<not> cp_pinned c) (ds_clips s)))"

definition clear_clipboard :: "domain_state \<Rightarrow> actor_id \<Rightarrow> space_id \<Rightarrow> emission list outcome" where
  "clear_clipboard s who space =
     checked (in_space s who space)
       (if length (clear_targets s space) > MAX_CLEAR_CLIPBOARD_EVENTS
        then Inl (SerdeError (''clear_clipboard fan-out exceeds ''
                    @ show_nat MAX_CLEAR_CLIPBOARD_EVENTS @ '' events''))
        else Inr (map (\<lambda>clip. (space, ClipboardDeleted clip)) (sort (clear_targets s space))))"

subsection \<open>Documents, files and transfers\<close>

definition in_document :: "domain_state \<Rightarrow> space_id \<Rightarrow> document_id \<Rightarrow> unit outcome" where
  "in_document s space d = ensure (om_get (ds_documents s) d = Some space) (DocumentNotFound d)"

definition optional_text :: "string option \<Rightarrow> string \<Rightarrow> unit outcome list" where
  "optional_text v field = (case v of None \<Rightarrow> [] | Some t \<Rightarrow> [validate_document_text t field])"

definition create_document ::
  "domain_state \<Rightarrow> actor_id \<Rightarrow> space_id \<Rightarrow> document_id \<Rightarrow> string \<Rightarrow> emission list outcome" where
  "create_document s who space d title =
     checked (in_space s who space @ [validate_document_text title ''document title''])
       (Inr [(space, DocumentCreated d title)])"

definition update_document ::
  "domain_state \<Rightarrow> actor_id \<Rightarrow> space_id \<Rightarrow> document_id \<Rightarrow> document_change \<Rightarrow> emission list outcome" where
  "update_document s who space d change =
     checked (in_space s who space @ [in_document s space d]
              @ optional_text (dc_summary change) ''document change summary'')
       (Inr [(space, DocumentUpdated d change)])"

definition request_review ::
  "domain_state \<Rightarrow> actor_id \<Rightarrow> space_id \<Rightarrow> document_id \<Rightarrow> actor_id list \<Rightarrow> emission list outcome" where
  "request_review s who space d reviewers =
     checked (in_space s who space @ [in_document s space d]) (Inr [(space, ReviewRequested d reviewers)])"

definition submit_review ::
  "domain_state \<Rightarrow> actor_id \<Rightarrow> space_id \<Rightarrow> document_id \<Rightarrow> review_verdict \<Rightarrow> string option
    \<Rightarrow> emission list outcome" where
  "submit_review s who space d verdict comment =
     checked (in_space s who space @ [in_document s space d] @ optional_text comment ''review comment'')
       (Inr [(space, ReviewSubmitted d verdict comment)])"

definition link_file ::
  "domain_state \<Rightarrow> actor_id \<Rightarrow> space_id \<Rightarrow> file_ref_id \<Rightarrow> file_ref \<Rightarrow> emission list outcome" where
  "link_file s who space file reference =
     checked (in_space s who space) (Inr [(space, FileLinked file reference)])"

definition commit_file_generation ::
  "domain_state \<Rightarrow> actor_id \<Rightarrow> millis \<Rightarrow> space_id \<Rightarrow> file_ref_id \<Rightarrow> millis \<Rightarrow> string \<Rightarrow> u64 \<Rightarrow> file_ref
    \<Rightarrow> emission list outcome" where
  "commit_file_generation s who now space file expected_generation expected_sha expected_size reference =
     checked (in_space s who space)
       (case om_get (ds_files s) file of
          None \<Rightarrow> Inl (FileNotFound file)
        | Some cur \<Rightarrow>
            if \<not> (fa_space cur = space \<and> fa_present cur) then Inl (FileNotFound file)
            else if fa_generation cur \<noteq> expected_generation \<or> fl_sha256 (fa_reference cur) \<noteq> expected_sha
                    \<or> fl_size (fa_reference cur) \<noteq> expected_size
            then Inl (FileGenerationConflict file expected_generation (fa_generation cur))
            else if now \<le> fa_generation cur
            then Inl (FileGenerationDidNotAdvance file (fa_generation cur) now)
            else if fl_name reference \<noteq> fl_name (fa_reference cur) \<or> fl_mime reference \<noteq> fl_mime (fa_reference cur)
            then Inl (FileGenerationMetadataMutation file)
            else if fl_size reference > MAX_TRANSFER_CONTENT_BYTES
                    \<or> \<not> is_nonzero_lower_sha256 (fl_sha256 reference)
                    \<or> fl_sha256 reference = fl_sha256 (fa_reference cur)
            then Inl (InvalidFileGeneration file)
            else Inr [(space, FileLinked file reference)])"

definition unlink_file :: "domain_state \<Rightarrow> actor_id \<Rightarrow> space_id \<Rightarrow> file_ref_id \<Rightarrow> emission list outcome" where
  "unlink_file s who space file =
     checked (in_space s who space)
       (if \<not> file_is_present s space file then Inl (FileNotFound file)
        else Inr [(space, FileUnlinked file)])"

definition start_transfer ::
  "domain_state \<Rightarrow> actor_id \<Rightarrow> space_id \<Rightarrow> transfer_id \<Rightarrow> file_ref_id \<Rightarrow> transfer_method \<Rightarrow> transfer_direction
    \<Rightarrow> emission list outcome" where
  "start_transfer s who space t file method direction =
     checked (in_space s who space)
       (if \<not> file_is_present s space file then Inl (FileNotFound file)
        else Inr [(space, TransferStarted t file method direction)])"

definition control_transfer ::
  "domain_state \<Rightarrow> actor_id \<Rightarrow> transfer_id \<Rightarrow> transfer_control \<Rightarrow> emission list outcome" where
  "control_transfer s who t control =
     (case om_get (ds_transfers s) t of
        None \<Rightarrow> Inl (TransferNotFound t)
      | Some cur \<Rightarrow>
          checked (in_space s who (tf_space cur))
            (bind_res (next_transfer_state t (tf_state cur) control) (\<lambda>st.
               Inr [(tf_space cur, TransferStateChanged t st)])))"

subsection \<open>Calls and suggestions\<close>

definition start_call ::
  "domain_state \<Rightarrow> actor_id \<Rightarrow> space_id \<Rightarrow> call_id \<Rightarrow> call_kind \<Rightarrow> emission list outcome" where
  "start_call s who space call kind =
     checked (in_space s who space) (Inr [(space, CallStarted call kind who)])"

definition start_outbound_call ::
  "domain_state \<Rightarrow> actor_id \<Rightarrow> space_id \<Rightarrow> call_id \<Rightarrow> string \<Rightarrow> emission list outcome" where
  "start_outbound_call s who space call target =
     checked (in_space s who space @ [require_call_dial_target target])
       (Inr [(space, CallStarted call Audio who)])"

definition answer_call :: "domain_state \<Rightarrow> actor_id \<Rightarrow> call_id \<Rightarrow> emission list outcome" where
  "answer_call s who call =
     bind_res (require_call s call) (\<lambda>space.
       checked [require_member s space who] (Inr [(space, CallParticipantChanged call who Connected)]))"

definition decline_call :: "domain_state \<Rightarrow> actor_id \<Rightarrow> call_id \<Rightarrow> emission list outcome" where
  "decline_call s who call =
     bind_res (require_call s call) (\<lambda>space.
       checked [require_member s space who] (Inr [(space, CallParticipantChanged call who Declined)]))"

definition others_connected :: "domain_state \<Rightarrow> actor_id \<Rightarrow> call_id \<Rightarrow> bool" where
  "others_connected s who call =
     (case om_get (ds_calls s) call of
        None \<Rightarrow> False
      | Some c \<Rightarrow> list_ex (\<lambda>(a, st). a \<noteq> who \<and> st = Connected) (cl_participants c))"

definition hang_up_call :: "domain_state \<Rightarrow> actor_id \<Rightarrow> call_id \<Rightarrow> emission list outcome" where
  "hang_up_call s who call =
     bind_res (require_active_call_participant s call who) (\<lambda>space.
       Inr ((space, CallParticipantChanged call who Left)
            # (if others_connected s who call then [] else [(space, CallEnded call (Some ''hung_up''))])))"

definition send_dtmf :: "domain_state \<Rightarrow> actor_id \<Rightarrow> call_id \<Rightarrow> nat \<Rightarrow> emission list outcome" where
  "send_dtmf s who call d =
     bind_res (require_active_call_participant s call who) (\<lambda>_. checked [require_dtmf_digit d] (Inr []))"

definition set_call_muted :: "domain_state \<Rightarrow> actor_id \<Rightarrow> call_id \<Rightarrow> bool \<Rightarrow> emission list outcome" where
  "set_call_muted s who call m =
     bind_res (require_active_call_participant s call who) (\<lambda>space.
       Inr [(space, CallParticipantMuted call who m)])"

definition request_ai_suggestion ::
  "domain_state \<Rightarrow> actor_id \<Rightarrow> space_id \<Rightarrow> string \<Rightarrow> event_id option \<Rightarrow> emission list outcome" where
  "request_ai_suggestion s who space i target =
     checked (in_space s who space @ [require_ai_request_id i]
              @ (case target of None \<Rightarrow> [] | Some t \<Rightarrow> [require_ai_target_in_space s space t])) (Inr [])"

definition cancel_ai_suggestion :: "domain_state \<Rightarrow> actor_id \<Rightarrow> space_id \<Rightarrow> string \<Rightarrow> emission list outcome" where
  "cancel_ai_suggestion s who space i =
     checked (in_space s who space @ [require_ai_request_id i]) (Inr [])"

section \<open>The pipeline\<close>

text \<open>
  What a branch reads beside the aggregate and the command: the actor, the time, the fresh random
  identifiers a space or a thread gets, and the text of a UUID.
\<close>

record command_env =
  cx_who :: actor_id
  cx_now :: millis
  cx_fresh :: uuid
  cx_uuid :: "uuid \<Rightarrow> string"

primrec emissions :: "command \<Rightarrow> command_env \<Rightarrow> domain_state \<Rightarrow> emission list outcome" where
  "emissions (CreateSpace kind name) x s = create_space (cx_who x) (cx_fresh x) kind name"
| "emissions (RenameSpace space name) x s = rename_space s (cx_who x) space name"
| "emissions (DeleteSpace space) x s = delete_space s (cx_who x) space"
| "emissions (AddMember space actor role) x s = add_member s (cx_who x) space actor role"
| "emissions (RemoveMember space actor) x s = remove_member s (cx_who x) space actor"
| "emissions (SetMemberRole space actor role) x s = set_member_role s (cx_who x) space actor role"
| "emissions (JoinSpace space) x s = join_space s (cx_who x) space"
| "emissions (LeaveSpace space) x s = leave_space s (cx_who x) space"
| "emissions (SetPresence p st) x s = set_presence (cx_who x) p st"
| "emissions (SendMessage space t b) x s = send_message s (cx_who x) space t b"
| "emissions (EditMessage space i b) x s = edit_message s (cx_who x) (cx_now x) space i b"
| "emissions (DeleteMessage space i) x s = delete_message s (cx_who x) (cx_now x) space i"
| "emissions (PinMessage space i) x s = pin_message s (cx_who x) space i"
| "emissions (UnpinMessage space i) x s = unpin_message s (cx_who x) space i"
| "emissions (SaveMessage space i) x s = save_message s (cx_who x) space i"
| "emissions (UnsaveMessage space i) x s = unsave_message s (cx_who x) space i"
| "emissions (StartThread space root title) x s = start_thread s (cx_who x) (cx_fresh x) space root title"
| "emissions (ReplyInThread space t b) x s = reply_in_thread s (cx_who x) space t b"
| "emissions (ResolveThread space t) x s = resolve_thread s (cx_who x) space t"
| "emissions (ReopenThread space t) x s = reopen_thread s (cx_who x) space t"
| "emissions (CreateTask space title src) x s = create_task s (cx_who x) space title src"
| "emissions (UpdateTask space i title) x s = update_task s (cx_who x) space i title"
| "emissions (SetTaskChecked space i c) x s = set_task_checked s (cx_who x) space i c"
| "emissions (CompleteTask space i) x s = complete_task s (cx_who x) space i"
| "emissions (ReopenTask space i) x s = reopen_task s (cx_who x) space i"
| "emissions (AckAlert space i) x s = ack_alert s (cx_who x) space i"
| "emissions (SnoozeAlert space i u) x s = snooze_alert s (cx_who x) space i u"
| "emissions (RunAlertAction space i a armed) x s = run_alert_action s (cx_who x) space i a armed"
| "emissions (SetAlertMute src m) x s = Inr []"
| "emissions (SetSeverityThreshold t) x s = Inr []"
| "emissions (SetDoNotDisturb b) x s = set_do_not_disturb (cx_who x) b"
| "emissions (PublishClipboard space txt it) x s = publish_clipboard s (cx_who x) space it"
| "emissions (AttachClipboard space i) x s = attach_clipboard (cx_uuid x) s (cx_who x) space i"
| "emissions (PinClipboard space i) x s = pin_clipboard s (cx_who x) space i"
| "emissions (UnpinClipboard space i) x s = unpin_clipboard s (cx_who x) space i"
| "emissions (DeleteClipboard space i) x s = delete_clipboard s (cx_who x) space i"
| "emissions (ClearClipboard space) x s = clear_clipboard s (cx_who x) space"
| "emissions (CreateDocument space d title) x s = create_document s (cx_who x) space d title"
| "emissions (UpdateDocument space d c) x s = update_document s (cx_who x) space d c"
| "emissions (RequestReview space d rs) x s = request_review s (cx_who x) space d rs"
| "emissions (SubmitReview space d v c) x s = submit_review s (cx_who x) space d v c"
| "emissions (LinkFile space f r) x s = link_file s (cx_who x) space f r"
| "emissions (CommitFileGeneration space f g h n r) x s =
     commit_file_generation s (cx_who x) (cx_now x) space f g h n r"
| "emissions (UnlinkFile space f) x s = unlink_file s (cx_who x) space f"
| "emissions (StartTransfer space t f m d) x s = start_transfer s (cx_who x) space t f m d"
| "emissions (ControlTransfer t c) x s = control_transfer s (cx_who x) t c"
| "emissions (StartCall space c k) x s = start_call s (cx_who x) space c k"
| "emissions (StartOutboundCall space c t) x s = start_outbound_call s (cx_who x) space c t"
| "emissions (AnswerCall c) x s = answer_call s (cx_who x) c"
| "emissions (DeclineCall c) x s = decline_call s (cx_who x) c"
| "emissions (HangUpCall c) x s = hang_up_call s (cx_who x) c"
| "emissions (SendDtmf c d) x s = send_dtmf s (cx_who x) c d"
| "emissions (SetCallMuted c m) x s = set_call_muted s (cx_who x) c m"
| "emissions (RequestAiSuggestion space i t k) x s = request_ai_suggestion s (cx_who x) space i t"
| "emissions (CancelAiSuggestion space i) x s = cancel_ai_suggestion s (cx_who x) space i"

text \<open>
  The authoring context: the clock, and the source of event identifiers (state \<open>'i\<close>, read by
  \<open>next_id\<close>).  The signer is a function on envelopes.
\<close>

record 'i author_ctx =
  ax_actor :: actor_id
  ax_now :: millis
  ax_clock :: actor_clock
  ax_ids :: 'i

record 'i authoring =
  au_sign :: "envelope \<Rightarrow> envelope"
  au_verify :: "envelope \<Rightarrow> bool"
  au_next_id :: "'i \<Rightarrow> event_id \<times> 'i"

definition u64_or_zero :: "millis \<Rightarrow> u64" where
  "u64_or_zero now = (if now < 0 then 0 else word_of_int now)"

definition emit :: "'i authoring \<Rightarrow> 'i author_ctx \<Rightarrow> emission \<Rightarrow> envelope \<times> 'i author_ctx" where
  "emit A x m =
     (let clock = clock_tick (ax_clock x) (u64_or_zero (ax_now x));
          (i, ids) = au_next_id A (ax_ids x);
          e = au_sign A (envelope_new i (fst m) (ax_actor x) clock (ax_now x) (snd m))
      in (e, x\<lparr>ax_clock := clock, ax_ids := ids\<rparr>))"

fun emit_all :: "'i authoring \<Rightarrow> 'i author_ctx \<Rightarrow> emission list \<Rightarrow> envelope list \<times> 'i author_ctx" where
  "emit_all A x [] = ([], x)"
| "emit_all A x (m # ms) =
     (let (e, x') = emit A x m; (es, x'') = emit_all A x' ms in (e # es, x''))"

definition apply_command ::
  "'i authoring \<Rightarrow> command_env \<Rightarrow> domain_state \<Rightarrow> command \<Rightarrow> 'i author_ctx
    \<Rightarrow> envelope list outcome \<times> 'i author_ctx" where
  "apply_command A env s cmd x =
     (case emissions cmd (env\<lparr>cx_who := ax_actor x, cx_now := ax_now x\<rparr>) s of
        Inl err \<Rightarrow> (Inl err, x)
      | Inr ms \<Rightarrow>
          let (es, x') = emit_all A x ms
          in (case find (\<lambda>e. \<not> au_verify A e) es of
                Some e \<Rightarrow> Inl (InvalidEvent (en_id e))
              | None \<Rightarrow> Inr es, x'))"

end
