(* ===== verification/CollabPromises.thy ===== *)
theory CollabPromises
  imports CollabCommands
begin

text \<open>
  What the command pipeline guarantees: which authority an accepted command had
  (\<open>accepted_commands_have_authority\<close>), that its events have the effect the command promises when
  they are folded (\<open>accepted_commands_take_effect\<close>, against the specification \<open>promised\<close>), and that
  no accepted command leaves a space without an owner.
\<close>

section \<open>When the guards pass\<close>

lemma checked_Inr [result_simps]:
  "checked gs r = Inr v \<longleftrightarrow> list_all (\<lambda>g. g = Inr ()) gs \<and> r = Inr v"
proof (induction gs)
  case (Cons g gs)
  then show ?case by (cases g) auto
qed simp

definition active_space :: "domain_state \<Rightarrow> space_id \<Rightarrow> bool" where
  "active_space s sp = (case space_of s sp of None \<Rightarrow> False | Some g \<Rightarrow> \<not> sp_deleted g)"

lemma require_active_space_Inr [result_simps]: "require_active_space s sp = Inr u \<longleftrightarrow> active_space s sp"
  by (auto simp: require_active_space_def active_space_def split: option.splits if_splits)

lemma require_member_Inr [result_simps]: "require_member s sp a = Inr u \<longleftrightarrow> is_member s sp a"
  by (simp add: require_member_def result_simps)

lemma is_owner_member: "is_owner s sp a \<Longrightarrow> is_member s sp a"
  by (auto simp: member_defs split: option.splits if_splits bind_splits)

lemma require_owner_Inr [result_simps]: "require_owner s sp a w = Inr u \<longleftrightarrow> is_owner s sp a"
  by (auto simp: require_owner_def result_simps is_owner_member)

lemma require_message_Inr [result_simps]:
  "require_message s sp i = Inr m \<longleftrightarrow> om_get (ds_messages s) i = Some m \<and> ms_space m = sp"
  by (auto simp: require_message_def split: option.splits)

lemma require_open_task_Inr [result_simps]:
  "require_open_task s sp i = Inr u \<longleftrightarrow>
     (\<exists>t. om_get (ds_tasks s) i = Some t \<and> tk_space t = sp \<and> \<not> tk_completed t)"
  by (auto simp: require_open_task_def split: option.splits)

lemma require_completed_task_Inr [result_simps]:
  "require_completed_task s sp i = Inr u \<longleftrightarrow>
     (\<exists>t. om_get (ds_tasks s) i = Some t \<and> tk_space t = sp \<and> tk_completed t)"
  by (auto simp: require_completed_task_def split: option.splits)

lemma require_clip_Inr [result_simps]:
  "require_clip s sp i = Inr u \<longleftrightarrow>
     (\<exists>c. om_get (ds_clips s) i = Some c \<and> cp_space c = sp \<and> \<not> cp_deleted c)"
  by (auto simp: require_clip_def split: option.splits)

lemma require_call_Inr [result_simps]:
  "require_call s i = Inr sp \<longleftrightarrow>
     (\<exists>c. om_get (ds_calls s) i = Some c \<and> \<not> cl_ended c \<and> any_connected c \<and> cl_space c = sp)"
  by (auto simp: require_call_def split: option.splits)

lemma require_participant_Inr [result_simps]:
  "require_active_call_participant s i a = Inr sp \<longleftrightarrow>
     (\<exists>c. om_get (ds_calls s) i = Some c \<and> \<not> cl_ended c \<and> om_get (cl_participants c) a = Some Connected
        \<and> cl_space c = sp \<and> is_member s sp a)"
  by (auto simp: require_active_call_participant_def result_simps split: option.splits)

lemma in_space_pass [result_simps]:
  "list_all (\<lambda>g. g = Inr ()) (in_space s a sp) \<longleftrightarrow> active_space s sp \<and> is_member s sp a"
  by (simp add: in_space_def result_simps)

lemma own_message_Inr [result_simps]:
  "own_message s a sp i now = Inr u \<longleftrightarrow>
     (\<exists>m. om_get (ds_messages s) i = Some m \<and> ms_space m = sp \<and> ms_author m = a \<and> \<not> ms_deleted m
        \<and> sat_millis_sub now (ms_created m) \<le> EDIT_WINDOW_MS)"
  by (auto simp: own_message_def enforce_window_def Let_def result_simps split: if_splits)

lemma live_message_Inr [result_simps]: "live_message s sp i = Inr u \<longleftrightarrow> visible_message s sp i"
  by (auto simp: live_message_def result_simps visible_message_def split: option.splits)

lemmas branch_defs =
  create_space_def rename_space_def delete_space_def add_member_def remove_member_def
  set_member_role_def join_space_def leave_space_def set_presence_def set_do_not_disturb_def
  send_message_def edit_message_def delete_message_def pin_message_def unpin_message_def
  save_message_def unsave_message_def start_thread_def reply_in_thread_def resolve_thread_def
  reopen_thread_def create_task_def update_task_def set_task_checked_def complete_task_def
  reopen_task_def ack_alert_def snooze_alert_def run_alert_action_def publish_clipboard_def
  attach_clipboard_def pin_clipboard_def unpin_clipboard_def delete_clipboard_def
  clear_clipboard_def create_document_def update_document_def request_review_def submit_review_def
  link_file_def commit_file_generation_def unlink_file_def start_transfer_def control_transfer_def
  start_call_def start_outbound_call_def answer_call_def decline_call_def hang_up_call_def
  send_dtmf_def set_call_muted_def request_ai_suggestion_def cancel_ai_suggestion_def

section \<open>Authority\<close>

text \<open>The three things a command may do outside the spaces its author is a member of.\<close>

definition authorized :: "command_env \<Rightarrow> domain_state \<Rightarrow> emission \<Rightarrow> bool" where
  "authorized x s m \<longleftrightarrow>
     is_member s (fst m) (cx_who x)
     \<or> snd m = MemberJoined (cx_who x) Member \<and> active_space s (fst m)
     \<or> fst m = cx_fresh x \<and> snd m \<in> {SpaceCreated k n |k n. True} \<union> {MemberJoined (cx_who x) Owner}
     \<or> fst m = 0 \<and> snd m \<in> {PresenceChanged (cx_who x) p st |p st. True}"

lemma authorized_member: "is_member s sp (cx_who x) \<Longrightarrow> authorized x s (sp, k)"
  by (simp add: authorized_def)

lemma authorized_members: "is_member s sp (cx_who x) \<Longrightarrow> list_all (authorized x s) (map (\<lambda>i. (sp, f i)) is)"
  by (simp add: authorized_member list_all_iff)

lemma authorized_create: "authorized x s (cx_fresh x, SpaceCreated k n)" "authorized x s (cx_fresh x, MemberJoined (cx_who x) Owner)"
  by (simp_all add: authorized_def)

lemma authorized_join: "active_space s sp \<Longrightarrow> authorized x s (sp, MemberJoined (cx_who x) Member)"
  by (simp add: authorized_def)

lemma authorized_presence: "authorized x s (0, PresenceChanged (cx_who x) p st)"
  by (simp add: authorized_def)

lemma emissions_authorized: "emissions cmd x s = Inr ms \<Longrightarrow> list_all (authorized x s) ms"
  by (cases cmd)
    (auto simp: branch_defs result_simps authorized_member authorized_members is_owner_member authorized_create
       authorized_join authorized_presence split: if_splits option.splits prod.splits)

section \<open>Ownership\<close>

definition owned :: "domain_state \<Rightarrow> space_id \<Rightarrow> bool" where
  "owned s sp = (case space_of s sp of None \<Rightarrow> False | Some g \<Rightarrow> 0 < present_owner_count g)"

definition owner_entry :: "member_agg \<Rightarrow> bool" where
  "owner_entry m \<longleftrightarrow> mb_present m \<and> mb_role m = Owner"

lemma present_owner_count_eq: "present_owner_count g = length (filter owner_entry (om_values (sp_members g)))"
  by (simp add: present_owner_count_def owner_entry_def [abs_def])

lemma is_owner_iff: "is_owner s sp a \<longleftrightarrow> (\<exists>m. member_of s sp a = Some m \<and> owner_entry m)"
  by (auto simp: is_owner_def role_of_def owner_entry_def split: option.splits)

lemma is_owner_owned: "is_owner s sp a \<Longrightarrow> owned s sp"
  by (force simp: is_owner_iff owned_def present_owner_count_eq member_of_def om_values_def om_get_def
      filter_empty_conv split: option.splits bind_splits dest: map_of_SomeD)

lemma domain_inv_members: "domain_inv s \<Longrightarrow> space_of s sp = Some g \<Longrightarrow> om_wf (sp_members g)"
  by (auto simp: domain_inv_def space_of_def tidy_space_def [abs_def] dest: all_values_get)

lemma owned_is_owner:
  assumes inv: "domain_inv s" and "owned s sp"
  shows "\<exists>a. is_owner s sp a"
proof -
  obtain g where g: "space_of s sp = Some g" "0 < present_owner_count g"
    using assms(2) by (auto simp: owned_def split: option.splits)
  then obtain m where "m \<in> set (om_values (sp_members g))" "owner_entry m"
    by (auto simp: present_owner_count_eq filter_empty_conv)
  then obtain a where "(a, m) \<in> set (sp_members g)" by (auto simp: om_values_def)
  then have "om_get (sp_members g) a = Some m"
    using om_get_mem [OF domain_inv_members [OF inv g(1)]] by simp
  with g \<open>owner_entry m\<close> show ?thesis by (auto simp: is_owner_iff member_of_def)
qed

text \<open>An owner whose going would not orphan the space leaves another owner behind.\<close>

lemma another_owner:
  assumes inv: "domain_inv s" and "owned s sp" and "\<not> would_orphan s sp a"
  shows "\<exists>b. b \<noteq> a \<and> is_owner s sp b"
proof (cases "is_owner s sp a")
  case False
  with owned_is_owner [OF assms(1,2)] show ?thesis by auto
next
  case True
  obtain g where g: "space_of s sp = Some g" using assms(2) by (auto simp: owned_def split: option.splits)
  with True assms(3) have "1 < present_owner_count g" by (simp add: would_orphan_def is_owner_def)
  from om_second [OF domain_inv_members [OF inv g] this [unfolded present_owner_count_eq]] obtain b m
    where "b \<noteq> a" "om_get (sp_members g) b = Some m" "owner_entry m" by blast
  with g show ?thesis by (auto simp: is_owner_iff member_of_def)
qed

fun neutral :: "event_kind \<Rightarrow> bool" where
  "neutral (MemberJoined a r) = False"
| "neutral (MemberLeft a) = False"
| "neutral (MemberRoleChanged a r) = False"
| "neutral k = True"

lemma neutral_owner: "neutral (en_kind e) \<Longrightarrow> is_owner s sp a \<Longrightarrow> is_owner (apply_event e s) sp a"
  unfolding apply_event_def
  by (cases "en_kind e")
    (auto simp: is_owner_iff member_of_def space_simps split: option.splits bind_splits)

lemma joined_owner:
  "is_owner s sp b \<Longrightarrow> en_kind e = MemberJoined a r \<Longrightarrow> b \<noteq> a \<or> en_space e \<noteq> sp \<or> r = Owner
    \<Longrightarrow> is_owner (apply_event e s) sp b"
  by (auto simp: apply_event_def is_owner_iff member_of_def space_simps om_get_put owner_entry_def
      split: option.splits bind_splits)

lemma left_owner:
  "is_owner s sp b \<Longrightarrow> en_kind e = MemberLeft a \<Longrightarrow> b \<noteq> a \<or> en_space e \<noteq> sp \<Longrightarrow> is_owner (apply_event e s) sp b"
  by (auto simp: apply_event_def is_owner_iff member_of_def space_simps om_get_modify
      split: option.splits bind_splits)

lemma role_owner:
  "is_owner s sp b \<Longrightarrow> en_kind e = MemberRoleChanged a r \<Longrightarrow> b \<noteq> a \<or> en_space e \<noteq> sp \<or> r = Owner
    \<Longrightarrow> is_owner (apply_event e s) sp b"
  by (auto simp: apply_event_def is_owner_iff member_of_def space_simps om_get_modify owner_entry_def
      split: option.splits bind_splits)

definition safe_membership :: "domain_state \<Rightarrow> emission \<Rightarrow> bool" where
  "safe_membership s m =
     (case snd m of
        MemberJoined a r \<Rightarrow> r = Owner \<or> \<not> is_member s (fst m) a
      | MemberLeft a \<Rightarrow> \<not> would_orphan s (fst m) a
      | MemberRoleChanged a r \<Rightarrow> r = Owner \<or> \<not> would_orphan s (fst m) a
      | _ \<Rightarrow> True)"

lemma safe_membership_simps [simp]:
  "safe_membership s (sp, MemberJoined a r) \<longleftrightarrow> r = Owner \<or> \<not> is_member s sp a"
  "safe_membership s (sp, MemberLeft a) \<longleftrightarrow> \<not> would_orphan s sp a"
  "safe_membership s (sp, MemberRoleChanged a r) \<longleftrightarrow> r = Owner \<or> \<not> would_orphan s sp a"
  by (simp_all add: safe_membership_def)

text \<open>A command touches no membership, or one and safely, or makes its author an owner.\<close>

lemma emissions_safe:
  "emissions cmd x s = Inr ms \<Longrightarrow>
     list_all (\<lambda>m. neutral (snd m)) ms \<or> (\<exists>m. ms = [m] \<and> safe_membership s m)
     \<or> (\<exists>k n. ms = [(cx_fresh x, SpaceCreated k n), (cx_fresh x, MemberJoined (cx_who x) Owner)])"
  by (cases cmd)
    (auto simp: branch_defs result_simps list_all_iff
       intro: space_role.exhaust split: if_splits option.splits prod.splits)

definition carries :: "command_env \<Rightarrow> envelope list \<Rightarrow> emission list \<Rightarrow> bool" where
  "carries x es ms \<longleftrightarrow> map (\<lambda>e. (en_space e, en_kind e)) es = ms
     \<and> list_all (\<lambda>e. en_actor e = cx_who x \<and> en_created e = cx_now x) es"

lemma safe_membership_keeps:
  assumes inv: "domain_inv s" and owned: "owned s sp" and safe: "safe_membership s (en_space e, en_kind e)"
    and "\<not> neutral (en_kind e)"
  shows "owned (apply_event e s) sp"
proof -
  obtain b where b: "is_owner s sp b" using owned_is_owner [OF inv owned] by auto
  show ?thesis
  proof (cases "en_kind e")
    case (MemberJoined a r)
    with safe b is_owner_member [OF b] have "b \<noteq> a \<or> en_space e \<noteq> sp \<or> r = Owner" by auto
    with b MemberJoined show ?thesis using joined_owner is_owner_owned by blast
  next
    case (MemberLeft a)
    show ?thesis
    proof (cases "en_space e = sp")
      case True
      with safe MemberLeft another_owner [OF inv owned, of a] obtain c where "c \<noteq> a" "is_owner s sp c" by auto
      with MemberLeft show ?thesis using left_owner is_owner_owned by blast
    next
      case False
      with b MemberLeft show ?thesis using left_owner is_owner_owned by blast
    qed
  next
    case (MemberRoleChanged a r)
    show ?thesis
    proof (cases "en_space e = sp \<and> r \<noteq> Owner")
      case True
      with safe MemberRoleChanged another_owner [OF inv owned, of a] obtain c where "c \<noteq> a" "is_owner s sp c" by auto
      with MemberRoleChanged show ?thesis using role_owner is_owner_owned by blast
    next
      case False
      with b MemberRoleChanged show ?thesis using role_owner is_owner_owned by blast
    qed
  qed (use assms(4) in simp_all)
qed

lemma neutral_fold_owner:
  "list_all (\<lambda>e. neutral (en_kind e)) es \<Longrightarrow> is_owner s sp a \<Longrightarrow> is_owner (fold apply_event es s) sp a"
  by (induction es arbitrary: s) (simp_all add: neutral_owner)

lemma never_orphan:
  assumes inv: "domain_inv s" and acc: "emissions cmd x s = Inr ms" and es: "carries x es ms"
    and owned: "owned s sp"
  shows "owned (fold apply_event es s) sp"
proof -
  obtain a where a: "is_owner s sp a" using owned_is_owner [OF inv owned] by auto
  have map: "map (\<lambda>e. (en_space e, en_kind e)) es = ms" using es by (simp add: carries_def)
  from emissions_safe [OF acc] consider
    "list_all (\<lambda>m. neutral (snd m)) ms"
  | m where "ms = [m]" "safe_membership s m"
  | k n where "ms = [(cx_fresh x, SpaceCreated k n), (cx_fresh x, MemberJoined (cx_who x) Owner)]"
    by blast
  then show ?thesis
  proof cases
    case 1
    then have "list_all (\<lambda>e. neutral (en_kind e)) es" by (simp add: list_all_iff flip: map)
    then show ?thesis using neutral_fold_owner [OF _ a] is_owner_owned by blast
  next
    case 2
    then obtain e where e: "es = [e]" "m = (en_space e, en_kind e)" using map by auto
    show ?thesis
    proof (cases "neutral (en_kind e)")
      case True
      from neutral_owner [OF True a] e show ?thesis by (simp add: is_owner_owned)
    next
      case False
      with 2 e show ?thesis using safe_membership_keeps [OF inv owned] by simp
    qed
  next
    case 3
    then obtain e f where ef: "es = [e, f]" "en_kind e = SpaceCreated k n"
      "en_kind f = MemberJoined (cx_who x) Owner" using map by auto
    then have "is_owner (apply_event e s) sp a" using neutral_owner [of e s sp a] a by simp
    then have "is_owner (apply_event f (apply_event e s)) sp a" by (rule joined_owner [OF _ ef(3)]) simp
    then show ?thesis using ef is_owner_owned by simp
  qed
qed

text \<open>No command leaves a space without an owner.  Where a command is accepted in a well-formed
  aggregate, every space with a present owner still has one after its events are folded: the counts
  \<open>would_orphan\<close> takes before removing, demoting or leaving are enough.
\<close>

theorem commands_never_orphan_a_space:
  assumes "domain_inv s" and "emissions cmd x s = Inr ms" and "carries x es ms" and "owned s sp"
  shows "owned (fold apply_event es s) sp"
  by (rule never_orphan [OF assms])

definition who_a :: command_env where
  "who_a = \<lparr>cx_who = ''a'', cx_now = 9, cx_fresh = 77, cx_uuid = display\<rparr>"

lemma remove_b: "emissions (RemoveMember 3 ''b'') who_a demo_space = Inr [(3, MemberLeft ''b'')]"
  by (simp add: branch_defs who_a_def require_active_space_def require_owner_def require_member_def member_defs
      space_of_def demo_space_spaces om_get_def ensure_def would_orphan_def)

theorem commands_never_orphan_a_space_witness:
  "owned (fold apply_event [ev 4 ''a'' 4 (MemberLeft ''b'')\<lparr>en_created := 9\<rparr>] demo_space) 3"
proof (rule commands_never_orphan_a_space)
  show "domain_inv demo_space" unfolding demo_space_def by (rule domain_inv_from_events)
  show "emissions (RemoveMember 3 ''b'') who_a demo_space = Inr [(3, MemberLeft ''b'')]" by (rule remove_b)
  show "carries who_a [ev 4 ''a'' 4 (MemberLeft ''b'')\<lparr>en_created := 9\<rparr>] [(3, MemberLeft ''b'')]"
    by (simp add: carries_def who_a_def ev_def envelope_new_def)
  show "owned demo_space 3"
    by (simp add: owned_def space_of_def demo_space_spaces om_get_def present_owner_count_def om_values_def)
qed

section \<open>What a command promises\<close>

text \<open>
  The effect of each accepted command, with \<open>es\<close> the events it emitted, \<open>s\<close> the aggregate before them
  and \<open>t\<close> the aggregate after.  \<open>t = s\<close> says that the fact is for the read side only.
\<close>

definition posted_in :: "command_env \<Rightarrow> space_id \<Rightarrow> envelope list \<Rightarrow> domain_state \<Rightarrow> bool" where
  "posted_in x sp es t \<longleftrightarrow> length es = 1 \<and>
     list_all (\<lambda>e. om_get (ds_messages t) (en_id e) = Some
       \<lparr>ms_space = sp, ms_author = cx_who x, ms_created = cx_now x, ms_deleted = False, ms_pinned = False\<rparr>) es"

definition message_pinned :: "domain_state \<Rightarrow> event_id \<Rightarrow> bool" where
  "message_pinned s i = (case om_get (ds_messages s) i of None \<Rightarrow> False | Some m \<Rightarrow> ms_pinned m)"

definition clip_pinned :: "domain_state \<Rightarrow> event_id \<Rightarrow> bool" where
  "clip_pinned s i = (case om_get (ds_clips s) i of None \<Rightarrow> False | Some c \<Rightarrow> cp_pinned c)"

definition participant :: "domain_state \<Rightarrow> call_id \<Rightarrow> actor_id \<Rightarrow> participant_state option" where
  "participant s c a = Option.bind (om_get (ds_calls s) c) (\<lambda>g. om_get (cl_participants g) a)"

definition is_muted :: "domain_state \<Rightarrow> call_id \<Rightarrow> actor_id \<Rightarrow> bool option" where
  "is_muted s c a = Option.bind (om_get (ds_calls s) c) (\<lambda>g. om_get (cl_muted g) a)"

definition call_live :: "domain_state \<Rightarrow> call_id \<Rightarrow> bool" where
  "call_live s c = (case om_get (ds_calls s) c of None \<Rightarrow> False | Some g \<Rightarrow> \<not> cl_ended g)"

definition generation :: "domain_state \<Rightarrow> file_ref_id \<Rightarrow> millis option" where
  "generation s f = map_option fa_generation (om_get (ds_files s) f)"

primrec promised :: "command \<Rightarrow> command_env \<Rightarrow> envelope list \<Rightarrow> domain_state \<Rightarrow> domain_state \<Rightarrow> bool" where
  "promised (CreateSpace kind name) x es s t =
     (is_owner t (cx_fresh x) (cx_who x)
      \<and> (case space_of s (cx_fresh x) of Some g \<Rightarrow> True
         | None \<Rightarrow> map_option (\<lambda>g. (sp_kind g, sp_name g, sp_deleted g)) (space_of t (cx_fresh x)) = Some (kind, name, False)))"
| "promised (RenameSpace sp name) x es s t = (map_option sp_name (space_of t sp) = Some name)"
| "promised (DeleteSpace sp) x es s t = space_deleted t sp"
| "promised (AddMember sp a r) x es s t = (role_of t sp a = Some r)"
| "promised (RemoveMember sp a) x es s t = (\<not> is_member t sp a)"
| "promised (SetMemberRole sp a r) x es s t = (role_of t sp a = Some r)"
| "promised (JoinSpace sp) x es s t = (role_of t sp (cx_who x) = Some Member)"
| "promised (LeaveSpace sp) x es s t = (\<not> is_member t sp (cx_who x))"
| "promised (SetPresence p st) x es s t = (t = s)"
| "promised (SendMessage sp th b) x es s t = posted_in x sp es t"
| "promised (EditMessage sp i b) x es s t = (t = s)"
| "promised (DeleteMessage sp i) x es s t = message_deleted t i"
| "promised (PinMessage sp i) x es s t = message_pinned t i"
| "promised (UnpinMessage sp i) x es s t = (\<not> message_pinned t i)"
| "promised (SaveMessage sp i) x es s t = is_message_saved t (cx_who x) i"
| "promised (UnsaveMessage sp i) x es s t = (\<not> is_message_saved t (cx_who x) i)"
| "promised (StartThread sp i title) x es s t = (om_get (ds_threads t) (cx_fresh x) = Some sp)"
| "promised (ReplyInThread sp th b) x es s t = posted_in x sp es t"
| "promised (ResolveThread sp th) x es s t = (t = s)"
| "promised (ReopenThread sp th) x es s t = (t = s)"
| "promised (CreateTask sp title src) x es s t =
     (length es = 1 \<and> list_all (\<lambda>e. require_open_task t sp (en_id e) = Inr ()) es)"
| "promised (UpdateTask sp i title) x es s t = (t = s)"
| "promised (SetTaskChecked sp i c) x es s t = (t = s)"
| "promised (CompleteTask sp i) x es s t = (require_completed_task t sp i = Inr ())"
| "promised (ReopenTask sp i) x es s t = (require_open_task t sp i = Inr ())"
| "promised (AckAlert sp i) x es s t = (t = s)"
| "promised (SnoozeAlert sp i u) x es s t = (t = s)"
| "promised (RunAlertAction sp i a armed) x es s t = (t = s)"
| "promised (SetAlertMute src m) x es s t = (es = [] \<and> t = s)"
| "promised (SetSeverityThreshold th) x es s t = (es = [] \<and> t = s)"
| "promised (SetDoNotDisturb b) x es s t = (t = s)"
| "promised (PublishClipboard sp txt it) x es s t =
     (length es = 1 \<and> list_all (\<lambda>e. require_clip t sp (en_id e) = Inr ()) es)"
| "promised (AttachClipboard sp i) x es s t = posted_in x sp es t"
| "promised (PinClipboard sp i) x es s t = clip_pinned t i"
| "promised (UnpinClipboard sp i) x es s t = (\<not> clip_pinned t i)"
| "promised (DeleteClipboard sp i) x es s t = (require_clip t sp i = Inl (ClipNotFound i))"
| "promised (ClearClipboard sp) x es s t = (clear_targets t sp = [])"
| "promised (CreateDocument sp d title) x es s t = (om_get (ds_documents t) d = Some sp)"
| "promised (UpdateDocument sp d c) x es s t = (t = s)"
| "promised (RequestReview sp d rs) x es s t = (t = s)"
| "promised (SubmitReview sp d v c) x es s t = (t = s)"
| "promised (LinkFile sp f r) x es s t =
     (om_get (ds_files t) f = Some \<lparr>fa_space = sp, fa_present = True, fa_reference = r, fa_generation = cx_now x\<rparr>)"
| "promised (CommitFileGeneration sp f g h n r) x es s t =
     (om_get (ds_files t) f = Some \<lparr>fa_space = sp, fa_present = True, fa_reference = r, fa_generation = cx_now x\<rparr>
      \<and> generation s f = Some g \<and> g < cx_now x \<and> fl_sha256 r \<noteq> h)"
| "promised (UnlinkFile sp f) x es s t = (\<not> file_is_present t sp f)"
| "promised (StartTransfer sp i f m d) x es s t =
     (om_get (ds_transfers t) i = Some \<lparr>tf_space = sp, tf_state = Queued\<rparr>)"
| "promised (ControlTransfer i c) x es s t =
     (case (om_get (ds_transfers s) i, om_get (ds_transfers t) i) of
        (Some g, Some h) \<Rightarrow> next_transfer_state i (tf_state g) c = Inr (tf_state h) \<and> tf_space h = tf_space g
      | _ \<Rightarrow> False)"
| "promised (StartCall sp c k) x es s t = (require_active_call_participant t c (cx_who x) = Inr sp)"
| "promised (StartOutboundCall sp c tgt) x es s t = (require_active_call_participant t c (cx_who x) = Inr sp)"
| "promised (AnswerCall c) x es s t = (call_live t c \<and> participant t c (cx_who x) = Some Connected)"
| "promised (DeclineCall c) x es s t = (participant t c (cx_who x) = Some Declined)"
| "promised (HangUpCall c) x es s t =
     (participant t c (cx_who x) = Some Left \<and> (others_connected s (cx_who x) c \<or> \<not> call_live t c))"
| "promised (SendDtmf c d) x es s t = (es = [] \<and> t = s)"
| "promised (SetCallMuted c m) x es s t = (is_muted t c (cx_who x) = Some m)"
| "promised (RequestAiSuggestion sp i tgt k) x es s t = (es = [] \<and> t = s)"
| "promised (CancelAiSuggestion sp i) x es s t = (es = [] \<and> t = s)"

lemmas promise_defs = posted_in_def message_deleted_def message_pinned_def clip_pinned_def participant_def
  is_muted_def call_live_def generation_def

lemma carries_one: "carries x es [m] \<longleftrightarrow>
    (\<exists>e. es = [e] \<and> en_space e = fst m \<and> en_kind e = snd m \<and> en_actor e = cx_who x \<and> en_created e = cx_now x)"
  by (cases m) (auto simp: carries_def)

lemma carries_Nil: "carries x es [] \<longleftrightarrow> es = []"
  by (auto simp: carries_def)

lemma carries_two: "carries x es [m, n] \<longleftrightarrow>
    (\<exists>e f. es = [e, f] \<and> en_space e = fst m \<and> en_kind e = snd m \<and> en_actor e = cx_who x \<and> en_created e = cx_now x
     \<and> en_space f = fst n \<and> en_kind f = snd n \<and> en_actor f = cx_who x \<and> en_created f = cx_now x)"
  by (cases m; cases n) (auto simp: carries_def)

lemmas entry_defs = upd_message_def upd_task_def upd_clip_def upd_call_def

text \<open>Clearing the clipboard is the one command with a batch of events.\<close>

lemma fold_modify:
  "(\<And>v. f (f v) = f v) \<Longrightarrow>
     fold (\<lambda>i. om_modify i f) is m = map (\<lambda>(k, v). (k, if k \<in> set is then f v else v)) m"
  by (induction "is" arbitrary: m) (auto simp: om_modify_def)

lemma fold_clip_deletions:
  "carries x es (map (\<lambda>i. (sp, ClipboardDeleted i)) is) \<Longrightarrow>
     ds_clips (fold apply_event es s) = fold (\<lambda>i. om_modify i (\<lambda>c. c\<lparr>cp_deleted := True\<rparr>)) is (ds_clips s)"
proof (induction "is" arbitrary: es s)
  case (Cons i "is")
  then obtain e fs where "es = e # fs" "en_kind e = ClipboardDeleted i"
    "carries x fs (map (\<lambda>i. (sp, ClipboardDeleted i)) is)"
    by (auto simp: carries_def)
  then show ?case using Cons.IH [of fs "apply_event e s"] by (simp add: apply_event_def upd_clip_def)
qed (simp add: carries_Nil)

lemma clear_clears:
  assumes "carries x es (map (\<lambda>i. (sp, ClipboardDeleted i)) (sort (clear_targets s sp)))"
    and "\<not> MAX_CLEAR_CLIPBOARD_EVENTS < length (clear_targets s sp)"
  shows "clear_targets (fold apply_event es s) sp = []"
proof -
  let ?P = "\<lambda>c. cp_space c = sp \<and> \<not> cp_deleted c \<and> \<not> cp_pinned c"
  let ?all = "map fst (filter (\<lambda>(_, c). ?P c) (ds_clips s))"
  have "length ?all \<le> MAX_CLEAR_CLIPBOARD_EVENTS"
    using assms(2) by (auto simp: clear_targets_def)
  then have ids: "set (clear_targets s sp) = set ?all" by (simp add: clear_targets_def)
  have "ds_clips (fold apply_event es s)
      = map (\<lambda>(k, c). (k, if k \<in> set (clear_targets s sp) then c\<lparr>cp_deleted := True\<rparr> else c)) (ds_clips s)"
    unfolding fold_clip_deletions [OF assms(1)] by (subst fold_modify) auto
  moreover have "k \<in> set (clear_targets s sp)" if "(k, c) \<in> set (ds_clips s)" "?P c" for k c
    unfolding ids using that by force
  ultimately have "filter (\<lambda>(_, c). ?P c) (ds_clips (fold apply_event es s)) = []"
    by (auto simp: filter_empty_conv split: if_splits)
  then show ?thesis by (simp add: clear_targets_def)
qed

lemma any_connected_muted [simp]: "any_connected (c\<lparr>cl_muted := m\<rparr>) = any_connected c"
  by (simp add: any_connected_def)

lemma participant_changed_simps:
  "cl_space (participant_changed a st c) = cl_space c"
  "om_get (cl_participants (participant_changed a st c)) b = (if b = a then Some st else om_get (cl_participants c) b)"
  "cl_ended (participant_changed a Connected c) = cl_ended c"
  by (simp_all add: participant_changed_def Let_def om_get_put any_connected_put)

lemmas effect_simps = branch_defs result_simps carries_one carries_two carries_Nil apply_event_def entry_defs
  space_simps om_get_put om_get_modify om_get_upd

lemma accepted_effect:
  assumes "emissions cmd x s = Inr ms" and "carries x es ms"
  shows "promised cmd x es s (fold apply_event es s)"
proof (cases cmd)
  case (ClearClipboard sp)
  with assms show ?thesis
    by (auto simp: clear_clipboard_def result_simps intro: clear_clears split: if_splits)
next
  case (DeleteClipboard sp i)
  with assms show ?thesis by (auto simp: effect_simps require_clip_def split: option.splits if_splits)
next
  case (CreateSpace k n)
  with assms show ?thesis by (auto simp: effect_simps member_defs split: if_splits option.splits bind_splits)
next
  case (DeleteSpace sp)
  with assms show ?thesis
    by (auto simp: effect_simps member_defs space_deleted_def split: if_splits option.splits bind_splits)
next
  case (AddMember sp a r)
  with assms show ?thesis
    by (auto simp: effect_simps member_defs active_space_def split: if_splits option.splits bind_splits)
next
  case (RemoveMember sp a)
  with assms show ?thesis
    by (auto simp: effect_simps member_defs active_space_def split: if_splits option.splits bind_splits)
next
  case (SetMemberRole sp a r)
  with assms show ?thesis
    by (auto simp: effect_simps member_defs active_space_def split: if_splits option.splits bind_splits)
next
  case (JoinSpace sp)
  with assms show ?thesis
    by (auto simp: effect_simps member_defs active_space_def split: if_splits option.splits bind_splits)
next
  case (LeaveSpace sp)
  with assms show ?thesis
    by (auto simp: effect_simps member_defs active_space_def split: if_splits option.splits bind_splits)
qed (use assms in
    \<open>auto simp: effect_simps promise_defs active_space_def is_member_def member_of_def visible_message_def
       is_message_saved_def file_is_present_def participant_changed_simps
       split: if_splits option.splits prod.splits\<close>)

section \<open>The pipeline\<close>

text \<open>A signer adds a signature and changes nothing else (\<open>EventSigner::sign\<close>).\<close>

definition signs_only :: "'i authoring \<Rightarrow> bool" where
  "signs_only A \<longleftrightarrow> (\<forall>e. au_sign A e = e\<lparr>en_signature := en_signature (au_sign A e)\<rparr>)"

definition at_ctx :: "command_env \<Rightarrow> 'i author_ctx \<Rightarrow> command_env" where
  "at_ctx env x = env\<lparr>cx_who := ax_actor x, cx_now := ax_now x\<rparr>"

lemma at_ctx_simps [simp]:
  "cx_who (at_ctx env x) = ax_actor x" "cx_now (at_ctx env x) = ax_now x" "cx_fresh (at_ctx env x) = cx_fresh env"
  by (simp_all add: at_ctx_def)

lemma emit_fields:
  assumes "signs_only A" and "emit A x m = (e, x')"
  shows "en_space e = fst m" "en_kind e = snd m" "en_actor e = ax_actor x" "en_created e = ax_now x"
    "en_clock e = ax_clock x'" "ax_clock x' = clock_tick (ax_clock x) (u64_or_zero (ax_now x))"
    "ax_actor x' = ax_actor x" "ax_now x' = ax_now x"
    "en_id e = fst (au_next_id A (ax_ids x))" "ax_ids x' = snd (au_next_id A (ax_ids x))"
proof -
  obtain i ids where i: "au_next_id A (ax_ids x) = (i, ids)" by (cases "au_next_id A (ax_ids x)")
  let ?e = "envelope_new i (fst m) (ax_actor x) (clock_tick (ax_clock x) (u64_or_zero (ax_now x))) (ax_now x) (snd m)"
  have e: "e = au_sign A ?e" and x: "x' = x\<lparr>ax_clock := clock_tick (ax_clock x) (u64_or_zero (ax_now x)), ax_ids := ids\<rparr>"
    using assms(2) by (simp_all add: emit_def i Let_def)
  have "e = ?e\<lparr>en_signature := en_signature e\<rparr>" using assms(1) e by (simp add: signs_only_def)
  then obtain g where "e = ?e\<lparr>en_signature := g\<rparr>" by blast
  then show "en_space e = fst m" "en_kind e = snd m" "en_actor e = ax_actor x" "en_created e = ax_now x"
    "en_clock e = ax_clock x'" "ax_clock x' = clock_tick (ax_clock x) (u64_or_zero (ax_now x))"
    "ax_actor x' = ax_actor x" "ax_now x' = ax_now x"
    "en_id e = fst (au_next_id A (ax_ids x))" "ax_ids x' = snd (au_next_id A (ax_ids x))"
    by (simp_all add: x i envelope_new_def)
qed

lemma emit_all_Cons:
  "emit_all A x (m # ms) = (es, x'') \<longleftrightarrow>
     (\<exists>e fs x'. emit A x m = (e, x') \<and> emit_all A x' ms = (fs, x'') \<and> es = e # fs)"
  by (auto simp: Let_def split: prod.splits)

lemma emit_all_carries:
  "signs_only A \<Longrightarrow> emit_all A x ms = (es, x') \<Longrightarrow> carries (at_ctx env x) es ms"
proof (induction ms arbitrary: x es)
  case (Cons m ms)
  then obtain e fs y where step: "emit A x m = (e, y)" "emit_all A y ms = (fs, x')" "es = e # fs"
    by (auto simp only: emit_all_Cons)
  note f = emit_fields [OF Cons.prems(1) step(1)]
  have "carries (at_ctx env y) fs ms" using Cons step by blast
  then show ?case by (simp add: carries_def step(3) f)
qed (simp add: carries_def)

text \<open>The stamps of one command rise strictly, where the counter has room for its events.\<close>

lemma clock_tick_counter: "unat (ck_counter (clock_tick c now)) \<le> Suc (unat (ck_counter c))"
  by (simp add: clock_tick_def word_nat min_def)

lemma emit_all_clocks:
  assumes "signs_only A"
  shows "emit_all A x ms = (es, x') \<Longrightarrow> unat (ck_counter (ax_clock x)) + length ms < 2 ^ 32 \<Longrightarrow>
     sorted_wrt (<) (ax_clock x # map en_clock es) \<and> ax_clock x' = last (ax_clock x # map en_clock es)"
proof (induction ms arbitrary: x es)
  case (Cons m ms)
  from Cons.prems(1) obtain e fs y where step: "emit A x m = (e, y)" "emit_all A y ms = (fs, x')" "es = e # fs"
    by (auto simp only: emit_all_Cons)
  note f = emit_fields [OF assms step(1)]
  have room: "unat (ck_counter (ax_clock x)) < 2 ^ 32 - 1" using Cons.prems(2) by simp
  then have "ck_counter (ax_clock x) \<noteq> - 1" by (auto simp: unat_minus_one_word)
  then have "ax_clock x < ax_clock y" by (simp add: f clock_tick_greater)
  moreover have "unat (ck_counter (ax_clock y)) + length ms < 2 ^ 32"
    using Cons.prems(2) clock_tick_counter [of "ax_clock x" "u64_or_zero (ax_now x)"] by (simp add: f)
  note IH = Cons.IH [OF step(2) this]
  ultimately show ?case using IH by (auto simp: step(3) f)
qed simp

lemma emit_all_clock_ge:
  "signs_only A \<Longrightarrow> emit_all A x ms = (es, x') \<Longrightarrow>
     ax_clock x \<le> ax_clock x' \<and> list_all (\<lambda>e. en_clock e \<le> ax_clock x') es"
proof (induction ms arbitrary: x es)
  case (Cons m ms)
  from Cons.prems(2) obtain e fs y where step: "emit A x m = (e, y)" "emit_all A y ms = (fs, x')" "es = e # fs"
    by (auto simp only: emit_all_Cons)
  note f = emit_fields [OF Cons.prems(1) step(1)]
  have "ax_clock x \<le> ax_clock y" by (simp add: f(6) clock_tick_ge)
  with Cons.IH [OF Cons.prems(1) step(2)] show ?case by (auto simp: step(3) f(5))
qed simp

lemma apply_command_Inr:
  assumes "apply_command A env s cmd x = (Inr es, x')"
  shows "\<exists>ms. emissions cmd (at_ctx env x) s = Inr ms \<and> emit_all A x ms = (es, x') \<and> list_all (au_verify A) es"
proof (cases "emissions cmd (at_ctx env x) s")
  case (Inl err)
  with assms show ?thesis by (simp add: apply_command_def at_ctx_def)
next
  case (Inr ms)
  obtain fs y where em: "emit_all A x ms = (fs, y)" by (cases "emit_all A x ms")
  with assms Inr have "find (\<lambda>e. \<not> au_verify A e) fs = None" "fs = es" "y = x'"
    by (auto simp: apply_command_def at_ctx_def split: option.splits)
  with em Inr show ?thesis by (auto simp: find_None_iff list_all_iff)
qed


definition seat0 :: "nat authoring" where
  "seat0 = \<lparr>au_sign = (\<lambda>e. e\<lparr>en_signature := Some \<lparr>es_pubkey = ''k'', es_sig = ''s''\<rparr>\<rparr>),
            au_verify = (\<lambda>e. en_signature e \<noteq> None), au_next_id = (\<lambda>n. (of_nat n, Suc n))\<rparr>"

definition ctx_a :: "nat author_ctx" where
  "ctx_a = \<lparr>ax_actor = ''a'', ax_now = 9, ax_clock = ActorClock 5 0, ax_ids = 4\<rparr>"

definition removal :: envelope where
  "removal = (envelope_new 4 3 ''a'' (ActorClock 9 0) 9 (MemberLeft ''b''))
     \<lparr>en_signature := Some \<lparr>es_pubkey = ''k'', es_sig = ''s''\<rparr>\<rparr>"

lemma seat0_signs_only: "signs_only seat0"
  by (simp add: signs_only_def seat0_def)

lemma removal_accepted:
  "apply_command seat0 who_a demo_space (RemoveMember 3 ''b'') ctx_a
     = (Inr [removal], \<lparr>ax_actor = ''a'', ax_now = 9, ax_clock = ActorClock 9 0, ax_ids = 5\<rparr>)"
proof -
  have "who_a\<lparr>cx_who := ax_actor ctx_a, cx_now := ax_now ctx_a\<rparr> = who_a" by (simp add: who_a_def ctx_a_def)
  with remove_b show ?thesis
    by (simp add: apply_command_def emit_def Let_def seat0_def removal_def ctx_a_def clock_tick_def u64_or_zero_def)
qed


text \<open>Accepted commands take effect.  When the events of an accepted command are folded onto the
  aggregate it was validated against, the aggregate is as the command promises: the member has the
  role, the message is deleted or pinned, the clipboard is clear, the file's generation is the given
  one and newer than the one it replaces, the transfer is in the state after the control, the caller
  has left the call.
\<close>

theorem accepted_commands_take_effect:
  assumes "signs_only A" and "apply_command A env s cmd x = (Inr es, x')"
  shows "promised cmd (at_ctx env x) es s (fold apply_event es s)"
proof -
  obtain ms where ms: "emissions cmd (at_ctx env x) s = Inr ms" "emit_all A x ms = (es, x')"
    using apply_command_Inr [OF assms(2)] by auto
  from accepted_effect [OF ms(1) emit_all_carries [OF assms(1) ms(2)]] show ?thesis .
qed

theorem accepted_commands_take_effect_witness:
  "promised (RemoveMember 3 ''b'') (at_ctx who_a ctx_a) [removal] demo_space (fold apply_event [removal] demo_space)"
  by (rule accepted_commands_take_effect [OF seat0_signs_only removal_accepted])

text \<open>The edit window.  A message is edited exactly when its space is active, the actor is still a
  member, wrote the message, has not deleted it, no more than five minutes have passed (a difference
  that saturates, so a created time in the far past does not wrap around into the window), and the
  body fits.
\<close>

theorem edit_exact:
  "edit_message s who now space target body = Inr ms \<longleftrightarrow>
     active_space s space \<and> is_member s space who \<and> visible_message s space target
     \<and> authored s target who
     \<and> (case om_get (ds_messages s) target of None \<Rightarrow> False
        | Some m \<Rightarrow> max (- (2 ^ 63)) (min (2 ^ 63 - 1) (now - ms_created m)) \<le> 300000)
     \<and> length body \<le> 262144 \<and> ms = [(space, MessageEdited target body)]"
  by (auto simp: edit_message_def result_simps visible_message_def authored_def sat_millis_sub_def
      EDIT_WINDOW_MS_def validate_message_body_def MAX_MESSAGE_BODY_BYTES_def split: option.splits)

end
