(* ===== verification/CollabPurge.thy ===== *)
theory CollabPurge
  imports CollabDomain
begin

text \<open>
  The purge gate (\<open>crates/services/mde-collab-core/src/purge.rs\<close>): the acknowledgements of the
  members, the scan of a log for live and tombstoned payloads, and the decision which payloads may be
  reclaimed.  The lemmas show that what may be purged is a canonical digest no live message or document
  update refers to, whose deletion every member is recorded to have seen; and where the scan is weaker
  than its description.
\<close>

definition SHA256_HEX_LEN :: nat where
  "SHA256_HEX_LEN = 64"

definition is_canonical_payload_digest :: "string \<Rightarrow> bool" where
  "is_canonical_payload_digest d \<longleftrightarrow>
     length d = SHA256_HEX_LEN
     \<and> list_all (\<lambda>c. CHR ''0'' \<le> c \<and> c \<le> CHR ''9'' \<or> CHR ''a'' \<le> c \<and> c \<le> CHR ''f'') d"

section \<open>Acknowledgements\<close>

type_synonym acks = "(actor_id, actor_clock) omap"

definition high_water :: "acks \<Rightarrow> actor_id \<Rightarrow> actor_clock" where
  "high_water m a = (case om_get m a of None \<Rightarrow> clock_zero | Some c \<Rightarrow> c)"

definition note_ack :: "actor_id \<Rightarrow> actor_clock \<Rightarrow> acks \<Rightarrow> acks" where
  "note_ack a c m = om_upd clock_zero (\<lambda>old. if c > old then c else old) a m"

definition all_acked :: "acks \<Rightarrow> actor_id list \<Rightarrow> actor_clock \<Rightarrow> bool" where
  "all_acked m members c = list_all (\<lambda>a. high_water m a \<ge> c) members"

lemma high_water_note: "high_water (note_ack a c m) b = (if b = a then max c (high_water m a) else high_water m b)"
  by (auto simp: high_water_def note_ack_def om_get_upd max_def split: option.splits)

lemma high_water_mono: "high_water m b \<le> high_water (note_ack a c m) b"
  by (simp add: high_water_note)

section \<open>The scan\<close>

record scan_acc =
  sc_posted :: "(event_id, string option \<times> actor_id) omap"
  sc_deletes :: "(event_id, actor_clock \<times> actor_id) omap"
  sc_doc_live :: "string set"

text \<open>The digest of a reference, where it is canonical.\<close>

definition canonical_ref :: "payload_ref option \<Rightarrow> string option" where
  "canonical_ref p =
     (case p of None \<Rightarrow> None
      | Some r \<Rightarrow> if is_canonical_payload_digest (pr_sha256 r) then Some (pr_sha256 r) else None)"

definition scan_event :: "envelope \<Rightarrow> scan_acc \<Rightarrow> scan_acc" where
  "scan_event e a =
     (case en_kind e of
        MessagePosted b t \<Rightarrow>
          a\<lparr>sc_posted := om_put (en_id e) (canonical_ref (en_payload e), en_actor e) (sc_posted a)\<rparr>
      | MessageDeleted target \<Rightarrow>
          a\<lparr>sc_deletes := om_upd (clock_zero, en_actor e)
              (\<lambda>d. if en_clock e > fst d then (en_clock e, en_actor e) else d) target (sc_deletes a)\<rparr>
      | DocumentUpdated d change \<Rightarrow>
          a\<lparr>sc_doc_live := sc_doc_live a
              \<union> set_option (canonical_ref (Some (dc_payload change)))
              \<union> set_option (canonical_ref (en_payload e))\<rparr>
      | _ \<Rightarrow> a)"

definition scan_start :: scan_acc where
  "scan_start = \<lparr>sc_posted = om_empty, sc_deletes = om_empty, sc_doc_live = {}\<rparr>"

definition deletion_clock :: "scan_acc \<Rightarrow> event_id \<Rightarrow> actor_id \<Rightarrow> actor_clock option" where
  "deletion_clock a i author =
     (case om_get (sc_deletes a) i of
        Some (c, by) \<Rightarrow> if by = author then Some c else None
      | None \<Rightarrow> None)"

record payload_refs =
  rf_live :: "string set"
  rf_tombstoned :: "(string, actor_clock) omap"

definition sort_message :: "scan_acc \<Rightarrow> event_id \<times> (string option \<times> actor_id) \<Rightarrow> payload_refs \<Rightarrow> payload_refs" where
  "sort_message a m r =
     (case fst (snd m) of
        None \<Rightarrow> r
      | Some sha \<Rightarrow>
          (case deletion_clock a (fst m) (snd (snd m)) of
             Some c \<Rightarrow> r\<lparr>rf_tombstoned := om_upd c (\<lambda>old. if c > old then c else old) sha (rf_tombstoned r)\<rparr>
           | None \<Rightarrow> r\<lparr>rf_live := insert sha (rf_live r)\<rparr>))"

definition scan :: "envelope list \<Rightarrow> payload_refs" where
  "scan es =
     (let a = fold scan_event es scan_start;
          r = fold (sort_message a) (sc_posted a) \<lparr>rf_live = sc_doc_live a, rf_tombstoned = om_empty\<rparr>
      in r\<lparr>rf_tombstoned := filter (\<lambda>p. fst p \<notin> rf_live r) (rf_tombstoned r)\<rparr>)"

definition purgeable :: "acks \<Rightarrow> envelope list \<Rightarrow> actor_id list \<Rightarrow> string list" where
  "purgeable m es members =
     (let r = scan es
      in map fst (filter (\<lambda>p. all_acked m members (snd p)) (filter (\<lambda>p. fst p \<notin> rf_live r) (rf_tombstoned r))))"

definition may_purge :: "acks \<Rightarrow> envelope list \<Rightarrow> actor_id list \<Rightarrow> string \<Rightarrow> bool" where
  "may_purge m es members sha =
     (if \<not> is_canonical_payload_digest sha then False else sha \<in> set (purgeable m es members))"

section \<open>What the scan finds\<close>

fun posts :: "string \<Rightarrow> envelope \<Rightarrow> bool" where
  "posts sha e =
     (case en_kind e of MessagePosted b t \<Rightarrow> canonical_ref (en_payload e) = Some sha | _ \<Rightarrow> False)"

fun keeps_in_document :: "string \<Rightarrow> envelope \<Rightarrow> bool" where
  "keeps_in_document sha e =
     (case en_kind e of
        DocumentUpdated d change \<Rightarrow>
          canonical_ref (Some (dc_payload change)) = Some sha \<or> canonical_ref (en_payload e) = Some sha
      | _ \<Rightarrow> False)"

definition deletes :: "envelope \<Rightarrow> event_id \<Rightarrow> bool" where
  "deletes d i \<longleftrightarrow> en_kind d = MessageDeleted i"

lemma posted_scan:
  "distinct (map en_id es) \<Longrightarrow> (\<And>e. e \<in> set es \<Longrightarrow> om_get (sc_posted a) (en_id e) = None) \<Longrightarrow>
   om_get (sc_posted (fold scan_event es a)) i = Some v \<longleftrightarrow>
     om_get (sc_posted a) i = Some v
     \<or> (\<exists>e \<in> set es. en_id e = i \<and> (\<exists>b t. en_kind e = MessagePosted b t) \<and> v = (canonical_ref (en_payload e), en_actor e))"
proof (induction es arbitrary: a)
  case (Cons e es)
  have step: "om_get (sc_posted (scan_event e a)) j =
     (if en_id e = j \<and> (\<exists>b t. en_kind e = MessagePosted b t)
      then Some (canonical_ref (en_payload e), en_actor e) else om_get (sc_posted a) j)" for j
    by (auto simp: scan_event_def om_get_put split: event_kind.splits)
  have "om_get (sc_posted (scan_event e a)) (en_id f) = None" if "f \<in> set es" for f
    using Cons.prems that by (auto simp: step)
  from Cons.IH [OF _ this] Cons.prems show ?case by (force simp: step)
qed simp

lemma posts_iff: "posts sha e \<longleftrightarrow> (\<exists>b t. en_kind e = MessagePosted b t) \<and> canonical_ref (en_payload e) = Some sha"
  by (simp split: event_kind.splits)

declare posts.simps [simp del]

lemma posted_start:
  "distinct (map en_id es) \<Longrightarrow> om_get (sc_posted (fold scan_event es scan_start)) i = Some (Some sha, w) \<longleftrightarrow>
     (\<exists>e \<in> set es. en_id e = i \<and> posts sha e \<and> en_actor e = w)"
  by (subst posted_scan) (auto simp: scan_start_def posts_iff)

lemma posted_wf: "om_wf (sc_posted a) \<Longrightarrow> om_wf (sc_posted (fold scan_event es a))"
proof (induction es arbitrary: a)
  case (Cons e es)
  have "om_wf (sc_posted (scan_event e a))"
    using Cons.prems by (auto simp: scan_event_def om_wf_put split: event_kind.splits)
  then show ?case using Cons.IH by simp
qed simp

lemma doc_live_scan:
  "sha \<in> sc_doc_live (fold scan_event es a) \<longleftrightarrow> sha \<in> sc_doc_live a \<or> (\<exists>e \<in> set es. keeps_in_document sha e)"
proof (induction es arbitrary: a)
  case (Cons e es)
  have "sha \<in> sc_doc_live (scan_event e a) \<longleftrightarrow> sha \<in> sc_doc_live a \<or> keeps_in_document sha e"
    by (auto simp: scan_event_def split: event_kind.splits)
  with Cons.IH show ?case by auto
qed simp

text \<open>The entry of a target: the latest deletion and its author.\<close>

definition latest_deletion :: "envelope list \<Rightarrow> event_id \<Rightarrow> actor_clock \<times> actor_id \<Rightarrow> bool" where
  "latest_deletion es i v \<longleftrightarrow>
     (\<exists>d \<in> set es. deletes d i \<and> en_actor d = snd v \<and> en_clock d = fst v)
     \<and> (\<forall>d \<in> set es. deletes d i \<longrightarrow> en_clock d \<le> fst v)"

lemma deletes_scan:
  "om_get (sc_deletes (fold scan_event es scan_start)) i = Some v \<Longrightarrow> latest_deletion es i v"
  "om_get (sc_deletes (fold scan_event es scan_start)) i = None \<Longrightarrow> \<forall>d \<in> set es. \<not> deletes d i"
proof (induction es arbitrary: v rule: rev_induct)
  case Nil
  { case 1 then show ?case by (simp add: scan_start_def) }
  { case 2 then show ?case by simp }
next
  case (snoc e es)
  let ?a = "fold scan_event es scan_start"
  have step: "om_get (sc_deletes (scan_event e ?a)) i =
     (if deletes e i
      then Some (case om_get (sc_deletes ?a) i of None \<Rightarrow> (en_clock e, en_actor e)
                 | Some d \<Rightarrow> if en_clock e > fst d then (en_clock e, en_actor e) else d)
      else om_get (sc_deletes ?a) i)"
    using clock_zero_least [of "en_clock e"]
    by (auto simp: scan_event_def om_get_upd deletes_def split: event_kind.splits option.splits)
  { case 1
    show ?case
    proof (cases "deletes e i")
      case True
      show ?thesis
      proof (cases "om_get (sc_deletes ?a) i")
        case None
        with 1 True snoc(2) show ?thesis by (auto simp: step latest_deletion_def)
      next
        case (Some d)
        with 1 True snoc(1) [OF Some] show ?thesis
          by (auto simp: step latest_deletion_def split: if_splits intro: less_imp_le order_trans)
      qed
    next
      case False
      with 1 snoc(1) show ?thesis by (auto simp: step latest_deletion_def)
    qed }
  { case 2
    with snoc(2) show ?case by (auto simp: step split: if_splits) }
qed

lemma sort_message_fold:
  "(sha \<in> rf_live (fold (sort_message a) ms r) \<longleftrightarrow>
      sha \<in> rf_live r \<or> (\<exists>i w. (i, (Some sha, w)) \<in> set ms \<and> deletion_clock a i w = None))
   \<and> (om_get (rf_tombstoned (fold (sort_message a) ms r)) sha = None \<longleftrightarrow>
      om_get (rf_tombstoned r) sha = None \<and> (\<forall>i w. (i, (Some sha, w)) \<in> set ms \<longrightarrow> deletion_clock a i w = None))
   \<and> (\<forall>c. om_get (rf_tombstoned (fold (sort_message a) ms r)) sha = Some c \<longrightarrow>
      (\<forall>i w d. (i, (Some sha, w)) \<in> set ms \<longrightarrow> deletion_clock a i w = Some d \<longrightarrow> d \<le> c)
      \<and> (\<forall>d. om_get (rf_tombstoned r) sha = Some d \<longrightarrow> d \<le> c))"
proof (induction ms arbitrary: r)
  case (Cons m ms)
  obtain i so w where m: "m = (i, so, w)" by (cases m) auto
  show ?case
  proof (cases "so = Some sha")
    case False
    then have "sha \<in> rf_live (sort_message a m r) \<longleftrightarrow> sha \<in> rf_live r"
      "om_get (rf_tombstoned (sort_message a m r)) sha = om_get (rf_tombstoned r) sha"
      by (auto simp: sort_message_def m om_get_upd split: option.splits)
    with Cons.IH [of "sort_message a m r"] False show ?thesis by (simp add: m)
  next
    case True
    show ?thesis
    proof (cases "deletion_clock a i w")
      case None
      with True have "sha \<in> rf_live (sort_message a m r)"
        "om_get (rf_tombstoned (sort_message a m r)) sha = om_get (rf_tombstoned r) sha"
        by (simp_all add: sort_message_def m)
      with Cons.IH [of "sort_message a m r"] True None show ?thesis by (auto simp: m)
    next
      case (Some d)
      define v where "v = (case om_get (rf_tombstoned r) sha of None \<Rightarrow> d | Some old \<Rightarrow> if d > old then d else old)"
      have step: "sha \<in> rf_live (sort_message a m r) \<longleftrightarrow> sha \<in> rf_live r"
        "om_get (rf_tombstoned (sort_message a m r)) sha = Some v"
        using True Some by (auto simp: sort_message_def m om_get_upd v_def split: option.splits)
      have v: "d \<le> v" "om_get (rf_tombstoned r) sha = Some e \<Longrightarrow> e \<le> v" for e
        by (auto simp: v_def split: option.splits)
      show ?thesis
        using Cons.IH [of "sort_message a m r"] True Some step v by (auto simp: m dest: order_trans)
    qed
  qed
qed simp

lemma sort_message_wf: "om_wf (rf_tombstoned r) \<Longrightarrow> om_wf (rf_tombstoned (fold (sort_message a) ms r))"
proof (induction ms arbitrary: r)
  case (Cons m ms)
  have "om_wf (rf_tombstoned (sort_message a m r))"
    using Cons.prems by (auto simp: sort_message_def om_wf_upd split: option.splits)
  then show ?case using Cons.IH by simp
qed simp

lemma purgeable_facts:
  assumes "sha \<in> set (purgeable m es members)"
  defines "a \<equiv> fold scan_event es scan_start"
  obtains c where "sha \<notin> sc_doc_live a" "all_acked m members c"
    "\<And>i w. (i, (Some sha, w)) \<in> set (sc_posted a) \<Longrightarrow> \<exists>d \<le> c. deletion_clock a i w = Some d"
    "\<exists>i w. (i, (Some sha, w)) \<in> set (sc_posted a)"
proof -
  let ?start = "\<lparr>rf_live = sc_doc_live a, rf_tombstoned = om_empty\<rparr>"
  let ?r = "fold (sort_message a) (sc_posted a) ?start"
  from assms(1) obtain c where c: "(sha, c) \<in> set (rf_tombstoned ?r)" "sha \<notin> rf_live ?r" "all_acked m members c"
    by (auto simp: purgeable_def scan_def Let_def a_def)
  have "om_wf (rf_tombstoned ?r)" by (rule sort_message_wf) simp
  with c(1) have get: "om_get (rf_tombstoned ?r) sha = Some c" by (simp add: om_get_mem)
  note facts = sort_message_fold [where sha = sha and a = a and ms = "sc_posted a" and r = ?start]
  show thesis
  proof (rule that [of c])
    show "sha \<notin> sc_doc_live a" using c(2) facts by simp
    show "all_acked m members c" by (rule c(3))
    show "\<exists>d \<le> c. deletion_clock a i w = Some d" if m: "(i, (Some sha, w)) \<in> set (sc_posted a)" for i w
    proof -
      have "sha \<in> rf_live ?r" if "deletion_clock a i w = None"
        unfolding facts [THEN conjunct1] using m that by blast
      with c(2) have "deletion_clock a i w \<noteq> None" by blast
      then obtain d where d: "deletion_clock a i w = Some d" by blast
      moreover have "d \<le> c" using m d get facts [THEN conjunct2, THEN conjunct2] by blast
      ultimately show ?thesis by blast
    qed
    show "\<exists>i w. (i, (Some sha, w)) \<in> set (sc_posted a)" using get facts by auto
  qed
qed

definition seen_by_all :: "acks \<Rightarrow> actor_id list \<Rightarrow> envelope \<Rightarrow> bool" where
  "seen_by_all m members d = list_all (\<lambda>w. en_clock d \<le> high_water m w) members"

text \<open>C8. What may be purged is gone for everybody.  In a log with one event per identifier, a payload that
  \<open>may_purge\<close> releases has a canonical digest; some message carried it; no document update refers to
  it; every message that carries it was deleted by its own author; and every deletion of such a message
  is at or below the recorded high water of every member that must have seen it.
\<close>

theorem purge_is_safe:
  assumes "distinct (map en_id es)" and "may_purge m es members sha"
  shows "is_canonical_payload_digest sha \<and> list_ex (posts sha) es
    \<and> \<not> list_ex (keeps_in_document sha) es
    \<and> list_all (\<lambda>e. \<not> posts sha e
        \<or> list_ex (\<lambda>d. deletes d (en_id e) \<and> en_actor d = en_actor e) es
          \<and> list_all (\<lambda>d. \<not> deletes d (en_id e) \<or> seen_by_all m members d) es) es"
proof -
  let ?a = "fold scan_event es scan_start"
  have can: "is_canonical_payload_digest sha" and sha: "sha \<in> set (purgeable m es members)"
    using assms(2) by (auto simp: may_purge_def split: if_splits)
  from sha obtain c where c: "sha \<notin> sc_doc_live ?a" "all_acked m members c"
    "\<And>i w. (i, (Some sha, w)) \<in> set (sc_posted ?a) \<Longrightarrow> \<exists>d \<le> c. deletion_clock ?a i w = Some d"
    "\<exists>i w. (i, (Some sha, w)) \<in> set (sc_posted ?a)"
    by (rule purgeable_facts) blast
  have wf: "om_wf (sc_posted ?a)" by (rule posted_wf) (simp add: scan_start_def)
  have posted: "(i, (Some sha, w)) \<in> set (sc_posted ?a) \<longleftrightarrow> (\<exists>e \<in> set es. en_id e = i \<and> posts sha e \<and> en_actor e = w)" for i w
    using posted_start [OF assms(1), of i sha w] om_get_mem [OF wf] by (auto simp: om_get_def dest: map_of_SomeD)
  have "\<exists>e \<in> set es. posts sha e" using c(4) posted by blast
  moreover have "\<forall>e \<in> set es. \<not> keeps_in_document sha e" using c(1) doc_live_scan [of sha es scan_start] by simp
  moreover have "(\<exists>d \<in> set es. deletes d (en_id e) \<and> en_actor d = en_actor e)
      \<and> (\<forall>d \<in> set es. deletes d (en_id e) \<longrightarrow> seen_by_all m members d)"
    if e: "e \<in> set es" "posts sha e" for e
  proof -
    from e posted have "(en_id e, (Some sha, en_actor e)) \<in> set (sc_posted ?a)" by blast
    with c(3) obtain k where k: "k \<le> c" "deletion_clock ?a (en_id e) (en_actor e) = Some k" by blast
    then have "om_get (sc_deletes ?a) (en_id e) = Some (k, en_actor e)"
      by (auto simp: deletion_clock_def split: option.splits if_splits)
    then have latest: "latest_deletion es (en_id e) (k, en_actor e)" by (rule deletes_scan)
    have "seen_by_all m members d" if "d \<in> set es" "deletes d (en_id e)" for d
      using latest that k(1) c(2) by (fastforce simp: latest_deletion_def seen_by_all_def all_acked_def list_all_iff)
    with latest show ?thesis by (auto simp: latest_deletion_def)
  qed
  ultimately show ?thesis using can by (auto simp: list_all_iff list_ex_iff)
qed

text \<open>One deletion can hide another.  The scan keeps the latest deletion of a message only, and asks
  afterwards whether its author wrote the message.  So where somebody else signs a later deletion of
  it, the payload counts as live and can never be purged, whatever the members have seen, although the
  author's own deletion is in the log and the fold has deleted the message.
\<close>

theorem foreign_deletion_blocks_purge:
  assumes "distinct (map en_id es)" and "e \<in> set es" and "posts sha e"
    and "d \<in> set es" and "deletes d (en_id e)" and "en_actor d \<noteq> en_actor e"
    and "list_all (\<lambda>o1. \<not> deletes o1 (en_id e) \<or> o1 = d \<or> en_clock o1 < en_clock d) es"
  shows "\<not> may_purge m es members sha"
proof
  assume "may_purge m es members sha"
  then have "sha \<in> set (purgeable m es members)" by (auto simp: may_purge_def split: if_splits)
  let ?a = "fold scan_event es scan_start"
  from \<open>sha \<in> _\<close> obtain c where
    c: "\<And>i w. (i, (Some sha, w)) \<in> set (sc_posted ?a) \<Longrightarrow> \<exists>d \<le> c. deletion_clock ?a i w = Some d"
    by (rule purgeable_facts) blast
  have "om_get (sc_posted ?a) (en_id e) = Some (Some sha, en_actor e)"
    using posted_start [OF assms(1)] assms(2,3) by blast
  then have "(en_id e, (Some sha, en_actor e)) \<in> set (sc_posted ?a)" by (simp add: om_get_def map_of_SomeD)
  with c obtain k where "deletion_clock ?a (en_id e) (en_actor e) = Some k" by blast
  then have "om_get (sc_deletes ?a) (en_id e) = Some (k, en_actor e)"
    by (auto simp: deletion_clock_def split: option.splits if_splits)
  then have "latest_deletion es (en_id e) (k, en_actor e)" by (rule deletes_scan)
  then obtain o1 where "o1 \<in> set es" "deletes o1 (en_id e)" "en_actor o1 = en_actor e" "en_clock d \<le> en_clock o1"
    using assms(4,5) by (auto simp: latest_deletion_def)
  moreover from this assms(6) have "o1 \<noteq> d" by auto
  ultimately show False using assms(7) by (fastforce simp: list_all_iff)
qed

definition secret :: string where
  "secret = replicate 64 (CHR ''a'')"

definition post_it :: envelope where
  "post_it = (ev 1 ''ann'' 1 (MessagePosted ''see file'' None))
     \<lparr>en_payload := Some \<lparr>pr_sha256 = secret, pr_len = 9, pr_content_type = None\<rparr>\<rparr>"

definition own_deletion :: envelope where
  "own_deletion = ev 2 ''ann'' 2 (MessageDeleted 1)"

definition foreign_deletion :: envelope where
  "foreign_deletion = ev 3 ''mal'' 3 (MessageDeleted 1)"

lemma secret_canonical: "is_canonical_payload_digest secret"
  by (simp add: is_canonical_payload_digest_def secret_def SHA256_HEX_LEN_def list_all_iff)

lemma post_it_posts: "posts secret post_it"
  using secret_canonical by (simp add: posts_iff post_it_def ev_def envelope_new_def canonical_ref_def)

lemma demo_ids: "en_id post_it = 1" "en_id own_deletion = 2" "en_id foreign_deletion = 3"
  "en_clock post_it = ActorClock 1 0" "en_clock own_deletion = ActorClock 2 0" "en_clock foreign_deletion = ActorClock 3 0"
  "en_actor post_it = ''ann''" "en_actor own_deletion = ''ann''" "en_actor foreign_deletion = ''mal''"
  "\<not> deletes post_it i" "deletes own_deletion i \<longleftrightarrow> i = 1" "deletes foreign_deletion i \<longleftrightarrow> i = 1"
  by (auto simp: post_it_def own_deletion_def foreign_deletion_def ev_def envelope_new_def deletes_def)

lemma secret_purged:
  "may_purge [(''bob'', ActorClock 2 0)] [post_it, own_deletion] [''bob''] secret"
  by (simp add: may_purge_def secret_canonical)
    (simp add: purgeable_def scan_def scan_start_def scan_event_def post_it_def own_deletion_def ev_def
      envelope_new_def canonical_ref_def secret_canonical sort_message_def deletion_clock_def om_upd_def om_get_def
      om_empty_def clock_zero_def less_actor_clock_def less_prod_def all_acked_def high_water_def)

theorem purge_is_safe_witness:
  "is_canonical_payload_digest secret \<and> list_ex (posts secret) [post_it, own_deletion]
    \<and> \<not> list_ex (keeps_in_document secret) [post_it, own_deletion]
    \<and> list_all (\<lambda>e. \<not> posts secret e
        \<or> list_ex (\<lambda>d. deletes d (en_id e) \<and> en_actor d = en_actor e) [post_it, own_deletion]
          \<and> list_all (\<lambda>d. \<not> deletes d (en_id e) \<or> seen_by_all [(''bob'', ActorClock 2 0)] [''bob''] d)
              [post_it, own_deletion]) [post_it, own_deletion]"
  by (rule purge_is_safe [OF _ secret_purged]) (simp add: demo_ids)

theorem foreign_deletion_blocks_purge_witness:
  "\<not> may_purge [(''bob'', ActorClock 3 0)] [post_it, own_deletion, foreign_deletion] [''bob''] secret"
  by (rule foreign_deletion_blocks_purge [of _ post_it _ foreign_deletion])
    (simp_all add: demo_ids post_it_posts less_actor_clock_def less_prod_def)

end
