(* ===== verification/CollabEngine.thy ===== *)
theory CollabEngine
  imports CollabPromises CollabPurge
begin

text \<open>
  The collaboration engine of a seat (\<open>crates/services/mde-collab-core/src/engine.rs\<close>) over the event
  table of its projection (\<open>project\<close> in \<open>projection.rs\<close>): local commands, authored events and the
  merge of replicated events.  The read tables are rebuilt from the event table and are not part of
  the state here.  The results: an invariant of every operation, that accepted commands take effect
  and never orphan a space in the engine, what a merge accepts, that replicas converge, and how far a
  seat's clock can be pushed by a peer.
\<close>

section \<open>The state\<close>

record engine =
  eg_actor :: actor_id
  eg_clock :: actor_clock
  eg_events :: "(event_id, envelope) omap"
  eg_state :: domain_state
  eg_rows :: "(event_id, envelope) omap"
  eg_acks :: acks

definition engine_new :: "actor_id \<Rightarrow> (event_id, envelope) omap \<Rightarrow> engine" where
  "engine_new actor rows = \<lparr>eg_actor = actor, eg_clock = clock_zero, eg_events = om_empty,
     eg_state = domain_default, eg_rows = rows, eg_acks = om_empty\<rparr>"

definition all_events :: "engine \<Rightarrow> envelope list" where
  "all_events g = canonical_sort (om_values (eg_events g))"

text \<open>
  What an envelope is checked with: its signature and the length of its JSON.  A failure of the
  database is an argument of each call.
\<close>

record checks =
  ck_verify :: "envelope \<Rightarrow> bool"
  ck_json_len :: "envelope \<Rightarrow> nat"

definition MAX_ENVELOPE_JSON_BYTES :: nat where
  "MAX_ENVELOPE_JSON_BYTES = 256 * 1024"

definition projectable :: "checks \<Rightarrow> envelope \<Rightarrow> bool" where
  "projectable K e \<longleftrightarrow> en_schema e = SCHEMA_VERSION \<and> ck_json_len K e \<le> MAX_ENVELOPE_JSON_BYTES \<and> ck_verify K e"

text \<open>\<open>INSERT OR IGNORE\<close> into the event table, in one transaction.\<close>

definition project ::
  "checks \<Rightarrow> string option \<Rightarrow> envelope list \<Rightarrow> (event_id, envelope) omap
    \<Rightarrow> (event_id, envelope) omap outcome" where
  "project K fault es rows =
     (case find (\<lambda>e. \<not> projectable K e) es of
        Some e \<Rightarrow> Inl (InvalidEvent (en_id e))
      | None \<Rightarrow>
          (case fault of
             Some err \<Rightarrow> Inl (SqlError err)
           | None \<Rightarrow> Inr (fold (\<lambda>e m. om_or_insert (en_id e) e m) es rows)))"

definition insert_events :: "envelope list \<Rightarrow> (event_id, envelope) omap \<Rightarrow> (event_id, envelope) omap" where
  "insert_events es m = fold (\<lambda>e m. om_put (en_id e) e m) es m"

definition ingest :: "checks \<Rightarrow> string option \<Rightarrow> envelope list \<Rightarrow> engine \<Rightarrow> engine outcome" where
  "ingest K fault es g =
     bind_res (project K fault es (eg_rows g)) (\<lambda>rows.
       let events = insert_events es (eg_events g)
       in Inr (g\<lparr>eg_rows := rows, eg_events := events,
                eg_acks := fold (\<lambda>e m. note_ack (en_actor e) (en_clock e) m) es (eg_acks g),
                eg_state := from_events (om_values events)\<rparr>))"

section \<open>Local events\<close>

definition context_of :: "engine \<Rightarrow> millis \<Rightarrow> 'i \<Rightarrow> 'i author_ctx" where
  "context_of g now ids = \<lparr>ax_actor = eg_actor g, ax_now = now, ax_clock = eg_clock g, ax_ids = ids\<rparr>"

definition engine_apply ::
  "checks \<Rightarrow> string option \<Rightarrow> 'i authoring \<Rightarrow> command_env \<Rightarrow> command \<Rightarrow> millis \<Rightarrow> 'i \<Rightarrow> engine
    \<Rightarrow> (envelope list \<times> engine) outcome" where
  "engine_apply K fault A env cmd now ids g =
     (let (r, x) = apply_command A env (eg_state g) cmd (context_of g now ids)
      in bind_res r (\<lambda>es.
         bind_res (ingest K fault es g) (\<lambda>g'. Inr (es, g'\<lparr>eg_clock := ax_clock x\<rparr>))))"

definition engine_author ::
  "checks \<Rightarrow> string option \<Rightarrow> 'i authoring \<Rightarrow> space_id \<Rightarrow> event_kind \<Rightarrow> millis \<Rightarrow> 'i \<Rightarrow> engine
    \<Rightarrow> (envelope \<times> engine) outcome" where
  "engine_author K fault A space kind now ids g =
     (let (e, x) = emit A (context_of g now ids) (space, kind)
      in bind_res (ingest K fault [e] g) (\<lambda>g'. Inr (e, g'\<lparr>eg_clock := ax_clock x\<rparr>)))"

section \<open>Replicated events\<close>

definition MAX_MERGE_BATCH_EVENTS :: nat where
  "MAX_MERGE_BATCH_EVENTS = 4096"

datatype merge_rejection_reason = UnsupportedSchema | InvalidSignature | ConflictingDuplicate

record merge_rejection =
  mj_event :: event_id
  mj_reason :: merge_rejection_reason

record merge_outcome =
  mo_accepted :: nat
  mo_dropped_invalid :: nat
  mo_duplicates :: nat
  mo_rejected :: "merge_rejection list"

record merge_acc =
  mg_outcome :: merge_outcome
  mg_accept :: "envelope list"
  mg_pending :: "(event_id, envelope) omap"
  mg_clock :: actor_clock

definition reject :: "event_id \<Rightarrow> merge_rejection_reason \<Rightarrow> merge_acc \<Rightarrow> merge_acc" where
  "reject i why a =
     a\<lparr>mg_outcome := (mg_outcome a)\<lparr>mo_dropped_invalid := mo_dropped_invalid (mg_outcome a) + 1,
          mo_rejected := mo_rejected (mg_outcome a) @ [\<lparr>mj_event = i, mj_reason = why\<rparr>]\<rparr>\<rparr>"

definition seen_before :: "envelope \<Rightarrow> envelope \<Rightarrow> merge_acc \<Rightarrow> merge_acc" where
  "seen_before old e a =
     (if old = e
      then a\<lparr>mg_outcome := (mg_outcome a)\<lparr>mo_duplicates := mo_duplicates (mg_outcome a) + 1\<rparr>\<rparr>
      else reject (en_id e) ConflictingDuplicate a)"

definition merge_step :: "checks \<Rightarrow> (event_id, envelope) omap \<Rightarrow> envelope \<Rightarrow> merge_acc \<Rightarrow> merge_acc" where
  "merge_step K events e a =
     (if en_schema e \<noteq> SCHEMA_VERSION then reject (en_id e) UnsupportedSchema a
      else if \<not> ck_verify K e then reject (en_id e) InvalidSignature a
      else case om_get events (en_id e) of
          Some old \<Rightarrow> seen_before old e a
        | None \<Rightarrow>
            (case om_get (mg_pending a) (en_id e) of
               Some old \<Rightarrow> seen_before old e a
             | None \<Rightarrow>
                 a\<lparr>mg_clock := clock_merge (mg_clock a) (en_clock e) (wall_ms (mg_clock a)),
                   mg_pending := om_put (en_id e) e (mg_pending a),
                   mg_accept := mg_accept a @ [e]\<rparr>))"

definition merge_scan :: "checks \<Rightarrow> engine \<Rightarrow> envelope list \<Rightarrow> merge_acc" where
  "merge_scan K g incoming =
     fold (merge_step K (eg_events g)) incoming
       \<lparr>mg_outcome = \<lparr>mo_accepted = 0, mo_dropped_invalid = 0, mo_duplicates = 0, mo_rejected = []\<rparr>,
        mg_accept = [], mg_pending = om_empty, mg_clock = eg_clock g\<rparr>"

definition merge ::
  "checks \<Rightarrow> string option \<Rightarrow> envelope list \<Rightarrow> engine \<Rightarrow> (merge_outcome \<times> engine) outcome" where
  "merge K fault incoming g =
     (if length incoming > MAX_MERGE_BATCH_EVENTS
      then Inl (SerdeError (''merge batch exceeds '' @ show_nat MAX_MERGE_BATCH_EVENTS @ '' events''))
      else
        let a = merge_scan K g incoming;
            outcome = (mg_outcome a)\<lparr>mo_accepted := length (mg_accept a)\<rparr>
        in if mg_accept a = [] then Inr (outcome, g)
           else bind_res (ingest K fault (mg_accept a) g) (\<lambda>g'.
                  Inr (outcome, g'\<lparr>eg_clock := mg_clock a\<rparr>)))"

section \<open>Purging\<close>

definition space_members :: "engine \<Rightarrow> space_id \<Rightarrow> actor_id list" where
  "space_members g space =
     (case space_of (eg_state g) space of
        None \<Rightarrow> []
      | Some s \<Rightarrow> map fst (filter (\<lambda>p. mb_present (snd p)) (sp_members s)))"

definition note_purge_ack :: "actor_id \<Rightarrow> actor_clock \<Rightarrow> engine \<Rightarrow> engine" where
  "note_purge_ack actor clock g = g\<lparr>eg_acks := note_ack actor clock (eg_acks g)\<rparr>"

definition purgeable_payloads :: "engine \<Rightarrow> space_id \<Rightarrow> string list" where
  "purgeable_payloads g space = purgeable (eg_acks g) (all_events g) (space_members g space)"

definition engine_may_purge :: "engine \<Rightarrow> space_id \<Rightarrow> string \<Rightarrow> bool" where
  "engine_may_purge g space sha = may_purge (eg_acks g) (all_events g) (space_members g space) sha"

section \<open>The event tables\<close>

definition fresh_for :: "(event_id, envelope) omap \<Rightarrow> envelope list \<Rightarrow> bool" where
  "fresh_for m es \<longleftrightarrow> distinct (map en_id es) \<and> list_all (\<lambda>e. om_get m (en_id e) = None) es"

lemma other_id: "distinct (map en_id (e # es)) \<Longrightarrow> x \<in> set es \<Longrightarrow> en_id x \<noteq> en_id e"
  by (metis distinct.simps(2) image_eqI list.set_map list.simps(9))

lemma get_insert_events:
  "distinct (map en_id es) \<Longrightarrow>
     om_get (insert_events es m) i = (case find (\<lambda>e. en_id e = i) es of Some e \<Rightarrow> Some e | None \<Rightarrow> om_get m i)"
proof (induction es arbitrary: m)
  case (Cons e es)
  show ?case
  proof (cases "en_id e = i")
    case True
    with other_id [OF Cons.prems] have "find (\<lambda>e. en_id e = i) es = None" by (auto simp: find_None_iff)
    with Cons True show ?thesis by (simp add: insert_events_def om_get_put)
  next
    case False
    with Cons show ?thesis by (simp add: insert_events_def om_get_put split: option.splits)
  qed
qed (simp add: insert_events_def)

lemma insert_events_wf: "om_wf m \<Longrightarrow> om_wf (insert_events es m)"
  unfolding insert_events_def by (induction es arbitrary: m) (simp_all add: om_wf_put)

lemma insert_or_ignore_fresh:
  "fresh_for m es \<Longrightarrow> fold (\<lambda>e m. om_or_insert (en_id e) e m) es m = insert_events es m"
  unfolding insert_events_def
proof (induction es arbitrary: m)
  case (Cons e es)
  then have "fresh_for (om_put (en_id e) e m) es"
    using other_id [of e es] by (simp add: fresh_for_def list_all_iff om_get_put)
  with Cons show ?case by (simp add: fresh_for_def om_or_insert_def)
qed simp

lemma set_values:
  assumes "om_wf m"
  shows "v \<in> set (om_values m) \<longleftrightarrow> (\<exists>k. om_get m k = Some v)"
proof
  assume "v \<in> set (om_values m)"
  then show "\<exists>k. om_get m k = Some v" using om_get_mem [OF assms] by (fastforce simp: om_values_def)
next
  assume "\<exists>k. om_get m k = Some v"
  then show "v \<in> set (om_values m)" by (force simp: om_values_def om_get_def dest: map_of_SomeD)
qed

section \<open>The invariant\<close>

text \<open>
  The event map is in order and filed under the events' identifiers; every event in it passed the
  checks, is not later than the clock and is acknowledged by its author; the aggregate is its fold
  and the event table its copy.
\<close>

definition kept :: "checks \<Rightarrow> engine \<Rightarrow> event_id \<times> envelope \<Rightarrow> bool" where
  "kept K g p \<longleftrightarrow> en_id (snd p) = fst p \<and> projectable K (snd p) \<and> en_clock (snd p) \<le> eg_clock g
     \<and> en_clock (snd p) \<le> high_water (eg_acks g) (en_actor (snd p))"

definition engine_inv :: "checks \<Rightarrow> engine \<Rightarrow> bool" where
  "engine_inv K g \<longleftrightarrow> om_wf (eg_events g) \<and> list_all (kept K g) (eg_events g)
     \<and> eg_state g = from_events (om_values (eg_events g)) \<and> eg_rows g = eg_events g"

lemma engine_inv_new: "engine_inv K (engine_new a om_empty)"
  by (simp add: engine_inv_def engine_new_def from_events_def canonical_sort_def om_values_def om_empty_def om_wf_def)

lemma kept_get: "engine_inv K g \<Longrightarrow> om_get (eg_events g) i = Some e \<Longrightarrow> kept K g (i, e)"
  by (auto simp: engine_inv_def list_all_iff om_get_def dest: map_of_SomeD)

lemma engine_ids:
  assumes "engine_inv K g"
  shows "distinct (map en_id (om_values (eg_events g)))"
proof -
  have "map en_id (om_values (eg_events g)) = om_keys (eg_events g)"
    using assms by (auto simp: engine_inv_def om_values_def om_keys_def list_all_iff kept_def)
  with assms show ?thesis by (simp add: engine_inv_def om_wf_distinct)
qed

lemma high_water_acks: "high_water m a \<le> high_water (fold (\<lambda>e m. note_ack (en_actor e) (en_clock e) m) es m) a"
  by (induction es arbitrary: m) (auto intro: order_trans [OF high_water_mono])

lemma acked_by_author:
  "e \<in> set es \<Longrightarrow> en_clock e \<le> high_water (fold (\<lambda>e m. note_ack (en_actor e) (en_clock e) m) es m) (en_actor e)"
proof (induction es arbitrary: m)
  case (Cons x es)
  show ?case
  proof (cases "e = x")
    case True
    have "en_clock x \<le> high_water (note_ack (en_actor x) (en_clock x) m) (en_actor x)" by (simp add: high_water_note)
    with True show ?thesis using high_water_acks [of "note_ack (en_actor x) (en_clock x) m" "en_actor x" es] by simp
  qed (use Cons in simp)
qed simp

lemma project_Inr:
  "project K fault es rows = Inr rows' \<longleftrightarrow>
     list_all (projectable K) es \<and> fault = None \<and> rows' = fold (\<lambda>e m. om_or_insert (en_id e) e m) es rows"
  by (auto simp: project_def find_None_iff list_all_iff find_Some_iff split: option.splits)

lemma ingest_Inr:
  "ingest K fault es g = Inr g' \<longleftrightarrow> list_all (projectable K) es \<and> fault = None
     \<and> g' = g\<lparr>eg_rows := fold (\<lambda>e m. om_or_insert (en_id e) e m) es (eg_rows g),
             eg_events := insert_events es (eg_events g),
             eg_acks := fold (\<lambda>e m. note_ack (en_actor e) (en_clock e) m) es (eg_acks g),
             eg_state := from_events (om_values (insert_events es (eg_events g)))\<rparr>"
  by (auto simp: ingest_def bind_res_Inr project_Inr Let_def)

lemma ingest_inv:
  assumes inv: "engine_inv K g" and fresh: "fresh_for (eg_events g) es" and ing: "ingest K fault es g = Inr g'"
    and clock: "eg_clock g \<le> c" "list_all (\<lambda>e. en_clock e \<le> c) es"
  shows "engine_inv K (g'\<lparr>eg_clock := c\<rparr>)"
proof -
  have g': "list_all (projectable K) es" "g' = g\<lparr>eg_rows := fold (\<lambda>e m. om_or_insert (en_id e) e m) es (eg_rows g),
       eg_events := insert_events es (eg_events g),
       eg_acks := fold (\<lambda>e m. note_ack (en_actor e) (en_clock e) m) es (eg_acks g),
       eg_state := from_events (om_values (insert_events es (eg_events g)))\<rparr>"
    using ing by (simp_all add: ingest_Inr)
  have wf: "om_wf (insert_events es (eg_events g))" using inv by (simp add: engine_inv_def insert_events_wf)
  have "kept K (g'\<lparr>eg_clock := c\<rparr>) (i, e)" if "(i, e) \<in> set (insert_events es (eg_events g))" for i e
  proof -
    have "om_get (insert_events es (eg_events g)) i = Some e" using that wf by (simp add: om_get_mem)
    then consider "find (\<lambda>e. en_id e = i) es = Some e" | "om_get (eg_events g) i = Some e"
      using fresh by (auto simp: get_insert_events fresh_for_def split: option.splits)
    then show ?thesis
    proof cases
      case 1
      then have e: "e \<in> set es" "en_id e = i" using find_SomeD by force+
      then show ?thesis
        using g'(1) clock(2) acked_by_author [OF e(1)] by (simp add: kept_def list_all_iff g'(2))
    next
      case 2
      have "kept K g (i, e)" using kept_get [OF inv 2] .
      then show ?thesis using clock(1) high_water_acks [of "eg_acks g" "en_actor e" es]
        by (auto simp: kept_def g'(2) intro: order_trans)
    qed
  qed
  then show ?thesis
    using inv fresh wf by (auto simp: engine_inv_def list_all_iff g'(2) insert_or_ignore_fresh)
qed

section \<open>Local events fold last\<close>

lemma values_insert:
  assumes wf: "om_wf m" and fresh: "fresh_for m es"
  shows "set (om_values (insert_events es m)) = set (om_values m @ es)"
proof -
  have get: "om_get (insert_events es m) i = Some e \<longleftrightarrow> om_get m i = Some e \<or> (e \<in> set es \<and> en_id e = i)" for i e
  proof (cases "find (\<lambda>e. en_id e = i) es")
    case None
    then have "e \<notin> set es" if "en_id e = i" using that by (auto simp: find_None_iff)
    with None show ?thesis using fresh by (auto simp: get_insert_events fresh_for_def)
  next
    case (Some f)
    then have f: "f \<in> set es" "en_id f = i" using find_SomeD by force+
    moreover have "om_get m i = None" using f fresh by (auto simp: fresh_for_def list_all_iff)
    moreover have "e = f" if "e \<in> set es" "en_id e = i"
      using fresh f that by (auto simp: fresh_for_def distinct_map dest: inj_onD)
    ultimately show ?thesis using fresh Some by (auto simp: get_insert_events fresh_for_def)
  qed
  show ?thesis
    unfolding set_eq_iff set_append Un_iff set_values [OF insert_events_wf [OF wf]] set_values [OF wf]
    using get by blast
qed

lemma canonical_key_le:
  "en_clock e < en_clock f \<Longrightarrow> canonical_key e \<le> canonical_key f"
  unfolding canonical_key_clock by (simp add: less_eq_prod_def)

lemma values_filed:
  "om_wf m \<Longrightarrow> (\<And>k e. om_get m k = Some e \<Longrightarrow> en_id e = k) \<Longrightarrow> map en_id (om_values m) = om_keys m"
  using om_get_mem by (fastforce simp: om_values_def om_keys_def)

lemma get_filed:
  "fresh_for m es \<Longrightarrow> (\<And>k e. om_get m k = Some e \<Longrightarrow> en_id e = k) \<Longrightarrow>
     om_get (insert_events es m) k = Some e \<Longrightarrow> en_id e = k"
  by (auto simp: get_insert_events fresh_for_def split: option.splits dest: find_SomeD)

text \<open>Events whose clocks are later than everything held are folded onto the aggregate as it is.\<close>

lemma fold_later_events:
  assumes inv: "engine_inv K g" and fresh: "fresh_for (eg_events g) es"
    and later: "sorted_wrt (<) (eg_clock g # map en_clock es)"
  shows "from_events (om_values (insert_events es (eg_events g))) = fold apply_event es (eg_state g)"
proof -
  let ?old = "om_values (eg_events g)"
  have wf: "om_wf (eg_events g)" using inv by (simp add: engine_inv_def)
  have old: "en_clock e \<le> eg_clock g" if "e \<in> set ?old" for e
    using set_values [OF wf, THEN iffD1, OF that] kept_get [OF inv] by (force simp: kept_def)
  have ids: "en_id e = k" if "om_get (eg_events g) k = Some e" for k e
    using kept_get [OF inv that] by (simp add: kept_def)
  have apart: "en_id e \<noteq> en_id f" if mem: "e \<in> set ?old" "f \<in> set es" for e f
  proof -
    obtain k where k: "om_get (eg_events g) k = Some e"
      using set_values [OF wf, THEN iffD1, OF mem(1)] by auto
    with ids [OF k] have "om_get (eg_events g) (en_id e) = Some e" by simp
    with mem(2) fresh show ?thesis by (auto simp: fresh_for_def list_all_iff)
  qed
  have "canonical_sort (om_values (insert_events es (eg_events g))) = canonical_sort (canonical_sort ?old @ es)"
  proof (rule canonical_sort_unique)
    show "set (om_values (insert_events es (eg_events g))) = set (canonical_sort ?old @ es)"
      using values_insert [OF wf fresh] by simp
    have "en_id e = k" if "om_get (insert_events es (eg_events g)) k = Some e" for k e
      using get_filed [OF fresh _ that] ids by simp
    then have "map en_id (om_values (insert_events es (eg_events g))) = om_keys (insert_events es (eg_events g))"
      by (rule values_filed [OF insert_events_wf [OF wf]])
    then show "distinct (map en_id (om_values (insert_events es (eg_events g))))"
      using om_wf_distinct [OF insert_events_wf [OF wf]] by simp
    have "distinct (map en_id (canonical_sort ?old))"
      using engine_ids [OF inv] by (simp add: canonical_sort_def distinct_map)
    then show "distinct (map en_id (canonical_sort ?old @ es))"
      using fresh apart by (auto simp: fresh_for_def)
  qed
  also have "\<dots> = canonical_sort ?old @ es"
  proof -
    have "sorted (map canonical_key (canonical_sort ?old))" by (simp add: canonical_sort_def)
    moreover have "sorted (map canonical_key es)"
      using later by (auto simp: sorted_map sorted_wrt_map intro: canonical_key_le elim: sorted_wrt_mono_rel [rotated])
    moreover have "canonical_key e \<le> canonical_key f" if "e \<in> set ?old" "f \<in> set es" for e f
      using later old [OF that(1)] that(2) by (intro canonical_key_le) auto
    ultimately show ?thesis
      unfolding canonical_sort_def by (intro sort_key_id_if_sorted) (auto simp: sorted_append canonical_sort_def [symmetric])
  qed
  finally show ?thesis using inv by (simp add: from_events_def engine_inv_def)
qed

section \<open>Applying a command\<close>

lemma engine_apply_Inr:
  assumes "engine_apply K fault A env cmd now ids g = Inr (es, g')"
  obtains x ms g1 where "apply_command A env (eg_state g) cmd (context_of g now ids) = (Inr es, x)"
    "ingest K fault es g = Inr g1" "g' = g1\<lparr>eg_clock := ax_clock x\<rparr>"
    "emit_all A (context_of g now ids) ms = (es, x)"
proof -
  obtain r x where r: "apply_command A env (eg_state g) cmd (context_of g now ids) = (r, x)"
    by (cases "apply_command A env (eg_state g) cmd (context_of g now ids)")
  with assms obtain g1 where g1: "r = Inr es" "ingest K fault es g = Inr g1" "g' = g1\<lparr>eg_clock := ax_clock x\<rparr>"
    by (auto simp: engine_apply_def bind_res_Inr)
  moreover from apply_command_Inr [OF r [unfolded g1(1)]] obtain ms
    where "emit_all A (context_of g now ids) ms = (es, x)" by blast
  ultimately show thesis using that r by simp
qed

lemma engine_apply_inv:
  assumes inv: "engine_inv K g" and sign: "signs_only A"
    and app: "engine_apply K fault A env cmd now ids g = Inr (es, g')" and fresh: "fresh_for (eg_events g) es"
  shows "engine_inv K g'"
proof -
  from app obtain x ms g1 where x: "ingest K fault es g = Inr g1" "g' = g1\<lparr>eg_clock := ax_clock x\<rparr>"
    "emit_all A (context_of g now ids) ms = (es, x)" by (rule engine_apply_Inr)
  from emit_all_clock_ge [OF sign x(3)] have "eg_clock g \<le> ax_clock x" "list_all (\<lambda>e. en_clock e \<le> ax_clock x) es"
    by (simp_all add: context_of_def)
  from ingest_inv [OF inv fresh x(1) this] x(2) show ?thesis by simp
qed

lemma engine_author_inv:
  assumes inv: "engine_inv K g" and sign: "signs_only A"
    and app: "engine_author K fault A space kind now ids g = Inr (e, g')" and fresh: "fresh_for (eg_events g) [e]"
  shows "engine_inv K g'"
proof -
  obtain f x where em: "emit A (context_of g now ids) (space, kind) = (f, x)"
    by (cases "emit A (context_of g now ids) (space, kind)")
  with app obtain g1 where g1: "f = e" "ingest K fault [e] g = Inr g1" "g' = g1\<lparr>eg_clock := ax_clock x\<rparr>"
    by (auto simp: engine_author_def bind_res_Inr)
  note f = emit_fields [OF sign em]
  have "eg_clock g \<le> ax_clock x" using clock_tick_ge [of "eg_clock g"] by (simp add: f(6) context_of_def)
  moreover have "list_all (\<lambda>e. en_clock e \<le> ax_clock x) [e]" using f(5) g1(1) by simp
  ultimately show ?thesis using ingest_inv [OF inv fresh g1(2)] g1(3) by simp
qed

definition counter_room :: "actor_clock \<Rightarrow> nat \<Rightarrow> bool" where
  "counter_room c n \<longleftrightarrow> unat (ck_counter c) + n < 2 ^ 32"

lemma engine_apply_state:
  assumes inv: "engine_inv K g" and sign: "signs_only A"
    and app: "engine_apply K fault A env cmd now ids g = Inr (es, g')" and fresh: "fresh_for (eg_events g) es"
    and room: "counter_room (eg_clock g) (length es)"
  shows "eg_state g' = fold apply_event es (eg_state g)"
proof -
  from app obtain x ms g1 where x: "ingest K fault es g = Inr g1" "g' = g1\<lparr>eg_clock := ax_clock x\<rparr>"
    "emit_all A (context_of g now ids) ms = (es, x)" by (rule engine_apply_Inr)
  have "length ms = length es" using emit_all_carries [OF sign x(3)] by (auto simp: carries_def)
  with emit_all_clocks [OF sign x(3)] room have "sorted_wrt (<) (eg_clock g # map en_clock es)"
    by (simp add: context_of_def counter_room_def)
  from fold_later_events [OF inv fresh this] x show ?thesis by (simp add: ingest_Inr)
qed

text \<open>C7. A command takes effect on the seat that applies it.  The engine folds its whole event set anew, yet
  after an accepted command the aggregate is the old one with the command's events on top, and so as
  the command promises: whatever was merged before, with whatever clocks, the seat's own events come
  last, as long as the counter of its clock has room for them.
\<close>

theorem applied_commands_take_effect:
  assumes "engine_inv K g" and "signs_only A"
    and "engine_apply K fault A env cmd now ids g = Inr (es, g')" and "fresh_for (eg_events g) es"
    and "counter_room (eg_clock g) (length es)"
  shows "eg_state g' = fold apply_event es (eg_state g)
    \<and> promised cmd (at_ctx env (context_of g now ids)) es (eg_state g) (eg_state g')"
proof -
  note state = engine_apply_state [OF assms]
  from assms(3) obtain x ms where app: "apply_command A env (eg_state g) cmd (context_of g now ids) = (Inr es, x)"
    by (rule engine_apply_Inr)
  from apply_command_Inr [OF app] obtain ms where
    "emissions cmd (at_ctx env (context_of g now ids)) (eg_state g) = Inr ms"
    "emit_all A (context_of g now ids) ms = (es, x)" by blast
  from accepted_effect [OF this(1) emit_all_carries [OF assms(2) this(2)]] state show ?thesis by simp
qed


section \<open>What a merge accepts\<close>

definition valid_event :: "checks \<Rightarrow> envelope \<Rightarrow> bool" where
  "valid_event K e \<longleftrightarrow> en_schema e = SCHEMA_VERSION \<and> ck_verify K e"

definition first_valid :: "checks \<Rightarrow> event_id \<Rightarrow> envelope list \<Rightarrow> envelope option" where
  "first_valid K i es = find (\<lambda>e. en_id e = i \<and> valid_event K e) es"

text \<open>What holds after the events \<open>done\<close> were inspected.\<close>

definition scanned :: "checks \<Rightarrow> engine \<Rightarrow> envelope list \<Rightarrow> merge_acc \<Rightarrow> bool" where
  "scanned K g seen a \<longleftrightarrow>
     fresh_for (eg_events g) (mg_accept a)
     \<and> mg_pending a = insert_events (mg_accept a) om_empty
     \<and> (\<forall>i. find (\<lambda>e. en_id e = i) (mg_accept a)
            = (if om_get (eg_events g) i = None then first_valid K i seen else None))
     \<and> list_all (valid_event K) (mg_accept a)
     \<and> length (mg_accept a) + mo_dropped_invalid (mg_outcome a) + mo_duplicates (mg_outcome a) = length seen
     \<and> length (mo_rejected (mg_outcome a)) = mo_dropped_invalid (mg_outcome a)
     \<and> eg_clock g \<le> mg_clock a \<and> list_all (\<lambda>e. en_clock e \<le> mg_clock a) (mg_accept a)"

lemma first_valid_snoc:
  "first_valid K i (es @ [e]) =
     (case first_valid K i es of Some f \<Rightarrow> Some f
      | None \<Rightarrow> if en_id e = i \<and> valid_event K e then Some e else None)"
  by (induction es) (auto simp: first_valid_def)

lemma find_snoc: "find P (xs @ [x]) = (case find P xs of Some y \<Rightarrow> Some y | None \<Rightarrow> if P x then Some x else None)"
  by (induction xs) auto

lemma pending_get:
  assumes "scanned K g seen a"
  shows "om_get (mg_pending a) i = (if om_get (eg_events g) i = None then first_valid K i seen else None)"
proof -
  have "distinct (map en_id (mg_accept a))" "mg_pending a = insert_events (mg_accept a) om_empty"
    using assms by (simp_all add: scanned_def fresh_for_def)
  then show ?thesis using assms by (simp add: get_insert_events scanned_def split: option.splits)
qed

lemma scanned_reject:
  "scanned K g seen a \<Longrightarrow> \<not> valid_event K e \<or> om_get (eg_events g) (en_id e) \<noteq> None \<or> first_valid K (en_id e) seen \<noteq> None
    \<Longrightarrow> scanned K g (seen @ [e]) (reject i why a)"
  by (auto simp: scanned_def reject_def first_valid_snoc split: option.splits)

lemma scanned_seen_before:
  "scanned K g seen a \<Longrightarrow> om_get (eg_events g) (en_id e) \<noteq> None \<or> first_valid K (en_id e) seen \<noteq> None
    \<Longrightarrow> scanned K g (seen @ [e]) (seen_before old e a)"
  using scanned_reject [of K g seen a e "en_id e" ConflictingDuplicate]
  by (auto simp: seen_before_def scanned_def first_valid_snoc split: option.splits)

lemma scanned_accept:
  assumes sc: "scanned K g seen a" and valid: "valid_event K e"
    and new: "om_get (eg_events g) (en_id e) = None" "first_valid K (en_id e) seen = None"
  shows "scanned K g (seen @ [e]) (a\<lparr>mg_clock := clock_merge (mg_clock a) (en_clock e) (wall_ms (mg_clock a)),
           mg_pending := om_put (en_id e) e (mg_pending a), mg_accept := mg_accept a @ [e]\<rparr>)"
proof -
  let ?c = "clock_merge (mg_clock a) (en_clock e) (wall_ms (mg_clock a))"
  have none: "find (\<lambda>f. en_id f = en_id e) (mg_accept a) = None" using sc new by (simp add: scanned_def)
  then have "en_id e \<notin> en_id ` set (mg_accept a)" by (auto simp: find_None_iff)
  then have "fresh_for (eg_events g) (mg_accept a @ [e])" using sc new by (auto simp: scanned_def fresh_for_def)
  moreover have "list_all (\<lambda>f. en_clock f \<le> ?c) (mg_accept a @ [e])" "eg_clock g \<le> ?c"
    using sc clock_merge_ge [of "mg_clock a" "en_clock e" "wall_ms (mg_clock a)"]
    by (auto simp: scanned_def list_all_iff intro: order_trans)
  moreover have "find (\<lambda>f. en_id f = i) (mg_accept a @ [e])
      = (if om_get (eg_events g) i = None then first_valid K i (seen @ [e]) else None)" for i
    using sc valid new by (auto simp: scanned_def find_snoc first_valid_snoc split: option.splits)
  ultimately show ?thesis using sc valid by (simp add: scanned_def insert_events_def)
qed

lemma scanned_step: "scanned K g seen a \<Longrightarrow> scanned K g (seen @ [e]) (merge_step K (eg_events g) e a)"
  unfolding merge_step_def
  by (auto simp: pending_get valid_event_def split: option.splits if_splits
      intro: scanned_reject scanned_seen_before scanned_accept)

lemma scanned_fold:
  "scanned K g seen a \<Longrightarrow> scanned K g (seen @ es) (fold (merge_step K (eg_events g)) es a)"
proof (induction es arbitrary: seen a)
  case (Cons e es)
  from Cons.IH [OF scanned_step [OF Cons.prems, of e]] show ?case by simp
qed simp

lemma scanned_merge: "scanned K g incoming (merge_scan K g incoming)"
  unfolding merge_scan_def
  using scanned_fold [of K g "[]" _ incoming]
  by (auto simp: scanned_def fresh_for_def insert_events_def first_valid_def)

lemma merge_Inr:
  "merge K fault incoming g = Inr (out, g') \<longleftrightarrow>
     length incoming \<le> MAX_MERGE_BATCH_EVENTS
     \<and> out = (mg_outcome (merge_scan K g incoming))\<lparr>mo_accepted := length (mg_accept (merge_scan K g incoming))\<rparr>
     \<and> (if mg_accept (merge_scan K g incoming) = [] then g' = g
        else \<exists>g1. ingest K fault (mg_accept (merge_scan K g incoming)) g = Inr g1
               \<and> g' = g1\<lparr>eg_clock := mg_clock (merge_scan K g incoming)\<rparr>)"
  by (auto simp: merge_def Let_def bind_res_Inr)

lemma merge_inv:
  assumes inv: "engine_inv K g" and mer: "merge K fault incoming g = Inr (out, g')"
  shows "engine_inv K g'"
proof -
  let ?a = "merge_scan K g incoming"
  note sc = scanned_merge [of K g incoming]
  show ?thesis
  proof (cases "mg_accept ?a = []")
    case True
    with mer inv show ?thesis by (simp add: merge_Inr)
  next
    case False
    with mer obtain g1 where "ingest K fault (mg_accept ?a) g = Inr g1" "g' = g1\<lparr>eg_clock := mg_clock ?a\<rparr>"
      by (auto simp: merge_Inr)
    moreover from this sc have "engine_inv K (g1\<lparr>eg_clock := mg_clock ?a\<rparr>)"
      by (intro ingest_inv [OF inv _ \<open>ingest K fault (mg_accept ?a) g = Inr g1\<close>]) (simp_all add: scanned_def)
    ultimately show ?thesis by simp
  qed
qed

lemma merge_events:
  assumes mer: "merge K fault incoming g = Inr (out, g')"
  shows "om_get (eg_events g') i =
    (case om_get (eg_events g) i of Some e \<Rightarrow> Some e | None \<Rightarrow> first_valid K i incoming)"
proof -
  let ?a = "merge_scan K g incoming"
  note sc = scanned_merge [of K g incoming]
  have "eg_events g' = insert_events (mg_accept ?a) (eg_events g)"
    using mer by (auto simp: merge_Inr ingest_Inr insert_events_def split: if_splits)
  with sc show ?thesis by (auto simp: get_insert_events scanned_def fresh_for_def split: option.splits)
qed

text \<open>C24. What a merge takes in.  A merge that returns has added exactly the valid events whose identifiers
  the engine did not hold, the first one where a batch repeats an identifier, and has left every event
  it held untouched; the three counts add up to the batch and every rejected event has its diagnostic.
\<close>

theorem merge_is_exact:
  assumes "merge K fault incoming g = Inr (out, g')"
  shows "om_get (eg_events g') i =
      (case om_get (eg_events g) i of Some e \<Rightarrow> Some e | None \<Rightarrow> first_valid K i incoming)
    \<and> mo_accepted out + mo_dropped_invalid out + mo_duplicates out = length incoming
    \<and> length (mo_rejected out) = mo_dropped_invalid out"
  using merge_events [OF assms] scanned_merge [of K g incoming] assms by (simp add: merge_Inr scanned_def)

text \<open>C16. Every operation keeps the engine's invariant: after a local command, an authored event or a merge
  every event held is signed, filed under its identifier, not later than the seat's clock and
  acknowledged by its author, the aggregate is the fold of the events held, and the durable event
  table holds the same events as the memory.  For local events the identifiers have to be fresh.
\<close>

theorem engine_operations_keep_the_invariant:
  assumes "engine_inv K g" and "signs_only A"
  shows "(merge K fault incoming g = Inr (out, g1) \<longrightarrow> engine_inv K g1)
    \<and> (engine_apply K fault A env cmd now ids g = Inr (es, g2) \<and> fresh_for (eg_events g) es \<longrightarrow> engine_inv K g2)
    \<and> (engine_author K fault A space kind now ids g = Inr (e, g3) \<and> fresh_for (eg_events g) [e] \<longrightarrow> engine_inv K g3)"
  using merge_inv [OF assms(1)] engine_apply_inv [OF assms] engine_author_inv [OF assms] by blast

section \<open>Convergence\<close>

fun merge_all :: "checks \<Rightarrow> envelope list list \<Rightarrow> engine \<Rightarrow> engine outcome" where
  "merge_all K [] g = Inr g"
| "merge_all K (b # bs) g = bind_res (merge K None b g) (\<lambda>r. merge_all K bs (snd r))"

lemma first_valid_append:
  "first_valid K i (xs @ ys) = (case first_valid K i xs of Some e \<Rightarrow> Some e | None \<Rightarrow> first_valid K i ys)"
  by (induction xs) (auto simp: first_valid_def)

lemma merge_all_inv: "engine_inv K g \<Longrightarrow> merge_all K bs g = Inr h \<Longrightarrow> engine_inv K h"
  by (induction bs arbitrary: g) (auto simp: bind_res_Inr intro: merge_inv)

lemma merge_all_events:
  "merge_all K bs g = Inr h \<Longrightarrow>
     om_get (eg_events h) i = (case om_get (eg_events g) i of Some e \<Rightarrow> Some e | None \<Rightarrow> first_valid K i (concat bs))"
proof (induction bs arbitrary: g)
  case (Cons b bs)
  then obtain out g1 where g1: "merge K None b g = Inr (out, g1)" "merge_all K bs g1 = Inr h"
    by (auto simp: bind_res_Inr)
  from Cons.IH [OF g1(2)] merge_events [OF g1(1)] show ?case
    by (auto simp: first_valid_append split: option.splits)
qed (simp add: first_valid_def split: option.splits)

lemma first_valid_set:
  assumes "inj_on en_id (set (filter (valid_event K) es))"
  shows "first_valid K i es = Some e \<longleftrightarrow> e \<in> set (filter (valid_event K) es) \<and> en_id e = i"
proof (cases "first_valid K i es")
  case None
  then have "\<not> (e \<in> set (filter (valid_event K) es) \<and> en_id e = i)" by (auto simp: first_valid_def find_None_iff)
  with None show ?thesis by simp
next
  case (Some f)
  then have "f \<in> set (filter (valid_event K) es)" "en_id f = i"
    by (auto simp: first_valid_def dest!: find_SomeD)
  with Some assms show ?thesis by (auto dest: inj_onD)
qed

text \<open>C1. Replicas converge.  Two seats start empty and merge batches of events.  If the valid events among
  all that reached them are the same, and no identifier stands for two of them, then the seats hold the
  same events, the same aggregate and the same event table: no matter how the events were batched, in
  which order or how often they came, and what invalid ones came between.
\<close>

theorem replicas_converge:
  assumes "merge_all K bs (engine_new a om_empty) = Inr g" and "merge_all K cs (engine_new b om_empty) = Inr h"
    and "set (filter (valid_event K) (concat bs)) = set (filter (valid_event K) (concat cs))"
    and "inj_on en_id (set (filter (valid_event K) (concat bs)))"
  shows "eg_events g = eg_events h \<and> eg_state g = eg_state h \<and> eg_rows g = eg_rows h"
proof -
  have inv: "engine_inv K g" "engine_inv K h"
    using merge_all_inv [OF engine_inv_new] assms(1,2) by blast+
  have "first_valid K i (concat bs) = Some e \<longleftrightarrow> first_valid K i (concat cs) = Some e" for i e
    unfolding first_valid_set [OF assms(4)] first_valid_set [OF assms(4) [unfolded assms(3)]] assms(3) ..
  then have "first_valid K i (concat bs) = first_valid K i (concat cs)" for i
    by (metis option.exhaust)
  then have "om_get (eg_events g) i = om_get (eg_events h) i" for i
    using merge_all_events [OF assms(1), of i] merge_all_events [OF assms(2), of i] by (simp add: engine_new_def)
  then have "eg_events g = eg_events h" using inv by (intro om_ext) (simp_all add: engine_inv_def)
  then show ?thesis using inv by (simp add: engine_inv_def)
qed

text \<open>A batch of bounded events is merged, where the database does not fail.\<close>

lemma merge_succeeds:
  assumes "length incoming \<le> MAX_MERGE_BATCH_EVENTS"
    and "list_all (\<lambda>e. ck_json_len K e \<le> MAX_ENVELOPE_JSON_BYTES) incoming"
  shows "\<exists>out h. merge K None incoming g = Inr (out, h)"
proof -
  let ?acc = "mg_accept (merge_scan K g incoming)"
  note sc = scanned_merge [of K g incoming]
  have "projectable K e" if e: "e \<in> set ?acc" for e
  proof -
    have fresh: "distinct (map en_id ?acc)" using sc by (simp add: scanned_def fresh_for_def)
    have "find (\<lambda>f. en_id f = en_id e) ?acc \<noteq> None" using e by (auto simp: find_None_iff)
    then obtain f where f: "find (\<lambda>f. en_id f = en_id e) ?acc = Some f" by blast
    with fresh e have "f = e" by (auto simp: distinct_map dest!: find_SomeD dest: inj_onD)
    with f sc have "first_valid K (en_id e) incoming = Some e" by (auto simp: scanned_def split: if_splits)
    then have "e \<in> set incoming" "valid_event K e" by (auto simp: first_valid_def dest!: find_SomeD)
    with assms(2) show ?thesis by (simp add: projectable_def valid_event_def list_all_iff)
  qed
  then have "list_all (projectable K) ?acc" by (simp add: list_all_iff)
  with assms(1) show ?thesis by (auto simp: merge_Inr ingest_Inr)
qed

section \<open>What a peer can do\<close>

lemma last_clock: "ActorClock (- 1) (- 1) \<le> c \<longleftrightarrow> c = ActorClock (- 1) (- 1)"
  by (cases c) (auto simp: less_eq_actor_clock_def less_eq_prod_def word_order.extremum_unique word_order.not_eq_extremum)

text \<open>A peer can exhaust a seat's clock.  A clock is taken over from any valid event.  Once an engine
  holds an event stamped with the last clock there is, every event it emits carries that very clock,
  whatever the time: its own events no longer come after what it has seen, and between them the
  identifiers decide.
\<close>

theorem exhausted_clock_stays:
  assumes "engine_inv K g" and "om_get (eg_events g) i = Some e" and "en_clock e = ActorClock (- 1) (- 1)"
    and "signs_only A" and "emit A (context_of g now ids) m = (f, x)"
  shows "eg_clock g = en_clock e \<and> en_clock f = en_clock e"
proof -
  have "en_clock e \<le> eg_clock g" using kept_get [OF assms(1,2)] by (simp add: kept_def)
  then have c: "eg_clock g = ActorClock (- 1) (- 1)" using assms(3) last_clock by simp
  have "clock_tick (ActorClock (- 1) (- 1)) n = ActorClock (- 1) (- 1)" for n
    by (auto simp: clock_tick_def sat_add_def unat_minus_one_word word_order.extremum_strict)
  with c assms(3) emit_fields(5,6) [OF assms(4,5)] show ?thesis by (simp add: context_of_def)
qed

text \<open>One oversized event costs the batch.  \<open>merge\<close> looks at the schema and the signature only, the
  projection also at the length.  So where a peer signs an event that is too long, the merge of every
  batch that contains it fails as a whole, and the other seats' events in it are not taken in.
\<close>

theorem oversized_event_blocks_the_batch:
  assumes "length incoming \<le> MAX_MERGE_BATCH_EVENTS"
    and "om_get (eg_events g) i = None" and "first_valid K i incoming = Some e"
    and "ck_json_len K e > MAX_ENVELOPE_JSON_BYTES"
  shows "list_ex (\<lambda>o1. merge K fault incoming g = Inl (InvalidEvent (en_id o1))) incoming"
proof -
  let ?acc = "mg_accept (merge_scan K g incoming)"
  note sc = scanned_merge [of K g incoming]
  have "find (\<lambda>f. en_id f = i) ?acc = Some e" using sc assms(2,3) by (simp add: scanned_def)
  then have e: "e \<in> set ?acc" using find_SomeD by force
  have "\<not> projectable K e" using assms(4) by (simp add: projectable_def)
  with e obtain f where f: "find (\<lambda>e. \<not> projectable K e) ?acc = Some f"
    by (cases "find (\<lambda>e. \<not> projectable K e) ?acc") (auto simp: find_None_iff)
  then have "f \<in> set ?acc" by (auto dest: find_SomeD)
  have "find (\<lambda>h. en_id h = en_id f) ?acc \<noteq> None" using \<open>f \<in> set ?acc\<close> by (auto simp: find_None_iff)
  then have "first_valid K (en_id f) incoming \<noteq> None" using sc by (auto simp: scanned_def split: if_splits)
  then obtain h where "h \<in> set incoming" "en_id h = en_id f" by (auto simp: first_valid_def dest!: find_SomeD)
  moreover have "merge K fault incoming g = Inl (InvalidEvent (en_id f))"
    using assms(1) e f by (auto simp: merge_def Let_def ingest_def project_def)
  ultimately show ?thesis by (auto simp: list_ex_iff intro!: bexI [of _ h])
qed

text \<open>Writing counts as seeing.  The engine takes the clock of an event as its author's acknowledgement of
  everything up to that clock.  So members who wrote anything with a clock as late as a deletion's count
  as having seen the deletion, whether it has reached them or not, and the gate opens.
\<close>

theorem writing_counts_as_seeing:
  assumes "engine_inv K g"
    and "list_all (\<lambda>w. list_ex (\<lambda>e. en_actor e = w \<and> c \<le> en_clock e) (om_values (eg_events g))) (space_members g sp)"
  shows "all_acked (eg_acks g) (space_members g sp) c"
proof -
  have wf: "om_wf (eg_events g)" using assms(1) by (simp add: engine_inv_def)
  have "c \<le> high_water (eg_acks g) w" if w: "w \<in> set (space_members g sp)" for w
  proof -
    from w assms(2) obtain e where e: "e \<in> set (om_values (eg_events g))" "en_actor e = w" "c \<le> en_clock e"
      by (auto simp: list_all_iff list_ex_iff)
    from set_values [OF wf, THEN iffD1, OF e(1)] obtain k where "om_get (eg_events g) k = Some e" by auto
    from kept_get [OF assms(1) this] e(2,3) show ?thesis by (auto simp: kept_def)
  qed
  then show ?thesis by (simp add: all_acked_def list_all_iff)
qed

section \<open>The properties at an engine\<close>

definition checks0 :: checks where
  "checks0 = \<lparr>ck_verify = (\<lambda>e. en_schema e = SCHEMA_VERSION),
              ck_json_len = (\<lambda>e. if en_id e = 66 then 300000 else 100)\<rparr>"

definition founding :: "envelope list" where
  "founding = [ev 1 ''a'' 1 (SpaceCreated Team ''t''), ev 2 ''a'' 2 (MemberJoined ''a'' Owner),
               ev 3 ''b'' 3 (MemberJoined ''b'' Member)]"

definition eng0 :: engine where
  "eng0 = \<lparr>eg_actor = ''a'', eg_clock = ActorClock 3 1,
     eg_events = map (\<lambda>e. (en_id e, e)) founding, eg_state = demo_space,
     eg_rows = map (\<lambda>e. (en_id e, e)) founding,
     eg_acks = [(''a'', ActorClock 2 0), (''b'', ActorClock 3 0)]\<rparr>"

lemmas demo_defs = eng0_def founding_def ev_def envelope_new_def checks0_def

lemma founding_merged:
  "merge checks0 None founding (engine_new ''a'' om_empty)
     = Inr (\<lparr>mo_accepted = 3, mo_dropped_invalid = 0, mo_duplicates = 0, mo_rejected = []\<rparr>, eng0)"
proof -
  have scan: "merge_scan checks0 (engine_new ''a'' om_empty) founding =
    \<lparr>mg_outcome = \<lparr>mo_accepted = 0, mo_dropped_invalid = 0, mo_duplicates = 0, mo_rejected = []\<rparr>,
     mg_accept = founding, mg_pending = map (\<lambda>e. (en_id e, e)) founding, mg_clock = ActorClock 3 1\<rparr>"
    by (simp add: merge_scan_def merge_step_def founding_def ev_def envelope_new_def checks0_def engine_new_def
        om_get_def om_empty_def clock_zero_def clock_merge_def Let_def sat_add_def)
  have "from_events (om_values (map (\<lambda>e. (en_id e, e)) founding)) = demo_space"
    by (simp add: demo_space_def founding_def om_values_def)
  then show ?thesis
    by (simp add: merge_def scan Let_def MAX_MERGE_BATCH_EVENTS_def ingest_def project_def)
      (simp add: founding_def ev_def envelope_new_def checks0_def projectable_def MAX_ENVELOPE_JSON_BYTES_def
        insert_events_def engine_new_def om_empty_def om_or_insert_def om_get_def note_ack_def om_upd_def
        eng0_def less_actor_clock_def less_prod_def clock_zero_def)
qed

lemma eng0_inv: "engine_inv checks0 eng0"
  by (rule merge_inv [OF engine_inv_new founding_merged])

theorem merge_is_exact_witness:
  "om_get (eg_events eng0) 2
     = (case om_get (eg_events (engine_new ''a'' om_empty)) 2 of Some e \<Rightarrow> Some e | None \<Rightarrow> first_valid checks0 2 founding)
   \<and> mo_accepted \<lparr>mo_accepted = 3, mo_dropped_invalid = 0, mo_duplicates = 0, mo_rejected = []\<rparr>
     + mo_dropped_invalid \<lparr>mo_accepted = 3, mo_dropped_invalid = 0, mo_duplicates = 0, mo_rejected = []\<rparr>
     + mo_duplicates \<lparr>mo_accepted = 3, mo_dropped_invalid = 0, mo_duplicates = 0, mo_rejected = []\<rparr> = length founding
   \<and> length (mo_rejected \<lparr>mo_accepted = 3, mo_dropped_invalid = 0, mo_duplicates = 0, mo_rejected = []\<rparr>)
     = mo_dropped_invalid \<lparr>mo_accepted = 3, mo_dropped_invalid = 0, mo_duplicates = 0, mo_rejected = []\<rparr>"
  by (rule merge_is_exact [OF founding_merged])

lemma eng0_removal:
  "\<exists>g. engine_apply checks0 None seat0 who_a (RemoveMember 3 ''b'') 9 4 eng0 = Inr ([removal], g)"
proof -
  have state: "eg_state eng0 = demo_space" by (simp add: eng0_def)
  have "who_a\<lparr>cx_who := ''a'', cx_now := 9\<rparr> = who_a" by (simp add: who_a_def)
  then have app: "apply_command seat0 who_a (eg_state eng0) (RemoveMember 3 ''b'') (context_of eng0 9 4)
     = (Inr [removal], \<lparr>ax_actor = ''a'', ax_now = 9, ax_clock = ActorClock 9 0, ax_ids = 5\<rparr>)"
    using remove_b
    by (simp add: apply_command_def emit_def Let_def seat0_def removal_def context_of_def eng0_def clock_tick_def u64_or_zero_def)
  have "projectable checks0 removal"
    by (simp add: projectable_def checks0_def removal_def envelope_new_def MAX_ENVELOPE_JSON_BYTES_def)
  then show ?thesis by (simp add: engine_apply_def app ingest_def project_def Let_def)
qed

lemma removal_fresh: "fresh_for (eg_events eng0) [removal]"
  by (simp add: fresh_for_def demo_defs removal_def om_get_def)

lemma eng0_room: "counter_room (eg_clock eng0) (length [removal])"
  by (simp add: counter_room_def eng0_def)

theorem engine_operations_keep_the_invariant_witness:
  "engine_inv checks0 eng0
   \<and> (\<exists>g. engine_apply checks0 None seat0 who_a (RemoveMember 3 ''b'') 9 4 eng0 = Inr ([removal], g) \<and> engine_inv checks0 g)"
proof -
  obtain g where g: "engine_apply checks0 None seat0 who_a (RemoveMember 3 ''b'') 9 4 eng0 = Inr ([removal], g)"
    using eng0_removal by blast
  have "engine_inv checks0 eng0"
    using engine_operations_keep_the_invariant [OF engine_inv_new seat0_signs_only] founding_merged by blast
  moreover from this have "engine_inv checks0 g"
    using engine_operations_keep_the_invariant [OF _ seat0_signs_only] g removal_fresh by blast
  ultimately show ?thesis using g by blast
qed

theorem applied_commands_take_effect_witness:
  "\<exists>g. engine_apply checks0 None seat0 who_a (RemoveMember 3 ''b'') 9 4 eng0 = Inr ([removal], g)
     \<and> eg_state g = fold apply_event [removal] (eg_state eng0)
     \<and> promised (RemoveMember 3 ''b'') (at_ctx who_a (context_of eng0 9 (4 :: nat))) [removal] (eg_state eng0) (eg_state g)"
proof -
  obtain g where g: "engine_apply checks0 None seat0 who_a (RemoveMember 3 ''b'') 9 4 eng0 = Inr ([removal], g)"
    using eng0_removal by blast
  from applied_commands_take_effect [OF eng0_inv seat0_signs_only g removal_fresh eng0_room] g show ?thesis by blast
qed


definition junk :: envelope where
  "junk = (ev 4 ''x'' 4 SpaceArchived)\<lparr>en_schema := 2\<rparr>"

lemma demo_lengths: "list_all (\<lambda>e. ck_json_len checks0 e \<le> MAX_ENVELOPE_JSON_BYTES) (rev founding @ [junk])"
  by (simp add: demo_defs junk_def MAX_ENVELOPE_JSON_BYTES_def)

theorem replicas_converge_witness:
  "\<exists>h. merge_all checks0 [[], rev founding @ [junk]] (engine_new ''z'' om_empty) = Inr h
     \<and> eg_events eng0 = eg_events h \<and> eg_state eng0 = eg_state h \<and> eg_rows eng0 = eg_rows h"
proof -
  obtain out h where h: "merge checks0 None (rev founding @ [junk]) (engine_new ''z'' om_empty) = Inr (out, h)"
    using merge_succeeds [OF _ demo_lengths, of "engine_new ''z'' om_empty"]
    by (auto simp: founding_def MAX_MERGE_BATCH_EVENTS_def)
  have empty: "merge checks0 None [] g = Inr (\<lparr>mo_accepted = 0, mo_dropped_invalid = 0, mo_duplicates = 0, mo_rejected = []\<rparr>, g)" for g
    by (simp add: merge_def merge_scan_def Let_def)
  have two: "merge_all checks0 [[], rev founding @ [junk]] (engine_new ''z'' om_empty) = Inr h"
    using h by (simp add: empty)
  have one: "merge_all checks0 [founding] (engine_new ''a'' om_empty) = Inr eng0" by (simp add: founding_merged)
  have "eg_events eng0 = eg_events h \<and> eg_state eng0 = eg_state h \<and> eg_rows eng0 = eg_rows h"
    by (rule replicas_converge [OF one two])
      (auto simp: demo_defs junk_def valid_event_def SCHEMA_VERSION_def inj_on_def)
  with two show ?thesis by blast
qed

definition last_word :: envelope where
  "last_word = (ev 9 ''m'' 9 SpaceArchived)\<lparr>en_clock := ActorClock (- 1) (- 1)\<rparr>"

theorem exhausted_clock_stays_witness:
  "\<exists>out g. merge checks0 None [last_word] eng0 = Inr (out, g) \<and> eg_clock g = en_clock last_word
     \<and> en_clock (fst (emit seat0 (context_of g 50 4) (3, SpaceArchived))) = en_clock last_word"
proof -
  have "list_all (\<lambda>e. ck_json_len checks0 e \<le> MAX_ENVELOPE_JSON_BYTES) [last_word]"
    by (simp add: last_word_def demo_defs MAX_ENVELOPE_JSON_BYTES_def)
  then obtain out g where g: "merge checks0 None [last_word] eng0 = Inr (out, g)"
    using merge_succeeds [of "[last_word]" checks0 eng0] by (auto simp: MAX_MERGE_BATCH_EVENTS_def)
  have "first_valid checks0 9 [last_word] = Some last_word"
    by (simp add: first_valid_def valid_event_def last_word_def ev_def envelope_new_def checks0_def)
  moreover have "om_get (eg_events eng0) 9 = None" by (simp add: demo_defs om_get_def)
  ultimately have held: "om_get (eg_events g) 9 = Some last_word" using merge_events [OF g] by simp
  obtain f x where f: "emit seat0 (context_of g 50 4) (3, SpaceArchived) = (f, x)" by fastforce
  have "en_clock last_word = ActorClock (- 1) (- 1)" by (simp add: last_word_def)
  from exhausted_clock_stays [OF merge_inv [OF eng0_inv g] held this seat0_signs_only f] g f show ?thesis by auto
qed

theorem oversized_event_blocks_the_batch_witness:
  "list_ex (\<lambda>o1. merge checks0 None (founding @ [ev 66 ''m'' 9 SpaceArchived]) (engine_new ''z'' om_empty)
      = Inl (InvalidEvent (en_id o1))) (founding @ [ev 66 ''m'' 9 SpaceArchived])"
  by (rule oversized_event_blocks_the_batch [of _ _ 66 _ "ev 66 ''m'' 9 SpaceArchived"])
    (simp_all add: demo_defs MAX_MERGE_BATCH_EVENTS_def engine_new_def first_valid_def valid_event_def
      MAX_ENVELOPE_JSON_BYTES_def)

theorem writing_counts_as_seeing_witness:
  "all_acked (eg_acks eng0) (space_members eng0 3) (ActorClock 2 0)"
  by (rule writing_counts_as_seeing [OF eng0_inv])
    (simp add: space_members_def eng0_def space_of_def demo_space_spaces om_get_def om_values_def founding_def
      ev_def envelope_new_def less_eq_actor_clock_def less_eq_prod_def)

end
