(* ===== verification/CollabProjection.thy ===== *)
theory CollabProjection
  imports CollabPromises
begin

text \<open>
  The read side of the collaboration core (\<open>crates/services/mde-collab-core/src/projection.rs\<close>): the
  fold of one space's log into the rows of the read tables (\<open>SpaceFold\<close>), the rows that are written,
  and the presence board.  The read fold is a second implementation of the rules the aggregate of
  \<open>CollabDomain\<close> folds; the results compare the two: where they agree, and which event makes the read
  model show what the commands deny.  Reading and writing the database itself is not modelled.
\<close>

section \<open>Rows\<close>

record space_row =
  rs_kind :: space_kind
  rs_name :: string
  rs_created :: millis
  rs_deleted :: bool

record message_row =
  rm_author :: actor_id
  rm_created :: millis
  rm_thread :: "thread_id option"
  rm_body :: string
  rm_edited :: bool
  rm_deleted :: bool
  rm_pinned :: bool
  rm_clock :: actor_clock

record saved_row =
  rv_space :: space_id
  rv_saved :: millis
  rv_clock :: actor_clock

record thread_row =
  rh_root :: event_id
  rh_title :: "string option"
  rh_resolved :: bool
  rh_clock :: actor_clock

record task_row =
  rt_title :: string
  rt_by :: actor_id
  rt_created :: millis
  rt_source :: "event_id option"
  rt_checked :: bool
  rt_completed :: bool
  rt_completed_by :: "actor_id option"
  rt_completed_ms :: "millis option"
  rt_clock :: actor_clock

record alert_row =
  ra_payload :: alert_payload
  ra_acknowledged :: bool
  ra_snoozed :: "millis option"
  ra_clock :: actor_clock

record clip_row =
  rc_kind :: clip_item_kind
  rc_preview :: string
  rc_sha256 :: string
  rc_source :: string
  rc_at :: millis
  rc_pinned :: bool
  rc_deleted :: bool
  rc_clock :: actor_clock

record file_row =
  rf_reference :: file_ref
  rf_by :: actor_id
  rf_linked :: millis
  rf_present :: bool
  rf_clock :: actor_clock

record transfer_row =
  rx_file :: file_ref_id
  rx_method :: transfer_method
  rx_direction :: transfer_direction
  rx_state :: transfer_state
  rx_clock :: actor_clock

record doc_row =
  rd_title :: string
  rd_summary :: "string option"
  rd_participants :: "actor_id set"
  rd_clock :: actor_clock

record call_row =
  rk_kind :: call_kind
  rk_initiator :: actor_id
  rk_started :: millis
  rk_ended :: bool
  rk_participants :: "(actor_id, participant_state \<times> bool) omap"
  rk_muted :: "(actor_id, bool) omap"
  rk_clock :: actor_clock

record space_fold =
  sf_space :: "space_row option"
  sf_members :: "(actor_id, space_role \<times> bool) omap"
  sf_messages :: "(event_id, message_row) omap"
  sf_saved :: "(actor_id \<times> event_id, saved_row) omap"
  sf_threads :: "(thread_id, thread_row) omap"
  sf_tasks :: "(event_id, task_row) omap"
  sf_alerts :: "(event_id, alert_row) omap"
  sf_clipboard :: "(event_id, clip_row) omap"
  sf_files :: "(file_ref_id, file_row) omap"
  sf_transfers :: "(transfer_id, transfer_row) omap"
  sf_documents :: "(document_id, doc_row) omap"
  sf_calls :: "(call_id, call_row) omap"
  sf_last_clock :: actor_clock

definition space_fold_default :: space_fold where
  "space_fold_default = \<lparr>sf_space = None, sf_members = om_empty, sf_messages = om_empty, sf_saved = om_empty,
     sf_threads = om_empty, sf_tasks = om_empty, sf_alerts = om_empty, sf_clipboard = om_empty,
     sf_files = om_empty, sf_transfers = om_empty, sf_documents = om_empty, sf_calls = om_empty,
     sf_last_clock = clock_zero\<rparr>"

definition is_present_owner :: "space_fold \<Rightarrow> actor_id \<Rightarrow> bool" where
  "is_present_owner f a = (case om_get (sf_members f) a of None \<Rightarrow> False | Some (r, p) \<Rightarrow> p \<and> r = Owner)"

definition is_present_member :: "space_fold \<Rightarrow> actor_id \<Rightarrow> bool" where
  "is_present_member f a = (case om_get (sf_members f) a of None \<Rightarrow> False | Some (r, p) \<Rightarrow> p)"

definition valid_task_title :: "string \<Rightarrow> bool" where
  "valid_task_title t \<longleftrightarrow> trim t \<noteq> [] \<and> length (trim t) \<le> MAX_TASK_TITLE_BYTES"

definition row_visible :: "space_fold \<Rightarrow> event_id \<Rightarrow> bool" where
  "row_visible f i = (case om_get (sf_messages f) i of None \<Rightarrow> False | Some m \<Rightarrow> \<not> rm_deleted m)"

section \<open>Folding one event\<close>

text \<open>\<open>observed\<close> is the first statement of \<open>apply\<close>: the space's clock, which the refused task events put back.\<close>

definition observed :: "envelope \<Rightarrow> space_fold \<Rightarrow> space_fold" where
  "observed e f = (if en_clock e > sf_last_clock f then f\<lparr>sf_last_clock := en_clock e\<rparr> else f)"

definition row_message :: "event_id \<Rightarrow> (message_row \<Rightarrow> message_row) \<Rightarrow> space_fold \<Rightarrow> space_fold" where
  "row_message i g f = f\<lparr>sf_messages := om_modify i g (sf_messages f)\<rparr>"

definition row_task ::
  "event_id \<Rightarrow> (task_row \<Rightarrow> task_row) \<Rightarrow> space_fold \<Rightarrow> space_fold \<Rightarrow> space_fold" where
  "row_task i g before f =
     (if om_get (sf_tasks f) i = None then f\<lparr>sf_last_clock := sf_last_clock before\<rparr>
      else f\<lparr>sf_tasks := om_modify i g (sf_tasks f)\<rparr>)"

definition row_clip :: "event_id \<Rightarrow> (clip_row \<Rightarrow> clip_row) \<Rightarrow> space_fold \<Rightarrow> space_fold" where
  "row_clip i g f = f\<lparr>sf_clipboard := om_modify i g (sf_clipboard f)\<rparr>"

definition row_doc :: "document_id \<Rightarrow> (doc_row \<Rightarrow> doc_row) \<Rightarrow> space_fold \<Rightarrow> space_fold" where
  "row_doc i g f = f\<lparr>sf_documents := om_modify i g (sf_documents f)\<rparr>"

definition row_call :: "call_id \<Rightarrow> (call_row \<Rightarrow> call_row) \<Rightarrow> space_fold \<Rightarrow> space_fold" where
  "row_call i g f = f\<lparr>sf_calls := om_modify i g (sf_calls f)\<rparr>"

definition row_participant :: "actor_id \<Rightarrow> participant_state \<Rightarrow> call_row \<Rightarrow> call_row" where
  "row_participant a st c =
     (let muted = (case om_get (rk_muted c) a of None \<Rightarrow> False | Some m \<Rightarrow> m);
          c' = c\<lparr>rk_participants := om_put a (st, muted) (rk_participants c),
                 rk_muted := om_or_insert a muted (rk_muted c)\<rparr>
      in if list_ex (\<lambda>p. fst p = Connected) (om_values (rk_participants c')) then c' else c'\<lparr>rk_ended := True\<rparr>)"

definition row_mute :: "actor_id \<Rightarrow> bool \<Rightarrow> call_row \<Rightarrow> call_row" where
  "row_mute a m c =
     c\<lparr>rk_muted := om_put a m (rk_muted c),
       rk_participants := om_modify a (\<lambda>p. (fst p, m)) (rk_participants c)\<rparr>"

text \<open>\<open>f0\<close> is the fold before the event, \<open>f\<close> the fold with the clock observed.\<close>

primrec fold_kind :: "event_kind \<Rightarrow> envelope \<Rightarrow> space_id \<Rightarrow> space_fold \<Rightarrow> space_fold \<Rightarrow> space_fold" where
  "fold_kind (SpaceCreated k n) e sp f0 f =
     f\<lparr>sf_space := Some \<lparr>rs_kind = k, rs_name = n, rs_created = en_created e, rs_deleted = False\<rparr>\<rparr>"
| "fold_kind (SpaceRenamed n) e sp f0 f = f\<lparr>sf_space := map_option (\<lambda>s. s\<lparr>rs_name := n\<rparr>) (sf_space f)\<rparr>"
| "fold_kind SpaceArchived e sp f0 f = f"
| "fold_kind SpaceDeleted e sp f0 f =
     (if is_present_owner f (en_actor e)
      then f\<lparr>sf_space := map_option (\<lambda>s. s\<lparr>rs_deleted := True\<rparr>) (sf_space f)\<rparr> else f)"
| "fold_kind (MemberJoined a r) e sp f0 f =
     (if a \<noteq> en_actor e \<and> \<not> is_present_owner f (en_actor e) then f
      else f\<lparr>sf_members := om_put a (r, True) (sf_members f)\<rparr>)"
| "fold_kind (MemberLeft a) e sp f0 f =
     (if a = en_actor e \<or> is_present_owner f (en_actor e)
      then f\<lparr>sf_members := om_modify a (\<lambda>m. (fst m, False)) (sf_members f)\<rparr> else f)"
| "fold_kind (MemberRoleChanged a r) e sp f0 f =
     f\<lparr>sf_members := om_modify a (\<lambda>m. (r, snd m)) (sf_members f)\<rparr>"
| "fold_kind (PresenceChanged a p st) e sp f0 f = f"
| "fold_kind (MessagePosted b t) e sp f0 f =
     f\<lparr>sf_messages := om_put (en_id e)
         \<lparr>rm_author = en_actor e, rm_created = en_created e, rm_thread = t, rm_body = b, rm_edited = False,
          rm_deleted = False, rm_pinned = False, rm_clock = en_clock e\<rparr> (sf_messages f)\<rparr>"
| "fold_kind (MessageEdited i b) e sp f0 f =
     row_message i (\<lambda>m. if rm_author m = en_actor e \<and> \<not> rm_deleted m
                        then m\<lparr>rm_body := b, rm_edited := True\<rparr> else m) f"
| "fold_kind (MessageDeleted i) e sp f0 f =
     row_message i (\<lambda>m. if rm_author m = en_actor e
                        then m\<lparr>rm_deleted := True, rm_body := [], rm_pinned := False\<rparr> else m) f"
| "fold_kind (MessagePinned i) e sp f0 f =
     row_message i (\<lambda>m. if is_present_member f (en_actor e) \<and> \<not> rm_deleted m
                        then m\<lparr>rm_pinned := True\<rparr> else m) f"
| "fold_kind (MessageUnpinned i) e sp f0 f =
     row_message i (\<lambda>m. if is_present_member f (en_actor e) then m\<lparr>rm_pinned := False\<rparr> else m) f"
| "fold_kind (MessageSaved i) e sp f0 f =
     (if is_present_member f (en_actor e) \<and> row_visible f i
      then f\<lparr>sf_saved := om_put (en_actor e, i)
               \<lparr>rv_space = sp, rv_saved = en_created e, rv_clock = en_clock e\<rparr> (sf_saved f)\<rparr>
      else f)"
| "fold_kind (MessageUnsaved i) e sp f0 f =
     (if is_present_member f (en_actor e)
      then f\<lparr>sf_saved := om_del (en_actor e, i) (sf_saved f)\<rparr> else f)"
| "fold_kind (ThreadStarted t i title) e sp f0 f =
     f\<lparr>sf_threads := om_put t \<lparr>rh_root = i, rh_title = title, rh_resolved = False, rh_clock = en_clock e\<rparr>
                        (sf_threads f)\<rparr>"
| "fold_kind (ThreadResolved t) e sp f0 f =
     f\<lparr>sf_threads := om_modify t (\<lambda>h. h\<lparr>rh_resolved := True\<rparr>) (sf_threads f)\<rparr>"
| "fold_kind (ThreadReopened t) e sp f0 f =
     f\<lparr>sf_threads := om_modify t (\<lambda>h. h\<lparr>rh_resolved := False\<rparr>) (sf_threads f)\<rparr>"
| "fold_kind (TaskCreated title source) e sp f0 f =
     (if \<not> is_present_member f (en_actor e)
         \<or> \<not> (case source of None \<Rightarrow> True | Some i \<Rightarrow> row_visible f i) \<or> \<not> valid_task_title title
      then f\<lparr>sf_last_clock := sf_last_clock f0\<rparr>
      else f\<lparr>sf_tasks := om_put (en_id e)
               \<lparr>rt_title = title, rt_by = en_actor e, rt_created = en_created e, rt_source = source,
                rt_checked = False, rt_completed = False, rt_completed_by = None, rt_completed_ms = None,
                rt_clock = en_clock e\<rparr> (sf_tasks f)\<rparr>)"
| "fold_kind (TaskUpdated i title) e sp f0 f =
     (if \<not> is_present_member f (en_actor e) \<or> \<not> valid_task_title title
      then f\<lparr>sf_last_clock := sf_last_clock f0\<rparr>
      else row_task i (\<lambda>t. if rt_completed t then t else t\<lparr>rt_title := title, rt_clock := en_clock e\<rparr>) f0 f)"
| "fold_kind (TaskChecked i c) e sp f0 f =
     (if \<not> is_present_member f (en_actor e) then f\<lparr>sf_last_clock := sf_last_clock f0\<rparr>
      else row_task i (\<lambda>t. if rt_completed t then t else t\<lparr>rt_checked := c, rt_clock := en_clock e\<rparr>) f0 f)"
| "fold_kind (TaskCompleted i) e sp f0 f =
     (if \<not> is_present_member f (en_actor e) then f\<lparr>sf_last_clock := sf_last_clock f0\<rparr>
      else row_task i (\<lambda>t. if rt_completed t then t
               else t\<lparr>rt_checked := True, rt_completed := True, rt_completed_by := Some (en_actor e),
                      rt_completed_ms := Some (en_created e), rt_clock := en_clock e\<rparr>) f0 f)"
| "fold_kind (TaskReopened i) e sp f0 f =
     (if \<not> is_present_member f (en_actor e) then f\<lparr>sf_last_clock := sf_last_clock f0\<rparr>
      else row_task i (\<lambda>t. if rt_completed t
               then t\<lparr>rt_checked := False, rt_completed := False, rt_completed_by := None,
                      rt_completed_ms := None, rt_clock := en_clock e\<rparr> else t) f0 f)"
| "fold_kind (AlertRaised al) e sp f0 f =
     f\<lparr>sf_alerts := om_put (en_id e)
         \<lparr>ra_payload = al, ra_acknowledged = False, ra_snoozed = None, ra_clock = en_clock e\<rparr> (sf_alerts f)\<rparr>"
| "fold_kind (AlertAcknowledged i) e sp f0 f =
     f\<lparr>sf_alerts := om_modify i (\<lambda>a. a\<lparr>ra_acknowledged := True\<rparr>) (sf_alerts f)\<rparr>"
| "fold_kind (AlertSnoozed i u) e sp f0 f =
     f\<lparr>sf_alerts := om_modify i (\<lambda>a. a\<lparr>ra_snoozed := Some u\<rparr>) (sf_alerts f)\<rparr>"
| "fold_kind (AlertActionInvoked i a armed out) e sp f0 f = f"
| "fold_kind (ClipboardPublished it) e sp f0 f =
     f\<lparr>sf_clipboard := om_put (en_id e)
         \<lparr>rc_kind = ci_kind it, rc_preview = ci_preview it, rc_sha256 = ci_sha256 it, rc_source = ci_source it,
          rc_at = en_created e, rc_pinned = False, rc_deleted = False, rc_clock = en_clock e\<rparr>
         (sf_clipboard f)\<rparr>"
| "fold_kind (ClipboardPinned i) e sp f0 f = row_clip i (\<lambda>c. c\<lparr>rc_pinned := True\<rparr>) f"
| "fold_kind (ClipboardUnpinned i) e sp f0 f = row_clip i (\<lambda>c. c\<lparr>rc_pinned := False\<rparr>) f"
| "fold_kind (ClipboardDeleted i) e sp f0 f = row_clip i (\<lambda>c. c\<lparr>rc_deleted := True\<rparr>) f"
| "fold_kind (DocumentCreated d title) e sp f0 f =
     f\<lparr>sf_documents := om_put d \<lparr>rd_title = title, rd_summary = None, rd_participants = {en_actor e},
                                rd_clock = en_clock e\<rparr> (sf_documents f)\<rparr>"
| "fold_kind (DocumentUpdated d c) e sp f0 f =
     row_doc d (\<lambda>r. r\<lparr>rd_summary := (if dc_summary c \<noteq> None then dc_summary c else rd_summary r),
                      rd_participants := insert (en_actor e) (rd_participants r)\<rparr>) f"
| "fold_kind (ReviewRequested d rs) e sp f0 f =
     row_doc d (\<lambda>r. r\<lparr>rd_participants := rd_participants r \<union> set rs\<rparr>) f"
| "fold_kind (ReviewSubmitted d v c) e sp f0 f =
     row_doc d (\<lambda>r. r\<lparr>rd_participants := insert (en_actor e) (rd_participants r)\<rparr>) f"
| "fold_kind (FileLinked i r) e sp f0 f =
     f\<lparr>sf_files := om_put i \<lparr>rf_reference = r, rf_by = en_actor e, rf_linked = en_created e, rf_present = True,
                             rf_clock = en_clock e\<rparr> (sf_files f)\<rparr>"
| "fold_kind (FileUnlinked i) e sp f0 f =
     f\<lparr>sf_files := om_modify i (\<lambda>r. r\<lparr>rf_present := False\<rparr>) (sf_files f)\<rparr>"
| "fold_kind (TransferStarted t i m d) e sp f0 f =
     f\<lparr>sf_transfers := om_put t \<lparr>rx_file = i, rx_method = m, rx_direction = d, rx_state = Queued,
                                rx_clock = en_clock e\<rparr> (sf_transfers f)\<rparr>"
| "fold_kind (TransferStateChanged t st) e sp f0 f =
     f\<lparr>sf_transfers := om_modify t (\<lambda>r. r\<lparr>rx_state := st\<rparr>) (sf_transfers f)\<rparr>"
| "fold_kind (CallStarted c k a) e sp f0 f =
     (if a \<noteq> en_actor e then f
      else f\<lparr>sf_calls := om_put c \<lparr>rk_kind = k, rk_initiator = a, rk_started = en_created e, rk_ended = False,
               rk_participants = om_put a (Connected, False) om_empty, rk_muted = om_put a False om_empty,
               rk_clock = en_clock e\<rparr> (sf_calls f)\<rparr>)"
| "fold_kind (CallParticipantChanged c a st) e sp f0 f =
     (if a \<noteq> en_actor e then f else row_call c (row_participant a st) f)"
| "fold_kind (CallParticipantMuted c a m) e sp f0 f =
     (if a \<noteq> en_actor e then f else row_call c (row_mute a m) f)"
| "fold_kind (CallEnded c r) e sp f0 f = row_call c (\<lambda>g. g\<lparr>rk_ended := True\<rparr>) f"
| "fold_kind (AiSuggestionOffered g) e sp f0 f = f"
| "fold_kind (AiSuggestionResolved i b) e sp f0 f = f"

definition fold_event :: "space_id \<Rightarrow> envelope \<Rightarrow> space_fold \<Rightarrow> space_fold" where
  "fold_event sp e f = fold_kind (en_kind e) e sp f (observed e f)"

section \<open>Rebuilding a space\<close>

definition load_space_events :: "envelope list \<Rightarrow> space_id \<Rightarrow> envelope list" where
  "load_space_events rows sp = canonical_sort (filter (\<lambda>e. en_space e = sp) rows)"

definition rebuilt :: "envelope list \<Rightarrow> space_id \<Rightarrow> space_fold" where
  "rebuilt rows sp = fold (fold_event sp) (load_space_events rows sp) space_fold_default"

text \<open>What \<open>write\<close> puts into the tables: nothing of a space that was not created, and only what is present.\<close>

definition written_members :: "space_fold \<Rightarrow> (actor_id \<times> space_role) list" where
  "written_members f =
     (if sf_space f = None then []
      else map (\<lambda>(a, r, p). (a, r)) (filter (\<lambda>(a, r, p). p) (sf_members f)))"

definition written_messages :: "space_fold \<Rightarrow> (event_id \<times> message_row) list" where
  "written_messages f = (if sf_space f = None then [] else sf_messages f)"

definition written_clips :: "space_fold \<Rightarrow> (event_id \<times> clip_row) list" where
  "written_clips f = (if sf_space f = None then [] else filter (\<lambda>p. \<not> rc_deleted (snd p)) (sf_clipboard f))"

definition written_files :: "space_fold \<Rightarrow> (file_ref_id \<times> file_row) list" where
  "written_files f = (if sf_space f = None then [] else filter (\<lambda>p. rf_present (snd p)) (sf_files f))"

section \<open>The presence board\<close>

definition presence_event :: "envelope \<Rightarrow> (actor_id, presence_state \<times> string option \<times> actor_clock) omap
    \<Rightarrow> (actor_id, presence_state \<times> string option \<times> actor_clock) omap" where
  "presence_event e m =
     (case en_kind e of
        PresenceChanged a p st \<Rightarrow> if a \<noteq> en_actor e then m else om_put a (p, st, en_clock e) m
      | _ \<Rightarrow> m)"

text \<open>The board is read in the database's order, where the wall time is a signed 64-bit column.\<close>

definition column_key :: "envelope \<Rightarrow> nat \<times> u32 \<times> event_id" where
  "column_key e = (min (unat (wall_ms (en_clock e))) (2 ^ 63 - 1), ck_counter (en_clock e), en_id e)"

definition presence_board :: "envelope list \<Rightarrow> (actor_id, presence_state \<times> string option \<times> actor_clock) omap" where
  "presence_board rows = fold presence_event (sort_key column_key rows) om_empty"

section \<open>Where the two folds agree\<close>

text \<open>
  An event is \<open>orderly\<close> for a space at a point of the log: the space is created once and before its
  members join, a task's title is one the commands admit, and events of other spaces leave this
  space's messages and tasks alone.
\<close>

definition message_in :: "domain_state \<Rightarrow> space_id \<Rightarrow> event_id \<Rightarrow> bool" where
  "message_in s sp i = (case om_get (ds_messages s) i of None \<Rightarrow> False | Some m \<Rightarrow> ms_space m = sp)"

definition task_in :: "domain_state \<Rightarrow> space_id \<Rightarrow> event_id \<Rightarrow> bool" where
  "task_in s sp i = (case om_get (ds_tasks s) i of None \<Rightarrow> False | Some t \<Rightarrow> tk_space t = sp)"

definition orderly :: "space_id \<Rightarrow> domain_state \<Rightarrow> envelope \<Rightarrow> bool" where
  "orderly sp s e \<longleftrightarrow>
     (if en_space e = sp
      then (case en_kind e of
              SpaceCreated k n \<Rightarrow> space_of s sp = None
            | MemberJoined a r \<Rightarrow> space_of s sp \<noteq> None
            | TaskCreated t src \<Rightarrow> valid_task_title t
            | _ \<Rightarrow> True)
      else (case en_kind e of
              MessagePosted b t \<Rightarrow> \<not> message_in s sp (en_id e)
            | MessageDeleted i \<Rightarrow> \<not> message_in s sp i
            | TaskCreated t src \<Rightarrow> \<not> task_in s sp (en_id e)
            | _ \<Rightarrow> True))"

fun orderly_log :: "space_id \<Rightarrow> domain_state \<Rightarrow> envelope list \<Rightarrow> bool" where
  "orderly_log sp s [] = True"
| "orderly_log sp s (e # es) = (orderly sp s e \<and> orderly_log sp (apply_event e s) es)"

definition agree_space :: "domain_state \<Rightarrow> space_id \<Rightarrow> space_fold \<Rightarrow> bool" where
  "agree_space s sp f \<longleftrightarrow>
     map_option (\<lambda>r. (rs_kind r, rs_name r, rs_deleted r)) (sf_space f)
       = map_option (\<lambda>g. (sp_kind g, sp_name g, sp_deleted g)) (space_of s sp)"

definition agree_members :: "domain_state \<Rightarrow> space_id \<Rightarrow> space_fold \<Rightarrow> bool" where
  "agree_members s sp f \<longleftrightarrow>
     (\<forall>a. om_get (sf_members f) a = map_option (\<lambda>m. (mb_role m, mb_present m)) (member_of s sp a))"

definition agree_messages :: "domain_state \<Rightarrow> space_id \<Rightarrow> space_fold \<Rightarrow> bool" where
  "agree_messages s sp f \<longleftrightarrow>
     (\<forall>i. map_option (\<lambda>r. (rm_author r, rm_created r, rm_deleted r, rm_pinned r)) (om_get (sf_messages f) i)
       = Option.bind (om_get (ds_messages s) i) (\<lambda>m.
           if ms_space m = sp then Some (ms_author m, ms_created m, ms_deleted m, ms_pinned m) else None))"

definition agree_tasks :: "domain_state \<Rightarrow> space_id \<Rightarrow> space_fold \<Rightarrow> bool" where
  "agree_tasks s sp f \<longleftrightarrow>
     (\<forall>i. map_option (\<lambda>r. (rt_by r, rt_completed r)) (om_get (sf_tasks f) i)
       = Option.bind (om_get (ds_tasks s) i) (\<lambda>t.
           if tk_space t = sp then Some (tk_by t, tk_completed t) else None))"

lemma observed_simps [simp]:
  "sf_space (observed e f) = sf_space f" "sf_members (observed e f) = sf_members f"
  "sf_messages (observed e f) = sf_messages f" "sf_tasks (observed e f) = sf_tasks f"
  by (simp_all add: observed_def)

lemma present_observed [simp]:
  "is_present_member (observed e f) a = is_present_member f a"
  "is_present_owner (observed e f) a = is_present_owner f a"
  "row_visible (observed e f) i = row_visible f i"
  by (simp_all add: is_present_member_def is_present_owner_def row_visible_def)

lemma agree_member: "agree_members s sp f \<Longrightarrow> is_present_member f a = is_member s sp a"
  by (auto simp: agree_members_def is_present_member_def is_member_def split: option.splits)

lemma agree_owner: "agree_members s sp f \<Longrightarrow> is_present_owner f a = is_owner s sp a"
  by (auto simp: agree_members_def is_present_owner_def is_owner_iff owner_entry_def split: option.splits)

lemma agree_visible: "agree_messages s sp f \<Longrightarrow> row_visible f i = visible_message s sp i"
proof -
  assume "agree_messages s sp f"
  then have "map_option (\<lambda>r. (rm_author r, rm_created r, rm_deleted r, rm_pinned r)) (om_get (sf_messages f) i)
    = Option.bind (om_get (ds_messages s) i) (\<lambda>m.
        if ms_space m = sp then Some (ms_author m, ms_created m, ms_deleted m, ms_pinned m) else None)"
    by (simp add: agree_messages_def)
  then show ?thesis
    by (auto simp: row_visible_def visible_message_def split: option.splits if_splits bind_splits)
qed

lemmas row_defs = row_message_def row_task_def row_clip_def row_doc_def row_call_def

lemma space_step_in:
  assumes "agree_space s (en_space e) f" and "agree_members s (en_space e) f" and "orderly (en_space e) s e"
  shows "agree_space (apply_event e s) (en_space e) (fold_event (en_space e) e f)"
  using assms(1,3) unfolding apply_event_def fold_event_def
  by (cases "en_kind e"; cases "sf_space f"; cases "space_of s (en_space e)")
    (auto simp: agree_space_def orderly_def space_simps row_defs agree_owner [OF assms(2)])

lemma space_step_out:
  "agree_space s sp f \<Longrightarrow> en_space e \<noteq> sp \<Longrightarrow> agree_space (apply_event e s) sp f"
  unfolding apply_event_def
  by (cases "en_kind e") (auto simp: agree_space_def space_simps)

lemma members_step_in:
  assumes "agree_members s (en_space e) f" and "orderly (en_space e) s e"
  shows "agree_members (apply_event e s) (en_space e) (fold_event (en_space e) e f)"
  using assms unfolding apply_event_def fold_event_def
  by (cases "en_kind e")
    (auto simp: agree_members_def orderly_def member_of_def space_simps row_defs om_get_put om_get_modify
       agree_owner [OF assms(1)] option.map_comp comp_def split: if_splits option.splits bind_splits)

lemma members_step_out:
  "agree_members s sp f \<Longrightarrow> en_space e \<noteq> sp \<Longrightarrow> agree_members (apply_event e s) sp f"
  unfolding apply_event_def
  by (cases "en_kind e") (auto simp: agree_members_def member_of_def space_simps)

text \<open>For the objects of a space, one at a time.\<close>

definition message_view :: "domain_state \<Rightarrow> space_id \<Rightarrow> event_id \<Rightarrow> (actor_id \<times> millis \<times> bool \<times> bool) option" where
  "message_view s sp i =
     Option.bind (om_get (ds_messages s) i) (\<lambda>m.
       if ms_space m = sp then Some (ms_author m, ms_created m, ms_deleted m, ms_pinned m) else None)"

definition message_row_view :: "space_fold \<Rightarrow> event_id \<Rightarrow> (actor_id \<times> millis \<times> bool \<times> bool) option" where
  "message_row_view f i = map_option (\<lambda>r. (rm_author r, rm_created r, rm_deleted r, rm_pinned r)) (om_get (sf_messages f) i)"

definition task_view :: "domain_state \<Rightarrow> space_id \<Rightarrow> event_id \<Rightarrow> (actor_id \<times> bool) option" where
  "task_view s sp i =
     Option.bind (om_get (ds_tasks s) i) (\<lambda>t. if tk_space t = sp then Some (tk_by t, tk_completed t) else None)"

definition task_row_view :: "space_fold \<Rightarrow> event_id \<Rightarrow> (actor_id \<times> bool) option" where
  "task_row_view f i = map_option (\<lambda>r. (rt_by r, rt_completed r)) (om_get (sf_tasks f) i)"

lemma agree_messages_view: "agree_messages s sp f \<longleftrightarrow> (\<forall>i. message_row_view f i = message_view s sp i)"
  by (simp add: agree_messages_def message_view_def message_row_view_def)

lemma agree_tasks_view: "agree_tasks s sp f \<longleftrightarrow> (\<forall>i. task_row_view f i = task_view s sp i)"
  by (simp add: agree_tasks_def task_view_def task_row_view_def)

lemma message_step_in:
  assumes "agree_members s (en_space e) f" and "message_row_view f i = message_view s (en_space e) i"
  shows "message_row_view (fold_event (en_space e) e f) i = message_view (apply_event e s) (en_space e) i"
proof (cases "en_kind e")
  case (MessageEdited j b)
  have same: "(rm_author r', rm_created r', rm_deleted r', rm_pinned r') = (rm_author r, rm_created r, rm_deleted r, rm_pinned r)"
    if "r' = (if rm_author r = en_actor e \<and> \<not> rm_deleted r then r\<lparr>rm_body := b, rm_edited := True\<rparr> else r)" for r r'
    using that by simp
  from MessageEdited have "message_row_view (fold_event (en_space e) e f) i = message_row_view f i"
    by (simp add: fold_event_def message_row_view_def row_defs om_get_modify option.map_comp comp_def same
        cong: option.map_cong)
  moreover from MessageEdited have "message_view (apply_event e s) (en_space e) i = message_view s (en_space e) i"
    by (cases "om_get (ds_messages s) i") (simp_all add: apply_event_def message_view_def upd_defs om_get_modify)
  ultimately show ?thesis using assms(2) by simp
qed (use assms(2) in
    \<open>(cases "om_get (ds_messages s) i"; cases "om_get (sf_messages f) i";
     auto simp: apply_event_def fold_event_def message_view_def message_row_view_def upd_defs row_defs om_get_put
       om_get_modify agree_member [OF assms(1)] split: if_splits)+\<close>)

lemma message_step_out:
  assumes "message_row_view f i = message_view s sp i" and "orderly sp s e" and "en_space e \<noteq> sp"
  shows "message_row_view f i = message_view (apply_event e s) sp i"
  using assms unfolding apply_event_def
  by (cases "en_kind e"; cases "om_get (ds_messages s) i")
    (auto simp: message_view_def message_row_view_def upd_defs om_get_put om_get_modify orderly_def message_in_def
       split: if_splits)

lemma task_step_in:
  assumes "agree_members s (en_space e) f" and "agree_messages s (en_space e) f" and "orderly (en_space e) s e"
    and "task_row_view f i = task_view s (en_space e) i"
  shows "task_row_view (fold_event (en_space e) e f) i = task_view (apply_event e s) (en_space e) i"
  using assms(3,4) unfolding apply_event_def fold_event_def
  by (cases "en_kind e"; cases "om_get (ds_tasks s) i"; cases "om_get (sf_tasks f) i")
    (auto simp: task_view_def task_row_view_def upd_defs row_defs om_get_put om_get_modify orderly_def
       agree_member [OF assms(1)] agree_visible [OF assms(2)] split: if_splits option.splits)

lemma task_step_out:
  assumes "task_row_view f i = task_view s sp i" and "orderly sp s e" and "en_space e \<noteq> sp"
  shows "task_row_view f i = task_view (apply_event e s) sp i"
  using assms unfolding apply_event_def
  by (cases "en_kind e"; cases "om_get (ds_tasks s) i")
    (auto simp: task_view_def task_row_view_def upd_defs om_get_put om_get_modify orderly_def task_in_def
       split: if_splits)

text \<open>The two folds side by side.\<close>

definition agree :: "domain_state \<Rightarrow> space_id \<Rightarrow> space_fold \<Rightarrow> bool" where
  "agree s sp f \<longleftrightarrow> agree_space s sp f \<and> agree_members s sp f \<and> agree_messages s sp f \<and> agree_tasks s sp f"

lemma agree_step:
  assumes "agree s sp f" and "orderly sp s e"
  shows "agree (apply_event e s) sp (if en_space e = sp then fold_event sp e f else f)"
proof (cases "en_space e = sp")
  case True
  with assms show ?thesis
    using space_step_in [of s e f] members_step_in [of s e f] message_step_in [of s e f] task_step_in [of s e f]
    by (simp add: agree_def agree_messages_view agree_tasks_view)
next
  case False
  with assms show ?thesis
    using space_step_out [of s sp f e] members_step_out [of s sp f e] message_step_out [of f _ s sp e]
      task_step_out [of f _ s sp e]
    by (simp add: agree_def agree_messages_view agree_tasks_view)
qed

lemma agree_fold:
  "agree s sp f \<Longrightarrow> orderly_log sp s es \<Longrightarrow>
     agree (fold apply_event es s) sp (fold (fold_event sp) (filter (\<lambda>e. en_space e = sp) es) f)"
proof (induction es arbitrary: s f)
  case (Cons e es)
  from Cons.prems have "agree (apply_event e s) sp (if en_space e = sp then fold_event sp e f else f)"
    by (intro agree_step) simp_all
  from Cons.IH [OF this] Cons.prems(2) show ?case by (simp split: if_splits)
qed simp

lemma agree_default: "agree domain_default sp space_fold_default"
  by (simp add: agree_def agree_space_def agree_members_def agree_messages_def agree_tasks_def domain_default_def
      space_fold_default_def space_of_def member_of_def)

lemma agree_rebuilt: "orderly_log sp domain_default (canonical_sort es) \<Longrightarrow> agree (from_events es) sp (rebuilt es sp)"
  using agree_fold [OF agree_default, of sp "canonical_sort es"]
  unfolding from_events_def rebuilt_def load_space_events_def canonical_sort_def by (simp add: filter_sort)

text \<open>C19. The read model shows what the commands check.  For an orderly log, the rows rebuilt for a space from
  its own events and the aggregate folded from all events give the same answers: who is a present
  member and who an owner, whether the space is there and deleted, who wrote a message and whether it
  is deleted or pinned, and whether a task is completed.
\<close>

theorem read_model_agrees:
  assumes "orderly_log sp domain_default (canonical_sort es)"
  shows "is_present_member (rebuilt es sp) a = is_member (from_events es) sp a
    \<and> is_present_owner (rebuilt es sp) a = is_owner (from_events es) sp a
    \<and> map_option rs_deleted (sf_space (rebuilt es sp)) = map_option sp_deleted (space_of (from_events es) sp)
    \<and> message_row_view (rebuilt es sp) i = message_view (from_events es) sp i
    \<and> task_row_view (rebuilt es sp) i = task_view (from_events es) sp i"
proof -
  have a: "agree (from_events es) sp (rebuilt es sp)" using agree_rebuilt [OF assms] .
  have "map_option rs_deleted (sf_space (rebuilt es sp))
      = map_option (snd \<circ> snd) (map_option (\<lambda>r. (rs_kind r, rs_name r, rs_deleted r)) (sf_space (rebuilt es sp)))"
    by (simp add: option.map_comp comp_def)
  also have "\<dots> = map_option sp_deleted (space_of (from_events es) sp)"
    using a by (simp add: agree_def agree_space_def option.map_comp comp_def)
  finally show ?thesis
    using a agree_member agree_owner by (simp add: agree_def agree_messages_view agree_tasks_view)
qed

text \<open>Creating a space again revives it for the eye.  In the aggregate the first creation counts, in the
  read model the last.  So after an owner has deleted a space, one more signed creation event for it,
  by anybody, makes the read model show it as not deleted, while every command for it is still refused.
\<close>

theorem recreation_revives_the_read_model:
  assumes "space_deleted s (en_space e)" and "en_kind e = SpaceCreated k n"
  shows "map_option rs_deleted (sf_space (fold_event (en_space e) e f)) = Some False
    \<and> require_active_space (apply_event e s) (en_space e) = Inl (SpaceIsDeleted (en_space e))"
  using assms
  by (auto simp: fold_event_def apply_event_def require_active_space_def space_deleted_def space_simps
      split: option.splits)

definition closed_log :: "envelope list" where
  "closed_log = [ev 1 ''a'' 1 (SpaceCreated Team ''t''), ev 2 ''a'' 2 (MemberJoined ''a'' Owner),
     ev 3 ''a'' 3 (MessagePosted ''hi'' None), ev 4 ''a'' 4 SpaceDeleted]"

lemma closed_log_sorted: "canonical_sort closed_log = closed_log"
  by (simp add: canonical_sort_def closed_log_def canonical_key_def ev_def envelope_new_def sort_key_def insort_key_def)

theorem read_model_agrees_witness:
  "is_present_member (rebuilt closed_log 3) ''a'' = is_member (from_events closed_log) 3 ''a''
    \<and> is_present_owner (rebuilt closed_log 3) ''a'' = is_owner (from_events closed_log) 3 ''a''
    \<and> map_option rs_deleted (sf_space (rebuilt closed_log 3)) = map_option sp_deleted (space_of (from_events closed_log) 3)
    \<and> message_row_view (rebuilt closed_log 3) 3 = message_view (from_events closed_log) 3 3
    \<and> task_row_view (rebuilt closed_log 3) 3 = task_view (from_events closed_log) 3 3"
  by (rule read_model_agrees)
    (simp add: closed_log_sorted, simp add: closed_log_def ev_def envelope_new_def orderly_def apply_event_def
      space_simps space_of_def domain_default_def om_or_insert_def om_empty_def om_get_def upd_space_def om_modify_def)

theorem recreation_revives_the_read_model_witness:
  "map_option rs_deleted (sf_space (fold_event (en_space (ev 9 ''x'' 9 (SpaceCreated Team ''t''))) (ev 9 ''x'' 9 (SpaceCreated Team ''t''))
      (rebuilt closed_log 3))) = Some False
   \<and> require_active_space (apply_event (ev 9 ''x'' 9 (SpaceCreated Team ''t'')) (from_events closed_log))
      (en_space (ev 9 ''x'' 9 (SpaceCreated Team ''t''))) = Inl (SpaceIsDeleted (en_space (ev 9 ''x'' 9 (SpaceCreated Team ''t''))))"
proof (rule recreation_revives_the_read_model)
  show "space_deleted (from_events closed_log) (en_space (ev 9 ''x'' 9 (SpaceCreated Team ''t'')))"
    by (simp add: from_events_def closed_log_sorted)
      (simp add: closed_log_def ev_def envelope_new_def apply_event_def domain_default_def om_or_insert_def om_empty_def
        om_get_def upd_space_def om_modify_def member_defs space_of_def space_deleted_def)
qed (simp add: ev_def envelope_new_def)

section \<open>Presence\<close>

text \<open>The presence an event claims, when its author claims it for himself.\<close>

definition own_presence :: "actor_id \<Rightarrow> envelope \<Rightarrow> (presence_state \<times> string option \<times> actor_clock) option" where
  "own_presence a e =
     (case en_kind e of
        PresenceChanged b p st \<Rightarrow> if b = a \<and> en_actor e = a then Some (p, st, en_clock e) else None
      | _ \<Rightarrow> None)"

lemma presence_event_get:
  "om_get (presence_event e m) a = (case own_presence a e of None \<Rightarrow> om_get m a | Some v \<Rightarrow> Some v)"
  by (simp add: presence_event_def own_presence_def om_get_put split: event_kind.split)

lemma presence_fold_get:
  "om_get (fold presence_event es m) a =
     (case List.map_filter (own_presence a) es of [] \<Rightarrow> om_get m a | vs \<Rightarrow> Some (last vs))"
  by (induction es arbitrary: m) (simp_all add: presence_event_get map_filter_simps split: option.split list.split)

text \<open>Presence is one's own.  The presence board shows for every actor the state of the last presence
  event that actor wrote about himself, in the database's order; claims of others never show.
\<close>

theorem presence_is_own:
  "om_get (presence_board rows) a =
     (case List.map_filter (own_presence a) (sort_key column_key rows) of [] \<Rightarrow> None | vs \<Rightarrow> Some (last vs))"
  by (simp add: presence_board_def presence_fold_get split: list.split)

end
