(* ===== verification/CollabLog.thy ===== *)
theory CollabLog
  imports CollabCommands CollabEnvelope
begin

text \<open>
  The durable log of one actor in one space (\<open>crates/services/mde-collab-core/src/log.rs\<close>): the log in
  memory, the log in a file of JSON lines, opening it, and appending to it with a write that may stop
  after any number of bytes.  The results: what an opened log holds, that the file log behaves as the log
  in memory does, that a crash in the middle of an append loses no event and doubles none, and the one
  cut that the file does not recover from.
\<close>

section \<open>Lines of a file\<close>

abbreviation carriage :: char where
  "carriage \<equiv> CHR 0x0D"

definition strip_cr :: "string \<Rightarrow> string" where
  "strip_cr l = (if l \<noteq> [] \<and> last l = carriage then butlast l else l)"

text \<open>\<open>BufRead::lines\<close>: a line loses its break and a carriage return before it, the last one may have no break.\<close>

definition text_lines :: "string \<Rightarrow> string list" where
  "text_lines s =
     (let ps = split_on newline s
      in map strip_cr (butlast ps) @ (if last ps = [] then [] else [last ps]))"

text \<open>
  A line must be UTF-8.  After the first byte of a character stand the ranges of the bytes that continue it.
\<close>

definition continuations :: "nat \<Rightarrow> (nat \<times> nat) list option" where
  "continuations b =
     (if 0xC2 \<le> b \<and> b \<le> 0xDF then Some [(0x80, 0xBF)]
      else if b = 0xE0 then Some [(0xA0, 0xBF), (0x80, 0xBF)]
      else if b = 0xED then Some [(0x80, 0x9F), (0x80, 0xBF)]
      else if 0xE1 \<le> b \<and> b \<le> 0xEF then Some [(0x80, 0xBF), (0x80, 0xBF)]
      else if b = 0xF0 then Some [(0x90, 0xBF), (0x80, 0xBF), (0x80, 0xBF)]
      else if 0xF1 \<le> b \<and> b \<le> 0xF3 then Some [(0x80, 0xBF), (0x80, 0xBF), (0x80, 0xBF)]
      else if b = 0xF4 then Some [(0x80, 0x8F), (0x80, 0xBF), (0x80, 0xBF)]
      else None)"

fun utf8_after :: "(nat \<times> nat) list \<Rightarrow> string \<Rightarrow> bool" where
  "utf8_after rs [] = (rs = [])"
| "utf8_after ((lo, hi) # rs) (c # s) = (lo \<le> of_char c \<and> of_char c \<le> hi \<and> utf8_after rs s)"
| "utf8_after [] (c # s) =
     (if of_char c < (128 :: nat) then utf8_after [] s
      else case continuations (of_char c) of None \<Rightarrow> False | Some rs \<Rightarrow> utf8_after rs s)"

abbreviation utf8 :: "string \<Rightarrow> bool" where
  "utf8 \<equiv> utf8_after []"

section \<open>The log in memory\<close>

record memory_log =
  ml_events :: "(event_id, envelope) omap"
  ml_order :: "event_id list"

definition memory_new :: memory_log where
  "memory_new = \<lparr>ml_events = om_empty, ml_order = []\<rparr>"

definition memory_append :: "envelope \<Rightarrow> memory_log \<Rightarrow> bool outcome \<times> memory_log" where
  "memory_append e l =
     (case om_get (ml_events l) (en_id e) of
        Some old \<Rightarrow> (if old = e then Inr False else Inl (ConflictingEventId (en_id e)), l)
      | None \<Rightarrow> (Inr True, l\<lparr>ml_order := ml_order l @ [en_id e], ml_events := om_put (en_id e) e (ml_events l)\<rparr>))"

definition memory_read_all :: "memory_log \<Rightarrow> envelope list" where
  "memory_read_all l = List.map_filter (om_get (ml_events l)) (ml_order l)"

definition memory_len :: "memory_log \<Rightarrow> nat" where
  "memory_len l = length (ml_order l)"

section \<open>The log in a file\<close>

text \<open>The contents of the file are the bytes on disk, \<open>None\<close> where there is no file.\<close>

record file_log =
  fl_space :: space_id
  fl_actor :: actor_id
  fl_order :: "event_id list"
  fl_envelopes :: "(event_id, envelope) omap"
  fl_rejected :: u64

record json =
  js_encode :: "envelope \<Rightarrow> string"
  js_decode :: "string \<Rightarrow> envelope option"

definition log_empty :: "space_id \<Rightarrow> actor_id \<Rightarrow> file_log" where
  "log_empty sp a = \<lparr>fl_space = sp, fl_actor = a, fl_order = [], fl_envelopes = om_empty, fl_rejected = 0\<rparr>"

definition validate_log_identity :: "file_log \<Rightarrow> envelope \<Rightarrow> unit outcome" where
  "validate_log_identity l e =
     (if en_space e \<noteq> fl_space l \<or> en_actor e \<noteq> fl_actor l then Inl (InvalidEvent (en_id e)) else Inr ())"

definition validate_authenticity :: "'sk wire \<Rightarrow> envelope \<Rightarrow> unit outcome" where
  "validate_authenticity W e =
     (if en_schema e \<noteq> SCHEMA_VERSION \<or> \<not> verify_envelope W e then Inl (InvalidEvent (en_id e)) else Inr ())"

definition remember :: "envelope \<Rightarrow> file_log \<Rightarrow> file_log" where
  "remember e l =
     l\<lparr>fl_order := fl_order l @ [en_id e], fl_envelopes := om_put (en_id e) e (fl_envelopes l)\<rparr>"

definition NOT_UTF8 :: string where
  "NOT_UTF8 = ''stream did not contain valid UTF-8''"

definition admit :: "'sk wire \<Rightarrow> envelope \<Rightarrow> file_log \<Rightarrow> file_log outcome" where
  "admit W e l =
     bind_res (validate_log_identity l e) (\<lambda>_.
       case om_get (fl_envelopes l) (en_id e) of
         Some old \<Rightarrow> if old \<noteq> e then Inl (ConflictingEventId (en_id e)) else Inr l
       | None \<Rightarrow> bind_res (validate_authenticity W e) (\<lambda>_. Inr (remember e l)))"

definition load_line :: "'sk wire \<Rightarrow> json \<Rightarrow> string \<Rightarrow> file_log \<Rightarrow> file_log outcome" where
  "load_line W J line l =
     (if \<not> utf8 line then Inl (IoError NOT_UTF8)
      else if trim line = [] then Inr l
      else case js_decode J line of
             None \<Rightarrow> Inr (l\<lparr>fl_rejected := sat_add (fl_rejected l) 1\<rparr>)
           | Some e \<Rightarrow> admit W e l)"

fun load_lines :: "'sk wire \<Rightarrow> json \<Rightarrow> string list \<Rightarrow> file_log \<Rightarrow> file_log outcome" where
  "load_lines W J [] l = Inr l"
| "load_lines W J (x # xs) l = bind_res (load_line W J x l) (load_lines W J xs)"

definition log_open ::
  "'sk wire \<Rightarrow> json \<Rightarrow> string option \<Rightarrow> space_id \<Rightarrow> actor_id \<Rightarrow> string option \<Rightarrow> file_log outcome" where
  "log_open W J fault sp a file =
     (case fault of
        Some err \<Rightarrow> Inl (IoError err)
      | None \<Rightarrow>
          (case file of
             None \<Rightarrow> Inr (log_empty sp a)
           | Some content \<Rightarrow> load_lines W J (text_lines content) (log_empty sp a)))"

definition log_open_append_only :: "string option \<Rightarrow> space_id \<Rightarrow> actor_id \<Rightarrow> file_log outcome" where
  "log_open_append_only fault sp a = (case fault of Some err \<Rightarrow> Inl (IoError err) | None \<Rightarrow> Inr (log_empty sp a))"

definition log_read_all :: "file_log \<Rightarrow> envelope list" where
  "log_read_all l = List.map_filter (om_get (fl_envelopes l)) (fl_order l)"

definition log_len :: "file_log \<Rightarrow> nat" where
  "log_len l = length (fl_order l)"

definition rejected_line_count :: "file_log \<Rightarrow> u64" where
  "rejected_line_count l = fl_rejected l"

text \<open>A torn last line gets its break before anything is appended.\<close>

definition ensure_append_boundary :: "string option \<Rightarrow> string option" where
  "ensure_append_boundary file =
     (case file of
        None \<Rightarrow> None
      | Some c \<Rightarrow> Some (if c = [] \<or> last c = newline then c else c @ [newline]))"

text \<open>
  How the storage behaves in one append: the look at the boundary may fail, and the write may stop
  after a number of bytes.
\<close>

record storage =
  st_boundary :: "string option"
  st_write :: "(nat \<times> string) option"

definition sound_storage :: storage where
  "sound_storage = \<lparr>st_boundary = None, st_write = None\<rparr>"

definition torn_at :: "nat \<Rightarrow> string \<Rightarrow> storage" where
  "torn_at n err = \<lparr>st_boundary = None, st_write = Some (n, err)\<rparr>"

definition contents :: "string option \<Rightarrow> string" where
  "contents file = (case file of None \<Rightarrow> [] | Some c \<Rightarrow> c)"

definition log_append ::
  "'sk wire \<Rightarrow> json \<Rightarrow> storage \<Rightarrow> envelope \<Rightarrow> string option \<times> file_log
    \<Rightarrow> bool outcome \<times> (string option \<times> file_log)" where
  "log_append W J S e fl =
     (case validate_log_identity (snd fl) e of
        Inl err \<Rightarrow> (Inl err, fl)
      | Inr _ \<Rightarrow>
          (case om_get (fl_envelopes (snd fl)) (en_id e) of
             Some old \<Rightarrow> (if old = e then Inr False else Inl (ConflictingEventId (en_id e)), fl)
           | None \<Rightarrow>
               (case validate_authenticity W e of
                  Inl err \<Rightarrow> (Inl err, fl)
                | Inr _ \<Rightarrow>
                    (case st_boundary S of
                       Some err \<Rightarrow> (Inl (IoError err), fl)
                     | None \<Rightarrow>
                         let before = contents (ensure_append_boundary (fst fl));
                             line = js_encode J e @ [newline]
                         in (case st_write S of
                               Some (n, err) \<Rightarrow> (Inl (IoError err), Some (before @ take n line), snd fl)
                             | None \<Rightarrow> (Inr True, Some (before @ line), remember e (snd fl)))))))"

section \<open>Lines\<close>

lemma split_on_append: "split_on c (s @ c # t) = split_on c s @ split_on c t"
  by (induction s) (auto split: list.splits)

lemma text_lines_Nil [simp]: "text_lines [] = []"
  by (simp add: text_lines_def)

lemma text_lines_piece: "newline \<notin> set t \<Longrightarrow> text_lines t = (if t = [] then [] else [t])"
  by (simp add: text_lines_def split_on_no_sep)

lemma text_lines_line: "newline \<notin> set t \<Longrightarrow> text_lines (t @ [newline]) = [strip_cr t]"
  by (simp add: text_lines_def split_on_append split_on_no_sep)

text \<open>A content is \<open>complete\<close> when it stops at a line break.\<close>

definition complete :: "string \<Rightarrow> bool" where
  "complete c \<longleftrightarrow> c = [] \<or> last c = newline"

lemma text_lines_complete:
  assumes "complete p"
  shows "text_lines (p @ s) = text_lines p @ text_lines s"
proof (cases "p = []")
  case False
  then obtain d where "p = d @ [newline]" using assms by (metis append_butlast_last_id complete_def)
  then show ?thesis by (simp add: text_lines_def split_on_append butlast_append Let_def)
qed simp

lemma text_pieces: "\<exists>p t. c = p @ t \<and> complete p \<and> newline \<notin> set t"
proof (induction c)
  case (Cons x c)
  then obtain p t where c: "c = p @ t" "complete p" "newline \<notin> set t" by blast
  show ?case
  proof (cases "p = [] \<and> x \<noteq> newline")
    case True
    with c show ?thesis by (intro exI [of _ "[]"] exI [of _ "x # c"]) (auto simp: complete_def)
  next
    case False
    with c show ?thesis by (intro exI [of _ "x # p"] exI [of _ t]) (auto simp: complete_def)
  qed
qed (simp add: complete_def)

lemma load_lines_end [simp]: "bind_res r (load_lines W J []) = r"
  by (cases r) simp_all

lemma load_lines_append:
  "load_lines W J (xs @ ys) l = bind_res (load_lines W J xs l) (load_lines W J ys)"
proof (induction xs arbitrary: l)
  case (Cons x xs)
  then show ?case by (cases "load_line W J x l") simp_all
qed simp

lemma log_open_contents: "log_open W J None sp a file = load_lines W J (text_lines (contents file)) (log_empty sp a)"
  by (simp add: log_open_def contents_def split: option.split)

definition clean_end :: "string option \<Rightarrow> bool" where
  "clean_end file \<longleftrightarrow> contents file = [] \<or> last (contents file) \<noteq> carriage"

lemma boundary_complete: "complete (contents (ensure_append_boundary file))"
  by (simp add: complete_def contents_def ensure_append_boundary_def split: option.split)

lemma boundary_lines:
  assumes "clean_end file"
  shows "text_lines (contents (ensure_append_boundary file)) = text_lines (contents file)"
proof (cases "complete (contents file)")
  case True
  then have "contents (ensure_append_boundary file) = contents file"
    by (auto simp: complete_def ensure_append_boundary_def contents_def split: option.splits)
  then show ?thesis by simp
next
  case False
  obtain p t where c: "contents file = p @ t" "complete p" "newline \<notin> set t" using text_pieces by blast
  with False have t: "t \<noteq> []" by auto
  have "contents (ensure_append_boundary file) = contents file @ [newline]"
    using False by (auto simp: complete_def ensure_append_boundary_def contents_def split: option.splits)
  moreover have "strip_cr t = t" using assms c(1) t by (simp add: clean_end_def strip_cr_def)
  ultimately show ?thesis
    using c t text_lines_line [OF c(3)] by (simp add: text_lines_complete text_lines_piece)
qed

text \<open>What follows the boundary is loaded after what was there.\<close>

lemma open_extended:
  assumes "clean_end file" and "log_open W J None sp a file = Inr l"
  shows "log_open W J None sp a (Some (contents (ensure_append_boundary file) @ s)) = load_lines W J (text_lines s) l"
proof -
  have "contents (Some (contents (ensure_append_boundary file) @ s)) = contents (ensure_append_boundary file) @ s"
    by (simp add: contents_def)
  with assms show ?thesis
    by (simp add: log_open_contents text_lines_complete [OF boundary_complete] boundary_lines load_lines_append)
qed

section \<open>What a log holds\<close>

definition admissible :: "'sk wire \<Rightarrow> space_id \<Rightarrow> actor_id \<Rightarrow> envelope \<Rightarrow> bool" where
  "admissible W sp a e \<longleftrightarrow>
     en_space e = sp \<and> en_actor e = a \<and> en_schema e = SCHEMA_VERSION \<and> verify_envelope W e"

text \<open>The order lists the events of the map once each, filed under their identifiers.\<close>

definition log_inv :: "'sk wire \<Rightarrow> file_log \<Rightarrow> bool" where
  "log_inv W l \<longleftrightarrow> distinct (fl_order l) \<and> set (fl_order l) = {i. om_get (fl_envelopes l) i \<noteq> None} \<and>
     (\<forall>i e. om_get (fl_envelopes l) i = Some e \<longrightarrow> en_id e = i \<and> admissible W (fl_space l) (fl_actor l) e)"

lemma log_inv_get: "log_inv W l \<Longrightarrow> om_get (fl_envelopes l) i = Some e \<Longrightarrow> en_id e = i \<and> admissible W (fl_space l) (fl_actor l) e"
  by (simp add: log_inv_def)

lemma log_inv_order: "log_inv W l \<Longrightarrow> i \<in> set (fl_order l) \<longleftrightarrow> om_get (fl_envelopes l) i \<noteq> None"
  by (simp add: log_inv_def)

lemma log_inv_empty: "log_inv W (log_empty sp a)"
  by (simp add: log_inv_def log_empty_def)

lemma admissible_checks:
  "validate_log_identity l e = Inr u \<Longrightarrow> validate_authenticity W e = Inr v
     \<Longrightarrow> admissible W (fl_space l) (fl_actor l) e"
  by (auto simp: validate_log_identity_def validate_authenticity_def admissible_def split: if_splits)

lemma log_inv_remember:
  "log_inv W l \<Longrightarrow> om_get (fl_envelopes l) (en_id e) = None \<Longrightarrow> admissible W (fl_space l) (fl_actor l) e
     \<Longrightarrow> log_inv W (remember e l)"
  by (auto simp: log_inv_def remember_def om_get_put admissible_def split: if_splits)

lemma remember_owner [simp]:
  "fl_space (remember e l) = fl_space l" "fl_actor (remember e l) = fl_actor l"
  by (simp_all add: remember_def)

lemma map_filter_fresh: "k \<notin> set ks \<Longrightarrow> List.map_filter (om_get (om_put k v m)) ks = List.map_filter (om_get m) ks"
  by (induction ks) (auto simp: map_filter_simps om_get_put split: option.split)

lemma map_filter_snoc: "List.map_filter f (xs @ [x]) = List.map_filter f xs @ (case f x of None \<Rightarrow> [] | Some y \<Rightarrow> [y])"
  by (induction xs) (simp_all add: map_filter_simps split: option.split)

lemma read_all_remember:
  assumes "log_inv W l" and "om_get (fl_envelopes l) (en_id e) = None"
  shows "log_read_all (remember e l) = log_read_all l @ [e]"
proof -
  have "en_id e \<notin> set (fl_order l)" using assms by (simp add: log_inv_order)
  then have "List.map_filter (om_get (om_put (en_id e) e (fl_envelopes l))) (fl_order l)
      = List.map_filter (om_get (fl_envelopes l)) (fl_order l)"
    by (rule map_filter_fresh)
  then show ?thesis
    by (simp add: log_read_all_def remember_def map_filter_snoc om_get_put)
qed

definition same_owner :: "file_log \<Rightarrow> file_log \<Rightarrow> bool" where
  "same_owner l l' \<longleftrightarrow> fl_space l' = fl_space l \<and> fl_actor l' = fl_actor l"

lemma log_inv_rejected [simp]: "log_inv W (l\<lparr>fl_rejected := n\<rparr>) = log_inv W l"
  by (simp add: log_inv_def)

text \<open>A line either leaves the events as they are or remembers one fresh, admissible event.\<close>

lemma admit_Inr:
  "admit W e l = Inr l' \<longleftrightarrow>
     (om_get (fl_envelopes l) (en_id e) = Some e \<and> en_space e = fl_space l \<and> en_actor e = fl_actor l \<and> l' = l) \<or>
     (om_get (fl_envelopes l) (en_id e) = None \<and> admissible W (fl_space l) (fl_actor l) e \<and> l' = remember e l)"
  by (auto simp: admit_def bind_res_Inr validate_log_identity_def validate_authenticity_def admissible_def
      split: option.splits)

lemma load_line_inv: "load_line W J x l = Inr l' \<Longrightarrow> log_inv W l \<Longrightarrow> log_inv W l' \<and> same_owner l l'"
  by (auto simp: load_line_def admit_Inr same_owner_def log_inv_remember split: if_splits option.splits)

lemma load_lines_inv: "load_lines W J xs l = Inr l' \<Longrightarrow> log_inv W l \<Longrightarrow> log_inv W l' \<and> same_owner l l'"
proof (induction xs arbitrary: l)
  case (Cons x xs)
  then obtain m where m: "load_line W J x l = Inr m" "load_lines W J xs m = Inr l'" by (auto simp: bind_res_Inr)
  with Cons.IH [OF m(2)] load_line_inv [OF m(1)] Cons.prems(2) show ?case by (auto simp: same_owner_def)
qed (simp add: same_owner_def)

lemma log_open_inv:
  "log_open W J fault sp a file = Inr l \<Longrightarrow> log_inv W l \<and> fl_space l = sp \<and> fl_actor l = a"
  using load_lines_inv [OF _ log_inv_empty, of W J _ sp a l] log_inv_empty [of W sp a]
  by (auto simp: log_open_def same_owner_def log_empty_def [of sp a] split: option.splits)

text \<open>An append either leaves the log as it is or remembers one fresh, admissible event.\<close>

lemma append_cases:
  assumes "log_append W J S e (file, l) = (r, file', l')"
  obtains (same) "l' = l" "r \<noteq> Inr True"
    | (fresh) "l' = remember e l" "r = Inr True" "om_get (fl_envelopes l) (en_id e) = None"
        "admissible W (fl_space l) (fl_actor l) e"
        "file' = Some (contents (ensure_append_boundary file) @ js_encode J e @ [newline])"
  using assms
  by (auto simp: log_append_def Let_def dest: admissible_checks split: sum.splits option.splits prod.splits if_splits)

lemma log_append_inv:
  assumes "log_inv W (snd fl)"
  shows "log_inv W (snd (snd (log_append W J S e fl))) \<and> same_owner (snd fl) (snd (snd (log_append W J S e fl)))"
proof -
  obtain r c l' where a: "log_append W J S e (fst fl, snd fl) = (r, c, l')" using prod_cases3 by blast
  then have l': "snd (snd (log_append W J S e fl)) = l'" by simp
  from a show ?thesis
    by (cases rule: append_cases) (use assms in \<open>simp_all add: l' log_inv_remember same_owner_def\<close>)
qed

definition log_run ::
  "'sk wire \<Rightarrow> json \<Rightarrow> (storage \<times> envelope) list \<Rightarrow> string option \<times> file_log \<Rightarrow> string option \<times> file_log" where
  "log_run W J ops fl = fold (\<lambda>(S, e) fl. snd (log_append W J S e fl)) ops fl"

lemma log_run_inv: "log_inv W (snd fl) \<Longrightarrow> log_inv W (snd (log_run W J ops fl)) \<and> same_owner (snd fl) (snd (log_run W J ops fl))"
  unfolding log_run_def
proof (induction ops arbitrary: fl)
  case (Cons op ops)
  let ?fl = "snd (log_append W J (fst op) (snd op) fl)"
  have "log_inv W (snd ?fl) \<and> same_owner (snd fl) (snd ?fl)" using log_append_inv [OF Cons.prems] .
  with Cons.IH [of ?fl] show ?case by (simp add: same_owner_def case_prod_beta)
qed (simp add: same_owner_def)

lemma read_all_ids: "log_inv W l \<Longrightarrow> map en_id (log_read_all l) = fl_order l \<and> list_all (admissible W (fl_space l) (fl_actor l)) (log_read_all l)"
proof -
  assume inv: "log_inv W l"
  have "set is \<subseteq> set (fl_order l) \<Longrightarrow> map en_id (List.map_filter (om_get (fl_envelopes l)) is) = is
      \<and> list_all (admissible W (fl_space l) (fl_actor l)) (List.map_filter (om_get (fl_envelopes l)) is)" for "is"
  proof (induction "is")
    case (Cons i "is")
    then have "om_get (fl_envelopes l) i \<noteq> None" using log_inv_order [OF inv] by simp
    then obtain e where e: "om_get (fl_envelopes l) i = Some e" by blast
    with log_inv_get [OF inv] Cons show ?case by (simp add: map_filter_simps)
  qed (simp add: map_filter_simps)
  then show ?thesis by (simp add: log_read_all_def)
qed

text \<open>A log holds its own events.  Whatever the file contains, a log that opens, and that log after any
  number of appends on storage that may fail, reads only verified events of its space and its actor in
  the supported schema, one per identifier, as many as it counts.
\<close>

theorem opened_logs_are_sound:
  assumes "log_open W J fault sp a file = Inr l"
  shows "(let l' = snd (log_run W J ops (file, l)); es = log_read_all l'
          in list_all (admissible W sp a) es \<and> distinct (map en_id es) \<and> length es = log_len l')"
proof -
  let ?l = "snd (log_run W J ops (file, l))"
  have "log_inv W ?l \<and> fl_space ?l = sp \<and> fl_actor ?l = a"
    using log_open_inv [OF assms] log_run_inv [of W "(file, l)" J ops] by (simp add: same_owner_def)
  moreover from this have "map en_id (log_read_all ?l) = fl_order ?l \<and> list_all (admissible W sp a) (log_read_all ?l)"
    using read_all_ids by blast
  moreover from this have "length (log_read_all ?l) = log_len ?l" by (metis length_map log_len_def)
  ultimately show ?thesis by (simp add: Let_def log_inv_def)
qed

section \<open>The log on disk and the log in memory\<close>

text \<open>
  What is relied on of the JSON of an event: it decodes to the event, it is an object in UTF-8 whose text has
  no control character, and no part of it before its end is a JSON text.
\<close>

definition json_ok :: "json \<Rightarrow> envelope \<Rightarrow> bool" where
  "json_ok J e \<longleftrightarrow> js_decode J (js_encode J e) = Some e \<and> utf8 (js_encode J e)
     \<and> newline \<notin> set (js_encode J e) \<and> carriage \<notin> set (js_encode J e)
     \<and> prefix ''{'' (js_encode J e) \<and> suffix ''}'' (js_encode J e)
     \<and> list_all (\<lambda>n. js_decode J (take n (js_encode J e)) = None) [0..<length (js_encode J e)]"

lemma trim_braces:
  assumes "prefix ''{'' s" and "suffix ''}'' s"
  shows "trim s = s"
proof (rule trim_trimmed)
  show "trimmed s" using assms by (auto simp: trimmed_def ws_codes_def prefix_def suffix_def append_eq_Cons_conv char_of_def)
qed

lemma strip_cr_none: "carriage \<notin> set t \<Longrightarrow> strip_cr t = t"
  unfolding strip_cr_def using last_in_set by fastforce

lemma text_lines_encoded: "json_ok J e \<Longrightarrow> text_lines (js_encode J e @ [newline]) = [js_encode J e]"
  by (simp add: json_ok_def text_lines_line strip_cr_none)

lemma load_encoded:
  assumes "json_ok J e"
  shows "load_line W J (js_encode J e) l = admit W e l"
proof -
  have "js_encode J e \<noteq> []" using assms by (auto simp: json_ok_def)
  then show ?thesis
    using assms trim_braces [of "js_encode J e"] by (simp add: json_ok_def load_line_def)
qed

lemma open_appended:
  assumes "clean_end file" and "log_open W J None sp a file = Inr l" and "json_ok J e"
    and "om_get (fl_envelopes l) (en_id e) = None" and "admissible W sp a e"
  shows "log_open W J None sp a (Some (contents (ensure_append_boundary file) @ js_encode J e @ [newline]))
    = Inr (remember e l)"
proof -
  have "fl_space l = sp \<and> fl_actor l = a" using log_open_inv [OF assms(2)] by simp
  with assms(4,5) have "admit W e l = Inr (remember e l)" by (simp add: admit_Inr)
  with assms(3) show ?thesis by (simp add: open_extended [OF assms(1,2)] text_lines_encoded load_encoded)
qed

definition memory_of :: "file_log \<Rightarrow> memory_log" where
  "memory_of l = \<lparr>ml_events = fl_envelopes l, ml_order = fl_order l\<rparr>"

fun file_run :: "'sk wire \<Rightarrow> json \<Rightarrow> envelope list \<Rightarrow> string option \<times> file_log \<Rightarrow> bool outcome list \<times> (string option \<times> file_log)" where
  "file_run W J [] fl = ([], fl)"
| "file_run W J (e # es) fl =
     (let (r, fl1) = log_append W J sound_storage e fl; (rs, fl2) = file_run W J es fl1 in (r # rs, fl2))"

fun memory_run :: "envelope list \<Rightarrow> memory_log \<Rightarrow> bool outcome list \<times> memory_log" where
  "memory_run [] m = ([], m)"
| "memory_run (e # es) m =
     (let (r, m1) = memory_append e m; (rs, m2) = memory_run es m1 in (r # rs, m2))"

lemma admissible_Inr:
  "admissible W (fl_space l) (fl_actor l) e \<Longrightarrow>
     validate_log_identity l e = Inr () \<and> validate_authenticity W e = Inr ()"
  by (simp add: admissible_def validate_log_identity_def validate_authenticity_def)

lemma append_refines:
  assumes "clean_end file" and "log_open W J None sp a file = Inr l" and "json_ok J e" and "admissible W sp a e"
    and "log_append W J sound_storage e (file, l) = (r, file', l')"
  shows "memory_append e (memory_of l) = (r, memory_of l') \<and> clean_end file' \<and> log_open W J None sp a file' = Inr l'"
proof -
  have owner: "fl_space l = sp" "fl_actor l = a" using log_open_inv [OF assms(2)] by simp_all
  note ok = admissible_Inr [of W l e, unfolded owner, OF assms(4)]
  show ?thesis
  proof (cases "om_get (fl_envelopes l) (en_id e)")
    case None
    with ok assms(5) have "r = Inr True" "l' = remember e l"
      "file' = Some (contents (ensure_append_boundary file) @ js_encode J e @ [newline])"
      by (auto simp: log_append_def sound_storage_def Let_def)
    with None show ?thesis
      using open_appended [OF assms(1,2,3) None assms(4)]
      by (simp add: memory_append_def memory_of_def remember_def clean_end_def contents_def)
  next
    case (Some old)
    with ok assms(1,2,5) show ?thesis by (auto simp: log_append_def memory_append_def memory_of_def)
  qed
qed

lemma run_refines:
  "clean_end file \<Longrightarrow> log_open W J None sp a file = Inr l \<Longrightarrow> list_all (\<lambda>e. json_ok J e \<and> admissible W sp a e) es
     \<Longrightarrow> file_run W J es (file, l) = (rs, file', l')
     \<Longrightarrow> memory_run es (memory_of l) = (rs, memory_of l') \<and> log_open W J None sp a file' = Inr l'"
proof (induction es arbitrary: "file" l rs)
  case (Cons e es)
  obtain r f m where a: "log_append W J sound_storage e (file, l) = (r, f, m)" using prod_cases3 by blast
  obtain rs1 where rs: "file_run W J es (f, m) = (rs1, file', l')" "rs = r # rs1"
    using Cons.prems(4) a by (auto split: prod.splits)
  have "memory_append e (memory_of l) = (r, memory_of m) \<and> clean_end f \<and> log_open W J None sp a f = Inr m"
    using append_refines [OF Cons.prems(1,2) _ _ a] Cons.prems(3) by simp
  with Cons.IH [OF _ _ _ rs(1)] Cons.prems(3) rs(2) show ?case by simp
qed auto

text \<open>C23. The file log is the log in memory, made durable.  For any sequence of verified events of one space
  and actor, appending them to a fresh file log on sound storage answers each append as the log in
  memory does (new, already there, or an identifier reused for another event), and opening the file
  again afterwards gives a log that reads exactly what the log in memory reads.
\<close>

theorem file_log_is_the_memory_log:
  assumes "list_all (\<lambda>e. json_ok J e \<and> admissible W sp a e) es"
    and "file_run W J es (None, log_empty sp a) = (rs, file', l')"
  shows "\<exists>m l. memory_run es memory_new = (rs, m) \<and> log_open W J None sp a file' = Inr l
    \<and> log_read_all l = memory_read_all m \<and> log_len l = memory_len m"
proof -
  have "memory_of (log_empty sp a) = memory_new" by (simp add: memory_of_def log_empty_def memory_new_def)
  moreover have "clean_end None" "log_open W J None sp a None = Inr (log_empty sp a)"
    by (simp_all add: clean_end_def contents_def log_open_def)
  ultimately have "memory_run es memory_new = (rs, memory_of l') \<and> log_open W J None sp a file' = Inr l'"
    using run_refines [OF _ _ assms] by metis
  then show ?thesis by (simp add: memory_read_all_def log_read_all_def memory_of_def memory_len_def log_len_def)
qed

section \<open>Torn writes\<close>

definition same_events :: "file_log \<Rightarrow> file_log \<Rightarrow> bool" where
  "same_events l l' \<longleftrightarrow> same_owner l l' \<and> fl_order l' = fl_order l \<and> fl_envelopes l' = fl_envelopes l"

lemma load_torn:
  assumes "json_ok J e" and "n < length (js_encode J e)" and "utf8 (take n (js_encode J e))"
  shows "\<exists>l'. load_lines W J (text_lines (take n (js_encode J e))) l = Inr l' \<and> same_events l l'"
proof -
  have "newline \<notin> set (take n (js_encode J e))" using assms(1) by (auto simp: json_ok_def dest: in_set_takeD)
  moreover have "js_decode J (take n (js_encode J e)) = None"
    using assms(1,2) by (simp add: json_ok_def list_all_iff)
  ultimately show ?thesis
    using assms(3) by (auto simp: text_lines_piece load_line_def same_events_def same_owner_def)
qed

lemma same_events_inv: "same_events l l' \<Longrightarrow> log_inv W l \<Longrightarrow> log_inv W l'"
  by (simp add: same_events_def same_owner_def log_inv_def)

lemma same_events_read: "same_events l l' \<Longrightarrow> log_read_all l' = log_read_all l"
  by (simp add: same_events_def log_read_all_def)

lemma torn_append:
  assumes "admissible W (fl_space l) (fl_actor l) e" and "om_get (fl_envelopes l) (en_id e) = None"
    and "n \<le> length (js_encode J e)"
  shows "log_append W J (torn_at n err) e (file, l)
    = (Inl (IoError err), Some (contents (ensure_append_boundary file) @ take n (js_encode J e)), l)"
  using admissible_Inr [OF assms(1)] assms(2,3) by (simp add: log_append_def torn_at_def Let_def)

lemma sound_append:
  assumes "admissible W (fl_space l) (fl_actor l) e" and "om_get (fl_envelopes l) (en_id e) = None"
  shows "log_append W J sound_storage e (file, l)
    = (Inr True, Some (contents (ensure_append_boundary file) @ js_encode J e @ [newline]), remember e l)"
  using admissible_Inr [OF assms(1)] assms(2) by (simp add: log_append_def sound_storage_def Let_def)

lemma append_known:
  assumes "admissible W (fl_space l) (fl_actor l) e" and "om_get (fl_envelopes l) (en_id e) = Some e"
  shows "log_append W J S e (file, l) = (Inr False, file, l)"
  using admissible_Inr [OF assms(1)] assms(2) by (simp add: log_append_def)

text \<open>Opening a file, appending to it and tearing the write at \<open>n\<close>; then opening it again and appending once more.\<close>

definition crash_and_retry ::
  "'sk wire \<Rightarrow> json \<Rightarrow> space_id \<Rightarrow> actor_id \<Rightarrow> nat \<Rightarrow> string \<Rightarrow> envelope \<Rightarrow> string option
    \<Rightarrow> (bool outcome \<times> string option) outcome" where
  "crash_and_retry W J sp a n err e file =
     bind_res (log_open W J None sp a file) (\<lambda>l.
       let (_, file1, _) = log_append W J (torn_at n err) e (file, l)
       in bind_res (log_open W J None sp a file1) (\<lambda>l1.
            let (r, file2, _) = log_append W J sound_storage e (file1, l1) in Inr (r, file2)))"

text \<open>C10. A crash in the middle of an append loses no event and doubles none.  The write of a new event
  stops after any number of bytes that does not split a character; the log is opened again and the
  event appended again.  Then the file opens to what it held before and the event, once: the retry is
  refused as already there exactly when the torn write had delivered the whole event.
\<close>

theorem crash_loses_nothing:
  assumes "clean_end file" and "log_open W J None sp a file = Inr l" and "json_ok J e" and "admissible W sp a e"
    and "en_id e \<notin> set (fl_order l)"
    and "n \<le> length (js_encode J e)" and "utf8 (take n (js_encode J e))"
  shows "\<exists>file2 l2. crash_and_retry W J sp a n err e file = Inr (Inr (n < length (js_encode J e)), file2)
    \<and> log_open W J None sp a file2 = Inr l2 \<and> log_read_all l2 = log_read_all l @ [e]"
proof -
  let ?file1 = "Some (contents (ensure_append_boundary file) @ take n (js_encode J e))"
  have inv: "log_inv W l" "fl_space l = sp" "fl_actor l = a" using log_open_inv [OF assms(2)] by simp_all
  have fresh: "om_get (fl_envelopes l) (en_id e) = None" using assms(5) log_inv_order [OF inv(1)] by simp
  have adm: "admissible W (fl_space l) (fl_actor l) e" using assms(4) inv by simp
  note torn = torn_append [OF adm fresh assms(6)]
  show ?thesis
  proof (cases "n < length (js_encode J e)")
    case True
    obtain l1 where l1: "log_open W J None sp a ?file1 = Inr l1" "same_events l l1"
      using load_torn [OF assms(3) True assms(7)] open_extended [OF assms(1,2)] by metis
    have "carriage \<notin> set (take n (js_encode J e))" using assms(3) by (auto simp: json_ok_def dest: in_set_takeD)
    then have clean: "clean_end ?file1"
    proof (cases "take n (js_encode J e) = []")
      case True
      then show ?thesis
        using boundary_complete [of "file"] by (auto simp: clean_end_def contents_def [of "Some _"] complete_def)
    next
      case False
      then show ?thesis
        using last_in_set [OF False] \<open>carriage \<notin> set (take n (js_encode J e))\<close>
        by (auto simp: clean_end_def contents_def [of "Some _"] last_append simp del: last_in_set)
    qed
    have fresh1: "om_get (fl_envelopes l1) (en_id e) = None" and adm1: "admissible W (fl_space l1) (fl_actor l1) e"
      using l1(2) fresh adm by (simp_all add: same_events_def same_owner_def)
    have "log_read_all (remember e l1) = log_read_all l @ [e]"
      using read_all_remember [OF same_events_inv [OF l1(2) inv(1)] fresh1] same_events_read [OF l1(2)] by simp
    with open_appended [OF clean l1(1) assms(3) fresh1 assms(4)] sound_append [OF adm1 fresh1]
    show ?thesis using True by (simp add: crash_and_retry_def assms(2) torn l1(1))
  next
    case False
    then have n: "take n (js_encode J e) = js_encode J e" "\<not> n < length (js_encode J e)" by simp_all
    have "newline \<notin> set (js_encode J e)" "js_encode J e \<noteq> []" using assms(3) by (auto simp: json_ok_def)
    then have "log_open W J None sp a ?file1 = admit W e l"
      using open_extended [OF assms(1,2)] load_encoded [OF assms(3)] by (simp add: n text_lines_piece)
    then have l1: "log_open W J None sp a ?file1 = Inr (remember e l)"
      using fresh adm by (simp add: admit_Inr)
    have "om_get (fl_envelopes (remember e l)) (en_id e) = Some e" by (simp add: remember_def om_get_put)
    then show ?thesis
      using l1 append_known [of W "remember e l" e J sound_storage ?file1] adm read_all_remember [OF inv(1) fresh]
      by (simp add: crash_and_retry_def assms(2) torn n del: append_take_drop_id)
  qed
qed

text \<open>A file is \<open>unreadable\<close> when one of its lines is not UTF-8; nothing that is appended changes that.\<close>

definition unreadable :: "string \<Rightarrow> bool" where
  "unreadable c \<longleftrightarrow> list_ex (\<lambda>x. \<not> utf8 x) (text_lines c)"

lemma utf8_snoc_ascii: "utf8_after rs s \<Longrightarrow> of_char c < (128 :: nat) \<Longrightarrow> utf8_after rs (s @ [c])"
  by (induction rs s rule: utf8_after.induct) (auto split: option.splits if_splits)

lemma utf8_strip_cr:
  assumes "utf8 (strip_cr t)"
  shows "utf8 t"
proof (cases "t \<noteq> [] \<and> last t = carriage")
  case True
  with assms have "utf8 (butlast t @ [carriage])" by (intro utf8_snoc_ascii) (simp_all add: strip_cr_def)
  with True show ?thesis by (metis append_butlast_last_id)
qed (use assms in \<open>auto simp: strip_cr_def split: if_splits\<close>)

lemma unreadable_extended:
  assumes "unreadable (contents file)"
  shows "unreadable (contents (ensure_append_boundary file) @ s)"
proof (cases "complete (contents file)")
  case True
  then have "contents (ensure_append_boundary file) = contents file"
    by (auto simp: complete_def ensure_append_boundary_def contents_def split: option.splits)
  with assms True show ?thesis by (simp add: unreadable_def text_lines_complete)
next
  case False
  obtain p t where c: "contents file = p @ t" "complete p" "newline \<notin> set t" using text_pieces by blast
  with False have t: "t \<noteq> []" by auto
  have b: "contents (ensure_append_boundary file) = p @ (t @ [newline])"
    using False c(1) by (auto simp: complete_def ensure_append_boundary_def contents_def split: option.splits)
  have "complete (t @ [newline])" by (simp add: complete_def)
  then have "text_lines (contents (ensure_append_boundary file) @ s) = text_lines p @ strip_cr t # text_lines s"
    unfolding b append_assoc text_lines_complete [OF c(2)]
    using text_lines_complete [of "t @ [newline]" s] by (simp add: text_lines_line [OF c(3)])
  with assms c t show ?thesis
    by (auto simp: unreadable_def text_lines_complete text_lines_piece dest: utf8_strip_cr)
qed

lemma unreadable_append:
  "unreadable (contents (fst fl)) \<Longrightarrow> unreadable (contents (fst (snd (log_append W J S e fl))))"
  by (cases fl) (auto simp: log_append_def Let_def unreadable_extended contents_def [of "Some _"]
      split: sum.split option.split)

lemma unreadable_run: "unreadable (contents (fst fl)) \<Longrightarrow> unreadable (contents (fst (log_run W J ops fl)))"
  unfolding log_run_def by (induction ops arbitrary: fl) (auto simp: case_prod_beta unreadable_append)

lemma unreadable_load: "list_ex (\<lambda>x. \<not> utf8 x) xs \<Longrightarrow> isl (load_lines W J xs l)"
proof (induction xs arbitrary: l)
  case (Cons x xs)
  then show ?case by (cases "load_line W J x l") (auto simp: load_line_def)
qed simp

lemma unreadable_open: "unreadable (contents file) \<Longrightarrow> isl (log_open W J fault sp a file)"
  using unreadable_load [of "text_lines (contents file)" W J "log_empty sp a"] log_open_contents [of W J sp a "file"]
  by (cases fault) (simp_all add: unreadable_def, simp add: log_open_def)

text \<open>C37. A character cut in two closes the log for good.  When the torn write ends inside a character, the
  file no longer opens, and whatever is appended to it later (through a handle that did not read it, on
  storage that works or fails) it never opens again.
\<close>

theorem torn_character_closes_the_log:
  assumes "admissible W (fl_space l) (fl_actor l) e" and "om_get (fl_envelopes l) (en_id e) = None"
    and "json_ok J e" and "n \<le> length (js_encode J e)" and "\<not> utf8 (take n (js_encode J e))"
  shows "isl (log_open W J fault sp a (fst (log_run W J ops
      (fst (snd (log_append W J (torn_at n err) e (file, l))), h))))"
proof -
  have "newline \<notin> set (take n (js_encode J e))" using assms(3) by (auto simp: json_ok_def dest: in_set_takeD)
  moreover have "take n (js_encode J e) \<noteq> []" using assms(5) by (intro notI) simp
  ultimately have "unreadable (contents (ensure_append_boundary file) @ take n (js_encode J e))"
    using assms(5) by (simp add: unreadable_def text_lines_complete [OF boundary_complete] text_lines_piece)
  then show ?thesis
    by (intro unreadable_open unreadable_run) (simp add: torn_append [OF assms(1,2,4)] contents_def [of "Some _"])
qed

section \<open>Examples\<close>

text \<open>A post whose text is one accented letter, in a stand-in for its JSON.\<close>

definition post0 :: envelope where
  "post0 = sign_envelope wire0 () (event0\<lparr>en_schema := SCHEMA_VERSION\<rparr>)"

definition wire1 :: "unit wire" where
  "wire1 = wire0\<lparr>wi_check := \<lambda>_ _ _. True\<rparr>"

definition json0 :: json where
  "json0 = (let t = [CHR ''{'', CHR 0xC3, CHR 0xA9, CHR ''}''] in
     \<lparr>js_encode = \<lambda>_. t, js_decode = \<lambda>s. if s = t then Some post0 else None\<rparr>)"

lemma json0_ok: "json_ok json0 post0"
  by (simp add: json_ok_def json0_def Let_def continuations_def upt_rec suffix_def)

lemma post0_admissible: "admissible wire1 3 ''seat-1'' post0"
  by (simp add: admissible_def post0_def verify_envelope_def sign_envelope_def hex_to_bytes_def
      bytes_of_hex_of_bytes event0_def envelope_new_def)
    (simp add: wire1_def wire0_def)

theorem opened_logs_are_sound_witness:
  "(let l' = snd (log_run wire1 json0 [(sound_storage, post0)] (None, log_empty 3 ''seat-1'')); es = log_read_all l'
    in list_all (admissible wire1 3 ''seat-1'') es \<and> distinct (map en_id es) \<and> length es = log_len l')"
  by (rule opened_logs_are_sound [where fault = None]) (simp add: log_open_def)

theorem file_log_is_the_memory_log_witness:
  "\<exists>m l. memory_run [post0] memory_new = (fst (file_run wire1 json0 [post0] (None, log_empty 3 ''seat-1'')), m)
    \<and> log_open wire1 json0 None 3 ''seat-1'' (fst (snd (file_run wire1 json0 [post0] (None, log_empty 3 ''seat-1'')))) = Inr l
    \<and> log_read_all l = memory_read_all m \<and> log_len l = memory_len m"
  by (rule file_log_is_the_memory_log [where l' = "snd (snd (file_run wire1 json0 [post0] (None, log_empty 3 ''seat-1'')))"])
    (simp_all only: list.pred_inject json0_ok post0_admissible prod.collapse simp_thms)

theorem crash_loses_nothing_witness:
  "\<exists>file2 l2. crash_and_retry wire1 json0 3 ''seat-1'' 1 ''no space'' post0 None = Inr (Inr (1 < length (js_encode json0 post0)), file2)
    \<and> log_open wire1 json0 None 3 ''seat-1'' file2 = Inr l2
    \<and> log_read_all l2 = log_read_all (log_empty 3 ''seat-1'') @ [post0]"
  by (rule crash_loses_nothing)
    (simp_all add: json0_ok post0_admissible log_open_def clean_end_def contents_def, simp_all add: log_empty_def json0_def Let_def)

theorem torn_character_closes_the_log_witness:
  "isl (log_open wire1 json0 None 3 ''seat-1'' (fst (log_run wire1 json0 [(sound_storage, post0)]
     (fst (snd (log_append wire1 json0 (torn_at 2 ''no space'') post0 (None, log_empty 3 ''seat-1''))),
      log_empty 3 ''seat-1''))))"
  by (rule torn_character_closes_the_log)
    (simp_all add: json0_ok, simp_all add: log_empty_def post0_admissible json0_def Let_def continuations_def numeral_2_eq_2)

end
