(* ===== verification/CollabReplay.thy ===== *)
theory CollabReplay
  imports CollabLog CollabEngine
begin

text \<open>
  How the daemon replays the actor logs of its peers (\<open>crates/mesh/mackesd/src/workers/collab.rs\<close>): the
  bounded reading of one line through a buffered reader, reading a slice of records at a byte offset,
  the end of the complete records, the newest slice, merging a slice into the engine, and what one
  poll does with one log.  The results: buffering does not matter, a slice is exactly the next records,
  a log that grows while it is read is read once and in order, the newest slice reaches the end, and
  what becomes of a slice whose merge fails.
\<close>

section \<open>One line\<close>

datatype bounded_line = Line string | OverLimit

definition newline_at :: "string \<Rightarrow> nat option" where
  "newline_at b = (if newline \<in> set b then Some (length (takeWhile (\<lambda>c. c \<noteq> newline) b)) else None)"

text \<open>Taking over a part of a buffer: beyond the limit nothing is kept any more.\<close>

definition keep_part :: "nat \<Rightarrow> string \<Rightarrow> string \<times> bool \<Rightarrow> string \<times> bool" where
  "keep_part max_bytes part lo =
     (if snd lo then lo
      else if length (fst lo) + length part > max_bytes then (fst lo, True)
      else (fst lo @ part, False))"

definition strip_break :: "string \<Rightarrow> string" where
  "strip_break l = strip_cr (if l \<noteq> [] \<and> last l = newline then butlast l else l)"

text \<open>The reader is the list of the buffers it will hand out; what is left of a buffer stays in front.\<close>

fun read_line_loop :: "nat \<Rightarrow> string \<times> bool \<Rightarrow> string list \<Rightarrow> bounded_line option \<times> string list" where
  "read_line_loop m lo [] =
     (if fst lo = [] \<and> \<not> snd lo then (None, [])
      else if snd lo then (Some OverLimit, []) else (Some (Line (fst lo)), []))"
| "read_line_loop m lo (b # bs) =
     (case newline_at b of
        None \<Rightarrow> read_line_loop m (keep_part m b lo) bs
      | Some pos \<Rightarrow>
          let lo' = keep_part m (take (pos + 1) b) lo;
              rest = drop (pos + 1) b # bs
          in if snd lo' then (Some OverLimit, rest) else (Some (Line (strip_break (fst lo'))), rest))"

definition read_bounded_log_line :: "nat \<Rightarrow> string list \<Rightarrow> bounded_line option \<times> string list" where
  "read_bounded_log_line m bs = read_line_loop m ([], False) bs"

section \<open>A slice of records\<close>

definition MAX_ACTOR_LOG_LINE_BYTES :: nat where
  "MAX_ACTOR_LOG_LINE_BYTES = 256 * 1024 + 1"

definition LOG_BACKFILL_SLICE_EVENTS :: nat where
  "LOG_BACKFILL_SLICE_EVENTS = 4"

definition is_ascii_whitespace :: "char \<Rightarrow> bool" where
  "is_ascii_whitespace c = (c \<in> {CHR '' '', CHR 0x09, CHR 0x0A, CHR 0x0C, CHR 0x0D})"

definition decode_line :: "json \<Rightarrow> string \<Rightarrow> envelope option" where
  "decode_line J l = (if list_all is_ascii_whitespace l then None else js_decode J l)"

text \<open>\<open>len\<close> is the length of the file, so the position is what is left of it.\<close>

fun slice_loop ::
  "json \<Rightarrow> nat \<Rightarrow> bool \<Rightarrow> nat \<Rightarrow> string list \<Rightarrow> envelope list \<times> nat \<Rightarrow> envelope list \<times> nat" where
  "slice_loop J len terminated 0 bs acc = acc"
| "slice_loop J len terminated (Suc n) bs acc =
     (case read_bounded_log_line MAX_ACTOR_LOG_LINE_BYTES bs of
        (None, _) \<Rightarrow> acc
      | (Some r, bs') \<Rightarrow>
          let line_end = len - length (concat bs')
          in if line_end = len \<and> \<not> terminated then acc
             else slice_loop J len terminated n bs'
                    (fst acc @ (case r of OverLimit \<Rightarrow> [] | Line l \<Rightarrow> (case decode_line J l of None \<Rightarrow> [] | Some e \<Rightarrow> [e])),
                     line_end))"

text \<open>\<open>buf\<close> cuts what is read into the buffers the reader hands out.\<close>

definition read_log_envelope_chunk ::
  "json \<Rightarrow> (string \<Rightarrow> string list) \<Rightarrow> nat \<Rightarrow> string option \<Rightarrow> nat \<Rightarrow> envelope list \<times> nat" where
  "read_log_envelope_chunk J buf max_records file offset =
     (case file of
        None \<Rightarrow> ([], offset)
      | Some c \<Rightarrow>
          let start = min offset (length c);
              terminated = (c = [] \<or> last c = newline)
          in slice_loop J (length c) terminated max_records (buf (drop start c)) ([], start))"

section \<open>The end of the complete records\<close>

definition rposition :: "char \<Rightarrow> string \<Rightarrow> nat option" where
  "rposition c xs =
     (if c \<in> set xs then Some (length xs - 1 - length (takeWhile (\<lambda>x. x \<noteq> c) (rev xs))) else None)"

definition SCAN_BLOCK_BYTES :: nat where
  "SCAN_BLOCK_BYTES = 64 * 1024"

function scan_back :: "string \<Rightarrow> nat \<Rightarrow> nat" where
  "scan_back c cursor =
     (if cursor = 0 then 0
      else let start = cursor - SCAN_BLOCK_BYTES;
               block = take (cursor - start) (drop start c)
           in (case rposition newline block of
                 Some i \<Rightarrow> start + i + 1
               | None \<Rightarrow> scan_back c start))"
  by pat_completeness auto
termination
  by (relation "measure snd") (auto simp: SCAN_BLOCK_BYTES_def)

declare scan_back.simps [simp del]

definition complete_log_end :: "string option \<Rightarrow> nat" where
  "complete_log_end file = (case file of None \<Rightarrow> 0 | Some c \<Rightarrow> scan_back c (length c))"

definition newline_offsets :: "string \<Rightarrow> nat list" where
  "newline_offsets bytes = filter (\<lambda>i. bytes ! i = newline) [0..<length bytes]"

definition tail_start :: "nat \<Rightarrow> string \<Rightarrow> nat \<Rightarrow> nat" where
  "tail_start max_records c complete_end =
     (let max_scan = (MAX_ACTOR_LOG_LINE_BYTES + 1) * (max_records + 1);
          scan_start = complete_end - max_scan;
          bytes = take (complete_end - scan_start) (drop scan_start c);
          is = newline_offsets bytes
      in if length is > max_records then scan_start + is ! (length is - max_records - 1) + 1
         else if scan_start = 0 then 0
         else (case is of [] \<Rightarrow> complete_end | i # _ \<Rightarrow> scan_start + i + 1))"

definition read_log_tail_envelope_chunk ::
  "json \<Rightarrow> (string \<Rightarrow> string list) \<Rightarrow> nat \<Rightarrow> string option \<Rightarrow> envelope list \<times> nat" where
  "read_log_tail_envelope_chunk J buf max_records file =
     (let complete_end = complete_log_end file
      in if complete_end = 0 \<or> max_records = 0 then ([], complete_end)
         else case file of
             None \<Rightarrow> ([], complete_end)
           | Some c \<Rightarrow>
               let (es, n) = read_log_envelope_chunk J buf max_records file (tail_start max_records c complete_end)
               in (es, min n complete_end))"

section \<open>A line, whatever the buffers\<close>

text \<open>What the next line of a text is, and what follows it.\<close>

definition next_line :: "nat \<Rightarrow> string \<Rightarrow> bounded_line option \<times> string" where
  "next_line m s =
     (let body = takeWhile (\<lambda>c. c \<noteq> newline) s
      in if s = [] then (None, [])
         else if newline \<in> set s
         then (Some (if length body + 1 > m then OverLimit else Line (strip_cr body)), drop (length body + 1) s)
         else (Some (if length body > m then OverLimit else Line body), []))"

lemma takeWhile_none: "newline \<notin> set b \<Longrightarrow> takeWhile (\<lambda>c. c \<noteq> newline) (b @ s) = b @ takeWhile (\<lambda>c. c \<noteq> newline) s"
  by (intro takeWhile_append2) auto

lemma takeWhile_some: "newline \<in> set b \<Longrightarrow> takeWhile (\<lambda>c. c \<noteq> newline) (b @ s) = takeWhile (\<lambda>c. c \<noteq> newline) b"
  by (intro takeWhile_append1) auto

lemma take_newline:
  assumes "newline \<in> set b"
  shows "take (length (takeWhile (\<lambda>c. c \<noteq> newline) b) + 1) b = takeWhile (\<lambda>c. c \<noteq> newline) b @ [newline]"
  using assms by (induction b) auto

text \<open>What a reader has taken over of the bytes \<open>seen\<close> so far.\<close>

definition taken :: "nat \<Rightarrow> string \<Rightarrow> string \<times> bool \<Rightarrow> bool" where
  "taken m seen lo \<longleftrightarrow> snd lo = (length seen > m) \<and> (\<not> snd lo \<longrightarrow> fst lo = seen)"

lemma taken_part: "taken m seen lo \<Longrightarrow> taken m (seen @ b) (keep_part m b lo)"
  by (auto simp: taken_def keep_part_def)

lemma read_line_loop_next:
  assumes "newline \<notin> set seen" and "taken m seen lo"
  shows "fst (read_line_loop m lo bs) = fst (next_line m (seen @ concat bs))
    \<and> concat (snd (read_line_loop m lo bs)) = snd (next_line m (seen @ concat bs))"
  using assms
proof (induction bs arbitrary: seen lo)
  case Nil
  have body: "takeWhile (\<lambda>c. c \<noteq> newline) seen = seen" using takeWhile_none [OF Nil(1), of "[]"] by simp
  obtain l over where lo: "lo = (l, over)" by (cases lo)
  have spec: "next_line m (seen @ concat []) =
      (if seen = [] then (None, []) else (Some (if length seen > m then OverLimit else Line seen), []))"
    using Nil(1) by (simp add: next_line_def body)
  show ?case
  proof (cases over)
    case True
    with Nil(2) have "length seen > m" by (simp add: taken_def lo)
    with True show ?thesis unfolding spec by (auto simp: lo)
  next
    case False
    with Nil(2) have "\<not> length seen > m" "l = seen" by (simp_all add: taken_def lo)
    with False show ?thesis unfolding spec by (simp add: lo)
  qed
next
  case (Cons b bs)
  show ?case
  proof (cases "newline \<in> set b")
    case False
    then show ?thesis
      using Cons.IH [of "seen @ b" "keep_part m b lo"] Cons.prems taken_part
      by (simp add: newline_at_def)
  next
    case True
    let ?body = "seen @ takeWhile (\<lambda>c. c \<noteq> newline) b"
    let ?n = "length (takeWhile (\<lambda>c. c \<noteq> newline) b)"
    have body: "takeWhile (\<lambda>c. c \<noteq> newline) (seen @ b @ concat bs) = ?body"
      using takeWhile_none [OF Cons.prems(1)] takeWhile_some [OF True] by simp
    have n: "?n + 1 \<le> length b"
      using arg_cong [OF take_newline [OF True], of length] by (simp add: min_def split: if_splits)
    let ?lo = "keep_part m (take (?n + 1) b) lo"
    have lo: "taken m (?body @ [newline]) ?lo"
      using taken_part [OF Cons.prems(2), of "take (?n + 1) b"] by (simp only: take_newline [OF True] append_assoc)
    have "strip_break (?body @ [newline]) = strip_cr ?body" by (simp add: strip_break_def butlast_append)
    moreover have "seen @ b @ concat bs \<noteq> []" "newline \<in> set (seen @ b @ concat bs)" using True by auto
    ultimately have spec: "next_line m (seen @ concat (b # bs)) =
        (Some (if length ?body + 1 > m then OverLimit else Line (strip_break (?body @ [newline]))),
         drop (length seen + ?n + 1) (seen @ b @ concat bs))"
      by (simp only: next_line_def Let_def body concat.simps length_append if_False if_True)
    have rest: "drop (length seen + ?n + 1) (seen @ b @ concat bs) = drop (?n + 1) b @ concat bs" using n by simp
    obtain l over where l: "?lo = (l, over)" by (cases ?lo)
    show ?thesis
    proof (cases over)
      case over: True
      with lo have "length ?body + 1 > m" unfolding l taken_def by simp
      with over True show ?thesis unfolding spec rest by (simp add: newline_at_def Let_def l [simplified])
    next
      case over: False
      with lo have "\<not> length ?body + 1 > m" "l = ?body @ [newline]" unfolding l taken_def by simp_all
      with over True show ?thesis unfolding spec rest by (simp add: newline_at_def Let_def l [simplified])
    qed
  qed
qed

lemma line_reader_next:
  "fst (read_bounded_log_line m bs) = fst (next_line m (concat bs))
    \<and> concat (snd (read_bounded_log_line m bs)) = snd (next_line m (concat bs))"
  using read_line_loop_next [of "[]" m "([], False)" bs] by (simp add: read_bounded_log_line_def taken_def)

text \<open>Buffering does not matter.  However the buffered reader cuts the file into buffers, the bounded
  line reader returns the next line of the bytes, without its break and a carriage return before it, or
  reports it as over the limit exactly when the line with its break is longer than the limit; and it leaves
  exactly the bytes after that line.
\<close>

theorem line_reader_ignores_buffers:
  "fst (read_bounded_log_line m bs) = fst (next_line m (concat bs))
    \<and> concat (snd (read_bounded_log_line m bs)) = snd (next_line m (concat bs))"
  by (rule line_reader_next)

section \<open>Records\<close>

text \<open>The records of a text are its parts up to the last line break; \<open>record_bytes\<close> counts their breaks too.\<close>

definition complete_records :: "string \<Rightarrow> string list" where
  "complete_records s = butlast (split_on newline s)"

definition record_bytes :: "string list \<Rightarrow> nat" where
  "record_bytes rs = sum_list (map (\<lambda>r. length r + 1) rs)"

definition decode_record :: "json \<Rightarrow> string \<Rightarrow> envelope option" where
  "decode_record J r = (if length r + 1 > MAX_ACTOR_LOG_LINE_BYTES then None else decode_line J (strip_cr r))"

lemma record_bytes_simps [simp]:
  "record_bytes [] = 0" "record_bytes (r # rs) = length r + 1 + record_bytes rs"
  "record_bytes (rs @ rs') = record_bytes rs + record_bytes rs'"
  by (simp_all add: record_bytes_def)

lemma records_none: "newline \<notin> set s \<Longrightarrow> complete_records s = []"
  by (simp add: complete_records_def split_on_no_sep)

lemma records_break: "complete_records (s @ newline # t) = split_on newline s @ complete_records t"
  by (simp add: complete_records_def split_on_append butlast_append)

lemma records_Cons: "newline \<notin> set r \<Longrightarrow> complete_records (r @ newline # s) = r # complete_records s"
  by (simp add: records_break split_on_no_sep)

lemma records_complete:
  assumes "complete p"
  shows "complete_records (p @ s) = complete_records p @ complete_records s"
proof (cases "p = []")
  case False
  then obtain d where "p = d @ [newline]" using assms by (metis append_butlast_last_id complete_def)
  then show ?thesis using records_break [of d "[]"] by (simp add: records_break records_none)
qed (simp add: records_none)

lemma records_tail: "newline \<notin> set t \<Longrightarrow> complete_records (s @ t) = complete_records s"
  using text_pieces [of s] by (auto simp: records_complete records_none)

lemma records_count: "length (complete_records s) = length (filter (\<lambda>c. c = newline) s)"
proof -
  have "length (split_on newline s) = length (filter (\<lambda>c. c = newline) s) + 1"
    by (induction s) (auto split: list.splits)
  then show ?thesis by (simp add: complete_records_def)
qed

text \<open>The first record of a text with a line break.\<close>

lemma first_record:
  assumes "newline \<in> set s"
  obtains r t where "s = r @ newline # t" "newline \<notin> set r" "takeWhile (\<lambda>c. c \<noteq> newline) s = r"
    "complete_records s = r # complete_records t"
proof -
  obtain r t where "s = r @ newline # t" "newline \<notin> set r" using split_list_first [OF assms] by blast
  with that show ?thesis by (simp add: records_Cons takeWhile_none)
qed

lemma complete_bytes: "complete s \<Longrightarrow> record_bytes (complete_records s) = length s"
proof (induction "length s" arbitrary: s rule: less_induct)
  case less
  show ?case
  proof (cases "newline \<in> set s")
    case True
    then obtain r t where s: "s = r @ newline # t" "complete_records s = r # complete_records t"
      using first_record by metis
    from less.prems s(1) have "complete t" by (auto simp: complete_def split: if_splits)
    with less.hyps [of t] s show ?thesis by simp
  next
    case False
    with less.prems have "s = []" by (auto simp: complete_def) (metis last_in_set)
    then show ?thesis by (simp add: records_none)
  qed
qed

text \<open>Reading on after some records finds the other ones.\<close>

lemma records_drop:
  assumes "k \<le> length (complete_records c)"
  shows "complete_records (drop (record_bytes (take k (complete_records c))) c) = drop k (complete_records c)
    \<and> record_bytes (take k (complete_records c)) \<le> length c"
  using assms
proof (induction k arbitrary: c)
  case (Suc k)
  then have "newline \<in> set c" using records_none by fastforce
  then obtain r t where s: "c = r @ newline # t" "complete_records c = r # complete_records t"
    using first_record by metis
  with Suc.IH [of t] Suc.prems show ?case by simp
qed (simp add: records_none)

lemma records_prefix: "prefix c d \<Longrightarrow> prefix (complete_records c) (complete_records d)"
proof -
  assume "prefix c d"
  then obtain e where d: "d = c @ e" by (auto simp: prefix_def)
  obtain p t where "c = p @ t" "complete p" "newline \<notin> set t" using text_pieces by blast
  with d show ?thesis by (simp add: records_complete records_none)
qed

section \<open>A slice is exactly the next records\<close>

definition buffers_ok :: "(string \<Rightarrow> string list) \<Rightarrow> bool" where
  "buffers_ok buf \<longleftrightarrow> (\<forall>s. concat (buf s) = s)"

lemma next_line_record:
  assumes "newline \<notin> set r"
  shows "next_line m (r @ newline # t) = (Some (if length r + 1 > m then OverLimit else Line (strip_cr r)), t)"
  using assms by (simp add: next_line_def takeWhile_none)

lemma next_line_torn: "newline \<notin> set s \<Longrightarrow> s \<noteq> [] \<Longrightarrow> \<exists>r. next_line m s = (Some r, [])"
  by (simp add: next_line_def Let_def)

lemma reader_next:
  assumes "next_line m (concat bs) = (r, t)"
  shows "\<exists>bs'. read_bounded_log_line m bs = (r, bs') \<and> concat bs' = t"
  using line_reader_next [of m bs] assms by (cases "read_bounded_log_line m bs") simp

lemma slice_loop_exact:
  assumes "concat bs = s" and "length s \<le> len" and "s \<noteq> [] \<longrightarrow> terminated = (last s = newline)"
  shows "slice_loop J len terminated n bs (es, len - length s) =
    (es @ List.map_filter (decode_record J) (take n (complete_records s)),
     len - length s + record_bytes (take n (complete_records s)))"
  using assms
proof (induction n arbitrary: bs s es)
  case (Suc n)
  show ?case
  proof (cases "newline \<in> set s")
    case True
    then obtain r t where s: "s = r @ newline # t" "newline \<notin> set r" "complete_records s = r # complete_records t"
      using first_record by metis
    obtain bs' where bs': "concat bs' = t" "read_bounded_log_line MAX_ACTOR_LOG_LINE_BYTES bs =
        (Some (if length r + 1 > MAX_ACTOR_LOG_LINE_BYTES then OverLimit else Line (strip_cr r)), bs')"
      using reader_next [of MAX_ACTOR_LOG_LINE_BYTES bs, unfolded Suc.prems(1) s(1), OF next_line_record [OF s(2)]]
      by blast
    have pos: "len - length t = len - length s + length r + 1" using Suc.prems(2) s(1) by simp
    have "len - length t = len \<Longrightarrow> t = []" using Suc.prems(2) s(1) by (cases t) auto
    then have goes_on: "(len - length t = len \<and> \<not> terminated) = False" using Suc.prems(3) s(1) by auto
    let ?one = "case decode_record J r of None \<Rightarrow> [] | Some e \<Rightarrow> [e]"
    have "slice_loop J len terminated (Suc n) bs (es, len - length s) =
        slice_loop J len terminated n bs' (es @ ?one, len - length t)"
      unfolding slice_loop.simps(2) bs'(2) prod.case option.case Let_def bs'(1) goes_on if_False fst_conv
      by (simp add: decode_record_def)
    also have "\<dots> = ((es @ ?one) @ List.map_filter (decode_record J) (take n (complete_records t)),
        len - length t + record_bytes (take n (complete_records t)))"
      using Suc.IH [OF bs'(1)] Suc.prems(2,3) s(1) by simp
    also have "\<dots> = (es @ List.map_filter (decode_record J) (take (Suc n) (complete_records s)),
        len - length s + record_bytes (take (Suc n) (complete_records s)))"
      unfolding pos s(3) by (simp add: map_filter_simps split: option.split)
    finally show ?thesis .
  next
    case False
    then show ?thesis
    proof (cases "s = []")
      case True
      then have "next_line MAX_ACTOR_LOG_LINE_BYTES (concat bs) = (None, [])" using Suc.prems(1) by (simp add: next_line_def)
      from reader_next [OF this] True show ?thesis by (auto simp: records_none map_filter_simps)
    next
      case nonempty: False
      then obtain r where "next_line MAX_ACTOR_LOG_LINE_BYTES (concat bs) = (Some r, [])"
        using next_line_torn [OF False] Suc.prems(1) by blast
      moreover have "\<not> terminated" using False nonempty Suc.prems(3) last_in_set by metis
      moreover from calculation obtain bs' where "read_bounded_log_line MAX_ACTOR_LOG_LINE_BYTES bs = (Some r, bs')"
        "concat bs' = []" using reader_next by blast
      ultimately show ?thesis by (simp add: Let_def records_none [OF False] map_filter_simps del: concat_eq_Nil_conv)
    qed
  qed
qed (simp add: map_filter_simps)

lemma chunk_exact:
  assumes "buffers_ok buf"
  shows "read_log_envelope_chunk J buf n (Some c) offset =
    (let rs = take n (complete_records (drop offset c))
     in (List.map_filter (decode_record J) rs, min offset (length c) + record_bytes rs))"
proof -
  let ?s = "drop (min offset (length c)) c"
  have s: "?s = drop offset c" by (simp add: min_def)
  have "length c - length ?s = min offset (length c)" by simp
  moreover have "?s \<noteq> [] \<longrightarrow> (c = [] \<or> last c = newline) = (last ?s = newline)" by (auto simp: last_drop)
  moreover have "concat (buf ?s) = ?s" using assms by (simp add: buffers_ok_def)
  ultimately have "slice_loop J (length c) (c = [] \<or> last c = newline) n (buf ?s) ([], min offset (length c)) =
      ([] @ List.map_filter (decode_record J) (take n (complete_records ?s)),
       min offset (length c) + record_bytes (take n (complete_records ?s)))"
    using slice_loop_exact [of "buf ?s" ?s "length c" "c = [] \<or> last c = newline" J n "[]"] by simp
  then show ?thesis by (simp only: read_log_envelope_chunk_def option.case Let_def s append_Nil)
qed

text \<open>A slice is exactly the next records.  Reading from any offset gives, in order, the events of the next
  records that are not over the limit, not blank and decode, at most as many records as asked for, and
  the offset right after the last record read; a last record without a line break is not touched.
\<close>

theorem slice_is_the_next_records:
  assumes "buffers_ok buf"
  shows "read_log_envelope_chunk J buf n (Some c) offset =
    (List.map_filter (decode_record J) (take n (complete_records (drop offset c))),
     min offset (length c) + record_bytes (take n (complete_records (drop offset c))))"
  using chunk_exact [OF assms] by (simp add: Let_def)

section \<open>A log that grows while it is read\<close>

text \<open>
  The sequential lane of \<open>backfill_logs\<close> over a series of polls: each sees the log as it is then and goes on
  where the poll before stopped, from the beginning where the file has become shorter than that.
\<close>

definition sequential_poll ::
  "json \<Rightarrow> (string \<Rightarrow> string list) \<Rightarrow> string \<Rightarrow> nat \<Rightarrow> envelope list \<times> nat" where
  "sequential_poll J buf c offset =
     (let offset' = (if offset > length c then 0 else offset)
      in if offset' = length c then ([], offset')
         else read_log_envelope_chunk J buf LOG_BACKFILL_SLICE_EVENTS (Some c) offset')"

fun sequential_polls ::
  "json \<Rightarrow> (string \<Rightarrow> string list) \<Rightarrow> string list \<Rightarrow> nat \<Rightarrow> envelope list \<times> nat" where
  "sequential_polls J buf [] offset = ([], offset)"
| "sequential_polls J buf (c # cs) offset =
     (let (es, offset1) = sequential_poll J buf c offset;
          (fs, offset2) = sequential_polls J buf cs offset1
      in (es @ fs, offset2))"

text \<open>How many records have been read after the polls, and the log's growth.\<close>

definition records_read :: "string list \<Rightarrow> nat \<Rightarrow> nat" where
  "records_read cs k = fold (\<lambda>c k. min (k + LOG_BACKFILL_SLICE_EVENTS) (length (complete_records c))) cs k"

definition grows :: "string list \<Rightarrow> string \<Rightarrow> bool" where
  "grows cs c \<longleftrightarrow> sorted_wrt prefix (cs @ [c])"

lemma drop_take_split:
  assumes "k \<le> m" and "m \<le> n"
  shows "drop k (take n xs) = drop k (take m xs) @ drop m (take n xs)"
proof -
  have "take n xs = take m xs @ drop m (take n xs)" using assms(2) by (metis append_take_drop_id min.absorb1 take_take)
  then have "drop k (take n xs) = drop k (take m xs) @ drop (k - length (take m xs)) (drop m (take n xs))"
    by (metis drop_append)
  moreover have "drop (k - length (take m xs)) (drop m (take n xs)) = drop m (take n xs)"
    using assms(1) by (cases "length xs \<le> m") simp_all
  ultimately show ?thesis by simp
qed

lemma map_filter_app: "List.map_filter f (xs @ ys) = List.map_filter f xs @ List.map_filter f ys"
  by (induction xs) (simp_all add: map_filter_simps split: option.split)

lemma poll_exact:
  assumes "buffers_ok buf" and "prefix c d" and "k \<le> length (complete_records c)"
    and k': "k' = min (k + LOG_BACKFILL_SLICE_EVENTS) (length (complete_records c))"
  shows "sequential_poll J buf c (record_bytes (take k (complete_records d))) =
    (List.map_filter (decode_record J) (drop k (take k' (complete_records d))), record_bytes (take k' (complete_records d)))"
proof -
  let ?rs = "complete_records c"
  let ?off = "record_bytes (take k ?rs)"
  obtain xs where d: "complete_records d = ?rs @ xs" using records_prefix [OF assms(2)] by (auto simp: prefix_def)
  note at = records_drop [OF assms(3)]
  have take': "take k (complete_records d) = take k ?rs" "take k' (complete_records d) = take k' ?rs"
    using assms(3) k' by (simp_all add: d)
  have slice: "take LOG_BACKFILL_SLICE_EVENTS (drop k ?rs) = drop k (take k' ?rs)"
    unfolding k' by (simp add: drop_take min_def)
  have "take k' ?rs = take k ?rs @ drop k (take k' ?rs)"
    using assms(3) k' drop_take_split [of 0 k k' ?rs] by simp
  then have bytes: "record_bytes (take k' ?rs) = ?off + record_bytes (drop k (take k' ?rs))"
    by (metis record_bytes_simps(3))
  show ?thesis
  proof (cases "?off = length c")
    case True
    then have "drop k ?rs = []" using at by (simp add: records_none)
    then have "drop k (take k' ?rs) = []" using slice by simp
    with True bytes show ?thesis by (simp add: sequential_poll_def take' map_filter_simps)
  next
    case False
    with at show ?thesis
      by (simp add: sequential_poll_def take' chunk_exact [OF assms(1)] Let_def slice bytes)
  qed
qed

lemma polls_exact:
  assumes "buffers_ok buf" and "grows cs d" and "\<And>c. c \<in> set cs \<Longrightarrow> k \<le> length (complete_records c)"
    and "k \<le> length (complete_records d)"
  shows "sequential_polls J buf cs (record_bytes (take k (complete_records d))) =
    (List.map_filter (decode_record J) (drop k (take (records_read cs k) (complete_records d))),
     record_bytes (take (records_read cs k) (complete_records d))) \<and> k \<le> records_read cs k"
  using assms(2-)
proof (induction cs arbitrary: k)
  case (Cons c cs)
  let ?rs = "complete_records d"
  let ?k = "min (k + LOG_BACKFILL_SLICE_EVENTS) (length (complete_records c))"
  have pre: "prefix c d" "grows cs d" "\<And>e. e \<in> set cs \<Longrightarrow> prefix c e" using Cons.prems(1) by (auto simp: grows_def)
  have c: "k \<le> length (complete_records c)" using Cons.prems(2) by simp
  have le: "length (complete_records c) \<le> length (complete_records e)" if "prefix c e" for e
    using prefix_length_le [OF records_prefix [OF that]] .
  have read: "records_read (c # cs) k = records_read cs ?k" by (simp add: records_read_def)
  have ih: "sequential_polls J buf cs (record_bytes (take ?k ?rs)) =
      (List.map_filter (decode_record J) (drop ?k (take (records_read cs ?k) ?rs)),
       record_bytes (take (records_read cs ?k) ?rs)) \<and> ?k \<le> records_read cs ?k"
  proof (rule Cons.IH [OF pre(2)])
    show "?k \<le> length (complete_records e)" if "e \<in> set cs" for e using le [OF pre(3) [OF that]] by simp
    show "?k \<le> length ?rs" using le [OF pre(1)] by simp
  qed
  have "k \<le> ?k" using c by simp
  then have "drop k (take (records_read cs ?k) ?rs) = drop k (take ?k ?rs) @ drop ?k (take (records_read cs ?k) ?rs)"
    using ih by (intro drop_take_split) simp_all
  with ih poll_exact [OF assms(1) pre(1) c refl, of J] \<open>k \<le> ?k\<close> show ?case
    by (auto simp: read map_filter_app)
qed (simp add: records_read_def map_filter_simps)

lemma read_to_the_end:
  "k \<le> length (complete_records c) \<Longrightarrow>
     records_read (replicate m c) k = min (k + LOG_BACKFILL_SLICE_EVENTS * m) (length (complete_records c))"
  by (induction m arbitrary: k) (auto simp: records_read_def min_def)

text \<open>C25. A growing log is read once and in order.  While a log grows from poll to poll, the sequential lane hands
  on the events of a first part of its complete records, each once and in order, however the growth falls
  on the polls; and once the log stands still, it hands on all of them within a quarter as many polls as
  there are records, and its offset is the end of the complete records.
\<close>

theorem growing_log_is_read_once:
  assumes "buffers_ok buf" and "grows cs c"
    and "length (complete_records c) \<le> LOG_BACKFILL_SLICE_EVENTS * m"
  shows "fst (sequential_polls J buf cs 0) = List.map_filter (decode_record J) (take (records_read cs 0) (complete_records c))
    \<and> sequential_polls J buf (cs @ replicate m c) 0
      = (List.map_filter (decode_record J) (complete_records c), record_bytes (complete_records c))"
proof -
  let ?cs = "cs @ replicate m c"
  have "grows ?cs c" using assms(2) by (auto simp: grows_def sorted_wrt_append) (induction m; simp)
  from polls_exact [OF assms(1) this, of 0] have all: "sequential_polls J buf ?cs 0 =
      (List.map_filter (decode_record J) (take (records_read ?cs 0) (complete_records c)),
       record_bytes (take (records_read ?cs 0) (complete_records c)))" by simp
  have bound: "k \<le> length (complete_records c) \<Longrightarrow> records_read cs k \<le> length (complete_records c)" for k
    using assms(2)
  proof (induction cs arbitrary: k)
    case (Cons a as)
    then have "length (complete_records a) \<le> length (complete_records c)"
      by (auto simp: grows_def intro: prefix_length_le records_prefix)
    then have "min (k + LOG_BACKFILL_SLICE_EVENTS) (length (complete_records a)) \<le> length (complete_records c)" by simp
    from Cons.IH [OF this] Cons.prems(2) show ?case by (simp add: records_read_def grows_def)
  qed (simp add: records_read_def)
  have "records_read ?cs 0 = records_read (replicate m c) (records_read cs 0)" by (simp add: records_read_def)
  also have "\<dots> = length (complete_records c)" using read_to_the_end [OF bound [of 0]] assms(3) by simp
  finally show ?thesis using all polls_exact [OF assms(1,2), of 0 J] by simp
qed

section \<open>The end of the complete records\<close>

lemma last_break:
  assumes "newline \<in> set b"
  obtains x y where "b = x @ newline # y" "newline \<notin> set y" "rposition newline b = Some (length x)"
proof -
  obtain x y where b: "b = x @ newline # y" "newline \<notin> set y" using split_list_last [OF assms] by blast
  have "takeWhile (\<lambda>c. c \<noteq> newline) (rev b) = rev y" using b takeWhile_none [of "rev y" "newline # rev x"] by simp
  then have "rposition newline b = Some (length x)" using b by (simp add: rposition_def)
  with b that show ?thesis by blast
qed

lemma scan_back_exact: "cursor \<le> length c \<Longrightarrow> scan_back c cursor = record_bytes (complete_records (take cursor c))"
proof (induction c cursor rule: scan_back.induct)
  case (1 c cursor)
  let ?start = "cursor - SCAN_BLOCK_BYTES"
  let ?block = "take (cursor - ?start) (drop ?start c)"
  have cut: "take cursor c = take ?start c @ ?block" by (metis take_add le_add_diff_inverse diff_le_self)
  show ?case
  proof (cases "cursor = 0")
    case True
    then show ?thesis by (subst scan_back.simps) (simp add: records_none)
  next
    case False
    show ?thesis
    proof (cases "newline \<in> set ?block")
      case True
      then obtain x y where b: "?block = x @ newline # y" "newline \<notin> set y" "rposition newline ?block = Some (length x)"
        by (rule last_break)
      let ?p = "take ?start c @ x @ [newline]"
      have "complete ?p" by (simp add: complete_def)
      have "take cursor c = ?p @ y" using cut b(1) by simp
      then have "record_bytes (complete_records (take cursor c)) = length ?p"
        using records_tail [OF b(2), of ?p] complete_bytes [OF \<open>complete ?p\<close>] by simp
      also have "\<dots> = ?start + length x + 1" using 1(2) by simp
      finally show ?thesis using False b(3) by (subst scan_back.simps) (simp add: Let_def)
    next
      case none: False
      then have "rposition newline ?block = None" by (simp add: rposition_def)
      then have "scan_back c cursor = scan_back c ?start" using False by (subst scan_back.simps) (simp add: Let_def)
      also have "\<dots> = record_bytes (complete_records (take ?start c))"
        using 1(1) [OF False refl refl \<open>rposition newline ?block = None\<close>] 1(2) by simp
      finally show ?thesis using records_tail [OF none, of "take ?start c"] cut by simp
    qed
  qed
qed

lemma complete_log_end_exact: "complete_log_end (Some c) = record_bytes (complete_records c)"
  by (simp add: complete_log_end_def scan_back_exact)

section \<open>The newest slice\<close>

definition fits :: "string list \<Rightarrow> bool" where
  "fits rs = list_all (\<lambda>r. length r + 1 \<le> MAX_ACTOR_LOG_LINE_BYTES) rs"

lemma end_part:
  assumes "e = record_bytes (complete_records c)"
  shows "complete (take e c) \<and> newline \<notin> set (drop e c) \<and> e \<le> length c"
proof -
  obtain p t where c: "c = p @ t" "complete p" "newline \<notin> set t" using text_pieces by blast
  then have "e = length p" using assms by (simp add: records_tail complete_bytes)
  with c show ?thesis by simp
qed

text \<open>An offset after a line break is an offset between two records.\<close>

lemma between_records:
  assumes "complete (take m c)" and "m \<le> length c"
  shows "\<exists>k \<le> length (complete_records c). m = record_bytes (take k (complete_records c))
    \<and> length (complete_records c) - k = length (filter (\<lambda>x. x = newline) (drop m c))"
proof -
  have "complete_records c = complete_records (take m c) @ complete_records (drop m c)"
    using records_complete [OF assms(1), of "drop m c"] by simp
  moreover have "record_bytes (complete_records (take m c)) = m" using complete_bytes [OF assms(1)] assms(2) by simp
  ultimately show ?thesis
    by (intro exI [of _ "length (complete_records (take m c))"]) (simp add: records_count [of "drop m c"])
qed

lemma newline_offsets_Cons:
  "newline_offsets (x # w) = (if x = newline then [0] else []) @ map Suc (newline_offsets w)"
proof -
  have "[0..<length (x # w)] = 0 # map Suc [0..<length w]" by (simp add: upt_conv_Cons map_Suc_upt del: upt_Suc)
  then show ?thesis by (simp add: newline_offsets_def filter_map comp_def del: upt_Suc)
qed

lemma newline_offsets_length: "length (newline_offsets w) = length (filter (\<lambda>x. x = newline) w)"
  by (induction w) (simp_all add: newline_offsets_Cons, simp add: newline_offsets_def)

lemma newline_offsets_nth:
  "q < length (newline_offsets w) \<Longrightarrow> newline_offsets w ! q < length w \<and> w ! (newline_offsets w ! q) = newline
     \<and> length (filter (\<lambda>x. x = newline) (drop (newline_offsets w ! q + 1) w)) = length (newline_offsets w) - q - 1"
proof (induction w arbitrary: q)
  case (Cons x w)
  show ?case
  proof (cases "x = newline \<and> q = 0")
    case True
    then show ?thesis by (simp add: newline_offsets_Cons newline_offsets_length)
  next
    case False
    let ?q = "if x = newline then q - 1 else q"
    have "newline_offsets (x # w) ! q = Suc (newline_offsets w ! ?q)" "?q < length (newline_offsets w)"
      using False Cons.prems by (auto simp: newline_offsets_Cons nth_append nth_Cons')
    with Cons.IH [of ?q] False Cons.prems show ?thesis by (auto simp: newline_offsets_Cons)
  qed
qed (simp add: newline_offsets_def)

lemma fits_bytes: "fits rs \<Longrightarrow> record_bytes rs \<le> MAX_ACTOR_LOG_LINE_BYTES * length rs"
  by (induction rs) (auto simp: fits_def)

lemma fits_window:
  assumes "fits (complete_records (a @ w))" and "complete w"
  shows "length w \<le> MAX_ACTOR_LOG_LINE_BYTES * length (complete_records w)"
proof (cases "newline \<in> set w")
  case True
  obtain p t where a: "a = p @ t" "complete p" "newline \<notin> set t" using text_pieces by blast
  obtain r u where w: "w = r @ newline # u" "newline \<notin> set r" "complete_records w = r # complete_records u"
    using first_record [OF True] by metis
  have "complete_records (a @ w) = complete_records p @ (t @ r) # complete_records u"
    using a w records_Cons [of "t @ r" u] by (simp add: records_complete)
  with assms(1) w(3) have "fits (complete_records w)" by (auto simp: fits_def)
  from fits_bytes [OF this] complete_bytes [OF assms(2)] show ?thesis by simp
next
  case False
  with assms(2) have "w = []" by (auto simp: complete_def) (metis last_in_set)
  then show ?thesis by simp
qed

lemma tail_start_exact:
  assumes e: "e = record_bytes (complete_records c)" and "e > 0"
  shows "\<exists>k \<le> length (complete_records c). tail_start n c e = record_bytes (take k (complete_records c))
    \<and> length (complete_records c) - k \<le> n
    \<and> (fits (complete_records c) \<longrightarrow> length (complete_records c) - k = min n (length (complete_records c)))"
proof -
  define window where "window = (MAX_ACTOR_LOG_LINE_BYTES + 1) * (n + 1)"
  define s where "s = e - window"
  have s: "s \<le> e" "window > 0" by (simp_all add: s_def window_def)
  let ?w = "take (e - s) (drop s c)"
  let ?is = "newline_offsets ?w"
  let ?nl = "\<lambda>x. filter (\<lambda>y. y = newline) x"
  note ends = end_part [OF e]
  have cut: "take e c = take s c @ ?w" using s(1) by (metis take_add le_add_diff_inverse)
  have len: "length (take s c) = s" "length ?w = e - s" using ends s(1) by (auto simp: min_def)
  have c: "c = take s c @ ?w @ drop e c" using cut by (metis append_assoc append_take_drop_id)
  have after_end: "?nl (drop e c) = []" using ends by (auto simp: filter_empty_conv)
  have total: "length (complete_records c) = length (?nl (take s c)) + length ?is"
    using after_end by (subst (1) records_count, subst c) (simp add: newline_offsets_length del: append_take_drop_id)
  have "length ?w > 0" using len(2) s(2) \<open>e > 0\<close> by (simp add: s_def)
  then have nonempty: "?w \<noteq> []" by blast
  then have w: "complete ?w" using ends cut by (metis append_is_Nil_conv complete_def last_appendR)
  have at: "\<exists>k \<le> length (complete_records c). s + i + 1 = record_bytes (take k (complete_records c))
      \<and> length (complete_records c) - k = length ?is - q - 1" if q: "q < length ?is" "i = ?is ! q" for i q
  proof -
    note i = newline_offsets_nth [OF q(1), folded q(2)]
    have take: "take (s + i + 1) c = take s c @ take (i + 1) ?w"
      using i len by (subst c) (simp add: take_append)
    have "drop (s + i + 1) c = drop (i + 1) ?w @ drop e c"
      using i len by (subst c) (simp add: drop_append)
    then have "length (?nl (drop (s + i + 1) c)) = length ?is - q - 1" using i after_end by simp
    moreover have "take (i + 1) ?w = take i ?w @ [newline]" using i by (metis Suc_eq_plus1 take_Suc_conv_app_nth)
    then have "complete (take (s + i + 1) c)" unfolding take by (simp add: complete_def)
    moreover have "s + i + 1 \<le> length c" using conjunct1 [OF i] len(2) ends by linarith
    ultimately show ?thesis using between_records by metis
  qed
  consider (many) "length ?is > n" | (whole) "length ?is \<le> n" "s = 0" | (few) "length ?is \<le> n" "s > 0" by linarith
  then show ?thesis
  proof cases
    case many
    then have start: "tail_start n c e = s + ?is ! (length ?is - n - 1) + 1"
      unfolding tail_start_def Let_def window_def [symmetric] s_def [symmetric] by simp
    have q: "length ?is - n - 1 < length ?is" using many by simp
    obtain k where k: "k \<le> length (complete_records c)"
      "s + ?is ! (length ?is - n - 1) + 1 = record_bytes (take k (complete_records c))"
      "length (complete_records c) - k = length ?is - (length ?is - n - 1) - 1" using at [OF q refl] by blast
    have "length ?is - (length ?is - n - 1) - 1 = n" using many by simp
    with k start many total show ?thesis by (intro exI [of _ k]) simp
  next
    case whole
    then have "tail_start n c e = 0" unfolding tail_start_def Let_def window_def [symmetric] s_def [symmetric] by simp
    with whole total show ?thesis by (intro exI [of _ 0]) simp
  next
    case few
    have "newline \<in> set ?w" using w nonempty by (metis complete_def last_in_set)
    then have "length ?is > 0" by (auto simp: newline_offsets_length filter_empty_conv)
    then obtain i is' where "is": "?is = i # is'" by (cases ?is) auto
    then have "tail_start n c e = s + i + 1"
      using few unfolding tail_start_def Let_def window_def [symmetric] s_def [symmetric] by simp
    moreover have first: "0 < length ?is" "i = ?is ! 0" by (simp_all add: "is")
    obtain k where "k \<le> length (complete_records c)" "s + i + 1 = record_bytes (take k (complete_records c))"
      "length (complete_records c) - k = length ?is - 0 - 1" using at [OF first] by blast
    moreover have "\<not> fits (complete_records c)"
    proof
      assume "fits (complete_records c)"
      then have "fits (complete_records (take s c @ ?w))"
        by (metis append_take_drop_id cut ends records_tail)
      from fits_window [OF this w] have "length ?w \<le> MAX_ACTOR_LOG_LINE_BYTES * n"
        using few(1) by (simp add: records_count newline_offsets_length) (meson le_trans mult_le_mono2)
      moreover have "length ?w = window" using few(2) len(2) by (simp add: s_def)
      ultimately show False by (simp add: window_def algebra_simps)
    qed
    ultimately show ?thesis using few(1) by (intro exI [of _ k]) simp
  qed
qed

lemma newest_slice:
  assumes "buffers_ok buf" and "n > 0"
  shows "\<exists>j. read_log_tail_envelope_chunk J buf n (Some c) =
      (List.map_filter (decode_record J) (drop (length (complete_records c) - j) (complete_records c)),
       record_bytes (complete_records c))
    \<and> j \<le> n \<and> (fits (complete_records c) \<longrightarrow> j = min n (length (complete_records c)))"
proof (cases "record_bytes (complete_records c) = 0")
  case True
  then have "complete_records c = []" by (cases "complete_records c") simp_all
  with assms(2) show ?thesis
    by (intro exI [of _ 0]) (simp add: read_log_tail_envelope_chunk_def complete_log_end_exact)
next
  case False
  let ?rs = "complete_records c"
  obtain k where k: "k \<le> length ?rs" "tail_start n c (record_bytes ?rs) = record_bytes (take k ?rs)"
    "length ?rs - k \<le> n" "fits ?rs \<longrightarrow> length ?rs - k = min n (length ?rs)"
    using tail_start_exact [OF refl, of c n] False by auto
  have "record_bytes (take k ?rs) + record_bytes (drop k ?rs) = record_bytes ?rs"
    by (metis append_take_drop_id record_bytes_simps(3))
  with k False assms(2) records_drop [OF k(1)] show ?thesis
    by (intro exI [of _ "length ?rs - k"])
      (simp add: read_log_tail_envelope_chunk_def complete_log_end_exact chunk_exact [OF assms(1)] Let_def)
qed

text \<open>The newest slice reaches the end.  Reading the tail of a log, by a window of bounded size, gives the
  events of the last records of its complete part, at most as many as asked for and exactly as many
  where every record is within the limit, and its offset is the end of the complete part.
\<close>

theorem newest_slice_reaches_the_end:
  assumes "buffers_ok buf" and "n > 0"
  shows "\<exists>j. read_log_tail_envelope_chunk J buf n (Some c) =
      (List.map_filter (decode_record J) (drop (length (complete_records c) - j) (complete_records c)),
       record_bytes (complete_records c))
    \<and> j \<le> n \<and> (fits (complete_records c) \<longrightarrow> j = min n (length (complete_records c)))"
  using newest_slice [OF assms] .

section \<open>Polling the logs\<close>

definition MAX_WORKER_MERGE_BATCH_EVENTS :: nat where
  "MAX_WORKER_MERGE_BATCH_EVENTS = 4096"

definition LOG_BACKFILL_SLICES_PER_TICK :: nat where
  "LOG_BACKFILL_SLICES_PER_TICK = 16"

text \<open>The part of the worker's state that the replay touches, and what the environment answers.\<close>

record replay =
  rp_engine :: engine
  rp_offsets :: "(string, nat) omap"
  rp_live :: "(string, nat) omap"
  rp_prefer_recent :: bool
  rp_touched :: "space_id set"
  rp_changed :: bool

record replay_env =
  re_checks :: checks
  re_json :: json
  re_buffers :: "string \<Rightarrow> string list"
  re_fault :: "string \<Rightarrow> string option"

function merge_slices :: "checks \<Rightarrow> string option \<Rightarrow> envelope list \<Rightarrow> replay \<Rightarrow> replay" where
  "merge_slices K fault es st =
     (if es = [] then st
      else case merge K fault (take MAX_WORKER_MERGE_BATCH_EVENTS es) (rp_engine st) of
             Inl _ \<Rightarrow> st
           | Inr (outcome, g) \<Rightarrow>
               merge_slices K fault (drop MAX_WORKER_MERGE_BATCH_EVENTS es)
                 (st\<lparr>rp_engine := g, rp_changed := (rp_changed st \<or> mo_accepted outcome > 0)\<rparr>))"
  by pat_completeness auto
termination
  by (relation "measure (\<lambda>(K, fault, es, st). length es)") (auto simp: MAX_WORKER_MERGE_BATCH_EVENTS_def)

declare merge_slices.simps [simp del]

definition merge_batch :: "checks \<Rightarrow> string option \<Rightarrow> envelope list \<Rightarrow> replay \<Rightarrow> replay" where
  "merge_batch K fault es st =
     (if es = [] then st
      else merge_slices K fault es (st\<lparr>rp_touched := rp_touched st \<union> (set (map en_space es) - {0})\<rparr>))"

definition offset_of :: "replay \<Rightarrow> string \<Rightarrow> nat" where
  "offset_of st path = (case om_get (rp_offsets st) path of None \<Rightarrow> 0 | Some o1 \<Rightarrow> o1)"

text \<open>The live lane and the sequential lane of one log; each returns whether it moved.\<close>

definition live_lane :: "replay_env \<Rightarrow> string \<Rightarrow> string option \<Rightarrow> replay \<Rightarrow> nat \<times> replay" where
  "live_lane v path file st =
     (let complete_end = complete_log_end file;
          live = om_get (rp_live st) path
      in if live = Some complete_end then (0, st)
         else
           let tail = read_log_tail_envelope_chunk (re_json v) (re_buffers v) LOG_BACKFILL_SLICE_EVENTS file;
               (st1, incoming, n) =
                 (case live of
                    None \<Rightarrow> (st, tail)
                  | Some previous \<Rightarrow>
                      if previous \<le> complete_end
                      then let (es, n) = read_log_envelope_chunk (re_json v) (re_buffers v) LOG_BACKFILL_SLICE_EVENTS file previous
                           in (merge_batch (re_checks v) (re_fault v path) es st,
                               if n < complete_end then tail else ([], n))
                      else (st, tail));
               st2 = merge_batch (re_checks v) (re_fault v path) incoming st1
           in (1, st2\<lparr>rp_live := om_put path n (rp_live st2)\<rparr>))"

definition sequential_lane :: "replay_env \<Rightarrow> string \<Rightarrow> string option \<Rightarrow> nat \<Rightarrow> replay \<Rightarrow> nat \<times> replay" where
  "sequential_lane v path file offset st =
     (if offset = length (contents file) then (0, st)
      else
        let (es, n) = read_log_envelope_chunk (re_json v) (re_buffers v) LOG_BACKFILL_SLICE_EVENTS file offset;
            st1 = merge_batch (re_checks v) (re_fault v path) es st
        in if n \<noteq> offset then (1, st1\<lparr>rp_offsets := om_put path n (rp_offsets st1)\<rparr>) else (0, st1))"

definition backfill_log :: "replay_env \<Rightarrow> string \<Rightarrow> string option \<Rightarrow> replay \<Rightarrow> bool \<times> nat \<times> replay" where
  "backfill_log v path file st =
     (let len = length (contents file);
          offset = (if offset_of st path > len then 0 else offset_of st path)
      in if offset = len \<and> om_get (rp_live st) path = Some (complete_log_end file) then (False, 0, st)
         else
           let (moved, st1) = live_lane v path file st;
               (moved', st2) = sequential_lane v path file offset st1
           in (True, moved + moved', st2))"

text \<open>The paths come in the order that \<open>sort_backfill_candidates\<close> gave them.\<close>

fun backfill_paths ::
  "replay_env \<Rightarrow> (string \<times> string option) list \<Rightarrow> nat \<Rightarrow> nat \<Rightarrow> replay \<Rightarrow> nat \<times> replay" where
  "backfill_paths v [] selected progressed st = (progressed, st)"
| "backfill_paths v (p # ps) selected progressed st =
     (if selected = LOG_BACKFILL_SLICES_PER_TICK then (progressed, st)
      else let (s, n, st') = backfill_log v (fst p) (snd p) st
           in backfill_paths v ps (if s then selected + 1 else selected) (progressed + n) st')"

definition backfill_logs :: "replay_env \<Rightarrow> (string \<times> string option) list \<Rightarrow> replay \<Rightarrow> replay" where
  "backfill_logs v ps st =
     (let (progressed, st') = backfill_paths v ps 0 0 st
      in if progressed > 0 then st'\<lparr>rp_prefer_recent := \<not> rp_prefer_recent st'\<rparr> else st')"

subsection \<open>What a batch leaves alone\<close>

lemma merge_slices_lanes [simp]:
  "rp_offsets (merge_slices K fault es st) = rp_offsets st" "rp_live (merge_slices K fault es st) = rp_live st"
  by (induction K fault es st rule: merge_slices.induct;
      subst merge_slices.simps, auto split: sum.split prod.split)+

lemma merge_batch_lanes [simp]:
  "rp_offsets (merge_batch K fault es st) = rp_offsets st" "rp_live (merge_batch K fault es st) = rp_live st"
  by (simp_all add: merge_batch_def)

lemma merge_slices_inv: "engine_inv K (rp_engine st) \<Longrightarrow> engine_inv K (rp_engine (merge_slices K fault es st))"
  by (induction K fault es st rule: merge_slices.induct)
    (subst merge_slices.simps, auto split: sum.split prod.split dest: merge_inv)

lemma merge_batch_inv: "engine_inv K (rp_engine st) \<Longrightarrow> engine_inv K (rp_engine (merge_batch K fault es st))"
  by (simp add: merge_batch_def merge_slices_inv)

lemma merge_fault: "merge K (Some err) es g = Inr (outcome, g') \<Longrightarrow> g' = g"
  by (auto simp: merge_Inr ingest_Inr split: if_splits)

lemma merge_slices_fault: "rp_engine (merge_slices K (Some err) es st) = rp_engine st"
proof (induction "length es" arbitrary: es st rule: less_induct)
  case less
  show ?case
  proof (cases "es = []")
    case False
    then have "length (drop MAX_WORKER_MERGE_BATCH_EVENTS es) < length es"
      by (simp add: MAX_WORKER_MERGE_BATCH_EVENTS_def)
    from less [OF this] False show ?thesis
      by (subst merge_slices.simps) (auto split: sum.split prod.split dest: merge_fault)
  qed (subst merge_slices.simps, simp)
qed

lemma merge_batch_fault: "rp_engine (merge_batch K (Some err) es st) = rp_engine st"
  by (simp add: merge_batch_def merge_slices_fault)

subsection \<open>What a poll does to a log\<close>

lemma lane_inv:
  assumes "engine_inv (re_checks v) (rp_engine st)"
  shows "engine_inv (re_checks v) (rp_engine (snd (live_lane v path file st)))"
    and "engine_inv (re_checks v) (rp_engine (snd (sequential_lane v path file offset st)))"
  using assms
  by (auto simp: live_lane_def sequential_lane_def Let_def merge_batch_inv split: option.split prod.split)

lemma lane_fault:
  assumes "re_fault v path = Some err"
  shows "rp_engine (snd (live_lane v path file st)) = rp_engine st"
    and "rp_engine (snd (sequential_lane v path file offset st)) = rp_engine st"
  using assms by (auto simp: live_lane_def sequential_lane_def Let_def merge_batch_fault split: option.split prod.split)

lemma lane_offsets:
  "rp_offsets (snd (live_lane v path file st)) = rp_offsets st"
  "rp_live (snd (sequential_lane v path file offset st)) = rp_live st"
  by (auto simp: live_lane_def sequential_lane_def Let_def split: option.split prod.split)

lemma backfill_log_inv:
  "engine_inv (re_checks v) (rp_engine st) \<Longrightarrow> engine_inv (re_checks v) (rp_engine (snd (snd (backfill_log v path file st))))"
  using lane_inv [of v]
  by (simp add: backfill_log_def Let_def case_prod_beta)

lemma backfill_paths_inv:
  "engine_inv (re_checks v) (rp_engine st) \<Longrightarrow> engine_inv (re_checks v) (rp_engine (snd (backfill_paths v ps k n st)))"
proof (induction ps arbitrary: k n st)
  case (Cons p ps)
  with backfill_log_inv [OF Cons.prems, of "fst p" "snd p"] show ?case by (simp add: case_prod_beta)
qed simp

text \<open>A poll keeps the engine's invariant: whatever the logs of the peers contain, however they are cut
  into buffers and whether the database takes the events or not.
\<close>

theorem replay_keeps_the_invariant:
  assumes "engine_inv (re_checks v) (rp_engine st)"
  shows "engine_inv (re_checks v) (rp_engine (backfill_logs v ps st))"
  using backfill_paths_inv [OF assms, of ps 0 0] by (simp add: backfill_logs_def case_prod_beta)

lemma slice_to_the_end:
  assumes "buffers_ok buf" and "m \<le> record_bytes (complete_records c)"
  shows "snd (read_log_envelope_chunk J buf n (Some c) m) \<le> record_bytes (complete_records c)"
proof -
  let ?e = "record_bytes (complete_records c)"
  note ends = end_part [OF refl, of c]
  have rs: "complete_records (drop m c) = complete_records (drop m (take ?e c))"
    using records_tail [of "drop ?e c" "drop m (take ?e c)"] ends assms(2)
    by (metis append_take_drop_id drop_append length_take min.absorb2 diff_is_0_eq drop0)
  have "complete (drop m (take ?e c))"
    using ends by (cases "drop m (take ?e c) = []") (auto simp: complete_def last_drop)
  then have "record_bytes (complete_records (drop m c)) = ?e - m" using rs complete_bytes ends by simp
  moreover have "record_bytes (take n rs) \<le> record_bytes rs" for rs
    by (metis append_take_drop_id le_add1 record_bytes_simps(3))
  ultimately have "m + record_bytes (take n (complete_records (drop m c))) \<le> ?e"
    using assms(2) by (metis add_le_cancel_left le_add_diff_inverse)
  with ends assms(2) show ?thesis by (simp add: chunk_exact [OF assms(1)] Let_def)
qed

lemma tail_offset: "buffers_ok buf \<Longrightarrow> n > 0 \<Longrightarrow> snd (read_log_tail_envelope_chunk J buf n (Some c)) = record_bytes (complete_records c)"
  using newest_slice [of buf n J c] by auto

lemma live_lane_end:
  assumes "buffers_ok (re_buffers v)"
  shows "om_get (rp_live (snd (live_lane v path (Some c) st))) path = Some (record_bytes (complete_records c))"
proof -
  let ?e = "record_bytes (complete_records c)"
  have n: "LOG_BACKFILL_SLICE_EVENTS > 0" by (simp add: LOG_BACKFILL_SLICE_EVENTS_def)
  note tail = tail_offset [OF assms n, of "re_json v" c]
  show ?thesis
  proof (cases "om_get (rp_live st) path")
    case None
    with tail show ?thesis by (simp add: live_lane_def complete_log_end_exact Let_def case_prod_beta om_get_put)
  next
    case (Some previous)
    have "previous \<le> ?e \<Longrightarrow> \<not> snd (read_log_envelope_chunk (re_json v) (re_buffers v) LOG_BACKFILL_SLICE_EVENTS (Some c) previous) < ?e
        \<Longrightarrow> snd (read_log_envelope_chunk (re_json v) (re_buffers v) LOG_BACKFILL_SLICE_EVENTS (Some c) previous) = ?e"
      using slice_to_the_end [OF assms, of previous c "re_json v" LOG_BACKFILL_SLICE_EVENTS] by simp
    with Some tail show ?thesis
      by (auto simp: live_lane_def complete_log_end_exact Let_def case_prod_beta om_get_put)
  qed
qed

lemma sequential_lane_offset:
  assumes "offset \<le> length c"
  shows "offset_of (snd (sequential_lane v path (Some c) offset st)) path =
    (let n = snd (sequential_poll (re_json v) (re_buffers v) c offset) in if n = offset then offset_of st path else n)"
  using assms
  by (auto simp: sequential_lane_def sequential_poll_def Let_def case_prod_beta contents_def offset_of_def om_get_put)

lemma poll_lanes:
  assumes "buffers_ok (re_buffers v)"
  shows "(let st' = snd (snd (backfill_log v path (Some c) st));
              from_here = (if offset_of st path > length c then 0 else offset_of st path);
              n = snd (sequential_poll (re_json v) (re_buffers v) c (offset_of st path))
          in om_get (rp_live st') path = Some (record_bytes (complete_records c))
             \<and> offset_of st' path = (if n = from_here then offset_of st path else n))"
proof -
  let ?o = "offset_of st path"
  let ?from = "if ?o > length c then 0 else ?o"
  let ?st1 = "snd (live_lane v path (Some c) st)"
  have same: "sequential_poll (re_json v) (re_buffers v) c ?o = sequential_poll (re_json v) (re_buffers v) c ?from"
    by (simp add: sequential_poll_def)
  show ?thesis
  proof (cases "?from = length c \<and> om_get (rp_live st) path = Some (complete_log_end (Some c))")
    case True
    then have "snd (snd (backfill_log v path (Some c) st)) = st" by (simp add: backfill_log_def contents_def Let_def)
    moreover have "snd (sequential_poll (re_json v) (re_buffers v) c ?from) = ?from"
      using True by (simp add: sequential_poll_def)
    ultimately show ?thesis using True by (simp add: same complete_log_end_exact Let_def)
  next
    case False
    then have "snd (snd (backfill_log v path (Some c) st)) = snd (sequential_lane v path (Some c) ?from ?st1)"
      unfolding backfill_log_def by (simp only: contents_def option.case Let_def if_False case_prod_beta fst_conv snd_conv)
    moreover have "offset_of ?st1 path = ?o" using lane_offsets(1) by (simp add: offset_of_def)
    moreover have "?from \<le> length c" by simp
    ultimately show ?thesis
      using live_lane_end [OF assms, of path c st] sequential_lane_offset [of ?from c v path ?st1] same
      by (simp add: lane_offsets(2) Let_def)
  qed
qed

text \<open>A poll moves both lanes of a log.  After a poll of a log the live lane stands at the end of the complete
  records, wherever it stood before, and the sequential lane has made the step of \<open>sequential_poll\<close>,
  except that a log that is shorter than the lane's offset and gives no record leaves the old offset.
\<close>

theorem poll_moves_both_lanes:
  assumes "buffers_ok (re_buffers v)"
  shows "(let st' = snd (snd (backfill_log v path (Some c) st));
              from_here = (if offset_of st path > length c then 0 else offset_of st path);
              n = snd (sequential_poll (re_json v) (re_buffers v) c (offset_of st path))
          in om_get (rp_live st') path = Some (record_bytes (complete_records c))
             \<and> offset_of st' path = (if n = from_here then offset_of st path else n))"
  using poll_lanes [OF assms] .

lemma poll_offset:
  assumes "buffers_ok (re_buffers v)" and "offset_of st path \<le> length c"
  shows "offset_of (snd (snd (backfill_log v path (Some c) st))) path =
    offset_of st path + record_bytes (take LOG_BACKFILL_SLICE_EVENTS (complete_records (drop (offset_of st path) c)))"
proof -
  let ?o = "offset_of st path"
  have "snd (sequential_poll (re_json v) (re_buffers v) c ?o) =
      ?o + record_bytes (take LOG_BACKFILL_SLICE_EVENTS (complete_records (drop ?o c)))"
    using assms(2) by (simp add: sequential_poll_def chunk_exact [OF assms(1)] Let_def records_none)
  with poll_lanes [OF assms(1), of path c st] assms(2) show ?thesis by (auto simp: Let_def split: if_splits)
qed

lemma backfill_log_fault:
  "re_fault v path = Some err \<Longrightarrow> rp_engine (snd (snd (backfill_log v path file st))) = rp_engine st"
  using lane_fault [of v path err] by (simp add: backfill_log_def Let_def case_prod_beta)

text \<open>A slice whose merge fails is not read again.  When the database refuses the events of a poll, the
  engine keeps none of them, and yet both lanes move: the sequential lane past the slice it has read,
  the live lane to the end.
\<close>

theorem failed_merge_is_not_retried:
  assumes "buffers_ok (re_buffers v)" and "re_fault v path = Some err" and "offset_of st path \<le> length c"
  shows "(let st' = snd (snd (backfill_log v path (Some c) st))
          in rp_engine st' = rp_engine st
             \<and> offset_of st' path = offset_of st path
                 + record_bytes (take LOG_BACKFILL_SLICE_EVENTS (complete_records (drop (offset_of st path) c)))
             \<and> om_get (rp_live st') path = Some (record_bytes (complete_records c)))"
  using backfill_log_fault [OF assms(2)] poll_offset [OF assms(1,3)] poll_lanes [OF assms(1), of path c st]
  by (simp add: Let_def)

text \<open>A truncation can be forgotten.  A poll that finds a log shorter than the sequential offset, with no
  complete record in it (an emptied log), does not reset the offset.  Where the log then grows beyond the old
  offset before the next poll, that poll reads on from the old offset and skips the records before it.
\<close>

theorem truncation_is_forgotten:
  assumes "buffers_ok (re_buffers v)" and "offset_of st path > length c" and "complete_records c = []"
    and "offset_of st path \<le> length d"
  shows "(let st' = snd (snd (backfill_log v path (Some c) st))
          in offset_of (snd (snd (backfill_log v path (Some d) st'))) path = offset_of st path
               + record_bytes (take LOG_BACKFILL_SLICE_EVENTS (complete_records (drop (offset_of st path) d))))"
proof -
  let ?st = "snd (snd (backfill_log v path (Some c) st))"
  have "snd (sequential_poll (re_json v) (re_buffers v) c (offset_of st path)) = 0"
    using assms(2,3) by (simp add: sequential_poll_def chunk_exact [OF assms(1)] Let_def)
  then have "offset_of ?st path = offset_of st path"
    using poll_lanes [OF assms(1), of path c st] assms(2) by (simp add: Let_def)
  with poll_offset [OF assms(1), of ?st path d] assms(4) show ?thesis by (simp add: Let_def)
qed

section \<open>Examples\<close>

definition env0 :: replay_env where
  "env0 = \<lparr>re_checks = checks0, re_json = json0, re_buffers = (\<lambda>s. [s]), re_fault = (\<lambda>_. Some ''disk full'')\<rparr>"

definition replay0 :: "(string, nat) omap \<Rightarrow> replay" where
  "replay0 os = \<lparr>rp_engine = eng0, rp_offsets = os, rp_live = om_empty, rp_prefer_recent = True,
     rp_touched = {}, rp_changed = False\<rparr>"

abbreviation two_records :: string where
  "two_records \<equiv> ''ab'' @ [newline] @ ''c'' @ [newline] @ ''torn''"

lemma one_buffer: "buffers_ok (\<lambda>s. [s])"
  by (simp add: buffers_ok_def)

lemma env0_buffers: "buffers_ok (re_buffers env0)"
  by (simp add: env0_def one_buffer)

theorem slice_is_the_next_records_witness:
  "read_log_envelope_chunk json0 (\<lambda>s. [s]) 1 (Some two_records) 3 =
    (List.map_filter (decode_record json0) (take 1 (complete_records (drop 3 two_records))),
     min 3 (length two_records) + record_bytes (take 1 (complete_records (drop 3 two_records))))"
  by (rule slice_is_the_next_records [OF one_buffer])

theorem growing_log_is_read_once_witness:
  "fst (sequential_polls json0 (\<lambda>s. [s]) [''a''] 0)
      = List.map_filter (decode_record json0) (take (records_read [''a''] 0) (complete_records (''ab'' @ [newline])))
    \<and> sequential_polls json0 (\<lambda>s. [s]) ([''a''] @ replicate 1 (''ab'' @ [newline])) 0
      = (List.map_filter (decode_record json0) (complete_records (''ab'' @ [newline])), record_bytes (complete_records (''ab'' @ [newline])))"
  by (rule growing_log_is_read_once [OF one_buffer])
    (simp_all add: grows_def complete_records_def LOG_BACKFILL_SLICE_EVENTS_def)

theorem newest_slice_reaches_the_end_witness:
  "\<exists>j. read_log_tail_envelope_chunk json0 (\<lambda>s. [s]) 1 (Some two_records) =
      (List.map_filter (decode_record json0) (drop (length (complete_records two_records) - j) (complete_records two_records)),
       record_bytes (complete_records two_records))
    \<and> j \<le> 1 \<and> (fits (complete_records two_records) \<longrightarrow> j = min 1 (length (complete_records two_records)))"
  by (rule newest_slice_reaches_the_end [OF one_buffer]) simp

theorem replay_keeps_the_invariant_witness:
  "engine_inv (re_checks env0) (rp_engine (backfill_logs env0 [(''a.jsonl'', Some two_records)] (replay0 om_empty)))"
  by (rule replay_keeps_the_invariant) (simp add: env0_def replay0_def eng0_inv)

theorem poll_moves_both_lanes_witness:
  "(let st' = snd (snd (backfill_log env0 ''p'' (Some two_records) (replay0 om_empty)));
        from_here = (if offset_of (replay0 om_empty) ''p'' > length two_records then 0 else offset_of (replay0 om_empty) ''p'');
        n = snd (sequential_poll (re_json env0) (re_buffers env0) two_records (offset_of (replay0 om_empty) ''p''))
    in om_get (rp_live st') ''p'' = Some (record_bytes (complete_records two_records))
       \<and> offset_of st' ''p'' = (if n = from_here then offset_of (replay0 om_empty) ''p'' else n))"
  by (rule poll_moves_both_lanes [OF env0_buffers])

theorem failed_merge_is_not_retried_witness:
  "(let st' = snd (snd (backfill_log env0 ''p'' (Some two_records) (replay0 om_empty)))
    in rp_engine st' = rp_engine (replay0 om_empty)
       \<and> offset_of st' ''p'' = offset_of (replay0 om_empty) ''p''
           + record_bytes (take LOG_BACKFILL_SLICE_EVENTS (complete_records (drop (offset_of (replay0 om_empty) ''p'') two_records)))
       \<and> om_get (rp_live st') ''p'' = Some (record_bytes (complete_records two_records)))"
  by (rule failed_merge_is_not_retried [OF env0_buffers])
    (simp_all add: env0_def replay0_def offset_of_def)

theorem truncation_is_forgotten_witness:
  "(let st' = snd (snd (backfill_log env0 ''p'' (Some []) (replay0 [(''p'', 3)])))
    in offset_of (snd (snd (backfill_log env0 ''p'' (Some two_records) st'))) ''p'' = offset_of (replay0 [(''p'', 3)]) ''p''
         + record_bytes (take LOG_BACKFILL_SLICE_EVENTS (complete_records (drop (offset_of (replay0 [(''p'', 3)]) ''p'') two_records))))"
  by (rule truncation_is_forgotten [OF env0_buffers])
    (simp_all add: replay0_def offset_of_def om_get_def records_none)

end
