(* ===== verification/TransferContract.thy ===== *)
theory TransferContract
  imports CollabCommands
begin

text \<open>
  The contract of one transfer job (\<open>crates/shared/mde-collab-types/src/transfer_v2.rs\<close>): opaque
  references, routes, operations, progress, the admission of a job and the controls of its life, and the
  projection of an admitted job into the row of the older Files view (\<open>transfer.rs\<close>).  The results: what
  admission decides, which jobs project, and how the controls relate to those of the collaboration
  commands.  A string is its UTF-8 bytes.
\<close>

section \<open>Bounds\<close>

definition TRANSFER_JOB_V2_SCHEMA_VERSION :: u16 where
  "TRANSFER_JOB_V2_SCHEMA_VERSION = 2"

definition MAX_TRANSFER_JOB_V2_JSON_BYTES :: nat where
  "MAX_TRANSFER_JOB_V2_JSON_BYTES = 256 * 1024"

definition MAX_TRANSFER_OPAQUE_REF_BYTES :: nat where
  "MAX_TRANSFER_OPAQUE_REF_BYTES = 128"

definition MAX_TRANSFER_ERROR_DETAIL_BYTES :: nat where
  "MAX_TRANSFER_ERROR_DETAIL_BYTES = 256"

definition MAX_TRANSFER_ATTEMPTS :: u16 where
  "MAX_TRANSFER_ATTEMPTS = 32"

definition MAX_TRANSFER_RATE_BYTES_PER_SECOND :: u64 where
  "MAX_TRANSFER_RATE_BYTES_PER_SECOND = 1000000000000"

definition MAX_TRANSFER_BANDWIDTH_BYTES_PER_SECOND :: u64 where
  "MAX_TRANSFER_BANDWIDTH_BYTES_PER_SECOND = 1000000000000"

definition MAX_TRANSFER_RECURRENCE_SECONDS :: u64 where
  "MAX_TRANSFER_RECURRENCE_SECONDS = 366 * 24 * 60 * 60"

definition MAX_TRANSFER_RECURRENCE_RUNS :: u32 where
  "MAX_TRANSFER_RECURRENCE_RUNS = 10000"

definition MAX_TRANSFER_CONTENT_TYPE_BYTES :: nat where
  "MAX_TRANSFER_CONTENT_TYPE_BYTES = 128"

lemmas transfer_bounds =
  MAX_TRANSFER_CONTENT_BYTES_def MAX_TRANSFER_ATTEMPTS_def MAX_TRANSFER_RATE_BYTES_PER_SECOND_def
  MAX_TRANSFER_BANDWIDTH_BYTES_PER_SECOND_def MAX_TRANSFER_RECURRENCE_SECONDS_def
  MAX_TRANSFER_RECURRENCE_RUNS_def MAX_TRANSFER_CONTENT_TYPE_BYTES_def MAX_TRANSFER_OPAQUE_REF_BYTES_def
  MAX_TRANSFER_ERROR_DETAIL_BYTES_def TRANSFER_JOB_V2_SCHEMA_VERSION_def MAX_TRANSFER_JOB_V2_JSON_BYTES_def

section \<open>The job\<close>

datatype transfer_kind =
  KLocal | KMesh | KRsync | KSftp | KHttp | KScrape | KMultipart | KRecurring | KClipboard

datatype transfer_location =
    LocalAt (at_object: file_ref_id)
  | MeshAt string (at_object: file_ref_id)
  | RsyncAt string string
  | SftpAt string string
  | HttpAt string string
  | ScrapeAt string string
  | MultipartAt string string
  | ClipboardAt string payload_ref

datatype location_family = FLocal | FMesh | FRsync | FSftp | FHttp | FScrape | FMultipart | FClipboard

fun family :: "transfer_location \<Rightarrow> location_family" where
  "family (LocalAt _) = FLocal"
| "family (MeshAt _ _) = FMesh"
| "family (RsyncAt _ _) = FRsync"
| "family (SftpAt _ _) = FSftp"
| "family (HttpAt _ _) = FHttp"
| "family (ScrapeAt _ _) = FScrape"
| "family (MultipartAt _ _) = FMultipart"
| "family (ClipboardAt _ _) = FClipboard"

record transfer_endpoint =
  ep_source :: transfer_location
  ep_destination :: transfer_location

datatype scrape_output = OneFile | Archive | Manifest

record recurring_schedule =
  rs_every :: u64
  rs_max_runs :: "u32 option"

datatype transfer_operation =
    OpCopy transfer_direction
  | OpSync transfer_direction bool
  | OpDownload
  | OpUpload
  | OpScrape scrape_output
  | OpMirror recurring_schedule
  | OpPublishClipboard

datatype checksum_mode = ChecksumOff | ChecksumVerify | ChecksumRequire

record checksum_policy =
  ck_mode :: checksum_mode
  ck_expected :: "string option"

definition checksum_off :: checksum_policy where
  "checksum_off = \<lparr>ck_mode = ChecksumOff, ck_expected = None\<rparr>"

definition checksum_verify :: checksum_policy where
  "checksum_verify = \<lparr>ck_mode = ChecksumVerify, ck_expected = None\<rparr>"

datatype transfer_phase =
    PhQueued | PhResolving | PhConnecting | PhTransferring | PhVerifying | PhFinalizing | PhPaused
  | PhRetrying | PhCompleted | PhCanceled | PhFailed

datatype transfer_error_code =
    EcReferenceUnavailable | EcProfileUnavailable | EcRemoteRejected | EcConnection | EcTimeout
  | EcPermissionDenied | EcChecksumMismatch | EcProtocol | EcUnsupported | EcInvalidRequest
  | EcCanceled | EcInternal

record transfer_error =
  te_code :: transfer_error_code
  te_retryable :: bool
  te_detail :: "string option"

record transfer_progress =
  tp_done :: u64
  tp_total :: "u64 option"
  tp_rate :: "u64 option"
  tp_phase :: transfer_phase
  tp_attempt :: u16
  tp_error :: "transfer_error option"

definition progress_queued :: transfer_progress where
  "progress_queued =
     \<lparr>tp_done = 0, tp_total = None, tp_rate = None, tp_phase = PhQueued, tp_attempt = 0, tp_error = None\<rparr>"

record transfer_job =
  tj_schema :: u16
  tj_transfer :: transfer_id
  tj_kind :: transfer_kind
  tj_endpoint :: transfer_endpoint
  tj_operation :: transfer_operation
  tj_state :: transfer_state
  tj_progress :: transfer_progress
  tj_checksum :: checksum_policy
  tj_bandwidth :: "u64 option"
  tj_created :: u64
  tj_updated :: u64

datatype transfer_invalid =
    UnsupportedSchema u16
  | NilTransferId
  | InvalidTimestamp
  | OutOfBounds string u64
  | InvalidProgress string
  | InvalidEndpoint string
  | InvalidOperation string
  | KindOperationMismatch transfer_kind
  | InvalidChecksum
  | ForbiddenTransferValue string

type_synonym admission_result = "(transfer_invalid, unit) result"

section \<open>Texts\<close>

definition is_lower_sha256 :: "string \<Rightarrow> bool" where
  "is_lower_sha256 v \<longleftrightarrow>
     length v = 64 \<and> list_all (\<lambda>c. is_ascii_hexdigit c \<and> \<not> (CHR ''A'' \<le> c \<and> c \<le> CHR ''Z'')) v"

definition contains_secret_word :: "string \<Rightarrow> bool" where
  "contains_secret_word v \<longleftrightarrow>
     list_ex (contains_str (map to_ascii_lowercase v))
       [''password'', ''passwd'', ''secret'', ''credential'', ''authorization'', ''cookie'', ''token'',
        ''private_key'', ''apikey'']"

text \<open>
  \<open>char::is_control\<close> on the bytes of a text: the two ranges of one byte, and U+0080 to U+009F, which
  are a byte C2 (always the first of a character) before a byte up to 9F.
\<close>

fun has_control :: "string \<Rightarrow> bool" where
  "has_control [] = False"
| "has_control (c # s) =
     (of_char c < (32 :: nat) \<or> of_char c = (127 :: nat)
      \<or> of_char c = (0xC2 :: nat) \<and> s \<noteq> [] \<and> of_char (hd s) \<le> (0x9F :: nat)
      \<or> has_control s)"

definition contains_forbidden_error_value :: "string \<Rightarrow> bool" where
  "contains_forbidden_error_value v \<longleftrightarrow>
     has_control v
     \<or> list_ex (\<lambda>c. c \<in> set ''/$`;|&<>'' \<or> c = CHR 0x5C) v
     \<or> contains_str v ''://'' \<or> contains_secret_word v"

datatype ref_invalid = InvalidReference string | ForbiddenRefValue string

definition validate_opaque_ref :: "string \<Rightarrow> string \<Rightarrow> (ref_invalid, unit) result" where
  "validate_opaque_ref field v =
     (if v = [] \<or> length v > MAX_TRANSFER_OPAQUE_REF_BYTES
         \<or> \<not> (is_ascii_alnum (hd v) \<and> list_all (\<lambda>c. is_ascii_alnum c \<or> c \<in> set ''-_.'') (tl v))
         \<or> v = ''.'' \<or> v = ''..''
      then Inl (InvalidReference field) else Inr ())"

definition node_ref_new :: "string \<Rightarrow> (ref_invalid, string) result" where
  "node_ref_new v = bind_res (validate_opaque_ref ''node'' v) (\<lambda>_. Inr v)"

definition profile_ref_new :: "string \<Rightarrow> (ref_invalid, string) result" where
  "profile_ref_new v =
     (if contains_secret_word v then Inl (ForbiddenRefValue ''profile'')
      else bind_res (validate_opaque_ref ''profile'' v) (\<lambda>_. Inr v))"

definition resource_ref_new :: "string \<Rightarrow> (ref_invalid, string) result" where
  "resource_ref_new v = bind_res (validate_opaque_ref ''resource'' v) (\<lambda>_. Inr v)"

text \<open>The references of a location are values of their types: each came from its constructor.\<close>

fun location_refs_ok :: "transfer_location \<Rightarrow> bool" where
  "location_refs_ok (LocalAt _) = True"
| "location_refs_ok (MeshAt n _) = (\<not> isl (node_ref_new n))"
| "location_refs_ok (RsyncAt p r) = (\<not> isl (profile_ref_new p) \<and> \<not> isl (resource_ref_new r))"
| "location_refs_ok (SftpAt p r) = (\<not> isl (profile_ref_new p) \<and> \<not> isl (resource_ref_new r))"
| "location_refs_ok (HttpAt p r) = (\<not> isl (profile_ref_new p) \<and> \<not> isl (resource_ref_new r))"
| "location_refs_ok (ScrapeAt p r) = (\<not> isl (profile_ref_new p) \<and> \<not> isl (resource_ref_new r))"
| "location_refs_ok (MultipartAt p r) = (\<not> isl (profile_ref_new p) \<and> \<not> isl (resource_ref_new r))"
| "location_refs_ok (ClipboardAt p _) = (\<not> isl (profile_ref_new p))"

section \<open>Admission\<close>

definition validate_schedule :: "recurring_schedule \<Rightarrow> admission_result" where
  "validate_schedule s =
     (if rs_every s = 0 \<or> rs_every s > MAX_TRANSFER_RECURRENCE_SECONDS
      then Inl (OutOfBounds ''operation.options.schedule.every_seconds'' MAX_TRANSFER_RECURRENCE_SECONDS)
      else if rs_max_runs s = Some 0
              \<or> (case rs_max_runs s of None \<Rightarrow> False | Some n \<Rightarrow> n > MAX_TRANSFER_RECURRENCE_RUNS)
      then Inl (OutOfBounds ''operation.options.schedule.max_runs'' (ucast MAX_TRANSFER_RECURRENCE_RUNS))
      else Inr ())"

definition validate_checksum :: "checksum_policy \<Rightarrow> admission_result" where
  "validate_checksum c =
     (if (case ck_expected c of None \<Rightarrow> False | Some d \<Rightarrow> \<not> is_lower_sha256 d) then Inl InvalidChecksum
      else case (ck_mode c, ck_expected c \<noteq> None) of
             (ChecksumOff, True) \<Rightarrow> Inl InvalidChecksum
           | (ChecksumRequire, False) \<Rightarrow> Inl InvalidChecksum
           | _ \<Rightarrow> Inr ())"

definition validate_error :: "transfer_error \<Rightarrow> admission_result" where
  "validate_error e =
     (case te_detail e of
        None \<Rightarrow> Inr ()
      | Some d \<Rightarrow>
          if d = [] \<or> length d > MAX_TRANSFER_ERROR_DETAIL_BYTES
          then Inl (OutOfBounds ''progress.error.detail'' (of_nat MAX_TRANSFER_ERROR_DETAIL_BYTES))
          else if contains_forbidden_error_value d
          then Inl (ForbiddenTransferValue ''progress.error.detail'')
          else Inr ())"

definition phase_requires_attempt :: "transfer_phase \<Rightarrow> bool" where
  "phase_requires_attempt p \<longleftrightarrow>
     p \<in> {PhResolving, PhConnecting, PhTransferring, PhVerifying, PhFinalizing, PhRetrying, PhCompleted, PhFailed}"

definition validate_progress :: "transfer_progress \<Rightarrow> admission_result" where
  "validate_progress p =
     bind_res (ensure (tp_done p \<le> MAX_TRANSFER_CONTENT_BYTES)
       (OutOfBounds ''progress.bytes_done'' MAX_TRANSFER_CONTENT_BYTES)) (\<lambda>_.
     bind_res (ensure (case tp_total p of None \<Rightarrow> True
                       | Some t \<Rightarrow> \<not> (t > MAX_TRANSFER_CONTENT_BYTES \<or> tp_done p > t))
       (InvalidProgress ''progress.total_bytes'')) (\<lambda>_.
     bind_res (ensure (case tp_rate p of None \<Rightarrow> True
                       | Some r \<Rightarrow> \<not> (r = 0 \<or> r > MAX_TRANSFER_RATE_BYTES_PER_SECOND))
       (OutOfBounds ''progress.bytes_per_second'' MAX_TRANSFER_RATE_BYTES_PER_SECOND)) (\<lambda>_.
     bind_res (ensure (tp_attempt p \<le> MAX_TRANSFER_ATTEMPTS)
       (OutOfBounds ''progress.attempt'' (ucast MAX_TRANSFER_ATTEMPTS))) (\<lambda>_.
     bind_res (case tp_error p of None \<Rightarrow> Inr () | Some e \<Rightarrow> validate_error e) (\<lambda>_.
     bind_res (ensure (\<not> (phase_requires_attempt (tp_phase p) \<and> tp_attempt p = 0))
       (InvalidProgress ''progress.attempt'')) (\<lambda>_.
     bind_res (ensure (\<not> (tp_phase p \<in> {PhQueued, PhPaused, PhCanceled} \<and> tp_error p \<noteq> None))
       (InvalidProgress ''progress.error'')) (\<lambda>_.
     bind_res (ensure (\<not> (tp_phase p = PhFailed \<and> tp_error p = None))
       (InvalidProgress ''progress.error'')) (\<lambda>_.
     bind_res (ensure (\<not> (tp_error p \<noteq> None \<and> tp_phase p \<notin> {PhRetrying, PhFailed}))
       (InvalidProgress ''progress.error'')) (\<lambda>_.
     bind_res (ensure (\<not> (tp_phase p = PhRetrying \<and> tp_error p = None))
       (InvalidProgress ''progress.error'')) (\<lambda>_.
     ensure (\<not> (tp_phase p = PhCompleted
                \<and> (case tp_total p of None \<Rightarrow> False | Some t \<Rightarrow> tp_done p \<noteq> t)))
       (InvalidProgress ''progress.bytes_done'')))))))))))"

definition validate_payload_ref :: "payload_ref \<Rightarrow> string \<Rightarrow> admission_result" where
  "validate_payload_ref p field =
     (if pr_len p > MAX_TRANSFER_CONTENT_BYTES \<or> \<not> is_lower_sha256 (pr_sha256 p)
      then Inl (InvalidEndpoint field)
      else case pr_content_type p of
             None \<Rightarrow> Inr ()
           | Some t \<Rightarrow>
               if t = [] \<or> length t > MAX_TRANSFER_CONTENT_TYPE_BYTES
                  \<or> list_ex (\<lambda>c. of_char c < (32 :: nat) \<or> of_char c = (127 :: nat) \<or> c = CHR 0x5C) t
                  \<or> contains_str t ''://''
               then Inl (ForbiddenTransferValue field) else Inr ())"

fun validate_location :: "transfer_location \<Rightarrow> string \<Rightarrow> admission_result" where
  "validate_location (LocalAt f) field = ensure (f \<noteq> 0) (InvalidEndpoint field)"
| "validate_location (MeshAt _ f) field = ensure (f \<noteq> 0) (InvalidEndpoint field)"
| "validate_location (ClipboardAt _ p) field = validate_payload_ref p field"
| "validate_location _ field = Inr ()"

definition validate_endpoint :: "transfer_endpoint \<Rightarrow> admission_result" where
  "validate_endpoint e =
     bind_res (validate_location (ep_source e) ''endpoint.source'') (\<lambda>_.
     bind_res (validate_location (ep_destination e) ''endpoint.destination'') (\<lambda>_. Inr ()))"

fun validate_operation :: "transfer_operation \<Rightarrow> admission_result" where
  "validate_operation (OpMirror s) = validate_schedule s"
| "validate_operation _ = Inr ()"

fun is_copy :: "transfer_operation \<Rightarrow> bool" where
  "is_copy (OpCopy _) = True" | "is_copy _ = False"

fun is_sync :: "transfer_operation \<Rightarrow> bool" where
  "is_sync (OpSync _ _) = True" | "is_sync _ = False"

fun is_scrape :: "transfer_operation \<Rightarrow> bool" where
  "is_scrape (OpScrape _) = True" | "is_scrape _ = False"

fun is_mirror :: "transfer_operation \<Rightarrow> bool" where
  "is_mirror (OpMirror _) = True" | "is_mirror _ = False"

fun route_valid :: "transfer_kind \<Rightarrow> location_family \<Rightarrow> location_family \<Rightarrow> transfer_operation \<Rightarrow> bool" where
  "route_valid KLocal s d opn = (is_copy opn \<and> s = FLocal \<and> d = FLocal)"
| "route_valid KMesh s d opn = (is_copy opn \<and> (s = FMesh \<or> d = FMesh))"
| "route_valid KRsync s d opn = (is_sync opn \<and> s \<notin> {FHttp, FScrape} \<and> d \<notin> {FHttp, FScrape})"
| "route_valid KSftp s d opn =
     ((is_copy opn \<or> opn = OpDownload \<or> opn = OpUpload) \<and> (s = FSftp \<or> d = FSftp))"
| "route_valid KHttp s d opn = (opn = OpDownload \<and> s = FHttp)"
| "route_valid KScrape s d opn = (is_scrape opn \<and> s = FScrape)"
| "route_valid KMultipart s d opn = (opn = OpUpload \<and> d = FMultipart)"
| "route_valid KRecurring s d opn =
     (is_mirror opn \<and> s \<notin> {FHttp, FScrape, FClipboard, FMultipart}
      \<and> d \<notin> {FHttp, FScrape, FClipboard, FMultipart})"
| "route_valid KClipboard s d opn = (opn = OpPublishClipboard \<and> s = FClipboard)"

definition validate_kind_route_operation ::
  "transfer_kind \<Rightarrow> transfer_endpoint \<Rightarrow> transfer_operation \<Rightarrow> admission_result" where
  "validate_kind_route_operation k e opn =
     ensure (route_valid k (family (ep_source e)) (family (ep_destination e)) opn) (KindOperationMismatch k)"

fun phase_fits :: "transfer_state \<Rightarrow> transfer_phase \<Rightarrow> bool" where
  "phase_fits Queued p = (p = PhQueued)"
| "phase_fits Active p =
     (p \<in> {PhResolving, PhConnecting, PhTransferring, PhVerifying, PhFinalizing, PhRetrying})"
| "phase_fits Paused p = (p = PhPaused)"
| "phase_fits Completed p = (p = PhCompleted)"
| "phase_fits TransferFailed p = (p = PhFailed)"
| "phase_fits Canceled p = (p = PhCanceled)"

definition validate_state_progress :: "transfer_state \<Rightarrow> transfer_progress \<Rightarrow> admission_result" where
  "validate_state_progress st p = ensure (phase_fits st (tp_phase p)) (InvalidProgress ''state/progress.phase'')"

definition validate_job :: "transfer_job \<Rightarrow> admission_result" where
  "validate_job j =
     bind_res (ensure (tj_schema j = TRANSFER_JOB_V2_SCHEMA_VERSION) (UnsupportedSchema (tj_schema j))) (\<lambda>_.
     bind_res (ensure (tj_transfer j \<noteq> 0) NilTransferId) (\<lambda>_.
     bind_res (ensure (\<not> tj_updated j < tj_created j) InvalidTimestamp) (\<lambda>_.
     bind_res (ensure (case tj_bandwidth j of None \<Rightarrow> True
                       | Some l \<Rightarrow> \<not> (l = 0 \<or> l > MAX_TRANSFER_BANDWIDTH_BYTES_PER_SECOND))
       (OutOfBounds ''bandwidth_limit_bytes_per_second'' MAX_TRANSFER_BANDWIDTH_BYTES_PER_SECOND)) (\<lambda>_.
     bind_res (validate_endpoint (tj_endpoint j)) (\<lambda>_.
     bind_res (validate_operation (tj_operation j)) (\<lambda>_.
     bind_res (validate_checksum (tj_checksum j)) (\<lambda>_.
     bind_res (validate_progress (tj_progress j)) (\<lambda>_.
     bind_res (validate_kind_route_operation (tj_kind j) (tj_endpoint j) (tj_operation j)) (\<lambda>_.
     bind_res (validate_state_progress (tj_state j) (tj_progress j)) (\<lambda>_. Inr ()))))))))))"

definition admitted :: "transfer_job \<Rightarrow> (transfer_invalid, transfer_job) result" where
  "admitted j = bind_res (validate_job j) (\<lambda>_. Inr j)"

definition job_new ::
  "transfer_id \<Rightarrow> transfer_kind \<Rightarrow> transfer_endpoint \<Rightarrow> transfer_operation \<Rightarrow> checksum_policy
     \<Rightarrow> u64 option \<Rightarrow> u64 \<Rightarrow> (transfer_invalid, transfer_job) result" where
  "job_new t k e opn ck bw created =
     admitted \<lparr>tj_schema = TRANSFER_JOB_V2_SCHEMA_VERSION, tj_transfer = t, tj_kind = k, tj_endpoint = e,
               tj_operation = opn, tj_state = Queued, tj_progress = progress_queued, tj_checksum = ck,
               tj_bandwidth = bw, tj_created = created, tj_updated = created\<rparr>"

text \<open>
  \<open>decode\<close> is the JSON reader of the wire fields; a reference that its type refuses is an error of it.
\<close>

datatype job_decode_error = BodyTooLarge nat nat | JsonError | ValidationError transfer_invalid

definition from_json_bytes ::
  "(string \<Rightarrow> transfer_job option) \<Rightarrow> string \<Rightarrow> (job_decode_error, transfer_job) result" where
  "from_json_bytes decode body =
     (if length body > MAX_TRANSFER_JOB_V2_JSON_BYTES
      then Inl (BodyTooLarge (length body) MAX_TRANSFER_JOB_V2_JSON_BYTES)
      else case decode body of
             None \<Rightarrow> Inl JsonError
           | Some j \<Rightarrow>
               if location_refs_ok (ep_source (tj_endpoint j)) \<and> location_refs_ok (ep_destination (tj_endpoint j))
               then (case admitted j of Inl e \<Rightarrow> Inl (ValidationError e) | Inr k \<Rightarrow> Inr k)
               else Inl JsonError)"

section \<open>Controls\<close>

datatype control_v2 = PauseV2 | ResumeV2 | RetryV2 | CancelV2

fun is_allowed :: "control_v2 \<Rightarrow> transfer_state \<Rightarrow> bool" where
  "is_allowed PauseV2 st = (st \<in> {Queued, Active})"
| "is_allowed ResumeV2 st = (st = Paused)"
| "is_allowed RetryV2 st = (st \<in> {TransferFailed, Canceled})"
| "is_allowed CancelV2 st = (st \<in> {Queued, Active, Paused})"

definition can_control :: "transfer_job \<Rightarrow> control_v2 \<Rightarrow> bool" where
  "can_control j c = is_allowed c (tj_state j)"

fun control_from_v1 :: "transfer_control \<Rightarrow> control_v2" where
  "control_from_v1 Pause = PauseV2"
| "control_from_v1 Resume = ResumeV2"
| "control_from_v1 Cancel = CancelV2"

text \<open>What the collaboration commands allow the jobs allow; the jobs also let a queued transfer be paused.\<close>

lemma controls_agree:
  "is_allowed (control_from_v1 c) st \<longleftrightarrow>
     \<not> isl (next_transfer_state t st c) \<or> st = Queued \<and> c = Pause"
  by (cases c; cases st) simp_all

section \<open>The row of the Files view\<close>

record transfer_job_view =
  tv_transfer :: transfer_id
  tv_file :: file_ref_id
  tv_method :: transfer_method
  tv_direction :: transfer_direction
  tv_state :: transfer_state
  tv_moved :: u64
  tv_total :: u64

datatype ledger_admission_error =
    InvalidV2 transfer_invalid
  | UnsupportedKind transfer_kind
  | UnsupportedOperation transfer_kind
  | MissingFileReference transfer_direction

fun legacy_method :: "transfer_kind \<Rightarrow> (ledger_admission_error, transfer_method) result" where
  "legacy_method KMesh = Inr NodeTransfer"
| "legacy_method KRsync = Inr Rsync"
| "legacy_method KSftp = Inr Sftp"
| "legacy_method KHttp = Inr Http"
| "legacy_method KScrape = Inr BrowserDownload"
| "legacy_method k = Inl (UnsupportedKind k)"

definition legacy_direction ::
  "transfer_kind \<Rightarrow> transfer_operation \<Rightarrow> (ledger_admission_error, transfer_direction) result" where
  "legacy_direction k opn =
     (case opn of
        OpCopy d \<Rightarrow> if k \<in> {KMesh, KRsync, KSftp} then Inr d else Inl (UnsupportedOperation k)
      | OpSync d _ \<Rightarrow> if k \<in> {KMesh, KRsync, KSftp} then Inr d else Inl (UnsupportedOperation k)
      | OpDownload \<Rightarrow> if k \<in> {KSftp, KHttp} then Inr Inbound else Inl (UnsupportedOperation k)
      | OpScrape _ \<Rightarrow> if k = KScrape then Inr Inbound else Inl (UnsupportedOperation k)
      | OpUpload \<Rightarrow> if k = KSftp then Inr Outbound else Inl (UnsupportedOperation k)
      | _ \<Rightarrow> Inl (UnsupportedOperation k))"

fun location_file :: "transfer_location \<Rightarrow> file_ref_id option" where
  "location_file (LocalAt f) = Some f"
| "location_file (MeshAt _ f) = Some f"
| "location_file _ = None"

definition file_on_direction_side :: "transfer_job \<Rightarrow> transfer_direction \<Rightarrow> file_ref_id option" where
  "file_on_direction_side j d =
     location_file (case d of Inbound \<Rightarrow> ep_destination (tj_endpoint j) | Outbound \<Rightarrow> ep_source (tj_endpoint j))"

definition admit_v2_job :: "transfer_job \<Rightarrow> (ledger_admission_error, transfer_job_view) result" where
  "admit_v2_job j =
     (case validate_job j of
        Inl e \<Rightarrow> Inl (InvalidV2 e)
      | Inr _ \<Rightarrow>
          bind_res (legacy_method (tj_kind j)) (\<lambda>method.
          bind_res (legacy_direction (tj_kind j) (tj_operation j)) (\<lambda>direction.
          case file_on_direction_side j direction of
            None \<Rightarrow> Inl (MissingFileReference direction)
          | Some file \<Rightarrow>
              Inr \<lparr>tv_transfer = tj_transfer j, tv_file = file, tv_method = method, tv_direction = direction,
                   tv_state = tj_state j, tv_moved = tp_done (tj_progress j),
                   tv_total = (case tp_total (tj_progress j) of None \<Rightarrow> 0 | Some t \<Rightarrow> t)\<rparr>)))"

section \<open>What admission decides\<close>

definition detail_ok :: "transfer_error \<Rightarrow> bool" where
  "detail_ok e \<longleftrightarrow>
     (\<forall>d. te_detail e = Some d \<longrightarrow>
        d \<noteq> [] \<and> length d \<le> MAX_TRANSFER_ERROR_DETAIL_BYTES \<and> \<not> contains_forbidden_error_value d)"

definition progress_ok :: "transfer_progress \<Rightarrow> bool" where
  "progress_ok p \<longleftrightarrow>
     tp_done p \<le> MAX_TRANSFER_CONTENT_BYTES
     \<and> (\<forall>t. tp_total p = Some t \<longrightarrow> tp_done p \<le> t \<and> t \<le> MAX_TRANSFER_CONTENT_BYTES
              \<and> (tp_phase p = PhCompleted \<longrightarrow> tp_done p = t))
     \<and> (\<forall>r. tp_rate p = Some r \<longrightarrow> 0 < r \<and> r \<le> MAX_TRANSFER_RATE_BYTES_PER_SECOND)
     \<and> tp_attempt p \<le> MAX_TRANSFER_ATTEMPTS
     \<and> (phase_requires_attempt (tp_phase p) \<longrightarrow> 0 < tp_attempt p)
     \<and> (tp_error p \<noteq> None \<longleftrightarrow> tp_phase p \<in> {PhRetrying, PhFailed})
     \<and> (\<forall>e. tp_error p = Some e \<longrightarrow> detail_ok e)"

lemma validate_error_ok: "validate_error e = Inr u \<longleftrightarrow> detail_ok e"
  by (auto simp: validate_error_def detail_ok_def split: option.splits)

lemma bind_unit_Inr: "bind_res r f = Inr b \<longleftrightarrow> r = Inr () \<and> f () = Inr b"
  by (cases r) simp_all

lemma error_guards:
  "\<not> (p \<in> {PhQueued, PhPaused, PhCanceled} \<and> b) \<and> \<not> (p = PhFailed \<and> \<not> b)
     \<and> \<not> (b \<and> p \<notin> {PhRetrying, PhFailed}) \<and> \<not> (p = PhRetrying \<and> \<not> b)
     \<longleftrightarrow> (b \<longleftrightarrow> p \<in> {PhRetrying, PhFailed})"
  by (cases p) simp_all

lemma validate_progress_ok: "validate_progress p = Inr u \<longleftrightarrow> progress_ok p"
proof -
  have e: "(case tp_error p of None \<Rightarrow> Inr () | Some e \<Rightarrow> validate_error e) = Inr () \<longleftrightarrow>
      (\<forall>e. tp_error p = Some e \<longrightarrow> detail_ok e)"
    by (simp add: validate_error_ok split: option.splits)
  have t: "(case tp_total p of None \<Rightarrow> True | Some t \<Rightarrow> \<not> (t > MAX_TRANSFER_CONTENT_BYTES \<or> tp_done p > t)) \<longleftrightarrow>
      (\<forall>t. tp_total p = Some t \<longrightarrow> tp_done p \<le> t \<and> t \<le> MAX_TRANSFER_CONTENT_BYTES)"
    by (auto simp: not_less split: option.splits)
  have r: "(case tp_rate p of None \<Rightarrow> True | Some r \<Rightarrow> \<not> (r = 0 \<or> r > MAX_TRANSFER_RATE_BYTES_PER_SECOND)) \<longleftrightarrow>
      (\<forall>r. tp_rate p = Some r \<longrightarrow> 0 < r \<and> r \<le> MAX_TRANSFER_RATE_BYTES_PER_SECOND)"
    by (auto simp: not_less word_neq_0_conv split: option.splits)
  have c: "(case tp_total p of None \<Rightarrow> False | Some t \<Rightarrow> tp_done p \<noteq> t) \<longleftrightarrow>
      (\<exists>t. tp_total p = Some t \<and> tp_done p \<noteq> t)"
    by (simp split: option.splits)
  have a: "0 < tp_attempt p \<longleftrightarrow> tp_attempt p \<noteq> 0" by (simp add: word_neq_0_conv)
  show ?thesis
    unfolding validate_progress_def progress_ok_def bind_unit_Inr ensure_Inr e t r c a
      error_guards [of "tp_phase p" "tp_error p \<noteq> None", symmetric] not_not
    by blast
qed

lemma validate_checksum_ok:
  "validate_checksum c = Inr () \<longleftrightarrow>
     (\<forall>d. ck_expected c = Some d \<longrightarrow> is_lower_sha256 d)
     \<and> (ck_mode c = ChecksumOff \<longrightarrow> ck_expected c = None)
     \<and> (ck_mode c = ChecksumRequire \<longrightarrow> ck_expected c \<noteq> None)"
  by (cases "ck_mode c"; cases "ck_expected c") (auto simp: validate_checksum_def)

text \<open>The parts of a job that no operation changes, and those that move.\<close>

definition request_ok :: "transfer_job \<Rightarrow> bool" where
  "request_ok j \<longleftrightarrow>
     tj_schema j = TRANSFER_JOB_V2_SCHEMA_VERSION \<and> tj_transfer j \<noteq> 0
     \<and> (\<forall>l. tj_bandwidth j = Some l \<longrightarrow> 0 < l \<and> l \<le> MAX_TRANSFER_BANDWIDTH_BYTES_PER_SECOND)
     \<and> validate_endpoint (tj_endpoint j) = Inr () \<and> validate_operation (tj_operation j) = Inr ()
     \<and> validate_checksum (tj_checksum j) = Inr ()
     \<and> route_valid (tj_kind j) (family (ep_source (tj_endpoint j)))
         (family (ep_destination (tj_endpoint j))) (tj_operation j)"

definition job_ok :: "transfer_job \<Rightarrow> bool" where
  "job_ok j \<longleftrightarrow>
     request_ok j \<and> tj_created j \<le> tj_updated j \<and> progress_ok (tj_progress j)
     \<and> phase_fits (tj_state j) (tp_phase (tj_progress j))"

lemma validate_job_ok: "validate_job j = Inr () \<longleftrightarrow> job_ok j"
  unfolding validate_job_def validate_kind_route_operation_def validate_state_progress_def
    bind_res_Inr ensure_Inr validate_progress_ok job_ok_def request_ok_def
  by (auto simp: not_less word_neq_0_conv split: option.splits)

lemma validate_job_Inr: "validate_job j = Inr u \<longleftrightarrow> job_ok j"
  using validate_job_ok by (cases u) simp

lemma validate_cases:
  obtains "job_ok j" "validate_job j = Inr ()" "admitted j = Inr j"
  | e where "\<not> job_ok j" "validate_job j = Inl e" "admitted j = Inl e"
  using validate_job_ok [of j] by (cases "validate_job j") (auto simp: admitted_def)

lemma admitted_Inr: "admitted j = Inr k \<longleftrightarrow> k = j \<and> job_ok j"
  by (cases j rule: validate_cases) auto

lemma job_new_ok:
  assumes "job_new t k e opn ck bw created = Inr j"
  shows "job_ok j \<and> tj_state j = Queued \<and> tj_progress j = progress_queued \<and> tj_transfer j = t"
  using assms unfolding job_new_def by (auto simp: admitted_Inr)

text \<open>A body is decoded into a job exactly if it is no longer than the bound, the reader of the JSON gives
  fields whose references their types take, and the job is one the declarative rules admit: its identifier
  is not nil, its route fits its kind and operation, an error is there exactly in the retrying and failed
  phases, a started phase has an attempt from 1 to 32, the bytes done stay within the total and reach it on
  completion, and the phase belongs to the state.
\<close>

theorem decoding_admits_exactly:
  "from_json_bytes decode body = Inr j \<longleftrightarrow>
     length body \<le> MAX_TRANSFER_JOB_V2_JSON_BYTES \<and> decode body = Some j
     \<and> location_refs_ok (ep_source (tj_endpoint j)) \<and> location_refs_ok (ep_destination (tj_endpoint j))
     \<and> request_ok j \<and> tj_created j \<le> tj_updated j \<and> progress_ok (tj_progress j)
     \<and> phase_fits (tj_state j) (tp_phase (tj_progress j))"
proof -
  have "(case admitted w of Inl e \<Rightarrow> Inl (ValidationError e) | Inr k \<Rightarrow> Inr k) = Inr j
      \<longleftrightarrow> w = j \<and> job_ok j" for w
    by (cases w rule: validate_cases) auto
  then show ?thesis
    unfolding from_json_bytes_def by (auto simp: not_less job_ok_def split: option.splits)
qed

text \<open>A reference that its type takes cannot be a path, a URL or a command.\<close>

lemma opaque_ref_bytes:
  "validate_opaque_ref field v = Inr u \<Longrightarrow>
     v \<noteq> [] \<and> length v \<le> 128 \<and> is_ascii_alnum (hd v) \<and> list_all (\<lambda>c. is_ascii_alnum c \<or> c \<in> set ''-_.'') v"
  by (cases v) (auto simp: validate_opaque_ref_def transfer_bounds split: if_splits)

section \<open>Which admitted jobs the Files view shows\<close>

lemma location_file_None: "location_file l = None \<longleftrightarrow> family l \<notin> {FLocal, FMesh}"
  by (cases l) simp_all

lemma location_file_nonzero:
  "validate_endpoint e = Inr () \<Longrightarrow>
     location_file (ep_source e) \<noteq> Some 0 \<and> location_file (ep_destination e) \<noteq> Some 0"
  unfolding validate_endpoint_def bind_res_Inr
  by (cases "ep_source e"; cases "ep_destination e") (auto simp: ensure_Inr)

lemma route_direction:
  assumes "route_valid k s d opn" and "legacy_method k = Inr m"
  shows "\<exists>dir. legacy_direction k opn = Inr dir"
  using assms by (cases k; cases opn) (auto simp: legacy_direction_def)

text \<open>An admitted job has a row in the older Files view exactly if its kind has a method there and the side
  its direction points at is a Files object; the error for an operation without a direction never occurs.
  A row shows the job's own object and state, and bytes within the total whenever a total is shown.
\<close>

theorem projection_exact:
  assumes "job_ok j"
  shows "((\<exists>v. admit_v2_job j = Inr v) \<longleftrightarrow>
           tj_kind j \<in> {KMesh, KRsync, KSftp, KHttp, KScrape}
           \<and> (\<forall>d. legacy_direction (tj_kind j) (tj_operation j) = Inr d \<longrightarrow>
                 family (if d = Inbound then ep_destination (tj_endpoint j) else ep_source (tj_endpoint j))
                   \<in> {FLocal, FMesh}))
         \<and> (\<forall>k. admit_v2_job j \<noteq> Inl (UnsupportedOperation k))
         \<and> (\<forall>v. admit_v2_job j = Inr v \<longrightarrow>
              tv_transfer v = tj_transfer j \<and> tv_state v = tj_state j
              \<and> tv_file v \<noteq> 0 \<and> (tv_total v \<noteq> 0 \<longrightarrow> tv_moved v \<le> tv_total v))"
proof (cases "legacy_method (tj_kind j)")
  case (Inl e)
  have "tj_kind j \<notin> {KMesh, KRsync, KSftp, KHttp, KScrape}" "\<exists>k. e = UnsupportedKind k"
    using Inl by (cases "tj_kind j"; auto)+
  moreover have "admit_v2_job j = Inl e"
    using assms Inl by (simp add: admit_v2_job_def validate_job_ok [THEN iffD2])
  ultimately show ?thesis by auto
next
  case (Inr m)
  then have k: "tj_kind j \<in> {KMesh, KRsync, KSftp, KHttp, KScrape}" by (cases "tj_kind j") simp_all
  obtain d where d: "legacy_direction (tj_kind j) (tj_operation j) = Inr d"
    using route_direction [OF _ Inr] assms unfolding job_ok_def request_ok_def by blast
  define l where "l = (if d = Inbound then ep_destination (tj_endpoint j) else ep_source (tj_endpoint j))"
  have side: "file_on_direction_side j d = location_file l"
    by (cases d) (simp_all add: file_on_direction_side_def l_def)
  have nz: "f \<noteq> 0" if "location_file l = Some f" for f
    using that location_file_nonzero [of "tj_endpoint j"] assms
    by (auto simp: job_ok_def request_ok_def l_def split: if_splits)
  have p: "tp_done (tj_progress j) \<le> t" if "tp_total (tj_progress j) = Some t" for t
    using assms that by (simp add: job_ok_def progress_ok_def)
  have ad: "admit_v2_job j =
      (case location_file l of None \<Rightarrow> Inl (MissingFileReference d)
       | Some f \<Rightarrow> Inr \<lparr>tv_transfer = tj_transfer j, tv_file = f, tv_method = m, tv_direction = d,
           tv_state = tj_state j, tv_moved = tp_done (tj_progress j),
           tv_total = (case tp_total (tj_progress j) of None \<Rightarrow> 0 | Some t \<Rightarrow> t)\<rparr>)"
    using assms Inr d side by (simp add: admit_v2_job_def validate_job_ok [THEN iffD2])
  have goal: "(\<forall>d'. legacy_direction (tj_kind j) (tj_operation j) = Inr d' \<longrightarrow>
        family (if d' = Inbound then ep_destination (tj_endpoint j) else ep_source (tj_endpoint j))
          \<in> {FLocal, FMesh}) \<longleftrightarrow> location_file l \<noteq> None"
    using d location_file_None [of l] by (simp add: l_def)
  show ?thesis
    unfolding goal ad using k nz p by (auto split: option.splits)
qed

definition demo_fetch :: transfer_job where
  "demo_fetch =
     \<lparr>tj_schema = 2, tj_transfer = 7, tj_kind = KHttp,
      tj_endpoint = \<lparr>ep_source = HttpAt ''public-http'' ''object-1'', ep_destination = LocalAt 9\<rparr>,
      tj_operation = OpDownload, tj_state = Active,
      tj_progress = \<lparr>tp_done = 7, tp_total = Some 1024, tp_rate = None, tp_phase = PhTransferring,
        tp_attempt = 1, tp_error = None\<rparr>,
      tj_checksum = checksum_off, tj_bandwidth = None, tj_created = 100, tj_updated = 101\<rparr>"

lemma demo_fetch_ok: "job_ok demo_fetch"
  by (simp add: demo_fetch_def validate_job_ok [symmetric] validate_job_def validate_endpoint_def
      validate_checksum_def validate_progress_def validate_kind_route_operation_def
      validate_state_progress_def checksum_off_def phase_requires_attempt_def transfer_bounds ensure_def)

theorem projection_exact_witness:
  "job_ok demo_fetch \<and> (\<exists>v. admit_v2_job demo_fetch = Inr v)"
  using projection_exact [OF demo_fetch_ok] demo_fetch_ok by (simp add: demo_fetch_def legacy_direction_def)

end
