(* ===== verification/TransferLedger.thy ===== *)
theory TransferLedger
  imports TransferContract
begin

text \<open>
  The durable ledger of transfer jobs (\<open>workers/transfers/ledger.rs\<close>, \<open>V2Ledger\<close>) and the writes of the
  executor to it (\<open>workers/transfers/mod.rs\<close>: claiming a job, moving an active one, failing it), each under
  the lock of the ledger.  The results hold for every interleaving of those operations, whichever writes
  fail and whatever the clocks say: what the history of a record can be, that an attempt which lost its job
  never writes to it again, and that a job whose attempts are used up is never started.
\<close>

section \<open>Records\<close>

text \<open>
  A file of the ledger holds the fields of a job, or something that does not decode (too long, a link,
  not JSON).  A write may fail before the file is in place, or after it (the removal of the temporary
  name, the synchronisation of the directory).
\<close>

datatype ledger_entry = Record transfer_job | Unreadable
type_synonym v2_ledger = "(transfer_id, ledger_entry) omap"

datatype disk = DiskOk | DiskFails | DiskFailsLate
datatype io_kind = AlreadyExists | OtherIo

datatype v2_ledger_error =
    LedgerIo io_kind
  | LedgerInvalid transfer_invalid
  | LedgerDuplicate transfer_id
  | LedgerNotFound transfer_id
  | InitialState transfer_state
  | IllegalControl control_v2 transfer_state
  | StaleUpdate u64 u64

fun read_entry :: "ledger_entry \<Rightarrow> transfer_job option" where
  "read_entry (Record j) = (case admitted j of Inl _ \<Rightarrow> None | Inr k \<Rightarrow> Some k)"
| "read_entry Unreadable = None"

definition v2_get :: "v2_ledger \<Rightarrow> transfer_id \<Rightarrow> transfer_job option" where
  "v2_get lg t = Option.bind (om_get lg t) read_entry"

text \<open>The text of an identifier orders as the identifier does.\<close>

definition v2_load_all :: "v2_ledger \<Rightarrow> transfer_job list" where
  "v2_load_all lg =
     sort_key (\<lambda>j. (tj_created j, tj_transfer j)) (List.map_filter (\<lambda>(_, e). read_entry e) lg)"

definition write_record ::
  "v2_ledger \<Rightarrow> transfer_job \<Rightarrow> bool \<Rightarrow> disk \<Rightarrow> v2_ledger \<times> (v2_ledger_error, unit) result" where
  "write_record lg j no_replace d =
     (if d = DiskFails then (lg, Inl (LedgerIo OtherIo))
      else if no_replace \<and> om_get lg (tj_transfer j) \<noteq> None then (lg, Inl (LedgerIo AlreadyExists))
      else (om_put (tj_transfer j) (Record j) lg,
            if d = DiskFailsLate then Inl (LedgerIo OtherIo) else Inr ()))"

definition v2_insert ::
  "v2_ledger \<Rightarrow> transfer_job \<Rightarrow> disk \<Rightarrow> v2_ledger \<times> (v2_ledger_error, unit) result" where
  "v2_insert lg j d =
     (case write_record lg j True d of
        (lg', Inl (LedgerIo AlreadyExists)) \<Rightarrow> (lg', Inl (LedgerDuplicate (tj_transfer j)))
      | r \<Rightarrow> r)"

definition v2_submit ::
  "v2_ledger \<Rightarrow> transfer_job \<Rightarrow> disk \<Rightarrow> v2_ledger \<times> (v2_ledger_error, unit) result" where
  "v2_submit lg j d =
     (case validate_job j of
        Inl e \<Rightarrow> (lg, Inl (LedgerInvalid e))
      | Inr _ \<Rightarrow>
          if tj_state j \<noteq> Queued then (lg, Inl (InitialState (tj_state j))) else v2_insert lg j d)"

fun control_target :: "control_v2 \<Rightarrow> transfer_state \<times> transfer_phase" where
  "control_target PauseV2 = (Paused, PhPaused)"
| "control_target ResumeV2 = (Queued, PhQueued)"
| "control_target RetryV2 = (Queued, PhQueued)"
| "control_target CancelV2 = (Canceled, PhCanceled)"

definition controlled :: "control_v2 \<Rightarrow> u64 \<Rightarrow> transfer_job \<Rightarrow> transfer_job" where
  "controlled c ts j =
     j\<lparr>tj_state := fst (control_target c),
       tj_progress := (tj_progress j)\<lparr>tp_phase := snd (control_target c), tp_rate := None, tp_error := None\<rparr>,
       tj_updated := ts\<rparr>"

definition apply_control ::
  "v2_ledger \<Rightarrow> transfer_id \<Rightarrow> control_v2 \<Rightarrow> u64 \<Rightarrow> disk \<Rightarrow> v2_ledger \<times> (v2_ledger_error, transfer_job) result" where
  "apply_control lg t c ts d =
     (case v2_get lg t of
        None \<Rightarrow> (lg, Inl (LedgerNotFound t))
      | Some j \<Rightarrow>
          if ts \<le> tj_updated j then (lg, Inl (StaleUpdate (tj_updated j) ts))
          else if \<not> can_control j c then (lg, Inl (IllegalControl c (tj_state j)))
          else (let j' = controlled c ts j
                in case validate_job j' of
                     Inl e \<Rightarrow> (lg, Inl (LedgerInvalid e))
                   | Inr _ \<Rightarrow>
                       (case write_record lg j' False d of
                          (lg', Inl e) \<Rightarrow> (lg', Inl e)
                        | (lg', Inr _) \<Rightarrow> (lg', Inr j'))))"

section \<open>The writes of the executor\<close>

definition next_v2_update :: "u64 \<Rightarrow> u64 \<Rightarrow> u64 option" where
  "next_v2_update wall current = map_option (max wall) (checked_add current 1)"

definition persist_v2_runtime_job :: "v2_ledger \<Rightarrow> transfer_job \<Rightarrow> disk \<Rightarrow> v2_ledger \<times> bool" where
  "persist_v2_runtime_job lg j d =
     (case validate_job j of
        Inl _ \<Rightarrow> (lg, False)
      | Inr _ \<Rightarrow>
          if d = DiskFails then (lg, False)
          else (om_put (tj_transfer j) (Record j) lg, d = DiskOk))"

text \<open>The last steps of every write: the new time stamp, the record, and the job where all went well.\<close>

definition stamped_write :: "v2_ledger \<Rightarrow> transfer_job \<Rightarrow> u64 \<Rightarrow> disk \<Rightarrow> v2_ledger \<times> transfer_job option" where
  "stamped_write lg j wall d =
     (case next_v2_update wall (tj_updated j) of
        None \<Rightarrow> (lg, None)
      | Some ts \<Rightarrow>
          (let j' = j\<lparr>tj_updated := ts\<rparr>
           in case persist_v2_runtime_job lg j' d of (lg', ok) \<Rightarrow> (lg', if ok then Some j' else None)))"

definition claimed :: "u16 \<Rightarrow> transfer_job \<Rightarrow> transfer_job" where
  "claimed a j =
     j\<lparr>tj_state := Active,
       tj_progress := \<lparr>tp_done = 0, tp_total = None, tp_rate = None, tp_phase = PhResolving, tp_attempt = a,
         tp_error = None\<rparr>\<rparr>"

definition claim_v2_job :: "v2_ledger \<Rightarrow> transfer_id \<Rightarrow> u64 \<Rightarrow> disk \<Rightarrow> v2_ledger \<times> transfer_job option" where
  "claim_v2_job lg t wall d =
     (case v2_get lg t of
        None \<Rightarrow> (lg, None)
      | Some j \<Rightarrow>
          if tj_state j \<noteq> Queued \<or> tp_phase (tj_progress j) \<noteq> PhQueued then (lg, None)
          else (case checked_add (tp_attempt (tj_progress j)) 1 of
                  None \<Rightarrow> (lg, None)
                | Some a \<Rightarrow> stamped_write lg (claimed a j) wall d))"

datatype active_update = BeginTransfer u64 | FinishCopy u64 "u64 option"

fun apply_update :: "active_update \<Rightarrow> transfer_job \<Rightarrow> transfer_job" where
  "apply_update (BeginTransfer n) j =
     j\<lparr>tj_progress := (tj_progress j)\<lparr>tp_phase := PhTransferring, tp_total := Some n\<rparr>\<rparr>"
| "apply_update (FinishCopy n rate) j =
     j\<lparr>tj_state := Completed,
       tj_progress := (tj_progress j)\<lparr>tp_phase := PhCompleted, tp_done := n, tp_total := Some n,
         tp_rate := rate, tp_error := None\<rparr>\<rparr>"

definition update_active_v2 ::
  "v2_ledger \<Rightarrow> transfer_id \<Rightarrow> u16 \<Rightarrow> active_update \<Rightarrow> u64 \<Rightarrow> disk \<Rightarrow> v2_ledger \<times> transfer_job option" where
  "update_active_v2 lg t attempt u wall d =
     (case v2_get lg t of
        None \<Rightarrow> (lg, None)
      | Some j \<Rightarrow>
          if tj_state j \<noteq> Active \<or> tp_attempt (tj_progress j) \<noteq> attempt then (lg, None)
          else stamped_write lg (apply_update u j) wall d)"

definition failed_with :: "transfer_error \<Rightarrow> transfer_job \<Rightarrow> transfer_job" where
  "failed_with e j =
     j\<lparr>tj_state := TransferFailed,
       tj_progress := (tj_progress j)\<lparr>tp_phase := PhFailed, tp_rate := None, tp_error := Some e\<rparr>\<rparr>"

definition finish_v2_failed ::
  "v2_ledger \<Rightarrow> transfer_id \<Rightarrow> u16 option \<Rightarrow> transfer_error \<Rightarrow> u64 \<Rightarrow> disk \<Rightarrow> v2_ledger \<times> transfer_job option" where
  "finish_v2_failed lg t expected e wall d =
     (case v2_get lg t of
        None \<Rightarrow> (lg, None)
      | Some j \<Rightarrow>
          if tj_state j \<noteq> Active
             \<or> (case expected of None \<Rightarrow> False | Some a \<Rightarrow> a \<noteq> tp_attempt (tj_progress j)) then (lg, None)
          else stamped_write lg (failed_with e j) wall d)"

section \<open>Histories\<close>

datatype v2_op =
    SubmitOp transfer_job disk
  | ControlOp transfer_id control_v2 u64 disk
  | ClaimOp transfer_id u64 disk
  | UpdateOp transfer_id u16 active_update u64 disk
  | FailOp transfer_id "u16 option" transfer_error u64 disk

fun v2_apply :: "v2_op \<Rightarrow> v2_ledger \<Rightarrow> v2_ledger" where
  "v2_apply (SubmitOp j d) lg = fst (v2_submit lg j d)"
| "v2_apply (ControlOp t c ts d) lg = fst (apply_control lg t c ts d)"
| "v2_apply (ClaimOp t wall d) lg = fst (claim_v2_job lg t wall d)"
| "v2_apply (UpdateOp t a u wall d) lg = fst (update_active_v2 lg t a u wall d)"
| "v2_apply (FailOp t a e wall d) lg = fst (finish_v2_failed lg t a e wall d)"

definition v2_run :: "v2_op list \<Rightarrow> v2_ledger \<Rightarrow> v2_ledger" where
  "v2_run ops lg = fold v2_apply ops lg"

text \<open>Every readable file is named by the job it holds.\<close>

definition filed :: "v2_ledger \<Rightarrow> bool" where
  "filed lg \<longleftrightarrow> (\<forall>t j. v2_get lg t = Some j \<longrightarrow> tj_transfer j = t)"

fun edge :: "transfer_state \<Rightarrow> transfer_state \<Rightarrow> bool" where
  "edge Queued st = (st \<in> {Active, Paused, Canceled})"
| "edge Active st = (st \<in> {Active, Completed, TransferFailed, Paused, Canceled})"
| "edge Paused st = (st \<in> {Queued, Canceled})"
| "edge TransferFailed st = (st = Queued)"
| "edge Canceled st = (st = Queued)"
| "edge Completed st = False"

type_synonym transfer_request =
  "u16 \<times> transfer_id \<times> transfer_kind \<times> transfer_endpoint \<times> transfer_operation \<times> checksum_policy \<times> u64 option \<times> u64"

definition request_of :: "transfer_job \<Rightarrow> transfer_request" where
  "request_of j =
     (tj_schema j, tj_transfer j, tj_kind j, tj_endpoint j, tj_operation j, tj_checksum j, tj_bandwidth j,
      tj_created j)"

abbreviation attempt_of :: "transfer_job \<Rightarrow> u16" where
  "attempt_of j \<equiv> tp_attempt (tj_progress j)"

text \<open>One write over a record: nothing of the request changes, the stamp grows, and only a claim starts an attempt.\<close>

definition moves :: "transfer_job \<Rightarrow> transfer_job \<Rightarrow> bool" where
  "moves j j' \<longleftrightarrow>
     job_ok j' \<and> request_of j' = request_of j \<and> tj_updated j < tj_updated j' \<and> edge (tj_state j) (tj_state j')
     \<and> (if tj_state j = Queued \<and> tj_state j' = Active
        then unat (attempt_of j') = Suc (unat (attempt_of j))
        else attempt_of j' = attempt_of j)"

lemma read_record: "read_entry (Record j) = (if job_ok j then Some j else None)"
  by (cases j rule: validate_cases) simp_all

lemma read_entry_ok: "read_entry e = Some j \<Longrightarrow> job_ok j"
  by (cases e) (simp_all add: read_record del: read_entry.simps(1) split: if_splits)

lemma v2_get_ok: "v2_get lg t = Some j \<Longrightarrow> job_ok j"
  by (auto simp: v2_get_def bind_eq_Some_conv read_entry_ok)

lemma v2_get_put:
  "v2_get (om_put t (Record j) lg) t' = (if t' = t then (if job_ok j then Some j else None) else v2_get lg t')"
  by (simp add: v2_get_def om_get_put read_record del: read_entry.simps)

lemma next_v2_update_grows: "next_v2_update wall c = Some ts \<Longrightarrow> c < ts"
  by (auto simp: next_v2_update_def checked_add_Some word_less_nat_alt max_def word_le_nat_alt split: if_splits)

lemma stamped_write_cases:
  assumes "stamped_write lg j wall d = (lg', r)"
  obtains "lg' = lg" "r = None"
  | ts where "tj_updated j < ts" "job_ok (j\<lparr>tj_updated := ts\<rparr>)"
      "lg' = om_put (tj_transfer j) (Record (j\<lparr>tj_updated := ts\<rparr>)) lg"
      "r = (if d = DiskOk then Some (j\<lparr>tj_updated := ts\<rparr>) else None)"
proof (cases "next_v2_update wall (tj_updated j)")
  case None
  with assms that(1) show ?thesis by (simp add: stamped_write_def)
next
  case (Some ts)
  let ?j = "j\<lparr>tj_updated := ts\<rparr>"
  show ?thesis
  proof (cases "job_ok ?j \<and> d \<noteq> DiskFails")
    case True
    then have "persist_v2_runtime_job lg ?j d = (om_put (tj_transfer j) (Record ?j) lg, d = DiskOk)"
      by (simp add: persist_v2_runtime_job_def validate_job_ok [THEN iffD2])
    with assms Some True next_v2_update_grows [OF Some] that(2) [of ts] show ?thesis
      by (simp add: stamped_write_def Let_def)
  next
    case False
    then have "persist_v2_runtime_job lg ?j d = (lg, False)"
      by (cases ?j rule: validate_cases) (auto simp: persist_v2_runtime_job_def)
    with assms Some that(1) show ?thesis by (simp add: stamped_write_def Let_def)
  qed
qed

text \<open>The change one operation makes, if any: one file, either new or a move of the record it held.\<close>

definition changed :: "v2_ledger \<Rightarrow> v2_ledger \<Rightarrow> bool" where
  "changed lg lg' \<longleftrightarrow>
     (\<exists>j'. lg' = om_put (tj_transfer j') (Record j') lg \<and> job_ok j'
        \<and> (case v2_get lg (tj_transfer j') of
             None \<Rightarrow> om_get lg (tj_transfer j') = None \<and> tj_state j' = Queued
           | Some j \<Rightarrow> moves j j'))"

lemma changedI:
  "v2_get lg t = Some j \<Longrightarrow> tj_transfer j = t \<Longrightarrow> moves j j' \<Longrightarrow>
     changed lg (om_put t (Record j') lg)"
  unfolding changed_def by (intro exI [of _ j']) (auto simp: moves_def request_of_def)

lemma stamped_changes:
  assumes "stamped_write lg k wall d = (lg', r)" and "v2_get lg t = Some j" and "tj_transfer j = t"
    and "request_of k = request_of j" and "tj_updated k = tj_updated j" and "edge (tj_state j) (tj_state k)"
    and "if tj_state j = Queued \<and> tj_state k = Active
         then unat (attempt_of k) = Suc (unat (attempt_of j)) else attempt_of k = attempt_of j"
  shows "lg' = lg \<or> changed lg lg'"
  using assms(1)
proof (cases rule: stamped_write_cases)
  case (2 ts)
  have "moves j (k\<lparr>tj_updated := ts\<rparr>)"
    using assms 2 by (auto simp: moves_def request_of_def)
  moreover have "tj_transfer k = t" using assms(3,4) by (simp add: request_of_def)
  ultimately show ?thesis using changedI [OF assms(2,3)] 2 by simp
qed simp

lemma request_of_steps [simp]:
  "request_of (controlled c ts j) = request_of j"
  "request_of (claimed a j) = request_of j"
  "request_of (apply_update u j) = request_of j"
  "request_of (failed_with e j) = request_of j"
  by (simp_all add: request_of_def controlled_def claimed_def failed_with_def) (cases u; simp)

lemma submit_changes: "fst (v2_submit lg j d) = lg \<or> changed lg (fst (v2_submit lg j d))"
proof (cases "job_ok j \<and> tj_state j = Queued \<and> om_get lg (tj_transfer j) = None \<and> d \<noteq> DiskFails")
  case True
  then have "fst (v2_submit lg j d) = om_put (tj_transfer j) (Record j) lg"
    by (simp add: v2_submit_def v2_insert_def write_record_def validate_job_ok [THEN iffD2])
  with True show ?thesis by (auto simp: changed_def v2_get_def)
next
  case False
  then show ?thesis
    by (cases j rule: validate_cases) (auto simp: v2_submit_def v2_insert_def write_record_def)
qed

lemma control_changes:
  assumes "filed lg"
  shows "fst (apply_control lg t c ts d) = lg \<or> changed lg (fst (apply_control lg t c ts d))"
proof (cases "v2_get lg t")
  case (Some j)
  let ?j = "controlled c ts j"
  show ?thesis
  proof (cases "tj_updated j < ts \<and> can_control j c \<and> job_ok ?j \<and> d \<noteq> DiskFails")
    case True
    have t: "tj_transfer j = t" using assms Some by (simp add: filed_def)
    have "moves j ?j"
      using True by (cases c; cases "tj_state j")
        (auto simp: moves_def can_control_def controlled_def request_of_def)
    moreover have "fst (apply_control lg t c ts d) = om_put t (Record ?j) lg"
      using True Some t by (auto simp: apply_control_def write_record_def Let_def validate_job_ok [THEN iffD2]
        controlled_def not_le [symmetric])
    ultimately show ?thesis using changedI [OF Some t] by simp
  next
    case False
    then show ?thesis using Some
      by (cases ?j rule: validate_cases) (auto simp: apply_control_def write_record_def Let_def)
  qed
qed (simp add: apply_control_def)

lemma op_changes:
  assumes "filed lg"
  shows "v2_apply p lg = lg \<or> changed lg (v2_apply p lg)"
proof (cases p)
  case (SubmitOp j d)
  then show ?thesis using submit_changes by simp
next
  case (ControlOp t c ts d)
  then show ?thesis using control_changes [OF assms] by simp
next
  case (ClaimOp t wall d)
  show ?thesis
  proof (cases "v2_get lg t")
    case (Some j)
    then have t: "tj_transfer j = t" using assms by (simp add: filed_def)
    show ?thesis
    proof (cases "tj_state j = Queued \<and> tp_phase (tj_progress j) = PhQueued")
      case q: True
      show ?thesis
      proof (cases "checked_add (attempt_of j) 1")
        case a: (Some a)
        then have "unat a = Suc (unat (attempt_of j))" by (auto simp: checked_add_Some)
        moreover obtain lg' r where w: "stamped_write lg (claimed a j) wall d = (lg', r)" by fastforce
        ultimately have "lg' = lg \<or> changed lg lg'"
          using q by (intro stamped_changes [OF w Some t]) (auto simp: claimed_def request_of_def)
        then show ?thesis using w q a Some ClaimOp by (simp add: claim_v2_job_def)
      qed (use q Some ClaimOp in \<open>simp add: claim_v2_job_def\<close>)
    qed (use Some ClaimOp in \<open>auto simp: claim_v2_job_def\<close>)
  qed (use ClaimOp in \<open>simp add: claim_v2_job_def\<close>)
next
  case (UpdateOp t a u wall d)
  show ?thesis
  proof (cases "v2_get lg t")
    case (Some j)
    then have t: "tj_transfer j = t" using assms by (simp add: filed_def)
    show ?thesis
    proof (cases "tj_state j = Active \<and> attempt_of j = a")
      case q: True
      obtain lg' r where w: "stamped_write lg (apply_update u j) wall d = (lg', r)" by fastforce
      have "lg' = lg \<or> changed lg lg'"
        using q by (cases u) (intro stamped_changes [OF w Some t]; simp add: request_of_def)+
      then show ?thesis using w q Some UpdateOp by (simp add: update_active_v2_def)
    qed (use Some UpdateOp in \<open>auto simp: update_active_v2_def\<close>)
  qed (use UpdateOp in \<open>simp add: update_active_v2_def\<close>)
next
  case (FailOp t a e wall d)
  show ?thesis
  proof (cases "v2_get lg t")
    case (Some j)
    then have t: "tj_transfer j = t" using assms by (simp add: filed_def)
    obtain lg' r where w: "stamped_write lg (failed_with e j) wall d = (lg', r)" by fastforce
    show ?thesis
    proof (cases "tj_state j = Active")
      case q: True
      have "lg' = lg \<or> changed lg lg'"
        using q by (intro stamped_changes [OF w Some t]) (auto simp: failed_with_def request_of_def)
      then show ?thesis using w q Some FailOp by (simp add: finish_v2_failed_def)
    qed (use Some FailOp in \<open>auto simp: finish_v2_failed_def\<close>)
  qed (use FailOp in \<open>simp add: finish_v2_failed_def\<close>)
qed

lemma changed_get:
  assumes "changed lg lg'" and "v2_get lg t = Some j"
  shows "v2_get lg' t = Some j \<or> (\<exists>j'. v2_get lg' t = Some j' \<and> moves j j')"
proof -
  obtain k where k: "lg' = om_put (tj_transfer k) (Record k) lg" "job_ok k"
      "case v2_get lg (tj_transfer k) of
         None \<Rightarrow> om_get lg (tj_transfer k) = None \<and> tj_state k = Queued | Some i \<Rightarrow> moves i k"
    using assms(1) unfolding changed_def by blast
  show ?thesis
  proof (cases "t = tj_transfer k")
    case True
    then have "moves j k" using k(3) assms(2) by simp
    then show ?thesis using k(1,2) True by (simp add: v2_get_put)
  qed (use k(1) assms(2) in \<open>simp add: v2_get_put\<close>)
qed

lemma changed_filed: "filed lg \<Longrightarrow> changed lg lg' \<Longrightarrow> filed lg'"
  unfolding filed_def changed_def by (auto simp: v2_get_put split: if_splits)

lemma run_filed: "filed lg \<Longrightarrow> filed (v2_run ops lg)"
  unfolding v2_run_def
  by (induction ops arbitrary: lg) (use op_changes changed_filed in \<open>force+\<close>)

text \<open>A record is never lost; between two states of the ledger it made a number of moves.\<close>

lemma run_moves:
  assumes "filed lg" and "v2_get lg t = Some j"
  shows "\<exists>j'. v2_get (v2_run ops lg) t = Some j' \<and> moves\<^sup>*\<^sup>* j j'"
  using assms unfolding v2_run_def
proof (induction ops arbitrary: lg j)
  case (Cons p ops)
  from op_changes [OF Cons.prems(1), of p] have f: "filed (v2_apply p lg)"
    using Cons.prems(1) changed_filed by auto
  obtain k where k: "v2_get (v2_apply p lg) t = Some k" "k = j \<or> moves j k"
    using op_changes [OF Cons.prems(1), of p] changed_get [OF _ Cons.prems(2)] Cons.prems(2) by fastforce
  obtain j' where "v2_get (fold v2_apply ops (v2_apply p lg)) t = Some j'" "moves\<^sup>*\<^sup>* k j'"
    using Cons.IH [OF f k(1)] by blast
  then show ?case using k(2) by (auto intro: converse_rtranclp_into_rtranclp)
qed auto

lemma moves_star:
  assumes "moves\<^sup>*\<^sup>* j j'"
  shows "request_of j' = request_of j \<and> (j' = j \<or> tj_updated j < tj_updated j')
     \<and> attempt_of j \<le> attempt_of j' \<and> edge\<^sup>*\<^sup>* (tj_state j) (tj_state j')
     \<and> (tj_state j = Completed \<longrightarrow> j' = j)"
  using assms
proof (induction rule: rtranclp_induct)
  case (step k k')
  then have "attempt_of k \<le> attempt_of k'"
    by (auto simp: moves_def word_le_nat_alt split: if_splits)
  moreover have "edge (tj_state k) (tj_state k')" "tj_updated k < tj_updated k'" "request_of k' = request_of k"
    using step.hyps(2) by (simp_all add: moves_def)
  moreover from this(1) have "tj_state k \<noteq> Completed" by (cases "tj_state k") auto
  ultimately show ?case using step.IH by (auto intro: rtranclp.rtrancl_into_rtrancl)
qed simp


text \<open>A ledger with one active job.\<close>

definition demo_ledger :: v2_ledger where
  "demo_ledger = [(7, Record demo_fetch)]"

lemma v2_get_single: "job_ok j \<Longrightarrow> v2_get [(t, Record j)] i = (if i = t then Some j else None)"
  by (simp add: v2_get_def om_get_def read_record del: read_entry.simps)

lemma filed_single: "job_ok j \<Longrightarrow> tj_transfer j = t \<Longrightarrow> filed [(t, Record j)]"
  by (simp add: filed_def v2_get_single)

lemma demo_ledger_facts: "filed demo_ledger" "v2_get demo_ledger 7 = Some demo_fetch"
  using demo_fetch_ok by (simp_all add: demo_ledger_def v2_get_single filed_single) (simp add: demo_fetch_def filed_single)


text \<open>An attempt owns its job while the job is active and counts that attempt.\<close>

definition lost :: "u16 \<Rightarrow> transfer_job \<Rightarrow> bool" where
  "lost a j \<longleftrightarrow> a \<le> attempt_of j \<and> \<not> (tj_state j = Active \<and> attempt_of j = a)"

lemma moves_lost: "moves j j' \<Longrightarrow> lost a j \<Longrightarrow> lost a j'"
  by (cases "tj_state j") (auto simp: moves_def lost_def word_le_nat_alt split: if_splits)

lemma lost_forever: "moves\<^sup>*\<^sup>* j j' \<Longrightarrow> lost a j \<Longrightarrow> lost a j'"
  by (induction rule: rtranclp_induct) (auto intro: moves_lost)

text \<open>C11. Once an attempt has lost its job, because the operator paused or cancelled it, because the attempt
  ended, or because a later attempt was claimed, no later write of that attempt is ever taken: it is
  answered with nothing and the ledger stays as it was, whatever happened in between.
\<close>

theorem lost_attempts_are_fenced:
  assumes "filed lg" and "v2_get lg t = Some j"
    and "a \<le> attempt_of j" and "\<not> (tj_state j = Active \<and> attempt_of j = a)"
  shows "update_active_v2 (v2_run ops lg) t a u wall d = (v2_run ops lg, None)
     \<and> finish_v2_failed (v2_run ops lg) t (Some a) e wall d = (v2_run ops lg, None)"
proof -
  obtain j' where j': "v2_get (v2_run ops lg) t = Some j'" "moves\<^sup>*\<^sup>* j j'"
    using run_moves [OF assms(1,2)] by blast
  have "lost a j'" using lost_forever [OF j'(2)] assms(3,4) by (simp add: lost_def)
  then show ?thesis using j'(1) by (auto simp: update_active_v2_def finish_v2_failed_def lost_def)
qed

theorem lost_attempts_are_fenced_witness:
  "update_active_v2 (v2_run [ClaimOp 7 200 DiskOk] demo_ledger) 7 0 (FinishCopy 1024 None) 300 DiskOk
     = (v2_run [ClaimOp 7 200 DiskOk] demo_ledger, None)"
  by (rule lost_attempts_are_fenced [OF demo_ledger_facts, THEN conjunct1]) (simp_all add: demo_fetch_def)

lemma claim_exhausted:
  assumes "v2_get lg t = Some j" and "MAX_TRANSFER_ATTEMPTS \<le> attempt_of j"
  shows "claim_v2_job lg t wall d = (lg, None)"
proof (cases "checked_add (attempt_of j) 1")
  case (Some a)
  then have "\<not> a \<le> MAX_TRANSFER_ATTEMPTS"
    using assms(2) by (auto simp: checked_add_Some word_le_nat_alt)
  then have "\<not> job_ok ((claimed a j)\<lparr>tj_updated := ts\<rparr>)" for ts
    by (simp add: job_ok_def progress_ok_def claimed_def)
  then have "stamped_write lg (claimed a j) wall d = (lg, None)"
  proof (cases "stamped_write lg (claimed a j) wall d" rule: prod.exhaust)
    case (Pair lg' r)
    then show ?thesis
      using \<open>\<And>ts. \<not> job_ok ((claimed a j)\<lparr>tj_updated := ts\<rparr>)\<close>
      by (cases rule: stamped_write_cases [OF Pair]) auto
  qed
  then show ?thesis using assms(1) Some by (simp add: claim_v2_job_def)
qed (use assms(1) in \<open>simp add: claim_v2_job_def\<close>)

text \<open>The controls let a job be retried any number of times, the executor starts it 32 times: a job that is
  queued with 32 attempts behind it is never active again, whatever is done, and every pass that tries to
  claim it leaves it queued.
\<close>

theorem exhausted_jobs_never_start:
  assumes "filed lg" and "v2_get lg t = Some j" and "tj_state j = Queued"
    and "attempt_of j = MAX_TRANSFER_ATTEMPTS"
  shows "\<exists>j'. v2_get (v2_run ops lg) t = Some j' \<and> tj_state j' \<noteq> Active
           \<and> claim_v2_job (v2_run ops lg) t wall d = (v2_run ops lg, None)"
proof -
  let ?P = "\<lambda>j'. attempt_of j' = MAX_TRANSFER_ATTEMPTS \<and> tj_state j' \<in> {Queued, Paused, Canceled}"
  have step: "?P k'" if "moves k k'" "?P k" for k k'
  proof -
    have "unat (attempt_of k') \<le> unat MAX_TRANSFER_ATTEMPTS"
      using that(1) by (auto simp: moves_def job_ok_def progress_ok_def word_le_nat_alt)
    then show ?thesis using that by (cases "tj_state k") (auto simp: moves_def split: if_splits)
  qed
  obtain j' where j': "v2_get (v2_run ops lg) t = Some j'" "moves\<^sup>*\<^sup>* j j'"
    using run_moves [OF assms(1,2)] by blast
  from j'(2) have "?P j'"
    by (induction rule: rtranclp_induct) (use assms(3,4) step in auto)
  then show ?thesis using j'(1) claim_exhausted by auto
qed

definition demo_spent :: transfer_job where
  "demo_spent =
     demo_fetch\<lparr>tj_state := Queued, tj_progress := \<lparr>tp_done = 0, tp_total = None, tp_rate = None,
       tp_phase = PhQueued, tp_attempt = 32, tp_error = None\<rparr>\<rparr>"

lemma demo_spent_ok: "job_ok demo_spent"
  by (simp add: demo_spent_def demo_fetch_def validate_job_ok [symmetric] validate_job_def validate_endpoint_def
      validate_checksum_def validate_progress_def validate_kind_route_operation_def
      validate_state_progress_def checksum_off_def phase_requires_attempt_def transfer_bounds ensure_def)

theorem exhausted_jobs_never_start_witness:
  "\<exists>j'. v2_get (v2_run [ClaimOp 7 200 DiskOk] [(7, Record demo_spent)]) 7 = Some j' \<and> tj_state j' \<noteq> Active"
proof -
  have t: "tj_transfer demo_spent = 7" "tj_state demo_spent = Queued" "attempt_of demo_spent = MAX_TRANSFER_ATTEMPTS"
    by (simp_all add: demo_spent_def demo_fetch_def transfer_bounds)
  have "v2_get [(7, Record demo_spent)] 7 = Some demo_spent" using demo_spent_ok by (simp add: v2_get_single)
  from exhausted_jobs_never_start [OF filed_single [OF demo_spent_ok t(1)] this t(2,3), of "[ClaimOp 7 200 DiskOk]"]
  show ?thesis by blast
qed

end
