(* ===== verification/TransferQueue.thy ===== *)
theory TransferQueue
  imports TransferLedger
begin

text \<open>
  The queue of the older transfer jobs (\<open>workers/transfers/job.rs\<close>, \<open>queue.rs\<close>, the \<open>Ledger\<close> of
  \<open>ledger.rs\<close>) and the projection of a queued one into a job of the contract (\<open>v2.rs\<close>).  A ledger is the
  map from an identifier to its row; a write may fail, which the argument \<open>ok\<close> says for the row written,
  and \<open>now\<close> is the clock the code reads.
\<close>

section \<open>Rows\<close>

datatype lane_method = LaneSftp | LaneRsync | LaneHttp | LaneNode | LaneMusic

fun method_text :: "lane_method \<Rightarrow> string" where
  "method_text LaneSftp = ''sftp''"
| "method_text LaneRsync = ''rsync''"
| "method_text LaneHttp = ''http''"
| "method_text LaneNode = ''node''"
| "method_text LaneMusic = ''music''"

definition ALL_METHODS :: "lane_method list" where
  "ALL_METHODS = [LaneSftp, LaneRsync, LaneHttp, LaneNode, LaneMusic]"

definition method_from_str :: "string \<Rightarrow> lane_method option" where
  "method_from_str s =
     (let norm = map (\<lambda>c. if c = CHR ''-'' then CHR ''_'' else c) (map to_ascii_lowercase (trim s))
      in find (\<lambda>m. method_text m = norm) ALL_METHODS)"

record transfer_policy =
  po_bwlimit :: "string option"
  po_verify :: bool

datatype job_state = JQueued | JRunning | JPaused | JDone | JFailed
datatype transition = Start | PauseJob | ResumeJob | Complete

fun is_terminal :: "job_state \<Rightarrow> bool" where
  "is_terminal st = (st = JDone \<or> st = JFailed)"

fun can :: "job_state \<Rightarrow> transition \<Rightarrow> bool" where
  "can JQueued Start = True"
| "can JQueued PauseJob = True"
| "can JRunning PauseJob = True"
| "can JPaused ResumeJob = True"
| "can JRunning Complete = True"
| "can _ _ = False"

datatype integrity_status =
    Verified u64 string
  | Mismatch "u64 option" "u64 option" "string option" "string option" string

record queue_job =
  qj_id :: string
  qj_source :: string
  qj_dest :: string
  qj_method :: lane_method
  qj_policy :: transfer_policy
  qj_state :: job_state
  qj_error :: "string option"
  qj_progress :: "u8 option"
  qj_integrity :: "integrity_status option"
  qj_created :: u64
  qj_updated :: u64

definition queue_job_new ::
  "string \<Rightarrow> u64 \<Rightarrow> string \<Rightarrow> string \<Rightarrow> lane_method \<Rightarrow> transfer_policy \<Rightarrow> queue_job" where
  "queue_job_new minted now source dest m policy =
     \<lparr>qj_id = minted, qj_source = source, qj_dest = dest, qj_method = m, qj_policy = policy,
      qj_state = JQueued, qj_error = None, qj_progress = None, qj_integrity = None, qj_created = now,
      qj_updated = now\<rparr>"

definition set_state :: "u64 \<Rightarrow> job_state \<Rightarrow> queue_job \<Rightarrow> queue_job" where
  "set_state now st j =
     (let j1 = j\<lparr>qj_state := st, qj_updated := now\<rparr>;
          j2 = (if st \<noteq> JFailed then j1\<lparr>qj_error := None\<rparr> else j1)
      in if \<not> is_terminal st then j2\<lparr>qj_integrity := None\<rparr> else j2)"

definition fail_job :: "u64 \<Rightarrow> string \<Rightarrow> queue_job \<Rightarrow> queue_job" where
  "fail_job now error j = set_state now JFailed (j\<lparr>qj_error := Some error\<rparr>)"

section \<open>The queue\<close>

type_synonym queue = "(string, queue_job) omap"

datatype queue_error = NotFound string | IllegalTransition string job_state string

definition upsert :: "bool \<Rightarrow> queue_job \<Rightarrow> queue \<Rightarrow> queue" where
  "upsert ok j q = (if ok then om_put (qj_id j) j q else q)"

definition load_all :: "queue \<Rightarrow> queue_job list" where
  "load_all q = sort_key (\<lambda>j. (qj_created j, qj_id j)) (om_values q)"

definition recover_orphaned_running :: "(string \<Rightarrow> bool) \<Rightarrow> u64 \<Rightarrow> queue \<Rightarrow> queue" where
  "recover_orphaned_running ok now q =
     fold (\<lambda>j q. if qj_state j = JRunning then upsert (ok (qj_id j)) (set_state now JQueued j) q else q)
       (load_all q) q"

definition submit :: "bool \<Rightarrow> u64 \<Rightarrow> queue_job \<Rightarrow> queue \<Rightarrow> queue \<times> (io_kind, string) result" where
  "submit ok now j q =
     (let j = (if qj_state j \<noteq> JQueued then set_state now JQueued j else j)
      in if om_get q (qj_id j) \<noteq> None then (q, Inl AlreadyExists)
         else (upsert ok j q, if ok then Inr (qj_id j) else Inl OtherIo))"

definition running_count :: "queue \<Rightarrow> nat" where
  "running_count q = length (filter (\<lambda>j. qj_state j = JRunning) (load_all q))"

definition cancel :: "bool \<Rightarrow> string \<Rightarrow> queue \<Rightarrow> queue \<times> (queue_error, unit) result" where
  "cancel ok i q =
     (if om_get q i = None then (q, Inl (NotFound i))
      else if ok then (om_del i q, Inr ()) else (q, Inl (NotFound i)))"

definition transition_to ::
  "bool \<Rightarrow> u64 \<Rightarrow> string \<Rightarrow> transition \<Rightarrow> string \<Rightarrow> job_state \<Rightarrow> queue \<Rightarrow> queue \<times> (queue_error, unit) result" where
  "transition_to ok now i verb verb_name st q =
     (case om_get q i of
        None \<Rightarrow> (q, Inl (NotFound i))
      | Some j \<Rightarrow>
          if \<not> can (qj_state j) verb then (q, Inl (IllegalTransition i (qj_state j) verb_name))
          else (upsert ok (set_state now st j) q, if ok then Inr () else Inl (NotFound i)))"

definition pause :: "bool \<Rightarrow> u64 \<Rightarrow> string \<Rightarrow> queue \<Rightarrow> queue \<times> (queue_error, unit) result" where
  "pause ok now i q = transition_to ok now i PauseJob ''pause'' JPaused q"

definition resume :: "bool \<Rightarrow> u64 \<Rightarrow> string \<Rightarrow> queue \<Rightarrow> queue \<times> (queue_error, unit) result" where
  "resume ok now i q = transition_to ok now i ResumeJob ''resume'' JQueued q"

definition claim_next :: "(string \<Rightarrow> bool) \<Rightarrow> u64 \<Rightarrow> nat \<Rightarrow> queue \<Rightarrow> queue \<times> queue_job option" where
  "claim_next ok now cap q =
     (if running_count q \<ge> cap then (q, None)
      else case find (\<lambda>j. qj_state j = JQueued) (load_all q) of
             None \<Rightarrow> (q, None)
           | Some j \<Rightarrow>
               (let j' = set_state now JRunning j
                in if ok (qj_id j) then (upsert True j' q, Some j') else (q, None)))"

datatype lane_outcome = LaneDone | LaneFailed string

definition integrity_error :: "integrity_status \<Rightarrow> string" where
  "integrity_error st =
     (case st of Verified _ _ \<Rightarrow> ''integrity verified''
      | Mismatch _ _ _ _ e \<Rightarrow> ''integrity verify failed: '' @ e)"

definition outcome_applied ::
  "(queue_job \<Rightarrow> (integrity_status, integrity_status) result) \<Rightarrow> u64 \<Rightarrow> lane_outcome \<Rightarrow> queue_job \<Rightarrow> queue_job" where
  "outcome_applied verifier now out j =
     (case out of
        LaneDone \<Rightarrow>
          if po_verify (qj_policy j)
          then (case verifier j of
                  Inr v \<Rightarrow> set_state now JDone (j\<lparr>qj_integrity := Some v, qj_progress := Some 100\<rparr>)
                | Inl m \<Rightarrow> fail_job now (integrity_error m) (j\<lparr>qj_integrity := Some m\<rparr>))
          else set_state now JDone (j\<lparr>qj_progress := Some 100\<rparr>)
      | LaneFailed e \<Rightarrow> fail_job now e j)"

definition complete_with_verifier ::
  "(queue_job \<Rightarrow> (integrity_status, integrity_status) result) \<Rightarrow> bool \<Rightarrow> u64 \<Rightarrow> string \<Rightarrow> lane_outcome \<Rightarrow> queue
     \<Rightarrow> queue \<times> bool" where
  "complete_with_verifier verifier ok now i out q =
     (case om_get q i of
        None \<Rightarrow> (q, True)
      | Some j \<Rightarrow>
          if qj_state j \<noteq> JRunning then (q, True)
          else (upsert ok (outcome_applied verifier now out j) q, ok))"

text \<open>
  A progress report reads the row and, where it has news, writes it back.  The reports come from the lane's
  own thread, so other operations may happen between the two.
\<close>

definition progress_read :: "string \<Rightarrow> u8 \<Rightarrow> queue \<Rightarrow> queue_job option" where
  "progress_read i pct q =
     (case om_get q i of
        None \<Rightarrow> None
      | Some j \<Rightarrow>
          if qj_state j \<noteq> JRunning then None
          else (let pct = min pct 99
                in if (case qj_progress j of None \<Rightarrow> False | Some prev \<Rightarrow> prev \<ge> pct) then None
                   else Some (j\<lparr>qj_progress := Some pct\<rparr>)))"

definition progress_write :: "bool \<Rightarrow> queue_job option \<Rightarrow> queue \<Rightarrow> queue" where
  "progress_write ok r q = (case r of None \<Rightarrow> q | Some j \<Rightarrow> upsert ok j q)"

definition set_progress :: "bool \<Rightarrow> string \<Rightarrow> u8 \<Rightarrow> queue \<Rightarrow> queue" where
  "set_progress ok i pct q = progress_write ok (progress_read i pct q) q"

section \<open>The projection into the contract\<close>

record v2_identity =
  vi_transfer :: transfer_id
  vi_kind :: transfer_kind
  vi_endpoint :: transfer_endpoint
  vi_operation :: transfer_operation

datatype projection_error =
    LedgerJobNotFound string
  | UnsupportedLegacyState job_state
  | InconsistentQueuedRecord
  | LegacyBandwidthLimitNotRepresentable
  | MethodKindMismatch lane_method transfer_kind
  | ProjectionInvalid transfer_invalid

fun method_matches_kind :: "lane_method \<Rightarrow> transfer_kind \<Rightarrow> bool" where
  "method_matches_kind LaneNode KMesh = True"
| "method_matches_kind LaneRsync KRsync = True"
| "method_matches_kind LaneSftp KSftp = True"
| "method_matches_kind LaneHttp KHttp = True"
| "method_matches_kind _ _ = False"

definition projected :: "queue_job \<Rightarrow> v2_identity \<Rightarrow> transfer_job" where
  "projected j v =
     \<lparr>tj_schema = TRANSFER_JOB_V2_SCHEMA_VERSION, tj_transfer = vi_transfer v, tj_kind = vi_kind v,
      tj_endpoint = vi_endpoint v, tj_operation = vi_operation v, tj_state = Queued,
      tj_progress = progress_queued\<lparr>tp_phase := PhQueued\<rparr>,
      tj_checksum = (if po_verify (qj_policy j) then checksum_verify else checksum_off),
      tj_bandwidth = None, tj_created = qj_created j, tj_updated = qj_updated j\<rparr>"

definition project_queued_job :: "queue_job \<Rightarrow> v2_identity \<Rightarrow> (projection_error, transfer_job) result" where
  "project_queued_job j v =
     (if qj_state j \<noteq> JQueued then Inl (UnsupportedLegacyState (qj_state j))
      else if qj_error j \<noteq> None \<or> qj_progress j \<noteq> None \<or> qj_integrity j \<noteq> None then Inl InconsistentQueuedRecord
      else if po_bwlimit (qj_policy j) \<noteq> None then Inl LegacyBandwidthLimitNotRepresentable
      else if \<not> method_matches_kind (qj_method j) (vi_kind v)
      then Inl (MethodKindMismatch (qj_method j) (vi_kind v))
      else case admitted (projected j v) of Inl e \<Rightarrow> Inl (ProjectionInvalid e) | Inr p \<Rightarrow> Inr p)"

definition project_v2 :: "queue \<Rightarrow> string \<Rightarrow> v2_identity \<Rightarrow> (projection_error, transfer_job) result" where
  "project_v2 q i v =
     (case om_get q i of None \<Rightarrow> Inl (LedgerJobNotFound i) | Some j \<Rightarrow> project_queued_job j v)"

section \<open>Facts about the queue\<close>

definition named :: "queue \<Rightarrow> bool" where
  "named q \<longleftrightarrow> om_wf q \<and> (\<forall>i j. om_get q i = Some j \<longrightarrow> qj_id j = i)"

lemma qj_id_steps [simp]:
  "qj_id (set_state now st j) = qj_id j"
  "qj_state (set_state now st j) = st"
  "qj_created (set_state now st j) = qj_created j"
  "qj_id (fail_job now e j) = qj_id j"
  "qj_state (fail_job now e j) = JFailed"
  "qj_id (outcome_applied f now out j) = qj_id j"
  by (auto simp: set_state_def fail_job_def outcome_applied_def Let_def split: lane_outcome.splits sum.splits)

lemma outcome_terminal: "is_terminal (qj_state (outcome_applied f now out j))"
  by (auto simp: outcome_applied_def split: lane_outcome.splits sum.splits)

lemma om_get_upsert:
  "om_get (upsert ok j q) i = (if ok \<and> i = qj_id j then Some j else om_get q i)"
  by (simp add: upsert_def om_get_put)

lemma named_upsert: "named q \<Longrightarrow> named (upsert ok j q)"
  by (auto simp: named_def upsert_def om_wf_put om_get_put)

lemma named_del: "named q \<Longrightarrow> named (om_del i q)"
  by (auto simp: named_def om_wf_del om_get_del split: if_splits)

lemma values_ids: "named q \<Longrightarrow> map qj_id (om_values q) = om_keys q"
  using om_get_mem [of q] by (auto simp: named_def om_values_def om_keys_def)

lemma load_all_set: "named q \<Longrightarrow> j \<in> set (load_all q) \<longleftrightarrow> om_get q (qj_id j) = Some j"
proof -
  assume n: "named q"
  have "j \<in> set (om_values q) \<longleftrightarrow> (\<exists>i. om_get q i = Some j)"
    using n om_get_mem [of q] by (force simp: named_def om_values_def om_get_def dest: map_of_SomeD)
  also have "\<dots> \<longleftrightarrow> om_get q (qj_id j) = Some j" using n unfolding named_def by blast
  finally show ?thesis by (simp add: load_all_def)
qed

lemma load_all_ids: "named q \<Longrightarrow> distinct (map qj_id (load_all q))"
proof -
  assume n: "named q"
  have "mset (map qj_id (load_all q)) = mset (map qj_id (om_values q))" by (simp add: load_all_def)
  then have "mset (map qj_id (load_all q)) = mset (om_keys q)" unfolding values_ids [OF n] .
  then show ?thesis using om_wf_distinct n by (metis mset_eq_imp_distinct_iff named_def)
qed

lemma rows_with:
  assumes "named q"
  shows "set (map qj_id (filter P (load_all q))) = {i. \<exists>j. om_get q i = Some j \<and> P j}"
  using assms load_all_set [OF assms] unfolding named_def by (auto simp: image_iff; metis)

definition running_ids :: "queue \<Rightarrow> string set" where
  "running_ids q = {i. \<exists>j. om_get q i = Some j \<and> qj_state j = JRunning}"

lemma running_count_card:
  assumes "named q"
  shows "running_count q = card (running_ids q)"
proof -
  have "distinct (map qj_id (filter (\<lambda>j. qj_state j = JRunning) (load_all q)))"
    using load_all_ids [OF assms] by (rule distinct_map_filter)
  then have "card (running_ids q) = length (map qj_id (filter (\<lambda>j. qj_state j = JRunning) (load_all q)))"
    unfolding running_ids_def rows_with [OF assms, symmetric] by (rule distinct_card)
  then show ?thesis by (simp add: running_count_def)
qed

text \<open>A claim takes the oldest queued row.\<close>

lemma find_first:
  assumes "find P xs = Some x"
  shows "\<exists>ys zs. xs = ys @ x # zs \<and> P x \<and> \<not> list_ex P ys"
proof -
  obtain i where i: "i < length xs" "P x" "x = xs ! i" "\<forall>j<i. \<not> P (xs ! j)"
    using assms by (auto simp: find_Some_iff)
  then have "xs = take i xs @ x # drop (Suc i) xs" by (simp add: id_take_nth_drop)
  moreover have "\<not> list_ex P (take i xs)" using i by (auto simp: list_ex_iff in_set_conv_nth)
  ultimately show ?thesis using i(2) by blast
qed

lemma claim_next_Some:
  assumes "named q" and "claim_next ok now cap q = (q', Some j')"
  obtains j where "om_get q (qj_id j) = Some j" "qj_state j = JQueued" "j' = set_state now JRunning j"
    "q' = om_put (qj_id j) j' q" "running_count q < cap"
    "\<And>k. om_get q (qj_id k) = Some k \<Longrightarrow> qj_state k = JQueued \<Longrightarrow>
       (qj_created j, qj_id j) \<le> (qj_created k, qj_id k)"
proof -
  obtain j where j: "find (\<lambda>j. qj_state j = JQueued) (load_all q) = Some j" "running_count q < cap"
      "j' = set_state now JRunning j" "q' = om_put (qj_id j) j' q"
    using assms(2) by (auto simp: claim_next_def upsert_def Let_def split: if_splits option.splits)
  obtain ys zs where l: "load_all q = ys @ j # zs" "qj_state j = JQueued" "\<not> list_ex (\<lambda>j. qj_state j = JQueued) ys"
    using find_first [OF j(1)] by blast
  have "sorted (map (\<lambda>j. (qj_created j, qj_id j)) (ys @ j # zs))"
    unfolding l(1) [symmetric] load_all_def by simp
  then have "(qj_created j, qj_id j) \<le> (qj_created k, qj_id k)" if "k \<in> set (j # zs)" for k
    using that by (auto simp: sorted_append)
  moreover have "k \<in> set (j # zs)" if "om_get q (qj_id k) = Some k" "qj_state k = JQueued" for k
    using that load_all_set [OF assms(1), of k] l by (auto simp: list_ex_iff)
  moreover have "om_get q (qj_id j) = Some j"
    using load_all_set [OF assms(1), of j] l(1) by simp
  ultimately show ?thesis using that [of j] j l(2) by blast
qed

lemma claim_next_None: "claim_next ok now cap q = (q', None) \<Longrightarrow> q' = q"
  by (auto simp: claim_next_def Let_def split: if_splits option.splits)

end
