(* ===== verification/TransferSync.thy ===== *)
theory TransferSync
  imports TransferQueue
begin

text \<open>
  The recurring mirrors (\<open>workers/transfers/sync_pair.rs\<close>) and the pass of the worker that turns each due
  pair into an ordinary job (\<open>schedule_sync_pairs_at\<close> of \<open>mod.rs\<close>).  The results: when a pair fires, that
  two firings are an interval apart whatever the clock does, and the identifiers that are saved but never
  scheduled.
\<close>

section \<open>Pairs\<close>

definition sat_mul :: "u64 \<Rightarrow> u64 \<Rightarrow> u64" where
  "sat_mul a b = (if unat a * unat b < 2 ^ 64 then a * b else - 1)"

record sync_pair =
  sp_id :: string
  sp_source :: string
  sp_dest :: string
  sp_every :: u64
  sp_policy :: transfer_policy
  sp_enabled :: bool
  sp_last_fired :: "u64 option"
  sp_next_run :: "u64 option"
  sp_last_result :: "string option"
  sp_peer_reachable :: "bool option"
  sp_created :: u64
  sp_updated :: u64

definition sync_pair_new ::
  "string \<Rightarrow> string \<Rightarrow> string \<Rightarrow> u64 \<Rightarrow> transfer_policy \<Rightarrow> u64 \<Rightarrow> sync_pair" where
  "sync_pair_new i source dest every policy now =
     \<lparr>sp_id = i, sp_source = source, sp_dest = dest, sp_every = max every 1, sp_policy = policy,
      sp_enabled = True, sp_last_fired = None, sp_next_run = None, sp_last_result = None,
      sp_peer_reachable = None, sp_created = now, sp_updated = now\<rparr>"

definition interval_ms :: "sync_pair \<Rightarrow> u64" where
  "interval_ms p = sat_mul (max (sp_every p) 1) 1000"

definition due_at :: "sync_pair \<Rightarrow> u64 \<Rightarrow> bool" where
  "due_at p now =
     (sp_enabled p
      \<and> (case sp_last_fired p of None \<Rightarrow> True | Some l \<Rightarrow> now \<ge> sat_add l (interval_ms p)))"

definition next_run_at :: "sync_pair \<Rightarrow> u64 \<Rightarrow> u64 option" where
  "next_run_at p now =
     (if \<not> sp_enabled p then None
      else Some (case sp_last_fired p of None \<Rightarrow> now | Some l \<Rightarrow> sat_add l (interval_ms p)))"

definition pair_to_job :: "string \<Rightarrow> u64 \<Rightarrow> sync_pair \<Rightarrow> queue_job" where
  "pair_to_job minted now p = queue_job_new minted now (sp_source p) (sp_dest p) LaneRsync (sp_policy p)"

definition normalize_for_save :: "u64 \<Rightarrow> sync_pair \<Rightarrow> sync_pair" where
  "normalize_for_save now p =
     (let p1 = p\<lparr>sp_id := trim (sp_id p), sp_source := trim (sp_source p), sp_dest := trim (sp_dest p),
                 sp_every := max (sp_every p) 1, sp_updated := now\<rparr>;
          p2 = (if sp_created p1 = 0 then p1\<lparr>sp_created := now\<rparr> else p1)
      in p2\<lparr>sp_next_run := next_run_at p2 now\<rparr>)"

definition validate_id :: "string \<Rightarrow> bool" where
  "validate_id i =
     (let i = trim i
      in i \<noteq> [] \<and> i \<noteq> ''.'' \<and> i \<noteq> ''..'' \<and> length i \<le> 120
         \<and> list_all (\<lambda>c. is_ascii_alnum c \<or> c \<in> set ''-_.'') i)"

definition validate_pair :: "sync_pair \<Rightarrow> bool" where
  "validate_pair p =
     (validate_id (sp_id p) \<and> sp_source p \<noteq> [] \<and> sp_dest p \<noteq> []
      \<and> CHR 0x00 \<notin> set (sp_source p) \<and> CHR 0x00 \<notin> set (sp_dest p))"

section \<open>The store\<close>

type_synonym pair_store = "(string, sync_pair) omap"

definition pair_upsert :: "bool \<Rightarrow> u64 \<Rightarrow> sync_pair \<Rightarrow> pair_store \<Rightarrow> pair_store \<times> bool" where
  "pair_upsert ok now p st =
     (let p = normalize_for_save now p
      in if \<not> validate_pair p \<or> \<not> ok then (st, False) else (om_put (sp_id p) p st, True))"

definition pair_remove :: "bool \<Rightarrow> string \<Rightarrow> pair_store \<Rightarrow> pair_store \<times> bool" where
  "pair_remove ok i st =
     (if \<not> validate_id i \<or> (om_get st i \<noteq> None \<and> \<not> ok) then (st, False) else (om_del i st, True))"

definition pair_get :: "pair_store \<Rightarrow> string \<Rightarrow> sync_pair option" where
  "pair_get st i = (if validate_id i then om_get st i else None)"

text \<open>The files are those of the identifiers; a name that starts with a dot is passed over.\<close>

definition pair_load_all :: "pair_store \<Rightarrow> sync_pair list" where
  "pair_load_all st = sort_key sp_id (map snd (filter (\<lambda>(i, p). \<not> starts_with i ''.'') st))"

definition mark_fired :: "bool \<Rightarrow> string \<Rightarrow> u64 \<Rightarrow> u64 \<Rightarrow> pair_store \<Rightarrow> pair_store \<times> bool" where
  "mark_fired ok i fired now st =
     (case pair_get st i of
        None \<Rightarrow> (st, False)
      | Some p \<Rightarrow>
          (let p1 = p\<lparr>sp_last_fired := Some fired, sp_updated := fired\<rparr>
           in pair_upsert ok now (p1\<lparr>sp_next_run := next_run_at p1 fired\<rparr>) st))"

definition record_sync_pair_attempt ::
  "bool \<Rightarrow> u64 \<Rightarrow> string \<Rightarrow> string \<Rightarrow> bool \<Rightarrow> pair_store \<Rightarrow> pair_store" where
  "record_sync_pair_attempt ok now i result reachable st =
     (case pair_get st i of
        None \<Rightarrow> st
      | Some p \<Rightarrow>
          fst (pair_upsert ok now (p\<lparr>sp_last_result := Some result, sp_peer_reachable := Some reachable\<rparr>) st))"

section \<open>One pass of the scheduler\<close>

text \<open>
  What the pass meets for one pair: the identifier and the time the new job is minted with, the outcomes of
  the three writes, and the text of the error of the first.
\<close>

record pair_io =
  pi_minted :: string
  pi_now :: u64
  pi_queue_ok :: bool
  pi_mark_ok :: bool
  pi_note_ok :: bool
  pi_error :: string

record sync_state =
  sy_queue :: queue
  sy_store :: pair_store
  sy_jobs :: "(string, string) omap"
  sy_fired :: "string list"

definition fire_pair :: "(string \<Rightarrow> pair_io) \<Rightarrow> u64 \<Rightarrow> sync_pair \<Rightarrow> sync_state \<Rightarrow> sync_state" where
  "fire_pair io now p s =
     (if \<not> due_at p now then s
      else (let i = sp_id p; o1 = io i; j = pair_to_job (pi_minted o1) (pi_now o1) p
            in case submit (pi_queue_ok o1) (pi_now o1) j (sy_queue s) of
                 (q, Inr _) \<Rightarrow>
                   (let st = fst (mark_fired (pi_mark_ok o1) i now (pi_now o1) (sy_store s))
                    in s\<lparr>sy_queue := q, sy_jobs := om_put (qj_id j) i (sy_jobs s),
                         sy_store := record_sync_pair_attempt (pi_note_ok o1) (pi_now o1) i ''ok'' True st,
                         sy_fired := sy_fired s @ [i]\<rparr>)
               | (q, Inl e) \<Rightarrow>
                   s\<lparr>sy_queue := q,
                     sy_store := record_sync_pair_attempt (pi_note_ok o1) (pi_now o1) i
                       (case e of AlreadyExists \<Rightarrow> ''transfer `'' @ qj_id j @ ''` is already admitted''
                                | OtherIo \<Rightarrow> pi_error o1)
                       False (sy_store s)\<rparr>))"

definition schedule_sync_pairs_at :: "(string \<Rightarrow> pair_io) \<Rightarrow> u64 \<Rightarrow> sync_state \<Rightarrow> sync_state" where
  "schedule_sync_pairs_at io now s =
     fold (fire_pair io now) (pair_load_all (sy_store s)) (s\<lparr>sy_fired := []\<rparr>)"

section \<open>The entries of the store\<close>

definition pair_ok :: "sync_pair \<Rightarrow> bool" where
  "pair_ok p \<longleftrightarrow>
     validate_pair p \<and> trim (sp_id p) = sp_id p \<and> trim (sp_source p) = sp_source p
     \<and> trim (sp_dest p) = sp_dest p \<and> 1 \<le> sp_every p"

definition store_ok :: "pair_store \<Rightarrow> bool" where
  "store_ok st \<longleftrightarrow> om_wf st \<and> (\<forall>i p. om_get st i = Some p \<longrightarrow> sp_id p = i \<and> pair_ok p)"

lemma trim_trim [simp]: "trim (trim s) = trim s"
  by (rule trim_trimmed) (rule trimmed_trim)

lemma normalize_fields [simp]:
  "sp_id (normalize_for_save now p) = trim (sp_id p)"
  "sp_source (normalize_for_save now p) = trim (sp_source p)"
  "sp_dest (normalize_for_save now p) = trim (sp_dest p)"
  "sp_every (normalize_for_save now p) = max (sp_every p) 1"
  "sp_enabled (normalize_for_save now p) = sp_enabled p"
  "sp_last_fired (normalize_for_save now p) = sp_last_fired p"
  "sp_policy (normalize_for_save now p) = sp_policy p"
  by (simp_all add: normalize_for_save_def Let_def)

lemma normalize_ok: "validate_pair (normalize_for_save now p) \<Longrightarrow> pair_ok (normalize_for_save now p)"
  by (simp add: pair_ok_def)

lemma pair_ok_normalize: "pair_ok p \<Longrightarrow> pair_ok (normalize_for_save now p)"
  by (auto simp: pair_ok_def validate_pair_def)

lemma upsert_store: "store_ok st \<Longrightarrow> store_ok (fst (pair_upsert ok now p st))"
  by (auto simp: store_ok_def pair_upsert_def Let_def om_wf_put om_get_put normalize_ok split: if_splits)

text \<open>Saving an entry of the store again changes neither its name nor its schedule.\<close>

lemma upsert_entry:
  assumes "pair_ok p"
  shows "pair_upsert ok now p st = (if ok then (om_put (sp_id p) (normalize_for_save now p) st, True) else (st, False))"
  using pair_ok_normalize [OF assms, of now] assms by (auto simp: pair_upsert_def Let_def pair_ok_def)

definition same_schedule :: "sync_pair \<Rightarrow> sync_pair \<Rightarrow> bool" where
  "same_schedule p p' \<longleftrightarrow> sp_enabled p' = sp_enabled p \<and> interval_ms p' = interval_ms p"

lemma same_schedule_normalize [simp]: "same_schedule p (normalize_for_save now p)"
  by (simp add: same_schedule_def interval_ms_def)

lemma pair_get_ok: "store_ok st \<Longrightarrow> pair_get st i = om_get st i"
  by (cases "om_get st i") (auto simp: pair_get_def store_ok_def pair_ok_def validate_pair_def)

lemma note_store: "store_ok st \<Longrightarrow> store_ok (record_sync_pair_attempt ok now i r b st)"
  by (simp add: record_sync_pair_attempt_def upsert_store split: option.splits)

lemma note_get:
  assumes "store_ok st"
  shows "om_get (record_sync_pair_attempt ok now i r b st) k =
     (if k = i \<and> ok then map_option (\<lambda>p. normalize_for_save now
        (p\<lparr>sp_last_result := Some r, sp_peer_reachable := Some b\<rparr>)) (om_get st i) else om_get st k)"
proof (cases "om_get st i")
  case (Some p)
  then have "sp_id p = i" "pair_ok p" using assms by (auto simp: store_ok_def)
  then have "pair_ok (p\<lparr>sp_last_result := Some r, sp_peer_reachable := Some b\<rparr>)"
    by (simp add: pair_ok_def validate_pair_def)
  with Some \<open>sp_id p = i\<close> show ?thesis
    by (auto simp: record_sync_pair_attempt_def pair_get_ok [OF assms] upsert_entry om_get_put)
qed (auto simp: record_sync_pair_attempt_def pair_get_ok [OF assms])

lemma mark_get:
  assumes "store_ok st"
  shows "om_get (fst (mark_fired ok i fired now st)) k =
     (if k = i \<and> ok then map_option (\<lambda>p. normalize_for_save now
        (p\<lparr>sp_last_fired := Some fired, sp_updated := fired,
           sp_next_run := next_run_at (p\<lparr>sp_last_fired := Some fired, sp_updated := fired\<rparr>) fired\<rparr>))
        (om_get st i) else om_get st k)"
proof (cases "om_get st i")
  case (Some p)
  then have "sp_id p = i" "pair_ok p" using assms by (auto simp: store_ok_def)
  then have "pair_ok (p\<lparr>sp_last_fired := Some fired, sp_updated := fired, sp_next_run := x\<rparr>)" for x
    by (simp add: pair_ok_def validate_pair_def)
  with Some \<open>sp_id p = i\<close> show ?thesis
    by (auto simp: mark_fired_def pair_get_ok [OF assms] upsert_entry om_get_put Let_def)
qed (auto simp: mark_fired_def pair_get_ok [OF assms])

lemma mark_store: "store_ok st \<Longrightarrow> store_ok (fst (mark_fired ok i fired now st))"
  by (simp add: mark_fired_def upsert_store Let_def split: option.splits)

section \<open>Firings\<close>

lemma fire_store: "store_ok (sy_store s) \<Longrightarrow> store_ok (sy_store (fire_pair io now p s))"
  by (auto simp: fire_pair_def Let_def note_store mark_store split: prod.splits sum.splits)

lemma fire_other:
  "store_ok (sy_store s) \<Longrightarrow> k \<noteq> sp_id p \<Longrightarrow>
     om_get (sy_store (fire_pair io now p s)) k = om_get (sy_store s) k"
  by (auto simp: fire_pair_def Let_def note_get mark_get mark_store split: prod.splits sum.splits)

lemma fire_fired:
  "sy_fired (fire_pair io now p s) = sy_fired s
     \<or> due_at p now \<and> sy_fired (fire_pair io now p s) = sy_fired s @ [sp_id p]"
  by (auto simp: fire_pair_def Let_def split: prod.splits sum.splits)

text \<open>The entry of the pair itself: it keeps its schedule, and its last firing is the pass that fired it.\<close>

lemma fire_own:
  assumes "store_ok (sy_store s)" and "om_get (sy_store s) (sp_id p) = Some e" and "pi_mark_ok (io (sp_id p))"
    and "sp_id p \<notin> set (sy_fired s)"
  shows "\<exists>e'. om_get (sy_store (fire_pair io now p s)) (sp_id p) = Some e' \<and> same_schedule e e'
     \<and> sp_last_fired e' =
         (if sp_id p \<in> set (sy_fired (fire_pair io now p s)) then Some now else sp_last_fired e)"
  using assms
  by (auto simp: fire_pair_def Let_def note_get mark_get mark_store same_schedule_def interval_ms_def
      split: prod.splits sum.splits)

lemma fold_other:
  assumes "store_ok (sy_store s)" and "k \<notin> sp_id ` set xs"
  shows "om_get (sy_store (fold (fire_pair io now) xs s)) k = om_get (sy_store s) k
     \<and> (k \<in> set (sy_fired (fold (fire_pair io now) xs s)) \<longleftrightarrow> k \<in> set (sy_fired s))"
  using assms
proof (induction xs arbitrary: s)
  case (Cons p xs)
  have "k \<in> set (sy_fired (fire_pair io now p s)) \<longleftrightarrow> k \<in> set (sy_fired s)"
    using fire_fired [of io now p s] Cons.prems(2) by auto
  then show ?case using Cons fire_store fire_other by simp
qed simp

lemma fold_own:
  assumes "store_ok (sy_store s)" and "distinct (map sp_id xs)" and "om_get (sy_store s) i = Some e"
    and "i \<notin> set (sy_fired s)" and "pi_mark_ok (io i)"
  shows "\<exists>e'. om_get (sy_store (fold (fire_pair io now) xs s)) i = Some e' \<and> same_schedule e e'
     \<and> sp_last_fired e' =
         (if i \<in> set (sy_fired (fold (fire_pair io now) xs s)) then Some now else sp_last_fired e)
     \<and> (i \<in> set (sy_fired (fold (fire_pair io now) xs s)) \<longrightarrow> (\<exists>p \<in> set xs. sp_id p = i \<and> due_at p now))"
  using assms
proof (induction xs arbitrary: s)
  case Nil
  then show ?case by (simp add: same_schedule_def)
next
  case (Cons p xs)
  let ?s = "fire_pair io now p s"
  have ok: "store_ok (sy_store ?s)" using Cons.prems(1) by (rule fire_store)
  show ?case
  proof (cases "sp_id p = i")
    case True
    then have "i \<notin> sp_id ` set xs" using Cons.prems(2) by auto
    moreover have "i \<in> set (sy_fired ?s) \<Longrightarrow> due_at p now"
      using fire_fired [of io now p s] Cons.prems(4) by auto
    ultimately show ?thesis
      using fold_other [OF ok, of i xs io now] fire_own [of s p e io now] Cons.prems True by fastforce
  next
    case False
    then have "i \<notin> set (sy_fired ?s)" using fire_fired [of io now p s] Cons.prems(4) by auto
    moreover have "om_get (sy_store ?s) i = Some e" using fire_other Cons.prems(1,3) False by metis
    ultimately show ?thesis using Cons.IH [OF ok] Cons.prems(2,5) by fastforce
  qed
qed

lemma fold_store: "store_ok (sy_store s) \<Longrightarrow> store_ok (sy_store (fold (fire_pair io now) xs s))"
  by (induction xs arbitrary: s) (simp_all add: fire_store)

lemma loaded:
  assumes "store_ok st"
  shows "p \<in> set (pair_load_all st) \<longleftrightarrow> om_get st (sp_id p) = Some p \<and> \<not> starts_with (sp_id p) ''.''"
proof -
  have "(i, q) \<in> set st \<longleftrightarrow> om_get st i = Some q" for i q
    using assms om_get_mem [of st] by (auto simp: store_ok_def om_get_def dest: map_of_SomeD)
  then have "p \<in> set (pair_load_all st) \<longleftrightarrow> (\<exists>i. om_get st i = Some p \<and> \<not> starts_with i ''.'')"
    by (force simp: pair_load_all_def)
  then show ?thesis using assms by (auto simp: store_ok_def)
qed

lemma loaded_ids:
  assumes "store_ok st"
  shows "distinct (map sp_id (pair_load_all st))"
proof -
  let ?ps = "filter (\<lambda>(i, p). \<not> starts_with i ''.'') st"
  have "map sp_id (map snd ?ps) = map fst ?ps"
    using assms om_get_mem [of st] by (auto simp: store_ok_def)
  moreover have "mset (map sp_id (pair_load_all st)) = mset (map sp_id (map snd ?ps))"
    by (simp add: pair_load_all_def multiset.map_comp)
  moreover have "distinct (map fst ?ps)"
    using assms om_wf_distinct [of st] by (auto simp: store_ok_def om_keys_def intro: distinct_map_filter)
  ultimately show ?thesis using mset_eq_imp_distinct_iff by metis
qed

text \<open>One pass: a pair that fires was due, and its entry then says so.\<close>

lemma pass_entry:
  fixes now :: u64
  assumes "store_ok (sy_store s)" and "om_get (sy_store s) i = Some e" and "pi_mark_ok (io i)"
  defines "s' \<equiv> schedule_sync_pairs_at io now s"
  shows "store_ok (sy_store s')
     \<and> (\<exists>e'. om_get (sy_store s') i = Some e' \<and> same_schedule e e'
          \<and> sp_last_fired e' = (if i \<in> set (sy_fired s') then Some now else sp_last_fired e))
     \<and> (i \<in> set (sy_fired s') \<longrightarrow> due_at e now)"
proof -
  have st: "store_ok (sy_store (s\<lparr>sy_fired := []\<rparr>))" using assms(1) by simp
  have "due_at e now" if "p \<in> set (pair_load_all (sy_store s))" "sp_id p = i" "due_at p now" for p
    using that assms(1,2) loaded by auto
  moreover note fold_own [OF st loaded_ids [OF assms(1)], of i e io now] assms(2,3)
  ultimately show ?thesis
    unfolding s'_def schedule_sync_pairs_at_def using fold_store [OF st] by fastforce
qed

fun fire_times :: "string \<Rightarrow> ((string \<Rightarrow> pair_io) \<times> u64) list \<Rightarrow> sync_state \<Rightarrow> u64 list" where
  "fire_times i [] s = []"
| "fire_times i ((io, now) # ps) s =
     (let s' = schedule_sync_pairs_at io now s
      in (if i \<in> set (sy_fired s') then [now] else []) @ fire_times i ps s')"

lemma sat_add_ge: "a \<le> sat_add a b" for a b :: u64
proof -
  have "unat a < 2 ^ LENGTH(64)" by (rule unsigned_less)
  then show ?thesis by (simp add: word_le_nat_alt unat_sat_add)
qed

lemma fire_times_spaced:
  assumes "store_ok (sy_store s)" and "om_get (sy_store s) i = Some e"
    and "\<forall>(io, now) \<in> set ps. pi_mark_ok (io i)"
  shows "sorted_wrt (\<lambda>a b. sat_add a (interval_ms e) \<le> b) (fire_times i ps s)
     \<and> (\<forall>t \<in> set (fire_times i ps s). sp_enabled e
          \<and> (\<forall>l. sp_last_fired e = Some l \<longrightarrow> sat_add l (interval_ms e) \<le> t))"
  using assms
proof (induction ps arbitrary: s e)
  case (Cons p ps)
  obtain io now where p: "p = (io, now)" by (cases p)
  let ?s = "schedule_sync_pairs_at io now s"
  have mark: "pi_mark_ok (io i)" using Cons.prems(3) by (auto simp: p)
  obtain e' where e': "store_ok (sy_store ?s)" "om_get (sy_store ?s) i = Some e'" "same_schedule e e'"
      "sp_last_fired e' = (if i \<in> set (sy_fired ?s) then Some now else sp_last_fired e)"
      "i \<in> set (sy_fired ?s) \<longrightarrow> due_at e now"
    using pass_entry [where io = io and i = i, OF Cons.prems(1,2) mark, of now] by blast
  note ih = Cons.IH [OF e'(1,2)]
  show ?case
  proof (cases "i \<in> set (sy_fired ?s)")
    case True
    then have due: "due_at e now" using e'(5) by blast
    have "sat_add now (interval_ms e) \<le> t" if "t \<in> set (fire_times i ps ?s)" for t
      using ih that e'(3,4) True Cons.prems(3) by (auto simp: same_schedule_def)
    moreover from this have "now \<le> t" if "t \<in> set (fire_times i ps ?s)" for t
      using that sat_add_ge order_trans by blast
    ultimately show ?thesis
      using ih e'(3) True due Cons.prems(3)
      by (auto simp: p Let_def due_at_def same_schedule_def intro: order_trans)
  next
    case False
    then show ?thesis using ih e'(3,4) Cons.prems(3) by (auto simp: p Let_def same_schedule_def)
  qed
qed simp

text \<open>Over any passes of the scheduler, with any clock readings and whatever happens to the other pairs and
  the other writes, two firings of a saved pair are at least its interval apart, and a disabled pair never
  fires; only the stamp of the last firing must reach the disk.
\<close>

theorem mirrors_keep_their_interval:
  assumes "store_ok (sy_store s)" and "om_get (sy_store s) i = Some e"
    and "\<forall>(io, now) \<in> set ps. pi_mark_ok (io i)"
  shows "sorted_wrt (\<lambda>a b. sat_add a (interval_ms e) \<le> b) (fire_times i ps s)
     \<and> (\<not> sp_enabled e \<longrightarrow> fire_times i ps s = [])"
  using fire_times_spaced [OF assms] by (cases "fire_times i ps s") auto

definition demo_store :: pair_store where
  "demo_store = [(''a'', sync_pair_new ''a'' ''/src'' ''/dst'' 60 \<lparr>po_bwlimit = None, po_verify = True\<rparr> 1)]"

definition demo_pass :: "u64 \<Rightarrow> (string \<Rightarrow> pair_io) \<times> u64" where
  "demo_pass now = ((\<lambda>i. \<lparr>pi_minted = ''j'', pi_now = now, pi_queue_ok = True, pi_mark_ok = True, pi_note_ok = True,
     pi_error = []\<rparr>), now)"

lemma demo_store_ok: "store_ok demo_store"
proof -
  have "trim ''a'' = ''a''" "trim ''/src'' = ''/src''" "trim ''/dst'' = ''/dst''"
    by (simp_all add: trim_id no_ws_byte_ascii of_char_def)
  moreover have "is_ascii_alnum CHR ''a''"
    by (simp add: is_ascii_alnum_def is_ascii_alpha_def char_le_of_char)
  ultimately have "pair_ok (snd (hd demo_store))"
    by (simp add: demo_store_def pair_ok_def validate_pair_def validate_id_def sync_pair_new_def)
  then show ?thesis
    by (auto simp: store_ok_def demo_store_def om_get_def om_wf_def sync_pair_new_def)
qed

theorem mirrors_keep_their_interval_witness:
  "sorted_wrt (\<lambda>a b. sat_add a (interval_ms (snd (hd demo_store))) \<le> b)
     (fire_times ''a'' [demo_pass 5, demo_pass 60004, demo_pass 60005]
       \<lparr>sy_queue = om_empty, sy_store = demo_store, sy_jobs = om_empty, sy_fired = []\<rparr>)"
  by (rule mirrors_keep_their_interval [THEN conjunct1])
    (simp_all add: demo_store_ok demo_pass_def, simp add: demo_store_def om_get_def)

text \<open>An identifier that begins with a dot may be saved as any other, and the pair saved under it never
  fires: the scheduler passes over its file.
\<close>

theorem dotted_pairs_never_fire:
  assumes "store_ok (sy_store s)" and "starts_with i ''.''"
  shows "fire_times i ps s = []
     \<and> (pair_ok p \<and> sp_id p = i \<longrightarrow> snd (pair_upsert True now p (sy_store s)))"
proof -
  have "fire_times i ps s = []"
    using assms(1)
  proof (induction ps arbitrary: s)
    case (Cons q ps)
    obtain io now where q: "q = (io, now)" by (cases q)
    have st: "store_ok (sy_store (s\<lparr>sy_fired := []\<rparr>))" using Cons.prems by simp
    have "i \<notin> sp_id ` set (pair_load_all (sy_store s))"
      using loaded [OF Cons.prems] assms(2) by auto
    then have "i \<notin> set (sy_fired (schedule_sync_pairs_at io now s))"
      using fold_other [OF st] by (simp add: schedule_sync_pairs_at_def)
    moreover have "store_ok (sy_store (schedule_sync_pairs_at io now s))"
      unfolding schedule_sync_pairs_at_def by (rule fold_store [OF st])
    ultimately show ?case using Cons.IH by (simp add: q Let_def)
  qed simp
  then show ?thesis by (auto simp: upsert_entry)
qed

theorem dotted_pairs_never_fire_witness:
  "fire_times ''.a'' [demo_pass 5]
     \<lparr>sy_queue = om_empty, sy_store = demo_store, sy_jobs = om_empty, sy_fired = []\<rparr> = []"
  by (rule dotted_pairs_never_fire [where p = "snd (hd demo_store)" and now = 0, THEN conjunct1])
    (simp_all add: demo_store_ok starts_with_def)

end
