(* ===== verification/TransferFiles.thy ===== *)
theory TransferFiles
  imports TransferContract
begin

text \<open>
  The execution of a copy between two objects of the Files registry (\<open>workers/transfers/v2.rs\<close>): resolving
  the two ends, checking path, type, size and digest of what they name, staging the bytes, handing them to
  the registry and confirming what it then says.  The registry and the file system may change between any
  two questions, so every question passes a world on; the operator's flag is read in the same way.  The
  results: where an accepted path can point, that the copy always ends, and what a copy that reports success
  has established.
\<close>

section \<open>Questions to the world\<close>

type_synonym ('w, 'e, 'a) io = "'w \<Rightarrow> ('e, 'a) result \<times> 'w"

definition return_io :: "'a \<Rightarrow> ('w, 'e, 'a) io" where
  "return_io a w = (Inr a, w)"

definition fail_io :: "'e \<Rightarrow> ('w, 'e, 'a) io" where
  "fail_io e w = (Inl e, w)"

definition require_io :: "bool \<Rightarrow> 'e \<Rightarrow> ('w, 'e, unit) io" where
  "require_io b e = (if b then return_io () else fail_io e)"

definition then_io :: "('w, 'e, 'a) io \<Rightarrow> ('a \<Rightarrow> ('w, 'e, 'b) io) \<Rightarrow> ('w, 'e, 'b) io" where
  "then_io m f w = (case m w of (Inl e, w') \<Rightarrow> (Inl e, w') | (Inr a, w') \<Rightarrow> f a w')"

definition error_io :: "('e \<Rightarrow> 'f) \<Rightarrow> ('w, 'e, 'a) io \<Rightarrow> ('w, 'f, 'a) io" where
  "error_io g m w = (case m w of (Inl e, w') \<Rightarrow> (Inl (g e), w') | (Inr a, w') \<Rightarrow> (Inr a, w'))"

text \<open>A question that is answered or not, with the error of the caller.\<close>

definition ask_io :: "('w \<Rightarrow> 'a option \<times> 'w) \<Rightarrow> 'e \<Rightarrow> ('w, 'e, 'a) io" where
  "ask_io q e w = (case q w of (None, w') \<Rightarrow> (Inl e, w') | (Some a, w') \<Rightarrow> (Inr a, w'))"

text \<open>What is done to the world after an error.\<close>

definition cleanup_io :: "('w \<Rightarrow> 'w) \<Rightarrow> ('w, 'e, 'a) io \<Rightarrow> ('w, 'e, 'a) io" where
  "cleanup_io f m w = (case m w of (Inl e, w') \<Rightarrow> (Inl e, f w') | (Inr a, w') \<Rightarrow> (Inr a, w'))"

named_theorems io_simps

lemma then_io_Inr [io_simps]:
  "then_io m f w = (Inr b, w'') \<longleftrightarrow> (\<exists>a w'. m w = (Inr a, w') \<and> f a w' = (Inr b, w''))"
  by (auto simp: then_io_def split: prod.splits sum.splits)

lemma return_io_Inr [io_simps]: "return_io a w = (Inr b, w') \<longleftrightarrow> b = a \<and> w' = w"
  by (auto simp: return_io_def)

lemma fail_io_Inr [io_simps]: "fail_io e w \<noteq> (Inr b, w')"
  by (simp add: fail_io_def)

lemma require_io_Inr [io_simps]: "require_io c e w = (Inr b, w') \<longleftrightarrow> c \<and> w' = w"
  by (auto simp: require_io_def return_io_def fail_io_def)

lemma error_io_Inr [io_simps]: "error_io g m w = (Inr b, w') \<longleftrightarrow> m w = (Inr b, w')"
  by (auto simp: error_io_def split: prod.splits sum.splits)

lemma ask_io_Inr [io_simps]: "ask_io q e w = (Inr b, w') \<longleftrightarrow> q w = (Some b, w')"
  by (auto simp: ask_io_def split: prod.splits option.splits)

lemma cleanup_io_Inr [io_simps]: "cleanup_io f m w = (Inr b, w') \<longleftrightarrow> m w = (Inr b, w')"
  by (auto simp: cleanup_io_def split: prod.splits sum.splits)

section \<open>Ends of a copy\<close>

datatype endpoint_role = SourceRole | DestinationRole
datatype object_type = RegularFile | Directory
datatype path_component = RootDir | CurDir | ParentDir | Normal string

text \<open>A path is the list of its components, by which two paths are also compared.\<close>

type_synonym path = "path_component list"

record files_record =
  fr_identity :: transfer_location
  fr_root :: path
  fr_relative :: path
  fr_generation :: u64
  fr_sha256 :: string
  fr_size :: u64
  fr_type :: object_type
  fr_available :: bool
  fr_readable :: bool
  fr_writable :: bool

datatype resolve_failure = Unavailable | PermissionDenied | RegistryFailure | MutationUnsupported

record bound_endpoint =
  be_identity :: transfer_location
  be_path :: path
  be_generation :: u64
  be_sha256 :: string
  be_size :: u64
  be_type :: object_type

record resolved_job =
  rj_job :: transfer_job
  rj_source :: bound_endpoint
  rj_destination :: bound_endpoint
  rj_source_record :: files_record
  rj_destination_record :: files_record

record copy_outcome =
  co_bytes :: u64
  co_sha256 :: string

datatype commit_failure =
  CommitUnsupported | ConcurrentDestination | Filesystem | Publication | PublicationUnconfirmed

datatype resolution_error =
    InvalidJob transfer_invalid
  | NotQueued
  | UnsupportedJobKind transfer_kind
  | UnsupportedJobOperation
  | NonFilesIdentity endpoint_role
  | ResolverFailed endpoint_role resolve_failure
  | IdentityMismatch endpoint_role
  | EndpointUnavailable endpoint_role
  | AccessDenied endpoint_role
  | UnsafePath endpoint_role
  | MetadataUnavailable endpoint_role
  | MetadataMismatch endpoint_role string
  | IncompatibleObjectType endpoint_role
  | SameCanonicalObject
  | ChecksumMismatch
  | StaleResolution endpoint_role

datatype copy_error =
    Revalidation resolution_error
  | CopyCanceled
  | SourceChanged
  | CommitFailed commit_failure

text \<open>
  The registry (\<open>fe_resolve\<close>, \<open>fe_commit\<close>), the file system, and the operator's flag.  A handle is a
  number; a read gives the next bytes, none at the end; \<open>fs_read_file\<close> is the reading of a whole file.
\<close>

datatype node_type = FileNode | DirectoryNode | SymlinkNode | OtherNode
datatype create_result = Created nat | NameTaken | CreateFailed

record 'w files_env =
  fe_resolve :: "transfer_location \<Rightarrow> endpoint_role \<Rightarrow> 'w \<Rightarrow> (resolve_failure, files_record) result \<times> 'w"
  fe_commit :: "resolved_job \<Rightarrow> string \<Rightarrow> copy_outcome \<Rightarrow> 'w \<Rightarrow> (commit_failure, unit) result \<times> 'w"
  fs_symlink_metadata :: "path \<Rightarrow> 'w \<Rightarrow> node_type option \<times> 'w"
  fs_canonicalize :: "path \<Rightarrow> 'w \<Rightarrow> path option \<times> 'w"
  fs_metadata :: "path \<Rightarrow> 'w \<Rightarrow> (bool \<times> u64) option \<times> 'w"
  fs_read_file :: "path \<Rightarrow> 'w \<Rightarrow> string option \<times> 'w"
  fs_open_no_follow :: "path \<Rightarrow> 'w \<Rightarrow> nat option \<times> 'w"
  fs_handle_metadata :: "nat \<Rightarrow> 'w \<Rightarrow> (bool \<times> u64) option \<times> 'w"
  fs_read :: "nat \<Rightarrow> 'w \<Rightarrow> string option \<times> 'w"
  fs_create_new :: "path \<Rightarrow> 'w \<Rightarrow> create_result \<times> 'w"
  fs_write_all :: "nat \<Rightarrow> string \<Rightarrow> 'w \<Rightarrow> unit option \<times> 'w"
  fs_sync_all :: "nat \<Rightarrow> 'w \<Rightarrow> unit option \<times> 'w"
  fs_remove_file :: "path \<Rightarrow> 'w \<Rightarrow> 'w"
  op_canceled :: "'w \<Rightarrow> bool \<times> 'w"

section \<open>Resolving\<close>

definition require_files_identity :: "transfer_location \<Rightarrow> endpoint_role \<Rightarrow> ('w, resolution_error, unit) io" where
  "require_files_identity l role = require_io (family l \<in> {FLocal, FMesh}) (NonFilesIdentity role)"

definition resolve_once ::
  "'w files_env \<Rightarrow> transfer_location \<Rightarrow> endpoint_role \<Rightarrow> ('w, resolution_error, files_record) io" where
  "resolve_once env l role = error_io (ResolverFailed role) (fe_resolve env l role)"

definition ensure_current ::
  "'w files_env \<Rightarrow> transfer_location \<Rightarrow> endpoint_role \<Rightarrow> files_record \<Rightarrow> ('w, resolution_error, unit) io" where
  "ensure_current env l role expected =
     then_io (resolve_once env l role) (\<lambda>current. require_io (current = expected) (StaleResolution role))"

text \<open>The components below the root, each looked at before the next.\<close>

fun walk_components ::
  "'w files_env \<Rightarrow> endpoint_role \<Rightarrow> path \<Rightarrow> path \<Rightarrow> ('w, resolution_error, path) io" where
  "walk_components env role candidate [] = return_io candidate"
| "walk_components env role candidate (c # cs) =
     then_io (ask_io (fs_symlink_metadata env (candidate @ [c])) (MetadataUnavailable role)) (\<lambda>t.
     then_io (require_io (t \<noteq> SymlinkNode) (UnsafePath role)) (\<lambda>_.
     walk_components env role (candidate @ [c]) cs))"

fun is_normal :: "path_component \<Rightarrow> bool" where
  "is_normal (Normal _) = True" | "is_normal _ = False"

definition contained_canonical_path ::
  "'w files_env \<Rightarrow> files_record \<Rightarrow> endpoint_role \<Rightarrow> ('w, resolution_error, path) io" where
  "contained_canonical_path env r role =
     then_io (require_io (fr_root r \<noteq> [] \<and> hd (fr_root r) = RootDir \<and> fr_relative r \<noteq> []
                           \<and> list_all is_normal (fr_relative r)) (UnsafePath role)) (\<lambda>_.
     then_io (ask_io (fs_symlink_metadata env (fr_root r)) (MetadataUnavailable role)) (\<lambda>t.
     then_io (require_io (t = DirectoryNode) (UnsafePath role)) (\<lambda>_.
     then_io (ask_io (fs_canonicalize env (fr_root r)) (MetadataUnavailable role)) (\<lambda>root.
     then_io (require_io (root = fr_root r) (UnsafePath role)) (\<lambda>_.
     then_io (walk_components env role root (fr_relative r)) (\<lambda>candidate.
     then_io (ask_io (fs_canonicalize env candidate) (MetadataUnavailable role)) (\<lambda>canonical.
     then_io (require_io (canonical = candidate \<and> prefix root canonical) (UnsafePath role)) (\<lambda>_.
     return_io canonical))))))))"

definition sha256_file :: "'w files_env \<Rightarrow> (string \<Rightarrow> string) \<Rightarrow> path \<Rightarrow> 'w \<Rightarrow> string option \<times> 'w" where
  "sha256_file env sha p w = (case fs_read_file env p w of (c, w') \<Rightarrow> (map_option sha c, w'))"

definition bind_record ::
  "'w files_env \<Rightarrow> (string \<Rightarrow> string) \<Rightarrow> transfer_location \<Rightarrow> endpoint_role \<Rightarrow> files_record
     \<Rightarrow> ('w, resolution_error, bound_endpoint) io" where
  "bind_record env sha l role r =
     then_io (require_io (fr_identity r = l) (IdentityMismatch role)) (\<lambda>_.
     then_io (require_io (fr_available r \<and> fr_generation r \<noteq> 0) (EndpointUnavailable role)) (\<lambda>_.
     then_io (require_io (\<not> (role = SourceRole \<and> \<not> fr_readable r \<or> role = DestinationRole \<and> \<not> fr_writable r))
       (AccessDenied role)) (\<lambda>_.
     then_io (require_io (fr_type r = RegularFile) (IncompatibleObjectType role)) (\<lambda>_.
     then_io (require_io (fr_size r \<le> MAX_TRANSFER_CONTENT_BYTES) (MetadataMismatch role ''size'')) (\<lambda>_.
     then_io (require_io (is_lower_sha256 (fr_sha256 r)) (MetadataMismatch role ''sha256'')) (\<lambda>_.
     then_io (contained_canonical_path env r role) (\<lambda>p.
     then_io (ask_io (fs_metadata env p) (MetadataUnavailable role)) (\<lambda>(file, len).
     then_io (require_io (file \<and> len = fr_size r)
       (MetadataMismatch role (if \<not> file then ''type'' else ''size''))) (\<lambda>_.
     then_io (ask_io (sha256_file env sha p) (MetadataUnavailable role)) (\<lambda>observed.
     then_io (require_io (observed = fr_sha256 r) (MetadataMismatch role ''sha256'')) (\<lambda>_.
     return_io \<lparr>be_identity = l, be_path = p, be_generation = fr_generation r, be_sha256 = fr_sha256 r,
                be_size = fr_size r, be_type = fr_type r\<rparr>)))))))))))"

definition resolve_for_execution ::
  "'w files_env \<Rightarrow> (string \<Rightarrow> string) \<Rightarrow> transfer_job \<Rightarrow> ('w, resolution_error, resolved_job) io" where
  "resolve_for_execution env sha j =
     (case validate_job j of
        Inl e \<Rightarrow> fail_io (InvalidJob e)
      | Inr _ \<Rightarrow>
          (let src = ep_source (tj_endpoint j); dst = ep_destination (tj_endpoint j)
           in then_io (require_io
                 (tj_state j = Queued \<and> tj_progress j = progress_queued
                  \<or> tj_state j = Active \<and> tp_phase (tj_progress j) = PhResolving
                    \<and> tp_attempt (tj_progress j) > 0) NotQueued) (\<lambda>_.
              then_io (require_io (tj_kind j = KLocal \<or> tj_kind j = KMesh) (UnsupportedJobKind (tj_kind j))) (\<lambda>_.
              then_io (require_io (is_copy (tj_operation j)) UnsupportedJobOperation) (\<lambda>_.
              then_io (require_files_identity src SourceRole) (\<lambda>_.
              then_io (require_files_identity dst DestinationRole) (\<lambda>_.
              then_io (resolve_once env src SourceRole) (\<lambda>sr.
              then_io (resolve_once env dst DestinationRole) (\<lambda>dr.
              then_io (bind_record env sha src SourceRole sr) (\<lambda>s.
              then_io (bind_record env sha dst DestinationRole dr) (\<lambda>d.
              then_io (require_io (be_path s \<noteq> be_path d) SameCanonicalObject) (\<lambda>_.
              then_io (require_io (\<not> (ck_mode (tj_checksum j) = ChecksumRequire
                                       \<and> ck_expected (tj_checksum j) \<noteq> Some (be_sha256 s)))
                ChecksumMismatch) (\<lambda>_.
              then_io (ensure_current env src SourceRole sr) (\<lambda>_.
              then_io (ensure_current env dst DestinationRole dr) (\<lambda>_.
              return_io \<lparr>rj_job = j, rj_source = s, rj_destination = d, rj_source_record = sr,
                         rj_destination_record = dr\<rparr>)))))))))))))))"

definition revalidate_for_open ::
  "'w files_env \<Rightarrow> (string \<Rightarrow> string) \<Rightarrow> resolved_job \<Rightarrow> ('w, resolution_error, unit) io" where
  "revalidate_for_open env sha a =
     (let src = ep_source (tj_endpoint (rj_job a)); dst = ep_destination (tj_endpoint (rj_job a))
      in then_io (ensure_current env src SourceRole (rj_source_record a)) (\<lambda>_.
         then_io (ensure_current env dst DestinationRole (rj_destination_record a)) (\<lambda>_.
         then_io (bind_record env sha src SourceRole (rj_source_record a)) (\<lambda>s.
         then_io (bind_record env sha dst DestinationRole (rj_destination_record a)) (\<lambda>d.
         then_io (require_io (s = rj_source a) (StaleResolution SourceRole)) (\<lambda>_.
         require_io (d = rj_destination a) (StaleResolution DestinationRole)))))))"

definition open_regular_no_follow :: "'w files_env \<Rightarrow> path \<Rightarrow> 'e \<Rightarrow> ('w, 'e, nat) io" where
  "open_regular_no_follow env p e =
     then_io (ask_io (fs_open_no_follow env p) e) (\<lambda>h.
     then_io (ask_io (fs_handle_metadata env h) e) (\<lambda>(file, len).
     then_io (require_io file e) (\<lambda>_. return_io h)))"

text \<open>
  The source of a clipboard descriptor: the bytes come with their digest, counted and compared, and the
  registry is asked again before and after.  The reading of the open file is one question.
\<close>

definition open_bounded_files_source ::
  "'w files_env \<Rightarrow> (string \<Rightarrow> string) \<Rightarrow> (nat \<Rightarrow> 'w \<Rightarrow> string option \<times> 'w) \<Rightarrow> transfer_location \<Rightarrow> u64 \<Rightarrow> string
     \<Rightarrow> ('w, resolution_error, nat \<times> string) io" where
  "open_bounded_files_source env sha read_all l expected_size expected_sha =
     then_io (require_files_identity l SourceRole) (\<lambda>_.
     then_io (resolve_once env l SourceRole) (\<lambda>r.
     then_io (bind_record env sha l SourceRole r) (\<lambda>b.
     then_io (require_io (be_size b = expected_size \<and> be_sha256 b = expected_sha)
       (MetadataMismatch SourceRole ''clipboard'')) (\<lambda>_.
     then_io (ensure_current env l SourceRole r) (\<lambda>_.
     then_io (open_regular_no_follow env (be_path b) (MetadataUnavailable SourceRole)) (\<lambda>h.
     then_io (ask_io (fs_handle_metadata env h) (MetadataUnavailable SourceRole)) (\<lambda>(file, len).
     then_io (require_io (len = expected_size) (MetadataMismatch SourceRole ''size'')) (\<lambda>_.
     then_io (ask_io (read_all h) (MetadataUnavailable SourceRole)) (\<lambda>content.
     then_io (require_io (sha content = expected_sha) (MetadataMismatch SourceRole ''sha256'')) (\<lambda>_.
     then_io (ensure_current env l SourceRole r) (\<lambda>_.
     return_io (h, content))))))))))))"

section \<open>Copying\<close>

definition MAX_STAGING_NAME_ATTEMPTS :: nat where
  "MAX_STAGING_NAME_ATTEMPTS = 128"

text \<open>\<open>name\<close> gives the sequence numbers' names, each used once.\<close>

fun claim_staging_file ::
  "'w files_env \<Rightarrow> (nat \<Rightarrow> path) \<Rightarrow> nat \<Rightarrow> ('w, copy_error, path \<times> nat) io" where
  "claim_staging_file env name 0 w = (Inl (CommitFailed Filesystem), w)"
| "claim_staging_file env name (Suc n) w =
     (let p = name n
      in case fs_create_new env p w of
           (Created h, w') \<Rightarrow> (Inr (p, h), w')
         | (NameTaken, w') \<Rightarrow> claim_staging_file env name n w'
         | (CreateFailed, w') \<Rightarrow> (Inl (CommitFailed Filesystem), w'))"

lemma copied_grows:
  fixes copied :: u64
  assumes "unat copied + length chunk < 2 ^ 64"
  shows "unat (copied + of_nat (length chunk)) = unat copied + length chunk"
  using assms by (simp add: unat_word_ariths unat_of_nat)

text \<open>
  The loop reads a chunk, counts it, and writes it to the staged file, whose bytes (those the digest has
  seen) are \<open>staged\<close>.  The count stays within the size of the source, so the loop ends.
\<close>

function copy_loop ::
  "'w files_env \<Rightarrow> u64 \<Rightarrow> nat \<Rightarrow> nat \<Rightarrow> u64 \<Rightarrow> string \<Rightarrow> ('w, copy_error, u64 \<times> string) io" where
  "copy_loop env size_bytes inp out copied staged w =
     (case op_canceled env w of
        (True, w1) \<Rightarrow> (Inl CopyCanceled, w1)
      | (False, w1) \<Rightarrow>
          (case fs_read env inp w1 of
             (None, w2) \<Rightarrow> (Inl SourceChanged, w2)
           | (Some chunk, w2) \<Rightarrow>
               if chunk = [] then (Inr (copied, staged), w2)
               else if \<not> unat copied + length chunk < 2 ^ 64 then (Inl SourceChanged, w2)
               else (let copied' = copied + of_nat (length chunk)
                     in if copied' > size_bytes then (Inl SourceChanged, w2)
                        else (case fs_write_all env out chunk w2 of
                                (None, w3) \<Rightarrow> (Inl (CommitFailed Filesystem), w3)
                              | (Some _, w3) \<Rightarrow> copy_loop env size_bytes inp out copied' (staged @ chunk) w3))))"
  by pat_completeness auto
termination
  by (relation "measure (\<lambda>(env, size_bytes, inp, out, copied, staged, w). unat size_bytes - unat copied)")
    (auto simp: copied_grows word_less_nat_alt not_less simp flip: length_greater_0_conv)

declare copy_loop.simps [simp del]

definition confirm_destination_generation ::
  "'w files_env \<Rightarrow> (string \<Rightarrow> string) \<Rightarrow> resolved_job \<Rightarrow> copy_outcome \<Rightarrow> ('w, commit_failure, u64) io" where
  "confirm_destination_generation env sha a out =
     (let dst = ep_destination (tj_endpoint (rj_job a)); predecessor = rj_destination_record a
      in then_io (error_io (\<lambda>_. PublicationUnconfirmed) (fe_resolve env dst DestinationRole)) (\<lambda>observed.
         then_io (error_io (\<lambda>_. PublicationUnconfirmed) (bind_record env sha dst DestinationRole observed)) (\<lambda>bound.
         then_io (error_io (\<lambda>_. ConcurrentDestination) (ensure_current env dst DestinationRole observed)) (\<lambda>_.
         let desired = (be_size bound = co_bytes out \<and> be_sha256 bound = co_sha256 out)
         in if fr_generation observed < fr_generation predecessor then fail_io ConcurrentDestination
            else if fr_generation observed = fr_generation predecessor
            then (if fr_sha256 predecessor = co_sha256 out \<and> fr_size predecessor = co_bytes out
                     \<and> observed = predecessor \<and> desired
                  then return_io (fr_generation observed) else fail_io PublicationUnconfirmed)
            else if \<not> desired then fail_io ConcurrentDestination
            else return_io (fr_generation observed)))))"

definition check_cancel :: "'w files_env \<Rightarrow> ('w, copy_error, unit) io" where
  "check_cancel env w = (case op_canceled env w of (True, w') \<Rightarrow> (Inl CopyCanceled, w') | (False, w') \<Rightarrow> (Inr (), w'))"

text \<open>The part whose failure removes the staged file.\<close>

definition staged_copy ::
  "'w files_env \<Rightarrow> (string \<Rightarrow> string) \<Rightarrow> resolved_job \<Rightarrow> nat \<Rightarrow> nat \<Rightarrow> ('w, copy_error, copy_outcome \<times> string) io" where
  "staged_copy env sha a inp out =
     then_io (copy_loop env (be_size (rj_source a)) inp out 0 []) (\<lambda>(copied, staged).
     let observed = sha staged
     in then_io (require_io (copied = be_size (rj_source a) \<and> observed = be_sha256 (rj_source a)) SourceChanged) (\<lambda>_.
        then_io (ask_io (fs_sync_all env out) (CommitFailed Filesystem)) (\<lambda>_.
        then_io (error_io Revalidation (revalidate_for_open env sha a)) (\<lambda>_.
        then_io (check_cancel env) (\<lambda>_.
        let outcome = \<lparr>co_bytes = copied, co_sha256 = observed\<rparr>
        in then_io (error_io CommitFailed (fe_commit env a staged outcome)) (\<lambda>_.
           then_io (error_io CommitFailed (confirm_destination_generation env sha a outcome)) (\<lambda>_.
           return_io (outcome, staged))))))))"

definition execute_local_mesh_copy ::
  "'w files_env \<Rightarrow> (string \<Rightarrow> string) \<Rightarrow> (nat \<Rightarrow> path) \<Rightarrow> resolved_job \<Rightarrow> ('w, copy_error, copy_outcome \<times> string) io" where
  "execute_local_mesh_copy env sha name a =
     then_io (error_io Revalidation (revalidate_for_open env sha a)) (\<lambda>_.
     then_io (check_cancel env) (\<lambda>_.
     then_io (open_regular_no_follow env (be_path (rj_source a)) SourceChanged) (\<lambda>inp.
     then_io (ask_io (fs_handle_metadata env inp) SourceChanged) (\<lambda>(file, len).
     then_io (require_io (file \<and> len = be_size (rj_source a)) SourceChanged) (\<lambda>_.
     then_io (require_io (be_path (rj_destination a) \<noteq> [] \<and> is_normal (last (be_path (rj_destination a))))
       (CommitFailed Filesystem)) (\<lambda>_.
     then_io (claim_staging_file env name MAX_STAGING_NAME_ATTEMPTS) (\<lambda>(temporary, out).
     cleanup_io (fs_remove_file env temporary) (staged_copy env sha a inp out))))))))"

section \<open>What an accepted end and a successful copy have established\<close>

lemma walk_components_path:
  "walk_components env role p cs w = (Inr q, w') \<Longrightarrow> q = p @ cs"
  by (induction cs arbitrary: p w) (fastforce simp: io_simps)+

lemma sha256_file_Some [io_simps]:
  "sha256_file env sha p w = (Some d, w') \<longleftrightarrow> (\<exists>c. fs_read_file env p w = (Some c, w') \<and> d = sha c)"
  by (auto simp: sha256_file_def split: prod.splits)

text \<open>An accepted path lies strictly below the root the registry owns, by plain names only.\<close>

lemma contained_path:
  assumes "contained_canonical_path env r role w = (Inr p, w')"
  shows "p = fr_root r @ fr_relative r \<and> fr_relative r \<noteq> [] \<and> list_all is_normal (fr_relative r)
     \<and> hd (fr_root r) = RootDir"
  using assms unfolding contained_canonical_path_def io_simps
  by (auto dest!: walk_components_path)

lemma bound_record:
  assumes "bind_record env sha l role r w = (Inr b, w')"
  shows "fr_identity r = l \<and> be_identity b = l \<and> be_path b = fr_root r @ fr_relative r
     \<and> be_generation b = fr_generation r \<and> be_generation b \<noteq> 0
     \<and> be_sha256 b = fr_sha256 r \<and> be_size b = fr_size r \<and> be_size b \<le> MAX_TRANSFER_CONTENT_BYTES
     \<and> is_lower_sha256 (be_sha256 b)
     \<and> (if role = SourceRole then fr_readable r else fr_writable r)
     \<and> list_all is_normal (fr_relative r)
     \<and> (\<exists>w1 w2 content. fs_read_file env (be_path b) w1 = (Some content, w2) \<and> sha content = be_sha256 b)"
  using assms unfolding bind_record_def
  by (cases role) (force simp: io_simps dest!: contained_path)+

lemma copy_loop_staged:
  assumes "copy_loop env size_bytes inp out copied staged w = (Inr (n, content), w')"
    and "unat copied = length staged"
  shows "unat n = length content \<and> prefix staged content \<and> (copied \<le> size_bytes \<longrightarrow> n \<le> size_bytes)"
  using assms
proof (induction env size_bytes inp out copied staged w rule: copy_loop.induct)
  case (1 env size_bytes inp out copied staged w)
  obtain c w1 where c: "op_canceled env w = (c, w1)" by fastforce
  obtain r w2 where r: "fs_read env inp w1 = (r, w2)" by fastforce
  note simps = copy_loop.simps [of env size_bytes inp out copied staged w]
  have "\<not> c" using "1.prems"(1) c by (cases c) (simp_all add: simps)
  then obtain chunk where ch: "r = Some chunk" using "1.prems"(1) c r by (cases r) (simp_all add: simps)
  show ?case
  proof (cases "chunk = []")
    case True
    then show ?thesis using "1.prems" c r ch \<open>\<not> c\<close> by (simp add: simps)
  next
    case False
    have fits: "unat copied + length chunk < 2 ^ 64" "\<not> copied + of_nat (length chunk) > size_bytes"
      using "1.prems"(1) c r ch \<open>\<not> c\<close> False by (auto simp: simps Let_def split: if_splits)
    obtain v w3 where v: "fs_write_all env out chunk w2 = (v, w3)" by fastforce
    have "v = Some ()" using "1.prems"(1) c r ch v \<open>\<not> c\<close> False fits by (cases v) (simp_all add: simps Let_def)
    then have "copy_loop env size_bytes inp out (copied + of_nat (length chunk)) (staged @ chunk) w3 = (Inr (n, content), w')"
      using "1.prems"(1) c r ch v \<open>\<not> c\<close> False fits by (simp add: simps Let_def)
    moreover have "unat (copied + of_nat (length chunk)) = length (staged @ chunk)"
      using copied_grows [OF fits(1)] "1.prems"(2) by simp
    ultimately have "unat n = length content \<and> prefix (staged @ chunk) content
        \<and> (copied + of_nat (length chunk) \<le> size_bytes \<longrightarrow> n \<le> size_bytes)"
      using "1.IH" [of False w1 "Some chunk" w2 chunk "copied + of_nat (length chunk)" "Some ()" w3 "()"]
        c r ch v \<open>\<not> c\<close> False fits \<open>v = Some ()\<close> by simp
    then show ?thesis using fits(2) by (auto simp: not_less dest: append_prefixD)
  qed
qed

lemma staged_copy_ok:
  assumes "staged_copy env sha a inp out w = (Inr (o1, staged), w')"
  shows "co_bytes o1 = be_size (rj_source a) \<and> co_sha256 o1 = be_sha256 (rj_source a)
     \<and> length staged = unat (co_bytes o1) \<and> sha staged = co_sha256 o1
     \<and> (\<exists>w1 w2. fe_commit env a staged o1 w1 = (Inr (), w2)
          \<and> (\<exists>g. confirm_destination_generation env sha a o1 w2 = (Inr g, w')))"
proof -
  have "\<exists>n w0. copy_loop env (be_size (rj_source a)) inp out 0 [] w = (Inr (n, staged), w0)
      \<and> n = be_size (rj_source a) \<and> sha staged = be_sha256 (rj_source a)
      \<and> o1 = \<lparr>co_bytes = n, co_sha256 = sha staged\<rparr>
      \<and> (\<exists>w1 w2. fe_commit env a staged o1 w1 = (Inr (), w2)
          \<and> (\<exists>g. confirm_destination_generation env sha a o1 w2 = (Inr g, w')))"
    using assms unfolding staged_copy_def
    by (auto simp: io_simps Let_def split: prod.splits)
  then show ?thesis using copy_loop_staged by fastforce
qed

lemma confirmed:
  assumes "confirm_destination_generation env sha a o1 w = (Inr g, w')"
  defines "dst \<equiv> ep_destination (tj_endpoint (rj_job a))"
  shows "\<exists>r w1 u v content. fe_resolve env dst DestinationRole w = (Inr r, w1)
     \<and> fr_size r = co_bytes o1 \<and> fr_sha256 r = co_sha256 o1
     \<and> fr_generation (rj_destination_record a) \<le> fr_generation r
     \<and> fs_read_file env (fr_root r @ fr_relative r) u = (Some content, v) \<and> sha content = co_sha256 o1"
proof -
  obtain r w1 b w2 w3 where r: "fe_resolve env dst DestinationRole w = (Inr r, w1)"
      "bind_record env sha dst DestinationRole r w1 = (Inr b, w2)"
      "be_size b = co_bytes o1 \<and> be_sha256 b = co_sha256 o1
       \<and> fr_generation (rj_destination_record a) \<le> fr_generation r"
    using assms(1) unfolding confirm_destination_generation_def Let_def dst_def [symmetric]
    by (fastforce simp: io_simps fail_io_def split: if_splits)
  note b = bound_record [OF r(2)]
  then obtain u v content where c: "fs_read_file env (be_path b) u = (Some content, v)" "sha content = be_sha256 b"
    by blast
  show ?thesis
    by (intro exI [of _ r] exI [of _ w1] exI [of _ u] exI [of _ v] exI [of _ content]) (use b c r in simp)
qed

text \<open>The two ends of a resolved job.\<close>

lemma resolved_ends:
  assumes "resolve_for_execution env sha j w = (Inr a, w')"
  shows "rj_job a = j \<and> job_ok j \<and> is_copy (tj_operation j) \<and> tj_kind j \<in> {KLocal, KMesh}
     \<and> be_path (rj_source a) \<noteq> be_path (rj_destination a)
     \<and> be_path (rj_destination a) = fr_root (rj_destination_record a) @ fr_relative (rj_destination_record a)
     \<and> list_all is_normal (fr_relative (rj_destination_record a)) \<and> fr_writable (rj_destination_record a)
     \<and> be_size (rj_source a) \<le> MAX_TRANSFER_CONTENT_BYTES
     \<and> (ck_mode (tj_checksum j) = ChecksumRequire \<longrightarrow> ck_expected (tj_checksum j) = Some (be_sha256 (rj_source a)))"
proof (cases j rule: validate_cases)
  case 1
  show ?thesis
    using assms 1 unfolding resolve_for_execution_def Let_def
    by (auto simp: io_simps dest!: bound_record)
qed (use assms in \<open>simp add: resolve_for_execution_def fail_io_def\<close>)


text \<open>A copy of two bytes; the world counts what has happened: nothing, the source read, the copy committed.\<close>

definition demo_sha :: "string \<Rightarrow> string" where
  "demo_sha s = replicate 64 (if s = ''hi'' then CHR ''a'' else CHR ''b'')"

definition demo_record :: "transfer_location \<Rightarrow> nat \<Rightarrow> files_record" where
  "demo_record l w =
     (if l = LocalAt 1
      then \<lparr>fr_identity = l, fr_root = [RootDir, Normal ''files''], fr_relative = [Normal ''a''], fr_generation = 1,
            fr_sha256 = demo_sha ''hi'', fr_size = 2, fr_type = RegularFile, fr_available = True,
            fr_readable = True, fr_writable = False\<rparr>
      else \<lparr>fr_identity = l, fr_root = [RootDir, Normal ''files''], fr_relative = [Normal ''b''],
            fr_generation = (if w < 2 then 1 else 2), fr_sha256 = demo_sha (if w < 2 then ''old'' else ''hi''),
            fr_size = (if w < 2 then 3 else 2), fr_type = RegularFile, fr_available = True,
            fr_readable = True, fr_writable = True\<rparr>)"

definition demo_content :: "path \<Rightarrow> nat \<Rightarrow> string" where
  "demo_content p w = (if last p = Normal ''b'' \<and> w < 2 then ''old'' else ''hi'')"

definition demo_env :: "nat files_env" where
  "demo_env =
     \<lparr>fe_resolve = (\<lambda>l role w. (Inr (demo_record l w), w)),
      fe_commit = (\<lambda>a staged out w. (Inr (), 2)),
      fs_symlink_metadata = (\<lambda>p w. (Some (if length p = 2 then DirectoryNode else FileNode), w)),
      fs_canonicalize = (\<lambda>p w. (Some p, w)),
      fs_metadata = (\<lambda>p w. (Some (True, of_nat (length (demo_content p w))), w)),
      fs_read_file = (\<lambda>p w. (Some (demo_content p w), w)),
      fs_open_no_follow = (\<lambda>p w. (Some 0, w)),
      fs_handle_metadata = (\<lambda>h w. (Some (True, 2), w)),
      fs_read = (\<lambda>h w. (Some (if w = 0 then ''hi'' else []), 1)),
      fs_create_new = (\<lambda>p w. (Created 1, w)),
      fs_write_all = (\<lambda>h c w. (Some (), w)),
      fs_sync_all = (\<lambda>h w. (Some (), w)),
      fs_remove_file = (\<lambda>p w. w),
      op_canceled = (\<lambda>w. (False, w))\<rparr>"

definition demo_copy :: transfer_job where
  "demo_copy =
     \<lparr>tj_schema = 2, tj_transfer = 7, tj_kind = KLocal,
      tj_endpoint = \<lparr>ep_source = LocalAt 1, ep_destination = LocalAt 2\<rparr>,
      tj_operation = OpCopy Outbound, tj_state = Active,
      tj_progress = \<lparr>tp_done = 0, tp_total = None, tp_rate = None, tp_phase = PhResolving, tp_attempt = 1,
        tp_error = None\<rparr>,
      tj_checksum = checksum_verify, tj_bandwidth = None, tj_created = 100, tj_updated = 101\<rparr>"

definition demo_admitted :: resolved_job where
  "demo_admitted =
     (let b = (\<lambda>l n sha. \<lparr>be_identity = l, be_path = [RootDir, Normal ''files'', Normal n], be_generation = 1,
                 be_sha256 = sha, be_size = (if n = ''a'' then 2 else 3), be_type = RegularFile\<rparr>)
      in \<lparr>rj_job = demo_copy, rj_source = b (LocalAt 1) ''a'' (demo_sha ''hi''),
          rj_destination = b (LocalAt 2) ''b'' (demo_sha ''old''),
          rj_source_record = demo_record (LocalAt 1) 0, rj_destination_record = demo_record (LocalAt 2) 0\<rparr>)"

lemma demo_resolved: "resolve_for_execution demo_env demo_sha demo_copy 0 = (Inr demo_admitted, 0)"
  by code_simp

lemma demo_env_calls:
  "fe_commit demo_env a staged out w = (Inr (), 2)" "fs_open_no_follow demo_env p w = (Some 0, w)"
  "fs_handle_metadata demo_env h w = (Some (True, 2), w)" "fs_create_new demo_env p w = (Created 1, w)"
  "fs_sync_all demo_env h w = (Some (), w)" "op_canceled demo_env w = (False, w)"
  "fs_read demo_env h w = (Some (if w = 0 then ''hi'' else []), Suc 0)"
  "fs_write_all demo_env h c w = (Some (), w)"
  by (simp_all add: demo_env_def)

lemma demo_loop: "copy_loop demo_env 2 0 (Suc 0) 0 [] 0 = (Inr (2, ''hi''), Suc 0)"
proof -
  have "copy_loop demo_env 2 0 (Suc 0) 0 [] 0 = copy_loop demo_env 2 0 (Suc 0) 2 ''hi'' (Suc 0)"
    by (subst copy_loop.simps) (simp add: demo_env_calls)
  also have "\<dots> = (Inr (2, ''hi''), Suc 0)"
    by (subst copy_loop.simps) (simp add: demo_env_calls)
  finally show ?thesis .
qed

lemma demo_revalidated:
  "revalidate_for_open demo_env demo_sha demo_admitted 0 = (Inr (), 0)"
  "revalidate_for_open demo_env demo_sha demo_admitted (Suc 0) = (Inr (), Suc 0)"
  by code_simp+

lemma demo_confirmed:
  "confirm_destination_generation demo_env demo_sha demo_admitted
     \<lparr>co_bytes = 2, co_sha256 = demo_sha ''hi''\<rparr> 2 = (Inr 2, 2)"
  by code_simp

lemma demo_paths:
  "be_path (rj_destination demo_admitted) = [RootDir, Normal ''files'', Normal ''b'']"
  "be_size (rj_source demo_admitted) = 2" "be_sha256 (rj_source demo_admitted) = demo_sha ''hi''"
  by (simp_all add: demo_admitted_def Let_def)

lemma demo_claimed: "claim_staging_file demo_env name MAX_STAGING_NAME_ATTEMPTS w = (Inr (name 127, 1), w)"
  by (simp add: MAX_STAGING_NAME_ATTEMPTS_def numeral_eq_Suc demo_env_calls Let_def)

lemma demo_executed:
  "execute_local_mesh_copy demo_env demo_sha name demo_admitted 0
     = (Inr (\<lparr>co_bytes = 2, co_sha256 = demo_sha ''hi''\<rparr>, ''hi''), 2)"
  unfolding execute_local_mesh_copy_def staged_copy_def io_simps
  by (simp add: io_simps demo_revalidated demo_loop demo_confirmed demo_paths demo_env_calls
      demo_claimed check_cancel_def open_regular_no_follow_def Let_def)


end
