(* ===== verification/TransferWorker.thy ===== *)
theory TransferWorker
  imports TransferSync TransferFiles
begin

text \<open>
  The worker of the transfers (\<open>workers/transfers/mod.rs\<close>, \<open>verb.rs\<close>): which jobs it can execute, the
  attempt that runs one, the inbox of verbs, the tables of running tasks and the scheduler that fills the
  slots.  An event is one handler of the worker, one step of an attempt, or one progress report, with the
  outcomes of its writes and the clock it reads; the results hold for every sequence of events.  The
  notifications of finished jobs are not modelled, nor what a lane of the older queue does to its bytes.
\<close>

section \<open>Executors\<close>

datatype v2_operation_kind =
  CopyKind | SyncKind | DownloadKind | UploadKind | ScrapeKind | MirrorKind | PublishClipboardKind

fun operation_kind :: "transfer_operation \<Rightarrow> v2_operation_kind" where
  "operation_kind (OpCopy _) = CopyKind"
| "operation_kind (OpSync _ _) = SyncKind"
| "operation_kind OpDownload = DownloadKind"
| "operation_kind OpUpload = UploadKind"
| "operation_kind (OpScrape _) = ScrapeKind"
| "operation_kind (OpMirror _) = MirrorKind"
| "operation_kind OpPublishClipboard = PublishClipboardKind"

datatype executor_admission = LocalFilesCopy | Blocked string

definition V2_EXECUTOR_REGISTRY :: "(transfer_kind \<times> v2_operation_kind \<times> executor_admission) list" where
  "V2_EXECUTOR_REGISTRY =
     [(KLocal, CopyKind, LocalFilesCopy),
      (KMesh, CopyKind, Blocked ''authenticated mesh transport and remote acknowledgement provider is unavailable''),
      (KRsync, SyncKind, Blocked ''V2 rsync profile executor provider is unavailable''),
      (KSftp, CopyKind, Blocked ''sealed SFTP executor provider is unavailable''),
      (KSftp, DownloadKind, Blocked ''sealed SFTP executor provider is unavailable''),
      (KSftp, UploadKind, Blocked ''sealed SFTP executor provider is unavailable''),
      (KHttp, DownloadKind, Blocked ''HTTP resource executor provider is unavailable''),
      (KScrape, ScrapeKind, Blocked ''browser scrape materialization provider is unavailable''),
      (KMultipart, UploadKind, Blocked ''sealed multipart upload executor provider is unavailable''),
      (KRecurring, MirrorKind, Blocked ''recurring mirror scheduler and executor provider is unavailable''),
      (KClipboard, PublishClipboardKind,
        Blocked (''clipboard profile registry cannot bind the payload to an authorized Files reference, ''
                 @ ''target session, and generation receipt''))]"

definition UNREGISTERED :: string where
  "UNREGISTERED = ''contract kind and operation pair is not executable''"

definition v2_executor_admission :: "transfer_job \<Rightarrow> executor_admission" where
  "v2_executor_admission j =
     (case find (\<lambda>(k, opn, _). k = tj_kind j \<and> opn = operation_kind (tj_operation j)) V2_EXECUTOR_REGISTRY of
        None \<Rightarrow> Blocked UNREGISTERED
      | Some (_, _, a) \<Rightarrow> a)"

text \<open>The typed error of a text; a text the contract refuses is a panic of the attempt.\<close>

definition typed_transfer_error :: "transfer_error_code \<Rightarrow> bool \<Rightarrow> string \<Rightarrow> transfer_error option" where
  "typed_transfer_error c retryable detail =
     (let e = \<lparr>te_code = c, te_retryable = retryable, te_detail = Some detail\<rparr>
      in case validate_error e of Inl _ \<Rightarrow> None | Inr _ \<Rightarrow> Some e)"

definition resolution_failure :: "resolution_error \<Rightarrow> transfer_error option" where
  "resolution_failure e =
     (let unsupported = typed_transfer_error EcUnsupported False ''executor protocol is not implemented'';
          denied = typed_transfer_error EcPermissionDenied False ''Files authority denied endpoint access'';
          mismatch = typed_transfer_error EcChecksumMismatch False ''Files generation checksum mismatch'';
          rejected = typed_transfer_error EcInvalidRequest False ''Files endpoint admission rejected'';
          stale = typed_transfer_error EcReferenceUnavailable True ''Files generation is unavailable or stale''
      in case e of
           UnsupportedJobKind _ \<Rightarrow> unsupported
         | UnsupportedJobOperation \<Rightarrow> unsupported
         | NonFilesIdentity _ \<Rightarrow> unsupported
         | ResolverFailed _ f \<Rightarrow>
             (case f of MutationUnsupported \<Rightarrow> unsupported | PermissionDenied \<Rightarrow> denied | _ \<Rightarrow> stale)
         | AccessDenied _ \<Rightarrow> denied
         | MetadataMismatch _ field \<Rightarrow> if field = ''sha256'' then mismatch else rejected
         | ChecksumMismatch \<Rightarrow> mismatch
         | InvalidJob _ \<Rightarrow> rejected
         | NotQueued \<Rightarrow> rejected
         | IdentityMismatch _ \<Rightarrow> rejected
         | IncompatibleObjectType _ \<Rightarrow> rejected
         | SameCanonicalObject \<Rightarrow> rejected
         | EndpointUnavailable _ \<Rightarrow> stale
         | UnsafePath _ \<Rightarrow> stale
         | MetadataUnavailable _ \<Rightarrow> stale
         | StaleResolution _ \<Rightarrow> stale)"

fun copy_failure :: "copy_error \<Rightarrow> transfer_error option" where
  "copy_failure (Revalidation e) = resolution_failure e"
| "copy_failure CopyCanceled = typed_transfer_error EcCanceled False ''transfer attempt canceled''"
| "copy_failure SourceChanged =
     typed_transfer_error EcChecksumMismatch False ''source generation changed during copy''"
| "copy_failure (CommitFailed CommitUnsupported) =
     typed_transfer_error EcUnsupported False ''Files destination mutation authority is unavailable''"
| "copy_failure (CommitFailed ConcurrentDestination) =
     typed_transfer_error EcReferenceUnavailable True ''destination generation changed before commit''"
| "copy_failure (CommitFailed Filesystem) =
     typed_transfer_error EcInternal True ''safe Files content commit failed''"
| "copy_failure (CommitFailed _) =
     typed_transfer_error EcInternal True ''Files metadata publication failed or is unconfirmed''"

section \<open>Attempts\<close>

text \<open>
  An attempt starts with the claimed job; where it can be resolved it marks the job as transferring, copies,
  and writes the end.  It ends with the job as it wrote it, superseded (the ledger refused it), or by a panic.
\<close>

datatype attempt_stage =
    Claimed transfer_job
  | Copying resolved_job
  | Ended "transfer_job option"
  | Crashed

definition fail_attempt ::
  "v2_ledger \<Rightarrow> transfer_id \<Rightarrow> u16 \<Rightarrow> transfer_error option \<Rightarrow> u64 \<Rightarrow> disk \<Rightarrow> v2_ledger \<times> attempt_stage" where
  "fail_attempt lg t attempt error wall d =
     (case error of
        None \<Rightarrow> (lg, Crashed)
      | Some e \<Rightarrow> (case finish_v2_failed lg t (Some attempt) e wall d of (lg', r) \<Rightarrow> (lg', Ended r)))"

definition start_attempt ::
  "'w files_env \<Rightarrow> (string \<Rightarrow> string) \<Rightarrow> transfer_job \<Rightarrow> u64 \<Rightarrow> disk \<Rightarrow> v2_ledger \<Rightarrow> 'w \<Rightarrow> v2_ledger \<times> attempt_stage" where
  "start_attempt env sha j wall d lg w =
     (case v2_executor_admission j of
        Blocked provider \<Rightarrow>
          fail_attempt lg (tj_transfer j) (attempt_of j) (typed_transfer_error EcUnsupported False provider) wall d
      | LocalFilesCopy \<Rightarrow>
          (case fst (resolve_for_execution env sha j w) of
             Inl e \<Rightarrow> fail_attempt lg (tj_transfer j) (attempt_of j) (resolution_failure e) wall d
           | Inr a \<Rightarrow>
               (case update_active_v2 lg (tj_transfer j) (attempt_of j) (BeginTransfer (be_size (rj_source a))) wall d of
                  (lg', None) \<Rightarrow> (lg', Ended None)
                | (lg', Some _) \<Rightarrow> (lg', Copying a))))"

definition transfer_rate :: "u64 \<Rightarrow> u64 \<Rightarrow> u64 option" where
  "transfer_rate elapsed n =
     (if elapsed > 0 \<and> n > 0
      then Some (max 1 (min MAX_TRANSFER_RATE_BYTES_PER_SECOND (sat_mul n 1000 div elapsed))) else None)"

definition finish_attempt ::
  "'w files_env \<Rightarrow> (string \<Rightarrow> string) \<Rightarrow> (nat \<Rightarrow> path) \<Rightarrow> resolved_job \<Rightarrow> u64 \<Rightarrow> u64 \<Rightarrow> disk \<Rightarrow> v2_ledger \<Rightarrow> 'w
     \<Rightarrow> v2_ledger \<times> attempt_stage" where
  "finish_attempt env sha name a elapsed wall d lg w =
     (let t = tj_transfer (rj_job a); attempt = attempt_of (rj_job a)
      in case fst (execute_local_mesh_copy env sha name a w) of
           Inl e \<Rightarrow> fail_attempt lg t attempt (copy_failure e) wall d
         | Inr (outcome, _) \<Rightarrow>
             (case update_active_v2 lg t attempt
                     (FinishCopy (co_bytes outcome) (transfer_rate elapsed (co_bytes outcome))) wall d of
                (lg', r) \<Rightarrow> (lg', Ended r)))"

section \<open>Verbs\<close>

datatype transfer_verb =
    SubmitVerb queue_job
  | SubmitV2Verb transfer_job
  | CancelVerb string
  | PauseVerb string
  | ResumeVerb string
  | ControlV2Verb transfer_id control_v2 u64
  | SaveSyncPairVerb sync_pair
  | RemoveSyncPairVerb string
  | ListVerb

text \<open>
  The inbox maps a file name to the verb it holds, if it holds one; the drained files are gone whether they
  held one or not.
\<close>

type_synonym inbox = "(string, transfer_verb option) omap"

definition drained :: "string \<Rightarrow> bool" where
  "drained n = (ends_with n ''.json'' \<and> \<not> starts_with n ''.'')"

definition take_verbs :: "inbox \<Rightarrow> inbox \<times> transfer_verb list" where
  "take_verbs b =
     (filter (\<lambda>(n, _). \<not> drained n) b, List.map_filter (\<lambda>(n, v). if drained n then v else None) b)"

section \<open>The worker\<close>

record v2_task =
  vt_attempt :: u16
  vt_canceled :: bool
  vt_stage :: attempt_stage

record transfer_worker =
  tw_queue :: queue
  tw_v2 :: v2_ledger
  tw_pairs :: pair_store
  tw_pair_jobs :: "(string, string) omap"
  tw_tasks :: "string list"
  tw_v2_tasks :: "(transfer_id, v2_task) omap"
  tw_cap :: nat

abbreviation slots :: "transfer_worker \<Rightarrow> nat" where
  "slots w \<equiv> length (tw_tasks w) + length (tw_v2_tasks w)"

record verb_io =
  vo_ok :: bool
  vo_now :: u64
  vo_disk :: disk

definition abort_task :: "string \<Rightarrow> transfer_worker \<Rightarrow> transfer_worker" where
  "abort_task i w = w\<lparr>tw_tasks := removeAll i (tw_tasks w)\<rparr>"

fun apply_verb :: "verb_io \<Rightarrow> transfer_verb \<Rightarrow> transfer_worker \<Rightarrow> transfer_worker" where
  "apply_verb o1 (SubmitVerb j) w = w\<lparr>tw_queue := fst (submit (vo_ok o1) (vo_now o1) j (tw_queue w))\<rparr>"
| "apply_verb o1 (SubmitV2Verb j) w = w\<lparr>tw_v2 := fst (v2_submit (tw_v2 w) j (vo_disk o1))\<rparr>"
| "apply_verb o1 (CancelVerb i) w =
     (let w = abort_task i w
      in w\<lparr>tw_pair_jobs := om_del i (tw_pair_jobs w), tw_queue := fst (cancel (vo_ok o1) i (tw_queue w))\<rparr>)"
| "apply_verb o1 (PauseVerb i) w =
     (let w = abort_task i w in w\<lparr>tw_queue := fst (pause (vo_ok o1) (vo_now o1) i (tw_queue w))\<rparr>)"
| "apply_verb o1 (ResumeVerb i) w = w\<lparr>tw_queue := fst (resume (vo_ok o1) (vo_now o1) i (tw_queue w))\<rparr>"
| "apply_verb o1 (ControlV2Verb t c ts) w =
     (case apply_control (tw_v2 w) t c ts (vo_disk o1) of
        (lg, Inl _) \<Rightarrow> w\<lparr>tw_v2 := lg\<rparr>
      | (lg, Inr _) \<Rightarrow>
          w\<lparr>tw_v2 := lg,
            tw_v2_tasks := (if c = PauseV2 \<or> c = CancelV2
                            then om_modify t (\<lambda>k. k\<lparr>vt_canceled := True\<rparr>) (tw_v2_tasks w)
                            else tw_v2_tasks w)\<rparr>)"
| "apply_verb o1 (SaveSyncPairVerb p) w = w\<lparr>tw_pairs := fst (pair_upsert (vo_ok o1) (vo_now o1) p (tw_pairs w))\<rparr>"
| "apply_verb o1 (RemoveSyncPairVerb i) w = w\<lparr>tw_pairs := fst (pair_remove (vo_ok o1) i (tw_pairs w))\<rparr>"
| "apply_verb o1 ListVerb w = w"

definition worker_schedule :: "(string \<Rightarrow> pair_io) \<Rightarrow> u64 \<Rightarrow> transfer_worker \<Rightarrow> transfer_worker" where
  "worker_schedule io now w =
     (let s = schedule_sync_pairs_at io now
                \<lparr>sy_queue = tw_queue w, sy_store = tw_pairs w, sy_jobs = tw_pair_jobs w, sy_fired = []\<rparr>
      in w\<lparr>tw_queue := sy_queue s, tw_pairs := sy_store s, tw_pair_jobs := sy_jobs s\<rparr>)"

definition record_sync_pair_lane_outcome ::
  "bool \<Rightarrow> u64 \<Rightarrow> string \<Rightarrow> queue_job \<Rightarrow> pair_store \<Rightarrow> pair_store" where
  "record_sync_pair_lane_outcome ok now pair j st =
     (case qj_state j of
        JDone \<Rightarrow> record_sync_pair_attempt ok now pair ''done'' True st
      | JFailed \<Rightarrow>
          record_sync_pair_attempt ok now pair
            (case qj_error j of None \<Rightarrow> ''failed'' | Some e \<Rightarrow> if e = [] then ''failed'' else e) False st
      | _ \<Rightarrow> st)"

definition LANE_PANIC :: lane_outcome where
  "LANE_PANIC = LaneFailed ''the transfer lane task ended abnormally''"

text \<open>One finished lane task, with what it returned (or \<open>LANE_PANIC\<close>).\<close>

definition reap ::
  "(queue_job \<Rightarrow> (integrity_status, integrity_status) result) \<Rightarrow> verb_io \<Rightarrow> string \<Rightarrow> lane_outcome
     \<Rightarrow> transfer_worker \<Rightarrow> transfer_worker" where
  "reap verifier o1 i out w =
     (if i \<notin> set (tw_tasks w) then w
      else (let w = abort_task i w
            in case complete_with_verifier verifier (vo_ok o1) (vo_now o1) i out (tw_queue w) of
                 (q, False) \<Rightarrow> w\<lparr>tw_queue := q\<rparr>
               | (q, True) \<Rightarrow>
                   (case om_get q i of
                      None \<Rightarrow> w\<lparr>tw_queue := q\<rparr>
                    | Some j \<Rightarrow>
                        if \<not> is_terminal (qj_state j) then w\<lparr>tw_queue := q\<rparr>
                        else (case om_get (tw_pair_jobs w) i of
                                None \<Rightarrow> w\<lparr>tw_queue := q\<rparr>
                              | Some pair \<Rightarrow>
                                  w\<lparr>tw_queue := q, tw_pair_jobs := om_del i (tw_pair_jobs w),
                                    tw_pairs := record_sync_pair_lane_outcome (vo_ok o1) (vo_now o1) pair j
                                      (tw_pairs w)\<rparr>))))"

definition reap_v2 :: "transfer_id \<Rightarrow> u64 \<Rightarrow> disk \<Rightarrow> transfer_worker \<Rightarrow> transfer_worker" where
  "reap_v2 t wall d w =
     (case om_get (tw_v2_tasks w) t of
        None \<Rightarrow> w
      | Some k \<Rightarrow>
          (case vt_stage k of
             Ended _ \<Rightarrow> w\<lparr>tw_v2_tasks := om_del t (tw_v2_tasks w)\<rparr>
           | Crashed \<Rightarrow>
               (case typed_transfer_error EcInternal True ''executor task ended abnormally'' of
                  None \<Rightarrow> w
                | Some e \<Rightarrow>
                    w\<lparr>tw_v2_tasks := om_del t (tw_v2_tasks w),
                      tw_v2 := fst (finish_v2_failed (tw_v2 w) t None e wall d)\<rparr>)
           | _ \<Rightarrow> w))"

definition fill_v2_one :: "(transfer_id \<Rightarrow> u64 \<times> disk) \<Rightarrow> transfer_job \<Rightarrow> transfer_worker \<Rightarrow> transfer_worker" where
  "fill_v2_one io q w =
     (if slots w \<ge> tw_cap w \<or> tj_state q \<noteq> Queued \<or> om_get (tw_v2_tasks w) (tj_transfer q) \<noteq> None then w
      else (case claim_v2_job (tw_v2 w) (tj_transfer q) (fst (io (tj_transfer q))) (snd (io (tj_transfer q))) of
              (lg, None) \<Rightarrow> w\<lparr>tw_v2 := lg\<rparr>
            | (lg, Some j) \<Rightarrow>
                w\<lparr>tw_v2 := lg,
                  tw_v2_tasks := om_put (tj_transfer j)
                    \<lparr>vt_attempt = attempt_of j, vt_canceled = False, vt_stage = Claimed j\<rparr> (tw_v2_tasks w)\<rparr>))"

definition fill_v2 :: "(transfer_id \<Rightarrow> u64 \<times> disk) \<Rightarrow> transfer_worker \<Rightarrow> transfer_worker" where
  "fill_v2 io w = fold (fill_v2_one io) (v2_load_all (tw_v2 w)) w"

text \<open>
  The loop that fills the remaining slots; every round claims a queued row, so as many rounds as there are
  rows are enough.
\<close>

fun fill_loop :: "nat \<Rightarrow> (string \<Rightarrow> bool) \<Rightarrow> u64 \<Rightarrow> transfer_worker \<Rightarrow> transfer_worker" where
  "fill_loop 0 ok now w = w"
| "fill_loop (Suc n) ok now w =
     (if \<not> slots w < tw_cap w then w
      else (case claim_next ok now (max (tw_cap w) 1) (tw_queue w) of
              (q, None) \<Rightarrow> w\<lparr>tw_queue := q\<rparr>
            | (q, Some j) \<Rightarrow>
                fill_loop n ok now (w\<lparr>tw_queue := q, tw_tasks := List.insert (qj_id j) (tw_tasks w)\<rparr>)))"

definition fill :: "(string \<Rightarrow> bool) \<Rightarrow> u64 \<Rightarrow> transfer_worker \<Rightarrow> transfer_worker" where
  "fill ok now w = fill_loop (Suc (length (tw_queue w))) ok now w"

section \<open>Opening\<close>

definition abs_diff :: "u64 \<Rightarrow> u64 \<Rightarrow> u64" where
  "abs_diff a b = (if a < b then b - a else a - b)"

text \<open>The pair whose last result is still the one of the enqueueing finds its job by source and destination.\<close>

definition pair_candidate :: "sync_pair \<Rightarrow> string list \<Rightarrow> queue_job list \<Rightarrow> queue_job option" where
  "pair_candidate p taken jobs =
     (case sort_key (\<lambda>j. (is_terminal (qj_state j),
                          (case sp_last_fired p of None \<Rightarrow> 0 | Some f \<Rightarrow> abs_diff (qj_created j) f),
                          - int (unat (qj_created j))))
             (filter (\<lambda>j. qj_method j = LaneRsync \<and> qj_source j = sp_source p \<and> qj_dest j = sp_dest p
                          \<and> qj_id j \<notin> set taken) jobs) of
        [] \<Rightarrow> None | j # _ \<Rightarrow> Some j)"

definition reconstruct_sync_pair_job_map :: "queue \<Rightarrow> pair_store \<Rightarrow> (string, string) omap" where
  "reconstruct_sync_pair_job_map q st =
     fst (fold (\<lambda>p (mapped, taken).
            if sp_last_result p \<noteq> Some ''ok'' then (mapped, taken)
            else case pair_candidate p taken (load_all q) of
                   None \<Rightarrow> (mapped, taken)
                 | Some j \<Rightarrow> (om_put (qj_id j) (sp_id p) mapped, qj_id j # taken))
          (pair_load_all st) (om_empty, []))"

definition recover_sync_pair_jobs :: "bool \<Rightarrow> u64 \<Rightarrow> transfer_worker \<Rightarrow> transfer_worker" where
  "recover_sync_pair_jobs ok now w =
     (let m = reconstruct_sync_pair_job_map (tw_queue w) (tw_pairs w)
      in fold (\<lambda>(i, pair) w.
            case om_get (tw_queue w) i of
              None \<Rightarrow> w
            | Some j \<Rightarrow>
                if \<not> is_terminal (qj_state j) then w
                else w\<lparr>tw_pair_jobs := om_del i (tw_pair_jobs w),
                       tw_pairs := record_sync_pair_lane_outcome ok now pair j (tw_pairs w)\<rparr>)
          m (w\<lparr>tw_pair_jobs := m\<rparr>))"

definition open_worker :: "(string \<Rightarrow> bool) \<Rightarrow> bool \<Rightarrow> u64 \<Rightarrow> nat \<Rightarrow> queue \<Rightarrow> v2_ledger \<Rightarrow> pair_store \<Rightarrow> transfer_worker" where
  "open_worker ok note_ok now cap q lg st =
     recover_sync_pair_jobs note_ok now
       \<lparr>tw_queue = recover_orphaned_running ok now q, tw_v2 = lg, tw_pairs = st, tw_pair_jobs = om_empty,
        tw_tasks = [], tw_v2_tasks = om_empty, tw_cap = cap\<rparr>"

section \<open>Events\<close>

datatype 'w worker_event =
    VerbEvent verb_io transfer_verb
  | ScheduleEvent "string \<Rightarrow> pair_io" u64
  | ReapEvent "queue_job \<Rightarrow> (integrity_status, integrity_status) result" verb_io string lane_outcome
  | ReapV2Event transfer_id u64 disk
  | FillV2Event "transfer_id \<Rightarrow> u64 \<times> disk"
  | FillEvent "string \<Rightarrow> bool" u64
  | ProgressEvent bool string u8
  | StartEvent transfer_id "'w files_env" "string \<Rightarrow> string" u64 disk 'w
  | FinishEvent transfer_id "'w files_env" "string \<Rightarrow> string" "nat \<Rightarrow> path" u64 u64 disk 'w

definition set_stage :: "transfer_id \<Rightarrow> v2_ledger \<times> attempt_stage \<Rightarrow> transfer_worker \<Rightarrow> transfer_worker" where
  "set_stage t r w =
     w\<lparr>tw_v2 := fst r, tw_v2_tasks := om_modify t (\<lambda>k. k\<lparr>vt_stage := snd r\<rparr>) (tw_v2_tasks w)\<rparr>"

fun handle_event :: "'w worker_event \<Rightarrow> transfer_worker \<Rightarrow> transfer_worker" where
  "handle_event (VerbEvent o1 v) w = apply_verb o1 v w"
| "handle_event (ScheduleEvent io now) w = worker_schedule io now w"
| "handle_event (ReapEvent verifier o1 i out) w = reap verifier o1 i out w"
| "handle_event (ReapV2Event t wall d) w = reap_v2 t wall d w"
| "handle_event (FillV2Event io) w = fill_v2 io w"
| "handle_event (FillEvent ok now) w = fill ok now w"
| "handle_event (ProgressEvent ok i pct) w = w\<lparr>tw_queue := set_progress ok i pct (tw_queue w)\<rparr>"
| "handle_event (StartEvent t env sha wall d x) w =
     (case om_get (tw_v2_tasks w) t of
        Some k \<Rightarrow>
          (case vt_stage k of
             Claimed j \<Rightarrow> set_stage t (start_attempt env sha j wall d (tw_v2 w) x) w
           | _ \<Rightarrow> w)
      | None \<Rightarrow> w)"
| "handle_event (FinishEvent t env sha name elapsed wall d x) w =
     (case om_get (tw_v2_tasks w) t of
        Some k \<Rightarrow>
          (case vt_stage k of
             Copying a \<Rightarrow> set_stage t (finish_attempt env sha name a elapsed wall d (tw_v2 w) x) w
           | _ \<Rightarrow> w)
      | None \<Rightarrow> w)"

definition worker_run :: "'w worker_event list \<Rightarrow> transfer_worker \<Rightarrow> transfer_worker" where
  "worker_run evs w = fold handle_event evs w"

text \<open>
  One pass of the scheduler as its events, in order; the two flags say whether the notifications before it
  and those after the finished tasks went out, without which the pass stops there.
\<close>

definition tick_events ::
  "bool \<Rightarrow> bool \<Rightarrow> 'w worker_event list \<Rightarrow> 'w worker_event \<Rightarrow> 'w worker_event list \<Rightarrow> 'w worker_event list
     \<Rightarrow> 'w worker_event \<Rightarrow> 'w worker_event \<Rightarrow> 'w worker_event list" where
  "tick_events before after verbs scheduled reaps reaps_v2 fill2 fill1 =
     (if \<not> before then []
      else verbs @ [scheduled] @ reaps @ reaps_v2 @ (if \<not> after then [] else [fill2, fill1]))"

section \<open>Slots\<close>

lemma length_om_put: "length (om_put k v m) \<le> Suc (length m)"
  by (induction k v m rule: om_put.induct) auto

lemma length_om_del: "length (om_del k m) \<le> length m"
  by (simp add: om_del_def)

lemma length_om_modify [simp]: "length (om_modify k f m) = length m"
  by (simp add: om_modify_def)

lemma length_List_insert: "length (List.insert x xs) \<le> Suc (length xs)"
  by (simp add: List.insert_def)

definition within_cap :: "transfer_worker \<Rightarrow> transfer_worker \<Rightarrow> bool" where
  "within_cap w w' \<longleftrightarrow> tw_cap w' = tw_cap w \<and> (slots w \<le> tw_cap w \<longrightarrow> slots w' \<le> tw_cap w)"

lemma within_cap_less:
  "tw_cap w' = tw_cap w \<Longrightarrow> length (tw_tasks w') \<le> length (tw_tasks w) \<Longrightarrow>
     length (tw_v2_tasks w') \<le> length (tw_v2_tasks w) \<Longrightarrow> within_cap w w'"
  by (simp add: within_cap_def)

lemma within_cap_trans: "within_cap a b \<Longrightarrow> within_cap b c \<Longrightarrow> within_cap a c"
  by (simp add: within_cap_def)

lemma within_cap_fold:
  assumes "\<And>x w. within_cap w (f x w)"
  shows "within_cap w (fold f xs w)"
  by (induction xs arbitrary: w) (auto simp: within_cap_def [of w w for w] intro: within_cap_trans [OF assms])

lemma removeAll_le: "length (removeAll x xs) \<le> length xs"
  unfolding removeAll_filter_not_eq by (rule length_filter_le)

lemma verb_cap: "within_cap w (apply_verb o1 v w)"
  by (cases v; rule within_cap_less)
    (auto simp: Let_def abort_task_def removeAll_le split: prod.splits sum.splits)

lemma reap_cap: "within_cap w (reap f o1 i out w)"
  by (rule within_cap_less)
    (auto simp: reap_def Let_def abort_task_def removeAll_le split: prod.splits bool.splits option.splits)

lemma reap_v2_cap: "within_cap w (reap_v2 t wall d w)"
  by (rule within_cap_less)
    (auto simp: reap_v2_def length_om_del split: option.splits attempt_stage.splits)

lemma fill_v2_one_cap: "within_cap w (fill_v2_one io q w)"
proof (cases "slots w \<ge> tw_cap w \<or> tj_state q \<noteq> Queued \<or> om_get (tw_v2_tasks w) (tj_transfer q) \<noteq> None")
  case False
  obtain lg r where c: "claim_v2_job (tw_v2 w) (tj_transfer q) (fst (io (tj_transfer q)))
      (snd (io (tj_transfer q))) = (lg, r)" by fastforce
  have "slots w < tw_cap w" using False by simp
  show ?thesis
  proof (cases r)
    case None
    with False c have "fill_v2_one io q w = w\<lparr>tw_v2 := lg\<rparr>" by (simp add: fill_v2_one_def)
    then show ?thesis by (simp add: within_cap_def)
  next
    case (Some j)
    let ?k = "\<lparr>vt_attempt = attempt_of j, vt_canceled = False, vt_stage = Claimed j\<rparr>"
    have "fill_v2_one io q w = w\<lparr>tw_v2 := lg, tw_v2_tasks := om_put (tj_transfer j) ?k (tw_v2_tasks w)\<rparr>"
      using False c Some by (simp add: fill_v2_one_def)
    moreover have "length (om_put (tj_transfer j) ?k (tw_v2_tasks w)) \<le> Suc (length (tw_v2_tasks w))"
      by (rule length_om_put)
    ultimately show ?thesis using \<open>slots w < tw_cap w\<close> by (simp add: within_cap_def)
  qed
next
  case True
  then have "fill_v2_one io q w = w" by (auto simp: fill_v2_one_def)
  then show ?thesis by (simp add: within_cap_def)
qed

lemma fill_loop_cap: "within_cap w (fill_loop n ok now w)"
proof (induction n arbitrary: w)
  case (Suc n)
  show ?case
  proof (cases "slots w < tw_cap w")
    case True
    obtain q r where c: "claim_next ok now (max (tw_cap w) 1) (tw_queue w) = (q, r)" by fastforce
    show ?thesis
    proof (cases r)
      case (Some j)
      let ?w = "w\<lparr>tw_queue := q, tw_tasks := List.insert (qj_id j) (tw_tasks w)\<rparr>"
      have "within_cap w ?w"
        using True length_List_insert [of "qj_id j" "tw_tasks w"] by (simp add: within_cap_def)
      with Suc [of ?w] show ?thesis using True c Some by (auto simp: within_cap_def)
    qed (use True c in \<open>simp add: within_cap_def\<close>)
  qed (simp add: within_cap_def)
qed (simp add: within_cap_def)

lemma set_stage_cap: "within_cap w (set_stage t r w)"
  by (rule within_cap_less) (simp_all add: set_stage_def)

lemma event_cap: "within_cap w (handle_event e w)"
proof (cases e)
  case (ScheduleEvent io now)
  then show ?thesis by (simp add: worker_schedule_def Let_def within_cap_def)
next
  case (FillV2Event io)
  then show ?thesis by (simp add: fill_v2_def within_cap_fold fill_v2_one_cap)
next
  case (StartEvent t env sha wall d x)
  then show ?thesis using set_stage_cap by (auto simp: within_cap_def split: option.splits attempt_stage.splits)
next
  case (FinishEvent t env sha name elapsed wall d x)
  then show ?thesis using set_stage_cap by (auto simp: within_cap_def split: option.splits attempt_stage.splits)
next
  case (ProgressEvent ok i pct)
  then show ?thesis by (simp add: within_cap_def)
qed (simp_all add: verb_cap reap_cap reap_v2_cap fill_def fill_loop_cap del: fill_loop.simps)

lemma recover_fields:
  fixes w :: transfer_worker
  shows "tw_tasks (recover_sync_pair_jobs ok now w) = tw_tasks w"
  "tw_v2_tasks (recover_sync_pair_jobs ok now w) = tw_v2_tasks w"
  "tw_cap (recover_sync_pair_jobs ok now w) = tw_cap w"
  "tw_queue (recover_sync_pair_jobs ok now w) = tw_queue w"
  "tw_v2 (recover_sync_pair_jobs ok now w) = tw_v2 w"
proof -
  let ?f = "\<lambda>(i, pair) (w :: transfer_worker). case om_get (tw_queue w) i of None \<Rightarrow> w
      | Some j \<Rightarrow> if \<not> is_terminal (qj_state j) then w
          else w\<lparr>tw_pair_jobs := om_del i (tw_pair_jobs w),
                 tw_pairs := record_sync_pair_lane_outcome ok now pair j (tw_pairs w)\<rparr>"
  have "tw_tasks (fold ?f m v) = tw_tasks v \<and> tw_v2_tasks (fold ?f m v) = tw_v2_tasks v
      \<and> tw_cap (fold ?f m v) = tw_cap v \<and> tw_queue (fold ?f m v) = tw_queue v \<and> tw_v2 (fold ?f m v) = tw_v2 v"
    for m :: "(string, string) omap" and v :: transfer_worker
    by (induction m arbitrary: v) (auto split: option.splits)
  then show "tw_tasks (recover_sync_pair_jobs ok now w) = tw_tasks w"
    "tw_v2_tasks (recover_sync_pair_jobs ok now w) = tw_v2_tasks w"
    "tw_cap (recover_sync_pair_jobs ok now w) = tw_cap w"
    "tw_queue (recover_sync_pair_jobs ok now w) = tw_queue w"
    "tw_v2 (recover_sync_pair_jobs ok now w) = tw_v2 w"
    unfolding recover_sync_pair_jobs_def Let_def by simp_all
qed

text \<open>C28. From the opening of the worker on, whatever verbs, passes, finished tasks, progress reports and steps
  of attempts follow and whichever writes fail, no more tasks run at once than the configured number, those
  of the older queue and those of the contract together.
\<close>

theorem slots_are_bounded:
  "slots (worker_run evs (open_worker ok note_ok now cap q lg st)) \<le> cap"
proof -
  have "within_cap w (worker_run evs w)" for w :: transfer_worker
    unfolding worker_run_def by (rule within_cap_fold) (rule event_cap)
  from this [of "open_worker ok note_ok now cap q lg st"] show ?thesis
    by (simp add: within_cap_def open_worker_def recover_fields om_empty_def)
qed

end
