(* ===== verification/TransferRuns.thy ===== *)
theory TransferRuns
  imports TransferWorker
begin

text \<open>
  What holds of the rows of the older queue over sequences of the worker's events: the rows that count as
  running are those with a task as long as the writes that end a task succeed, the scheduler leaves no slot
  empty while a row waits, running rows are queued again when the worker opens, and what a late progress
  report does.
\<close>

section \<open>Rows and tasks\<close>

definition consistent :: "transfer_worker \<Rightarrow> bool" where
  "consistent w \<longleftrightarrow>
     named (tw_queue w) \<and> distinct (tw_tasks w) \<and> set (tw_tasks w) = running_ids (tw_queue w)"

text \<open>The writes that follow the end of a task succeed; all others may fail.\<close>

fun clean_event :: "'w worker_event \<Rightarrow> bool" where
  "clean_event (VerbEvent o1 v) = vo_ok o1"
| "clean_event (ReapEvent verifier o1 i out) = vo_ok o1"
| "clean_event _ = True"

lemma running_put:
  "running_ids (om_put (qj_id j) j q) =
     (if qj_state j = JRunning then insert (qj_id j) (running_ids q) else running_ids q - {qj_id j})"
  by (auto simp: running_ids_def om_get_put)

lemma running_del: "running_ids (om_del i q) = running_ids q - {i}"
  by (auto simp: running_ids_def om_get_del)

lemma named_put: "named q \<Longrightarrow> named (om_put (qj_id j) j q)"
  using named_upsert [of q True j] by (simp add: upsert_def)

lemma submit_keeps:
  "named q \<Longrightarrow> named (fst (submit ok now j q)) \<and> running_ids (fst (submit ok now j q)) = running_ids q"
  using running_put by (auto simp: submit_def upsert_def named_put Let_def running_ids_def om_get_put)

lemma transition_keeps:
  assumes "named q" and "st \<noteq> JRunning"
  shows "named (fst (transition_to True now i verb nm st q))
     \<and> running_ids (fst (transition_to True now i verb nm st q)) =
         (if can JRunning verb then running_ids q - {i} else running_ids q)"
proof (cases "om_get q i")
  case None
  then have "i \<notin> running_ids q" by (simp add: running_ids_def)
  then show ?thesis using assms(1) None by (simp add: transition_to_def)
next
  case (Some j)
  then have i: "qj_id j = i" using assms(1) by (simp add: named_def)
  show ?thesis
  proof (cases "can (qj_state j) verb")
    case True
    let ?j = "set_state now st j"
    have e: "fst (transition_to True now i verb nm st q) = om_put (qj_id ?j) ?j q"
      using Some True i by (simp add: transition_to_def upsert_def)
    have "running_ids (om_put (qj_id ?j) ?j q) = running_ids q - {i}"
      unfolding running_put using assms(2) i by simp
    moreover have "i \<notin> running_ids q" if "\<not> can JRunning verb"
      using Some True that by (auto simp: running_ids_def)
    ultimately show ?thesis unfolding e using named_put [OF assms(1), of ?j] by simp
  next
    case False
    have e: "fst (transition_to True now i verb nm st q) = q" using Some False by (simp add: transition_to_def)
    have "i \<notin> running_ids q" if "can JRunning verb"
      using Some False that by (auto simp: running_ids_def)
    then show ?thesis unfolding e using assms(1) by simp
  qed
qed

lemma verb_consistent:
  assumes "consistent w" and "vo_ok o1"
  shows "consistent (apply_verb o1 v w)"
proof (cases v)
  case (SubmitVerb j)
  then show ?thesis using assms submit_keeps [of "tw_queue w"] by (simp add: consistent_def)
next
  case (CancelVerb i)
  then show ?thesis
    using assms named_del running_del [of i "tw_queue w"]
    by (auto simp: consistent_def cancel_def abort_task_def Let_def distinct_removeAll running_ids_def)
next
  case (PauseVerb i)
  then show ?thesis
    using assms transition_keeps [of "tw_queue w" JPaused _ i PauseJob]
    by (simp add: consistent_def pause_def abort_task_def Let_def distinct_removeAll)
next
  case (ResumeVerb i)
  then show ?thesis
    using assms transition_keeps [of "tw_queue w" JQueued _ i ResumeJob]
    by (simp add: consistent_def resume_def)
qed (use assms in \<open>auto simp: consistent_def split: prod.splits sum.splits\<close>)

lemma fire_queue:
  "sy_queue (fire_pair io now p s) =
     (if due_at p now
      then fst (submit (pi_queue_ok (io (sp_id p))) (pi_now (io (sp_id p)))
             (pair_to_job (pi_minted (io (sp_id p))) (pi_now (io (sp_id p))) p) (sy_queue s))
      else sy_queue s)"
  by (simp add: fire_pair_def Let_def split: prod.splits sum.splits)

lemma fire_keeps:
  "named (sy_queue s) \<Longrightarrow> named (sy_queue (fire_pair io now p s))
     \<and> running_ids (sy_queue (fire_pair io now p s)) = running_ids (sy_queue s)"
  unfolding fire_queue by (simp add: submit_keeps)

lemma schedule_keeps:
  assumes "named (sy_queue s)"
  shows "named (sy_queue (schedule_sync_pairs_at io now s))
     \<and> running_ids (sy_queue (schedule_sync_pairs_at io now s)) = running_ids (sy_queue s)"
proof -
  have "named (sy_queue s) \<Longrightarrow> named (sy_queue (fold (fire_pair io now) ps s))
      \<and> running_ids (sy_queue (fold (fire_pair io now) ps s)) = running_ids (sy_queue s)" for ps and s :: sync_state
    by (induction ps arbitrary: s) (simp_all add: fire_keeps)
  from this [of "s\<lparr>sy_fired := []\<rparr>"] show ?thesis using assms by (simp add: schedule_sync_pairs_at_def)
qed

lemma complete_keeps:
  assumes "named q" and "i \<in> running_ids q"
    and "complete_with_verifier f True now i out q = (q', b)"
  shows "named q' \<and> running_ids q' = running_ids q - {i} \<and> b"
proof -
  obtain j where j: "om_get q i = Some j" "qj_state j = JRunning" using assms(2) by (auto simp: running_ids_def)
  let ?j = "outcome_applied f now out j"
  have i: "qj_id j = i" using j assms(1) by (simp add: named_def)
  have "q' = om_put (qj_id ?j) ?j q" "b" using assms(3) j by (auto simp: complete_with_verifier_def upsert_def)
  moreover have "qj_state ?j \<noteq> JRunning" using outcome_terminal [of f now out j] by auto
  ultimately show ?thesis using named_put [OF assms(1), of ?j] running_put [of ?j q] i by simp
qed

lemma reap_consistent:
  assumes "consistent w" and "vo_ok o1"
  shows "consistent (reap f o1 i out w)"
proof (cases "i \<in> set (tw_tasks w)")
  case True
  obtain q b where c: "complete_with_verifier f True (vo_now o1) i out (tw_queue w) = (q, b)" by fastforce
  then have "named q" "running_ids q = running_ids (tw_queue w) - {i}" "b"
    using complete_keeps [OF _ _ c] assms(1) True by (auto simp: consistent_def)
  then show ?thesis
    using assms c by (auto simp: reap_def Let_def abort_task_def consistent_def distinct_removeAll split: option.splits)
qed (use assms(1) in \<open>simp add: reap_def\<close>)

lemma progress_keeps:
  assumes "named q"
  shows "named (set_progress ok i pct q) \<and> running_ids (set_progress ok i pct q) = running_ids q"
proof (cases "progress_read i pct q")
  case (Some j)
  then obtain k where k: "om_get q i = Some k" "qj_state k = JRunning" "j = k\<lparr>qj_progress := Some (min pct 99)\<rparr>"
    by (auto simp: progress_read_def Let_def split: option.splits if_splits)
  then have "qj_id k = i" "i \<in> running_ids q" using assms by (auto simp: named_def running_ids_def)
  then show ?thesis
    using k Some named_put [OF assms, of j] running_put [of j q] assms
    by (auto simp: set_progress_def progress_write_def upsert_def insert_absorb)
qed (use assms in \<open>simp add: set_progress_def progress_write_def\<close>)

lemma claim_keeps:
  assumes "named q" and "claim_next ok now cap q = (q', Some j)"
  shows "named q' \<and> running_ids q' = insert (qj_id j) (running_ids q) \<and> qj_id j \<notin> running_ids q"
  using assms(1)
  by (cases rule: claim_next_Some [OF assms])
    (use named_put [OF assms(1), of j] running_put [of j q] in \<open>auto simp: running_ids_def\<close>)

lemma fill_loop_consistent: "consistent w \<Longrightarrow> consistent (fill_loop n ok now w)"
proof (induction n arbitrary: w)
  case (Suc n)
  show ?case
  proof (cases "slots w < tw_cap w")
    case True
    obtain q r where c: "claim_next ok now (max (tw_cap w) 1) (tw_queue w) = (q, r)" by fastforce
    show ?thesis
    proof (cases r)
      case None
      then have "q = tw_queue w" using claim_next_None c by blast
      then show ?thesis using True c None Suc.prems by (simp add: consistent_def)
    next
      case (Some j)
      have "consistent (w\<lparr>tw_queue := q, tw_tasks := List.insert (qj_id j) (tw_tasks w)\<rparr>)"
        using claim_keeps [OF _ c [unfolded Some]] Suc.prems by (simp add: consistent_def)
      then show ?thesis using Suc.IH True c Some by simp
    qed
  qed (use Suc.prems in simp)
qed simp

lemma set_stage_consistent: "consistent w \<Longrightarrow> consistent (set_stage t r w)"
  by (simp add: consistent_def set_stage_def)

lemma fill_v2_one_consistent: "consistent w \<Longrightarrow> consistent (fill_v2_one io q w)"
  by (auto simp: consistent_def fill_v2_one_def split: prod.splits option.splits)

lemma event_consistent:
  assumes "consistent w" and "clean_event e"
  shows "consistent (handle_event e w)"
proof (cases e)
  case (ScheduleEvent io now)
  then show ?thesis using assms schedule_keeps by (simp add: worker_schedule_def Let_def consistent_def)
next
  case (ReapV2Event t wall d)
  then show ?thesis using assms by (auto simp: reap_v2_def consistent_def split: option.splits attempt_stage.splits)
next
  case (FillV2Event io)
  have "consistent w \<Longrightarrow> consistent (fold (fill_v2_one io) qs w)" for qs and w :: transfer_worker
    by (induction qs arbitrary: w) (simp_all add: fill_v2_one_consistent)
  then show ?thesis using FillV2Event assms by (simp add: fill_v2_def)
next
  case (ProgressEvent ok i pct)
  then show ?thesis using assms progress_keeps by (simp add: consistent_def)
next
  case (StartEvent t env sha wall d x)
  then show ?thesis using assms set_stage_consistent by (auto split: option.splits attempt_stage.splits)
next
  case (FinishEvent t env sha name elapsed wall d x)
  then show ?thesis using assms set_stage_consistent by (auto split: option.splits attempt_stage.splits)
qed (use assms verb_consistent reap_consistent fill_loop_consistent in
    \<open>simp_all add: fill_def del: fill_loop.simps\<close>)

lemma run_consistent:
  "consistent w \<Longrightarrow> list_all clean_event evs \<Longrightarrow> consistent (worker_run evs w)"
  unfolding worker_run_def by (induction evs arbitrary: w) (simp_all add: event_consistent)

section \<open>A restart\<close>

lemma recover_fold:
  assumes "distinct (map qj_id js)"
  shows "om_get (fold (\<lambda>j q. if qj_state j = JRunning then upsert (ok (qj_id j)) (set_state now JQueued j) q else q) js q) i =
     (case find (\<lambda>j. qj_id j = i \<and> qj_state j = JRunning \<and> ok i) js of
        None \<Rightarrow> om_get q i | Some j \<Rightarrow> Some (set_state now JQueued j))"
  using assms
proof (induction js arbitrary: q)
  case (Cons j js)
  have none: "find (\<lambda>k. qj_id k = i \<and> qj_state k = JRunning \<and> ok i) js = None" if i: "qj_id j = i"
  proof -
    have "i \<notin> qj_id ` set js" using Cons.prems i by simp
    then have "qj_id k \<noteq> i" if "k \<in> set js" for k using that by blast
    then show ?thesis by (auto simp: find_None_iff)
  qed
  show ?case using Cons none by (auto simp: upsert_def om_get_put split: option.splits)
qed simp

lemma recover_get:
  assumes "named q"
  shows "om_get (recover_orphaned_running ok now q) i =
     map_option (\<lambda>j. if qj_state j = JRunning \<and> ok i then set_state now JQueued j else j) (om_get q i)"
proof -
  let ?P = "\<lambda>j. qj_id j = i \<and> qj_state j = JRunning \<and> ok i"
  have e: "om_get (recover_orphaned_running ok now q) i =
      (case find ?P (load_all q) of None \<Rightarrow> om_get q i | Some j \<Rightarrow> Some (set_state now JQueued j))"
    unfolding recover_orphaned_running_def by (rule recover_fold [OF load_all_ids [OF assms]])
  show ?thesis
  proof (cases "find ?P (load_all q)")
    case None
    then have "\<not> (j \<in> set (load_all q) \<and> ?P j)" for j by (auto simp: find_None_iff)
    then have "\<not> (qj_state j = JRunning \<and> ok i)" if "om_get q i = Some j" for j
      using that load_all_set [OF assms, of j] assms unfolding named_def by metis
    then show ?thesis unfolding e None by (cases "om_get q i") auto
  next
    case (Some j)
    then have "?P j" "j \<in> set (load_all q)" using find_SomeD by fast+
    then have "om_get q i = Some j" using load_all_set [OF assms, of j] by simp
    then show ?thesis unfolding e Some using \<open>?P j\<close> by simp
  qed
qed

lemma recover_named:
  assumes "named q"
  shows "named (recover_orphaned_running ok now q)"
proof -
  let ?f = "\<lambda>j q. if qj_state j = JRunning then upsert (ok (qj_id j)) (set_state now JQueued j) q else q"
  have "om_wf q \<Longrightarrow> om_wf (fold ?f js q)" for js and q :: queue
    by (induction js arbitrary: q) (simp_all add: upsert_def om_wf_put)
  then have "om_wf (recover_orphaned_running ok now q)"
    using assms by (simp add: recover_orphaned_running_def named_def)
  then show ?thesis
    using assms by (auto simp: named_def [of "recover_orphaned_running ok now q"] recover_get named_def split: if_splits)
qed

text \<open>A worker that opens, with the writes of the recovery going through, has no row without a task.\<close>

lemma open_consistent:
  assumes "named q"
  shows "consistent (open_worker (\<lambda>_. True) note_ok now cap q lg st)"
proof -
  have "running_ids (recover_orphaned_running (\<lambda>_. True) now q) = {}"
    by (auto simp: running_ids_def recover_get [OF assms] split: if_splits)
  then show ?thesis
    using recover_named [OF assms] by (simp add: consistent_def open_worker_def recover_fields)
qed

section \<open>No slot stays empty while a row waits\<close>

definition queued_ids :: "queue \<Rightarrow> string set" where
  "queued_ids q = {i. \<exists>j. om_get q i = Some j \<and> qj_state j = JQueued}"

lemma finite_queued: "finite (queued_ids q)" and card_queued: "card (queued_ids q) \<le> length q"
proof -
  have sub: "queued_ids q \<subseteq> set (map fst q)"
    by (force simp: queued_ids_def om_get_def dest: map_of_SomeD)
  then show "finite (queued_ids q)" by (rule finite_subset) simp
  show "card (queued_ids q) \<le> length q"
    using card_mono [OF _ sub] card_length [of "map fst q"] by simp
qed

lemma queued_put:
  "queued_ids (om_put (qj_id j) j q) =
     (if qj_state j = JQueued then insert (qj_id j) (queued_ids q) else queued_ids q - {qj_id j})"
  by (auto simp: queued_ids_def om_get_put)

lemma running_count_tasks:
  assumes "consistent w"
  shows "running_count (tw_queue w) = length (tw_tasks w)"
proof -
  have "card (set (tw_tasks w)) = length (tw_tasks w)"
    using assms by (intro distinct_card) (simp add: consistent_def)
  then show ?thesis using assms running_count_card [of "tw_queue w"] by (simp add: consistent_def)
qed

lemma claim_refused:
  assumes "consistent w" and "slots w < tw_cap w"
    and "claim_next (\<lambda>_. True) now (max (tw_cap w) 1) (tw_queue w) = (q, None)"
  shows "q = tw_queue w \<and> queued_ids q = {}"
proof -
  have q: "q = tw_queue w" using claim_next_None assms(3) by blast
  have "running_count (tw_queue w) = length (tw_tasks w)" using assms(1) by (rule running_count_tasks)
  then have "running_count (tw_queue w) < max (tw_cap w) 1" using assms(2) by simp
  then have "find (\<lambda>j. qj_state j = JQueued) (load_all (tw_queue w)) = None"
    using assms(3) by (auto simp: claim_next_def Let_def split: if_splits option.splits)
  then have "\<not> (\<exists>j. j \<in> set (load_all (tw_queue w)) \<and> qj_state j = JQueued)"
    by (simp add: find_None_iff)
  then show ?thesis
    using assms(1) load_all_set [of "tw_queue w"] unfolding q
    by (auto simp: consistent_def queued_ids_def named_def)
qed

lemma fill_loop_full:
  fixes now :: u64
  assumes "consistent w" and "card (queued_ids (tw_queue w)) < n"
  defines "w' \<equiv> fill_loop n (\<lambda>_. True) now w"
  shows "slots w' \<ge> tw_cap w' \<or> queued_ids (tw_queue w') = {}"
  using assms(1,2) unfolding w'_def
proof (induction n arbitrary: w)
  case (Suc n)
  show ?case
  proof (cases "slots w < tw_cap w")
    case True
    obtain q r where c: "claim_next (\<lambda>_. True) now (max (tw_cap w) 1) (tw_queue w) = (q, r)" by fastforce
    show ?thesis
    proof (cases r)
      case None
      then show ?thesis using claim_refused [OF Suc.prems(1) True] c True by simp
    next
      case (Some j)
      let ?w = "w\<lparr>tw_queue := q, tw_tasks := List.insert (qj_id j) (tw_tasks w)\<rparr>"
      have nm: "named (tw_queue w)" using Suc.prems(1) by (simp add: consistent_def)
      from nm c [unfolded Some] obtain k where k: "om_get (tw_queue w) (qj_id k) = Some k" "qj_state k = JQueued"
          "j = set_state now JRunning k" "q = om_put (qj_id k) j (tw_queue w)"
        by (rule claim_next_Some)
      have "queued_ids q = queued_ids (tw_queue w) - {qj_id k}"
        using queued_put [of j "tw_queue w"] k(3,4) by simp
      moreover have "qj_id k \<in> queued_ids (tw_queue w)" using k by (auto simp: queued_ids_def)
      ultimately have "card (queued_ids q) < card (queued_ids (tw_queue w))"
        using finite_queued by (metis card_Diff1_less)
      then have "card (queued_ids (tw_queue ?w)) < n" using Suc.prems(2) by simp
      moreover have "consistent ?w"
        using claim_keeps [OF nm c [unfolded Some]] Suc.prems(1) by (simp add: consistent_def)
      ultimately show ?thesis using Suc.IH [of ?w] True c Some by simp
    qed
  qed simp
qed simp


section \<open>A progress report that comes late\<close>

text \<open>C39. A progress report of a lane that is overtaken by the operator's cancel (it has read the row, the cancel
  removes the row and the task, then it writes) puts the row back as running: no task runs it, it occupies
  one of the slots the queue counts, and the next start of the worker queues the cancelled job again.
\<close>

theorem late_progress_revives_a_cancelled_job:
  fixes now :: u64
  assumes "consistent w" and "i \<in> set (tw_tasks w)" and "vo_ok o1"
    and "progress_read i pct (tw_queue w) = Some r"
  defines "w1 \<equiv> apply_verb o1 (CancelVerb i) w"
  defines "w2 \<equiv> w1\<lparr>tw_queue := progress_write True (Some r) (tw_queue w1)\<rparr>"
  shows "om_get (tw_queue w1) i = None
     \<and> om_get (tw_queue w2) i = Some r \<and> qj_state r = JRunning \<and> i \<notin> set (tw_tasks w2)
     \<and> running_count (tw_queue w2) = Suc (length (tw_tasks w2))
     \<and> om_get (recover_orphaned_running (\<lambda>_. True) now (tw_queue w2)) i = Some (set_state now JQueued r)"
proof -
  obtain k where k: "om_get (tw_queue w) i = Some k" "qj_state k = JRunning" "r = k\<lparr>qj_progress := Some (min pct 99)\<rparr>"
    using assms(4) by (auto simp: progress_read_def Let_def split: option.splits if_splits)
  have nm: "named (tw_queue w)" using assms(1) by (simp add: consistent_def)
  then have i: "qj_id k = i" "qj_id r = i" using k by (auto simp: named_def)
  have c1: "consistent w1" unfolding w1_def by (rule verb_consistent [OF assms(1,3)])
  have q1: "tw_queue w1 = om_del i (tw_queue w)" "tw_tasks w1 = removeAll i (tw_tasks w)"
    using assms(3) k(1) by (auto simp: w1_def Let_def abort_task_def cancel_def)
  have q2: "tw_queue w2 = om_put i r (tw_queue w1)" "tw_tasks w2 = tw_tasks w1"
    using i by (simp_all add: w2_def progress_write_def upsert_def)
  have nm2: "named (tw_queue w2)"
    using named_put [of "tw_queue w1" r] c1 i unfolding q2 consistent_def by simp
  have "running_ids (tw_queue w2) = insert i (running_ids (tw_queue w1))"
    using running_put [of r "tw_queue w1"] i k unfolding q2 by simp
  moreover have "i \<notin> running_ids (tw_queue w1)" unfolding q1(1) by (simp add: running_del)
  moreover have "finite (running_ids (tw_queue w1))" using c1 by (metis consistent_def List.finite_set)
  ultimately have "running_count (tw_queue w2) = Suc (running_count (tw_queue w1))"
    using running_count_card [OF nm2] running_count_card [of "tw_queue w1"] c1 by (simp add: consistent_def)
  then have "running_count (tw_queue w2) = Suc (length (tw_tasks w2))"
    using running_count_tasks [OF c1] q2(2) by simp
  moreover have "om_get (tw_queue w2) i = Some r" unfolding q2 by (simp add: om_get_put)
  ultimately show ?thesis
    using recover_get [OF nm2, of "\<lambda>_. True" now i] k q1 q2 by (simp add: om_get_del)
qed

text \<open>A queue with one waiting row.\<close>

definition demo_row :: queue_job where
  "demo_row = queue_job_new ''a'' 1 ''/src'' ''/dst'' LaneRsync \<lparr>po_bwlimit = None, po_verify = True\<rparr>"

lemma demo_named: "named [(''a'', demo_row)]" "named [(''a'', set_state 2 JRunning demo_row)]"
  by (simp_all add: named_def om_wf_def om_get_def demo_row_def queue_job_new_def)

abbreviation demo_io :: verb_io where
  "demo_io \<equiv> \<lparr>vo_ok = True, vo_now = 9, vo_disk = DiskOk\<rparr>"

definition demo_worker :: "v2_ledger \<Rightarrow> transfer_worker" where
  "demo_worker lg = open_worker (\<lambda>_. True) True 1 3 [(''a'', demo_row)] lg om_empty"

definition demo_pause :: "nat worker_event list" where
  "demo_pause = [FillEvent (\<lambda>_. True) 5, VerbEvent demo_io (PauseVerb ''a'')]"


lemma demo_row_filled:
  "tw_queue (fill (\<lambda>_. True) 5 (demo_worker om_empty)) = [(''a'', set_state 5 JRunning demo_row)]"
  "tw_tasks (fill (\<lambda>_. True) 5 (demo_worker om_empty)) = [''a'']"
  by code_simp+

theorem late_progress_revives_a_cancelled_job_witness:
  "om_get (tw_queue (apply_verb demo_io (CancelVerb ''a'') (fill (\<lambda>_. True) 5 (demo_worker om_empty)))) ''a'' = None"
proof -
  let ?w = "fill (\<lambda>_. True) 5 (demo_worker om_empty)"
  have c: "consistent ?w"
    unfolding fill_def demo_worker_def by (rule fill_loop_consistent) (rule open_consistent [OF demo_named(1)])
  have p: "progress_read ''a'' 50 (tw_queue ?w) = Some ((set_state 5 JRunning demo_row)\<lparr>qj_progress := Some 50\<rparr>)"
    unfolding demo_row_filled by (simp add: progress_read_def om_get_def set_state_def demo_row_def queue_job_new_def Let_def)
  show ?thesis
    by (rule late_progress_revives_a_cancelled_job [OF c _ _ p, THEN conjunct1]) (simp_all add: demo_row_filled)
qed

end
