(* ===== verification/TransferAttempts.thy ===== *)
theory TransferAttempts
  imports TransferRuns
begin

text \<open>
  What holds of the jobs of the contract over sequences of the worker's events.  Every event changes the
  ledger by operations of \<open>TransferLedger\<close> only, so its results carry over; an attempt writes to its own
  record only.  Shown: what becomes of an active job that no attempt runs, and which jobs can be completed.
\<close>

section \<open>Jobs of the contract\<close>

text \<open>
  Every event changes the ledger by operations of it.  An attempt writes under its own key, and the job its
  stage carries is the one of the record at that key, up to state and progress.
\<close>

definition held :: "v2_ledger \<Rightarrow> transfer_id \<Rightarrow> transfer_job \<Rightarrow> bool" where
  "held lg t j \<longleftrightarrow> tj_transfer j = t \<and> (\<exists>r. v2_get lg t = Some r \<and> request_of r = request_of j)"

fun stage_ok :: "v2_ledger \<Rightarrow> transfer_id \<Rightarrow> attempt_stage \<Rightarrow> bool" where
  "stage_ok lg t (Claimed j) = held lg t j"
| "stage_ok lg t (Copying a) = (held lg t (rj_job a) \<and> v2_executor_admission (rj_job a) = LocalFilesCopy)"
| "stage_ok lg t _ = True"

definition staged :: "transfer_worker \<Rightarrow> bool" where
  "staged w \<longleftrightarrow>
     filed (tw_v2 w) \<and> (\<forall>t k. om_get (tw_v2_tasks w) t = Some k \<longrightarrow> stage_ok (tw_v2 w) t (vt_stage k))"

text \<open>The operations an event makes, in a worker with those tasks.\<close>

fun op_of :: "'w worker_event \<Rightarrow> (transfer_id, v2_task) omap \<Rightarrow> v2_op \<Rightarrow> bool" where
  "op_of e m (SubmitOp j d) = (\<exists>o1. e = VerbEvent o1 (SubmitV2Verb j))"
| "op_of e m (ControlOp t c ts d) = (\<exists>o1. e = VerbEvent o1 (ControlV2Verb t c ts))"
| "op_of e m (ClaimOp t wall d) = True"
| "op_of e m (UpdateOp t a u wall d) =
     (\<exists>k. om_get m t = Some k \<and> (case u of FinishCopy n r \<Rightarrow> \<exists>b. vt_stage k = Copying b | _ \<Rightarrow> True))"
| "op_of e m (FailOp t a er wall d) = (om_get m t \<noteq> None)"

definition steps_by :: "(v2_op \<Rightarrow> bool) \<Rightarrow> v2_ledger \<Rightarrow> v2_ledger \<Rightarrow> bool" where
  "steps_by P lg lg' \<longleftrightarrow> (\<exists>ops. list_all P ops \<and> lg' = v2_run ops lg)"

lemma steps_none [simp]: "steps_by P lg lg"
  unfolding steps_by_def by (intro exI [of _ "[]"]) (simp add: v2_run_def)

lemma steps_one: "P p \<Longrightarrow> steps_by P lg (v2_apply p lg)"
  unfolding steps_by_def by (intro exI [of _ "[p]"]) (simp add: v2_run_def)

lemma steps_trans: "steps_by P a b \<Longrightarrow> steps_by P b c \<Longrightarrow> steps_by P a c"
proof -
  assume "steps_by P a b" "steps_by P b c"
  then obtain xs ys where "list_all P xs" "b = v2_run xs a" "list_all P ys" "c = v2_run ys b"
    unfolding steps_by_def by blast
  then show ?thesis unfolding steps_by_def by (intro exI [of _ "xs @ ys"]) (simp add: v2_run_def)
qed

lemma steps_filed: "steps_by P lg lg' \<Longrightarrow> filed lg \<Longrightarrow> filed lg'"
  by (auto simp: steps_by_def run_filed)

lemma steps_held: "steps_by P lg lg' \<Longrightarrow> filed lg \<Longrightarrow> held lg t j \<Longrightarrow> held lg' t j"
  unfolding held_def steps_by_def using run_moves moves_star by (metis (no_types, lifting))

lemma steps_stage: "steps_by P lg lg' \<Longrightarrow> filed lg \<Longrightarrow> stage_ok lg t st \<Longrightarrow> stage_ok lg' t st"
  by (cases st) (auto intro: steps_held)

text \<open>The attempt: what it writes, and the stage it comes to.\<close>

lemma fail_attempt_steps:
  assumes "om_get m t \<noteq> None"
  shows "steps_by (op_of e m) lg (fst (fail_attempt lg t a er wall d))
     \<and> stage_ok lg' t (snd (fail_attempt lg t a er wall d))"
proof (cases er)
  case (Some x)
  have "steps_by (op_of e m) lg (v2_apply (FailOp t (Some a) x wall d) lg)"
    using assms by (intro steps_one) simp
  then show ?thesis using Some by (simp add: fail_attempt_def case_prod_unfold)
qed (simp add: fail_attempt_def)

lemma update_steps:
  assumes "op_of e m (UpdateOp t a u wall d)"
  shows "steps_by (op_of e m) lg (fst (update_active_v2 lg t a u wall d))"
  using steps_one [of "op_of e m", OF assms] by simp

lemma start_steps:
  assumes "om_get m t = Some k" and "filed lg" and "held lg t j"
  shows "steps_by (op_of e m) lg (fst (start_attempt env sha j wall d lg x))
     \<and> stage_ok (fst (start_attempt env sha j wall d lg x)) t (snd (start_attempt env sha j wall d lg x))"
proof -
  have t: "tj_transfer j = t" using assms(3) by (simp add: held_def)
  note failed = fail_attempt_steps [where m = m and t = t and e = e]
  show ?thesis
  proof (cases "v2_executor_admission j")
    case LocalFilesCopy
    show ?thesis
    proof (cases "fst (resolve_for_execution env sha j x)")
      case (Inl er)
      then show ?thesis using LocalFilesCopy failed assms(1) t by (simp add: start_attempt_def)
    next
      case (Inr a)
      then have a: "rj_job a = j" using resolved_ends by (metis prod.collapse)
      obtain lg' r where u: "update_active_v2 lg t (attempt_of j) (BeginTransfer (be_size (rj_source a))) wall d = (lg', r)"
        by fastforce
      have s: "steps_by (op_of e m) lg lg'"
        using update_steps [of e m t "attempt_of j" "BeginTransfer (be_size (rj_source a))" wall d lg] assms(1) u by simp
      then have "held lg' t j" using steps_held assms(2,3) by blast
      then show ?thesis
        using s u LocalFilesCopy Inr t a by (cases r) (simp_all add: start_attempt_def)
    qed
  qed (use failed assms(1) t in \<open>simp add: start_attempt_def\<close>)
qed

lemma finish_steps:
  assumes "om_get m t = Some k" and "vt_stage k = Copying a" and "held lg t (rj_job a)"
  shows "steps_by (op_of e m) lg (fst (finish_attempt env sha name a el wall d lg x))
     \<and> stage_ok lg' t (snd (finish_attempt env sha name a el wall d lg x))"
proof -
  have t: "tj_transfer (rj_job a) = t" using assms(3) by (simp add: held_def)
  show ?thesis
  proof (cases "fst (execute_local_mesh_copy env sha name a x)")
    case (Inl er)
    then show ?thesis
      using fail_attempt_steps [where m = m and t = t and e = e] assms(1) t by (simp add: finish_attempt_def Let_def)
  next
    case (Inr o1)
    obtain b y where o1: "o1 = (b, y)" by fastforce
    have "op_of e m (UpdateOp t (attempt_of (rj_job a)) (FinishCopy (co_bytes b) (transfer_rate el (co_bytes b))) wall d)"
      using assms(1,2) by simp
    from update_steps [OF this, of lg] show ?thesis
      using Inr o1 t by (simp add: finish_attempt_def Let_def case_prod_unfold)
  qed
qed

text \<open>One event: its operations on the ledger, and the stages it leaves.\<close>

lemma claim_held:
  assumes "filed lg" and "claim_v2_job lg t wall d = (lg', Some j)"
  shows "tj_transfer j = t \<and> v2_get lg' t = Some j \<and> (\<exists>i. v2_get lg t = Some i \<and> tj_state i = Queued)"
proof -
  obtain i a where i: "v2_get lg t = Some i" "tj_state i = Queued" "stamped_write lg (claimed a i) wall d = (lg', Some j)"
    using assms(2) by (auto simp: claim_v2_job_def split: option.splits if_splits)
  have "tj_transfer i = t" using assms(1) i(1) by (simp add: filed_def)
  then have k: "tj_transfer (claimed a i) = t" by (simp add: claimed_def)
  from i(3) show ?thesis
    by (cases rule: stamped_write_cases) (use i k in \<open>auto simp: v2_get_put split: if_splits\<close>)
qed

lemma staged_step:
  assumes "staged w" and "steps_by P (tw_v2 w) (tw_v2 w')"
    and "\<And>t k. om_get (tw_v2_tasks w') t = Some k \<Longrightarrow>
      (\<exists>k0. om_get (tw_v2_tasks w) t = Some k0 \<and> vt_stage k = vt_stage k0) \<or> stage_ok (tw_v2 w') t (vt_stage k)"
  shows "staged w'"
  unfolding staged_def
proof (intro conjI allI impI)
  show "filed (tw_v2 w')" using assms(1,2) steps_filed by (simp add: staged_def)
  fix t k
  assume "om_get (tw_v2_tasks w') t = Some k"
  from assms(3) [OF this] show "stage_ok (tw_v2 w') t (vt_stage k)"
    using assms(1,2) steps_stage unfolding staged_def by metis
qed

lemma fill_v2_one_staged:
  assumes "staged w"
  shows "staged (fill_v2_one io q w) \<and> steps_by (op_of e m) (tw_v2 w) (tw_v2 (fill_v2_one io q w))"
proof (cases "slots w \<ge> tw_cap w \<or> tj_state q \<noteq> Queued \<or> om_get (tw_v2_tasks w) (tj_transfer q) \<noteq> None")
  case True
  then have "fill_v2_one io q w = w" by (auto simp: fill_v2_one_def)
  then show ?thesis using assms by simp
next
  case False
  let ?t = "tj_transfer q"
  obtain lg r where c: "claim_v2_job (tw_v2 w) ?t (fst (io ?t)) (snd (io ?t)) = (lg, r)" by fastforce
  have s: "steps_by (op_of e m) (tw_v2 w) lg"
    using steps_one [of "op_of e m" "ClaimOp ?t (fst (io ?t)) (snd (io ?t))" "tw_v2 w"] c by simp
  show ?thesis
  proof (cases r)
    case None
    then have w': "fill_v2_one io q w = w\<lparr>tw_v2 := lg\<rparr>" using False c by (simp add: fill_v2_one_def)
    show ?thesis unfolding w' using s by (auto intro!: staged_step [OF assms])
  next
    case (Some j)
    have j: "tj_transfer j = ?t" "v2_get lg ?t = Some j"
      using claim_held c Some assms unfolding staged_def by blast+
    then have ok: "stage_ok lg ?t (Claimed j)" by (simp add: held_def)
    let ?k = "\<lparr>vt_attempt = attempt_of j, vt_canceled = False, vt_stage = Claimed j\<rparr>"
    have w': "fill_v2_one io q w = w\<lparr>tw_v2 := lg, tw_v2_tasks := om_put ?t ?k (tw_v2_tasks w)\<rparr>"
      using False c Some j by (simp add: fill_v2_one_def)
    show ?thesis
      unfolding w' using s ok
      by (auto intro!: staged_step [OF assms] simp: om_get_put simp del: stage_ok.simps split: if_splits)
  qed
qed

lemma fill_v2_staged:
  "staged w \<Longrightarrow> staged (fold (fill_v2_one io) qs w) \<and> steps_by (op_of e m) (tw_v2 w) (tw_v2 (fold (fill_v2_one io) qs w))"
proof (induction qs arbitrary: w)
  case (Cons q qs)
  then show ?case using fill_v2_one_staged steps_trans by (metis fold_simps(2))
qed simp

lemma set_stage_staged:
  assumes "staged w" and "om_get (tw_v2_tasks w) t = Some k"
    and "steps_by P (tw_v2 w) (fst r) \<and> stage_ok (fst r) t (snd r)"
  shows "staged (set_stage t r w)"
  using assms by (auto intro!: staged_step [OF assms(1)] simp: set_stage_def om_get_modify split: if_splits)

lemma same_v2_staged:
  "staged w \<Longrightarrow> tw_v2 w' = tw_v2 w \<Longrightarrow> tw_v2_tasks w' = tw_v2_tasks w \<Longrightarrow>
     staged w' \<and> steps_by P (tw_v2 w) (tw_v2 w')"
  by (simp add: staged_def)

lemma verb_staged:
  assumes "staged w" and "e = VerbEvent o1 v"
  shows "staged (apply_verb o1 v w)
     \<and> steps_by (op_of e (tw_v2_tasks w)) (tw_v2 w) (tw_v2 (apply_verb o1 v w))"
proof (cases v)
  case (SubmitV2Verb j)
  let ?P = "op_of e (tw_v2_tasks w)"
  have "steps_by ?P (tw_v2 w) (tw_v2 (apply_verb o1 v w))"
    using steps_one [of ?P "SubmitOp j (vo_disk o1)"] SubmitV2Verb assms(2) by simp
  then show ?thesis using SubmitV2Verb by (auto intro!: staged_step [OF assms(1)])
next
  case (ControlV2Verb t c ts)
  let ?P = "op_of e (tw_v2_tasks w)"
  have e: "tw_v2 (apply_verb o1 v w) = fst (apply_control (tw_v2 w) t c ts (vo_disk o1))"
    using ControlV2Verb by (simp split: prod.splits sum.splits)
  have s: "steps_by ?P (tw_v2 w) (tw_v2 (apply_verb o1 v w))"
    unfolding e using steps_one [of ?P "ControlOp t c ts (vo_disk o1)"] ControlV2Verb assms(2) by simp
  have "\<exists>k0. om_get (tw_v2_tasks w) i = Some k0 \<and> vt_stage k = vt_stage k0"
    if "om_get (tw_v2_tasks (apply_verb o1 v w)) i = Some k" for i k
    using that ControlV2Verb by (auto simp: om_get_modify split: prod.splits sum.splits if_splits)
  then show ?thesis using staged_step [OF assms(1) s] s by blast
qed (use assms in \<open>simp_all add: staged_def abort_task_def Let_def\<close>)

lemma reap_v2_part: "tw_v2 (reap f o1 i out w) = tw_v2 w \<and> tw_v2_tasks (reap f o1 i out w) = tw_v2_tasks w"
  by (auto simp: reap_def Let_def abort_task_def split: prod.splits bool.splits option.splits)

lemma fill_loop_v2: "tw_v2 (fill_loop n ok now w) = tw_v2 w \<and> tw_v2_tasks (fill_loop n ok now w) = tw_v2_tasks w"
  by (induction n arbitrary: w) (auto split: prod.splits option.splits)

lemma reap_v2_staged:
  assumes "staged w"
  shows "staged (reap_v2 t wall d w) \<and> steps_by (op_of e (tw_v2_tasks w)) (tw_v2 w) (tw_v2 (reap_v2 t wall d w))"
proof -
  let ?P = "op_of e (tw_v2_tasks w)"
  have "steps_by ?P (tw_v2 w) (fst (finish_v2_failed (tw_v2 w) t None e wall d))"
    if "om_get (tw_v2_tasks w) t = Some k" for k e
    using steps_one [of ?P "FailOp t None e wall d"] that by simp
  then have s: "steps_by ?P (tw_v2 w) (tw_v2 (reap_v2 t wall d w))"
    by (auto simp: reap_v2_def split: option.splits attempt_stage.splits)
  have "\<exists>k0. om_get (tw_v2_tasks w) i = Some k0 \<and> vt_stage k = vt_stage k0"
    if "om_get (tw_v2_tasks (reap_v2 t wall d w)) i = Some k" for i k
    using that by (auto simp: reap_v2_def om_get_del split: option.splits attempt_stage.splits if_splits)
  then show ?thesis using staged_step [OF assms s] s by blast
qed

lemma event_staged:
  assumes "staged w"
  shows "staged (handle_event e w) \<and> steps_by (op_of e (tw_v2_tasks w)) (tw_v2 w) (tw_v2 (handle_event e w))"
proof (cases e)
  case (StartEvent t env sha wall d x)
  show ?thesis
  proof (cases "\<exists>k j. om_get (tw_v2_tasks w) t = Some k \<and> vt_stage k = Claimed j")
    case True
    then obtain k j where k: "om_get (tw_v2_tasks w) t = Some k" "vt_stage k = Claimed j" by blast
    then have h: "held (tw_v2 w) t j" "filed (tw_v2 w)" using assms by (auto simp: staged_def dest: spec [of _ t])
    note st = start_steps [OF k(1) h(2,1), of e env sha wall d x]
    show ?thesis
      using set_stage_staged [OF assms k(1) st] st StartEvent k by (simp add: set_stage_def)
  next
    case False
    then have "handle_event e w = w" using StartEvent by (auto split: option.splits attempt_stage.splits)
    then show ?thesis using assms by simp
  qed
next
  case (FinishEvent t env sha name el wall d x)
  show ?thesis
  proof (cases "\<exists>k a. om_get (tw_v2_tasks w) t = Some k \<and> vt_stage k = Copying a")
    case True
    then obtain k a where k: "om_get (tw_v2_tasks w) t = Some k" "vt_stage k = Copying a" by blast
    then have h: "held (tw_v2 w) t (rj_job a)" using assms by (auto simp: staged_def dest: spec [of _ t])
    note st = finish_steps [OF k h, of e env sha name el wall d x]
    show ?thesis
      using set_stage_staged [OF assms k(1) st] st FinishEvent k by (simp add: set_stage_def)
  next
    case False
    then have "handle_event e w = w" using FinishEvent by (auto split: option.splits attempt_stage.splits)
    then show ?thesis using assms by simp
  qed
next
  case (VerbEvent o1 v)
  then show ?thesis using verb_staged [OF assms VerbEvent] by (simp del: apply_verb.simps)
next
  case (ReapV2Event t wall d)
  then show ?thesis using reap_v2_staged [OF assms] by simp
next
  case (FillV2Event io)
  then show ?thesis using fill_v2_staged [OF assms] by (simp add: fill_v2_def)
next
  case (ReapEvent f o1 i out)
  then show ?thesis using same_v2_staged [OF assms] reap_v2_part by simp
next
  case (FillEvent ok now)
  then show ?thesis using same_v2_staged [OF assms] fill_loop_v2 by (simp add: fill_def del: fill_loop.simps)
qed (use assms in \<open>simp_all add: staged_def worker_schedule_def Let_def\<close>)

section \<open>An active job that no attempt runs\<close>

fun op_target :: "v2_op \<Rightarrow> transfer_id" where
  "op_target (SubmitOp j d) = tj_transfer j"
| "op_target (ControlOp t c ts d) = t"
| "op_target (ClaimOp t wall d) = t"
| "op_target (UpdateOp t a u wall d) = t"
| "op_target (FailOp t a e wall d) = t"

lemma stamped_fst:
  "fst (stamped_write lg k wall d) = lg
     \<or> (\<exists>ts. fst (stamped_write lg k wall d) = om_put (tj_transfer k) (Record (k\<lparr>tj_updated := ts\<rparr>)) lg)"
proof -
  obtain lg' r where w: "stamped_write lg k wall d = (lg', r)" by fastforce
  then show ?thesis by (cases rule: stamped_write_cases) (use w in auto)
qed

lemma stamped_get:
  "v2_get (fst (stamped_write lg k wall d)) t = Some j \<Longrightarrow>
     v2_get lg t = Some j \<or> t = tj_transfer k \<and> (\<exists>ts. j = k\<lparr>tj_updated := ts\<rparr>)"
  using stamped_fst [of lg k wall d] by (auto simp: v2_get_put split: if_splits)

lemma stamped_other:
  "t \<noteq> tj_transfer k \<Longrightarrow> v2_get (fst (stamped_write lg k wall d)) t = v2_get lg t"
  using stamped_fst [of lg k wall d] by (auto simp: v2_get_put)

lemma keep_transfer [simp]:
  "tj_transfer (claimed a j) = tj_transfer j" "tj_transfer (failed_with e j) = tj_transfer j"
  "tj_transfer (controlled c ts j) = tj_transfer j" "tj_transfer (apply_update u j) = tj_transfer j"
  by (simp_all add: claimed_def failed_with_def controlled_def) (cases u; simp)

lemma op_other:
  assumes "filed lg" and "op_target p \<noteq> t"
  shows "v2_get (v2_apply p lg) t = v2_get lg t"
proof (cases p)
  case (SubmitOp j d)
  then show ?thesis using assms(2)
    by (auto simp: v2_submit_def v2_insert_def write_record_def v2_get_put split: sum.splits)
next
  case (ControlOp i c ts d)
  have "tj_transfer j = i" if "v2_get lg i = Some j" for j using assms(1) that by (simp add: filed_def)
  then show ?thesis using ControlOp assms(2)
    by (auto simp: apply_control_def write_record_def v2_get_put Let_def split: option.splits sum.splits)
next
  case (ClaimOp i wall d)
  have "tj_transfer j = i" if "v2_get lg i = Some j" for j using assms(1) that by (simp add: filed_def)
  then show ?thesis using ClaimOp assms(2)
    by (auto simp: claim_v2_job_def stamped_other split: option.splits)
next
  case (UpdateOp i a u wall d)
  have "tj_transfer j = i" if "v2_get lg i = Some j" for j using assms(1) that by (simp add: filed_def)
  then show ?thesis using UpdateOp assms(2)
    by (auto simp: update_active_v2_def stamped_other split: option.splits)
next
  case (FailOp i a er wall d)
  have "tj_transfer j = i" if "v2_get lg i = Some j" for j using assms(1) that by (simp add: filed_def)
  then show ?thesis using FailOp assms(2)
    by (auto simp: finish_v2_failed_def stamped_other split: option.splits)
qed

text \<open>A submission never touches a record that is there, and a claim only a queued one.\<close>

lemma active_stays:
  assumes "filed lg" and "v2_get lg t = Some j" and "tj_state j = Active"
    and "(\<exists>i d. p = SubmitOp i d) \<or> (\<exists>i wall d. p = ClaimOp i wall d) \<or> op_target p \<noteq> t"
  shows "v2_get (v2_apply p lg) t = Some j"
proof (cases "op_target p = t")
  case True
  from assms(4) True have "v2_apply p lg = lg"
  proof (elim disjE exE)
    fix i d
    assume p: "p = SubmitOp i d"
    have "om_get lg (tj_transfer i) \<noteq> None" using True p assms(2) by (auto simp: v2_get_def bind_eq_Some_conv)
    then show ?thesis using p by (auto simp: v2_submit_def v2_insert_def write_record_def split: sum.splits)
  next
    fix i wall d
    assume "p = ClaimOp i wall d"
    then show ?thesis using True assms(2,3) by (simp add: claim_v2_job_def)
  qed simp
  then show ?thesis using assms(2) by simp
qed (use op_other [OF assms(1)] assms(2) in simp)

lemma steps_active:
  assumes "steps_by P lg lg'" and "filed lg" and "v2_get lg t = Some j" and "tj_state j = Active"
    and "\<And>p. P p \<Longrightarrow> (\<exists>i d. p = SubmitOp i d) \<or> (\<exists>i wall d. p = ClaimOp i wall d) \<or> op_target p \<noteq> t"
  shows "v2_get lg' t = Some j"
proof -
  obtain ops where ops: "list_all P ops" "lg' = v2_run ops lg" using assms(1) by (auto simp: steps_by_def)
  have "list_all P ops \<Longrightarrow> filed lg \<Longrightarrow> v2_get lg t = Some j \<Longrightarrow> v2_get (v2_run ops lg) t = Some j" for ops lg
  proof (induction ops arbitrary: lg)
    case (Cons p ops)
    have "filed (v2_run [p] lg)" using Cons.prems(2) by (rule run_filed)
    moreover have "v2_get (v2_apply p lg) t = Some j"
      using Cons.prems assms(4,5) by (intro active_stays) auto
    ultimately show ?case using Cons.IH [of "v2_apply p lg"] Cons.prems(1) by (simp add: v2_run_def)
  qed (simp add: v2_run_def)
  then show ?thesis using ops assms(2,3) by blast
qed

definition orphaned :: "transfer_id \<Rightarrow> transfer_job \<Rightarrow> transfer_worker \<Rightarrow> bool" where
  "orphaned t j w \<longleftrightarrow> staged w \<and> om_get (tw_v2_tasks w) t = None \<and> v2_get (tw_v2 w) t = Some j \<and> tj_state j = Active"

fun controls :: "transfer_id \<Rightarrow> 'w worker_event \<Rightarrow> bool" where
  "controls t (VerbEvent o1 (ControlV2Verb i c ts)) = (i = t)"
| "controls t _ = False"

lemma controls_verb: "controls t (VerbEvent o1 (ControlV2Verb i c ts) :: 'w worker_event) \<longleftrightarrow> i = t"
  by simp

lemma orphaned_fill:
  assumes "orphaned t j w"
  shows "orphaned t j (fill_v2_one io q w)"
proof -
  have st: "staged w" "filed (tw_v2 w)" using assms by (simp_all add: orphaned_def staged_def)
  have s: "steps_by (\<lambda>p. \<exists>i wall d. p = ClaimOp i wall d) (tw_v2 w) (tw_v2 (fill_v2_one io q w))"
  proof -
    have "tw_v2 (fill_v2_one io q w) = tw_v2 w
        \<or> tw_v2 (fill_v2_one io q w) = fst (claim_v2_job (tw_v2 w) (tj_transfer q) (fst (io (tj_transfer q)))
            (snd (io (tj_transfer q))))"
      by (auto simp: fill_v2_one_def split: prod.splits option.splits)
    then show ?thesis
      using steps_one [of "\<lambda>p. \<exists>i wall d. p = ClaimOp i wall d"
          "ClaimOp (tj_transfer q) (fst (io (tj_transfer q))) (snd (io (tj_transfer q)))" "tw_v2 w"] by auto
  qed
  have "v2_get (tw_v2 (fill_v2_one io q w)) t = Some j"
    using assms by (intro steps_active [OF s st(2)]) (auto simp: orphaned_def)
  moreover have "om_get (tw_v2_tasks (fill_v2_one io q w)) t = None"
  proof -
    have "tj_transfer k \<noteq> t" if "claim_v2_job (tw_v2 w) i wall d = (lg, Some k)" for i wall d lg k
      using claim_held [OF st(2) that] assms by (auto simp: orphaned_def)
    then show ?thesis
      using assms by (auto simp: fill_v2_one_def orphaned_def om_get_put split: prod.splits option.splits) blast
  qed
  ultimately show ?thesis
    using fill_v2_one_staged [OF st(1), THEN conjunct1] assms by (simp add: orphaned_def)
qed

lemma orphaned_event:
  assumes "orphaned t j w" and "\<not> controls t e"
  shows "orphaned t j (handle_event e w)"
proof (cases "\<exists>io. e = FillV2Event io")
  case True
  have "orphaned t j w \<Longrightarrow> orphaned t j (fold (fill_v2_one io) qs w)" for io qs w
    by (induction qs arbitrary: w) (simp_all add: orphaned_fill)
  then show ?thesis using True assms(1) by (auto simp: fill_v2_def)
next
  case False
  have st: "staged w" "filed (tw_v2 w)" using assms(1) by (simp_all add: orphaned_def staged_def)
  have own: "(\<exists>i d. p = SubmitOp i d) \<or> (\<exists>i wall d. p = ClaimOp i wall d) \<or> op_target p \<noteq> t"
    if "op_of e (tw_v2_tasks w) p" for p
    using that assms by (cases p) (auto simp: orphaned_def)
  have "v2_get (tw_v2 (handle_event e w)) t = Some j"
    using assms own by (intro steps_active [OF event_staged [OF st(1), THEN conjunct2] st(2)]) (auto simp: orphaned_def)
  moreover have "om_get (tw_v2_tasks (handle_event e w)) t = None"
  proof (cases e)
    case (VerbEvent o1 v)
    then show ?thesis using assms(1)
      by (cases v) (auto simp: orphaned_def om_get_modify abort_task_def Let_def split: prod.splits sum.splits)
  next
    case (FillEvent ok now)
    then show ?thesis using assms(1) fill_loop_v2 by (simp add: orphaned_def fill_def del: fill_loop.simps)
  qed (use assms(1) False reap_v2_part in
      \<open>auto simp: orphaned_def worker_schedule_def Let_def reap_v2_def set_stage_def om_get_modify om_get_del
        split: option.splits attempt_stage.splits\<close>)
  ultimately show ?thesis using event_staged [OF st(1), of e] assms(1) by (simp add: orphaned_def)
qed

lemma open_staged: "filed lg \<Longrightarrow> staged (open_worker ok note_ok now cap q lg st)"
  by (simp add: staged_def open_worker_def recover_fields)

text \<open>C38. The rows of the older queue that were running when the worker stopped are queued again when it opens;
  a job of the contract that was active stays as it is, whatever passes, verbs and finished tasks follow,
  until an operator pauses or cancels it: no attempt runs it, and none is started.
\<close>

theorem active_jobs_are_not_recovered:
  fixes now :: u64 and note_ok and cap and st
  assumes "filed lg" and "v2_get lg t = Some j" and "tj_state j = Active"
    and "list_all (\<lambda>e. \<not> controls t e) evs" and "named q" and "om_get q i = Some r" and "qj_state r = JRunning"
  defines "w0 \<equiv> open_worker (\<lambda>_. True) note_ok now cap q lg st"
  shows "om_get (tw_queue w0) i = Some (set_state now JQueued r)
     \<and> v2_get (tw_v2 (worker_run evs w0)) t = Some j \<and> om_get (tw_v2_tasks (worker_run evs w0)) t = None"
proof -
  have "orphaned t j w0"
    using assms(1-3) open_staged by (simp add: orphaned_def w0_def) (simp add: open_worker_def recover_fields)
  moreover have "orphaned t j w \<Longrightarrow> list_all (\<lambda>e. \<not> controls t e) evs \<Longrightarrow> orphaned t j (worker_run evs w)" for w
    unfolding worker_run_def by (induction evs arbitrary: w) (simp_all add: orphaned_event)
  ultimately have "orphaned t j (worker_run evs w0)" using assms(4) by blast
  moreover have "om_get (tw_queue w0) i = Some (set_state now JQueued r)"
    unfolding w0_def open_worker_def using assms(5-7) by (simp add: recover_fields recover_get)
  ultimately show ?thesis by (simp add: orphaned_def)
qed

section \<open>What can be completed\<close>

lemma local_admission:
  "v2_executor_admission j = LocalFilesCopy \<longleftrightarrow> tj_kind j = KLocal \<and> (\<exists>dir. tj_operation j = OpCopy dir)"
proof -
  have "operation_kind (tj_operation j) = CopyKind \<longleftrightarrow> (\<exists>dir. tj_operation j = OpCopy dir)"
    by (cases "tj_operation j") auto
  then show ?thesis
    by (cases "tj_kind j"; cases "operation_kind (tj_operation j)")
      (simp_all add: v2_executor_admission_def V2_EXECUTOR_REGISTRY_def)
qed

lemma admission_request: "request_of j = request_of k \<Longrightarrow> v2_executor_admission j = v2_executor_admission k"
  by (simp add: request_of_def v2_executor_admission_def)

text \<open>A record becomes completed by the last write of a copy only.\<close>

lemma op_completes:
  assumes "filed lg" and "v2_get (v2_apply p lg) t = Some j" and "tj_state j = Completed"
  shows "v2_get lg t = Some j \<or>
    (\<exists>a n r wall d i. p = UpdateOp t a (FinishCopy n r) wall d \<and> v2_get lg t = Some i \<and> request_of i = request_of j)"
proof (cases "op_target p = t")
  case False
  then show ?thesis using op_other [OF assms(1)] assms(2) by simp
next
  case True
  show ?thesis
  proof (cases p)
    case (SubmitOp i d)
    then show ?thesis using assms(2,3) True
      by (auto simp: v2_submit_def v2_insert_def write_record_def v2_get_put split: sum.splits if_splits)
  next
    case (ControlOp i c ts d)
    have "tj_state (controlled c ts k) \<noteq> Completed" for k by (cases c) (simp_all add: controlled_def)
    then show ?thesis using ControlOp assms(2,3)
      by (auto simp: apply_control_def write_record_def v2_get_put Let_def split: option.splits sum.splits if_splits)
  next
    case (ClaimOp i wall d)
    have "tj_state ((claimed a k)\<lparr>tj_updated := ts\<rparr>) \<noteq> Completed" for a k ts by (simp add: claimed_def)
    then show ?thesis using ClaimOp assms(2,3)
      by (auto simp: claim_v2_job_def split: option.splits if_splits dest!: stamped_get)
  next
    case (FailOp i a e wall d)
    have "tj_state ((failed_with e k)\<lparr>tj_updated := ts\<rparr>) \<noteq> Completed" for k ts by (simp add: failed_with_def)
    then show ?thesis using FailOp assms(2,3)
      by (auto simp: finish_v2_failed_def split: option.splits if_splits dest!: stamped_get)
  next
    case (UpdateOp i a u wall d)
    show ?thesis
    proof (cases "v2_get lg t = Some j")
      case False
      then obtain k where k: "v2_get lg t = Some k" "tj_state k = Active"
          "v2_get (fst (stamped_write lg (apply_update u k) wall d)) t = Some j"
        using UpdateOp True assms(2) by (auto simp: update_active_v2_def split: option.splits if_splits)
      from stamped_get [OF k(3)] False obtain ts where j: "j = (apply_update u k)\<lparr>tj_updated := ts\<rparr>" by blast
      have "request_of k = request_of j"
        unfolding j using request_of_steps(3) [of u k] by (simp add: request_of_def)
      moreover have "\<exists>n r. u = FinishCopy n r" using assms(3) k(2) unfolding j by (cases u) auto
      ultimately show ?thesis using UpdateOp True k(1) by auto
    qed simp
  qed
qed

lemma steps_complete:
  assumes "steps_by (op_of e m) lg lg'" and "filed lg"
    and "\<And>t k b. om_get m t = Some k \<Longrightarrow> vt_stage k = Copying b \<Longrightarrow> stage_ok lg t (Copying b)"
    and "v2_get lg' t = Some j" and "tj_state j = Completed"
  shows "v2_get lg t = Some j \<or> v2_executor_admission j = LocalFilesCopy"
proof -
  obtain ops where ops: "list_all (op_of e m) ops" "lg' = v2_run ops lg" using assms(1) by (auto simp: steps_by_def)
  have "list_all (op_of e m) ops \<Longrightarrow> filed lg \<Longrightarrow>
      (\<And>t k b. om_get m t = Some k \<Longrightarrow> vt_stage k = Copying b \<Longrightarrow> stage_ok lg t (Copying b)) \<Longrightarrow>
      v2_get (v2_run ops lg) t = Some j \<Longrightarrow> v2_get lg t = Some j \<or> v2_executor_admission j = LocalFilesCopy" for ops lg
  proof (induction ops arbitrary: lg)
    case (Cons p ops)
    have p: "op_of e m p" and rest: "list_all (op_of e m) ops" using Cons.prems(1) by simp_all
    have s: "steps_by (op_of e m) lg (v2_apply p lg)" using p by (rule steps_one)
    have f: "filed (v2_apply p lg)" using steps_filed [OF s Cons.prems(2)] .
    have "v2_get (v2_apply p lg) t = Some j \<or> v2_executor_admission j = LocalFilesCopy"
    proof (rule Cons.IH [OF rest f])
      show "stage_ok (v2_apply p lg) t (Copying b)" if "om_get m t = Some k" "vt_stage k = Copying b" for t k b
        using steps_stage [OF s Cons.prems(2)] Cons.prems(3) that by blast
      show "v2_get (v2_run ops (v2_apply p lg)) t = Some j" using Cons.prems(4) by (simp add: v2_run_def)
    qed
    moreover have "v2_get lg t = Some j \<or> v2_executor_admission j = LocalFilesCopy"
      if j: "v2_get (v2_apply p lg) t = Some j"
    proof (cases "v2_get lg t = Some j")
      case False
      then obtain a n r wall d i where u: "p = UpdateOp t a (FinishCopy n r) wall d" "v2_get lg t = Some i"
          "request_of i = request_of j"
        using op_completes [OF Cons.prems(2) j assms(5)] by blast
      then obtain k b where k: "om_get m t = Some k" "vt_stage k = Copying b" using p by auto
      from Cons.prems(3) [OF k] u(2) have "v2_executor_admission (rj_job b) = LocalFilesCopy"
          "request_of i = request_of (rj_job b)"
        by (auto simp: held_def)
      then show ?thesis using u(3) admission_request [of j "rj_job b"] by simp
    qed simp
    ultimately show ?case by blast
  qed (simp add: v2_run_def)
  then show ?thesis using ops assms(2-4) by blast
qed

text \<open>C27. Whatever is submitted, claimed, controlled, finished or fails, and in whatever order the steps of the
  attempts come: a job that is completed and was not when the worker opened is a copy between local files;
  no job of another kind is ever reported as done.
\<close>

theorem only_local_copies_complete:
  assumes "filed lg" and "v2_get (tw_v2 (worker_run evs (open_worker ok note_ok now cap q lg st))) t = Some j"
    and "tj_state j = Completed"
  shows "v2_get lg t = Some j \<or> tj_kind j = KLocal \<and> (\<exists>dir. tj_operation j = OpCopy dir)"
proof -
  have "staged w \<Longrightarrow> v2_get (tw_v2 (worker_run evs w)) t = Some j \<Longrightarrow>
      v2_get (tw_v2 w) t = Some j \<or> v2_executor_admission j = LocalFilesCopy" for w
    unfolding worker_run_def
  proof (induction evs arbitrary: w)
    case (Cons e evs)
    note st = event_staged [OF Cons.prems(1), of e]
    have "v2_get (tw_v2 (handle_event e w)) t = Some j \<or> v2_executor_admission j = LocalFilesCopy"
      using Cons.IH [of "handle_event e w"] st Cons.prems(2) by simp
    moreover have "v2_get (tw_v2 w) t = Some j \<or> v2_executor_admission j = LocalFilesCopy"
      if "v2_get (tw_v2 (handle_event e w)) t = Some j"
      using Cons.prems(1) unfolding staged_def
      by (intro steps_complete [OF st [THEN conjunct2] _ _ that assms(3)]) metis+
    ultimately show ?case by blast
  qed simp
  from this [OF open_staged [OF assms(1)] assms(2)] show ?thesis
    unfolding local_admission by (simp add: open_worker_def recover_fields)
qed

text \<open>A ledger with a queued copy of two bytes, and the events that run it.\<close>

definition demo_queued :: transfer_job where
  "demo_queued =
     demo_copy\<lparr>tj_state := Queued, tj_progress := \<lparr>tp_done = 0, tp_total = None, tp_rate = None,
       tp_phase = PhQueued, tp_attempt = 0, tp_error = None\<rparr>, tj_updated := 100\<rparr>"

lemma demo_copy_ok: "job_ok demo_copy" "job_ok demo_queued"
proof -
  show "job_ok demo_copy" using resolved_ends [OF demo_resolved] by simp
  show "job_ok demo_queued"
    by (simp add: demo_queued_def demo_copy_def validate_job_ok [symmetric] validate_job_def validate_endpoint_def
        validate_checksum_def validate_progress_def validate_kind_route_operation_def
        validate_state_progress_def checksum_verify_def phase_requires_attempt_def transfer_bounds ensure_def)
qed

definition demo_events :: "nat worker_event list" where
  "demo_events =
     [FillV2Event (\<lambda>_. (101, DiskOk)), StartEvent 7 demo_env demo_sha 200 DiskOk 0,
      FinishEvent 7 demo_env demo_sha (\<lambda>_. []) 10 300 DiskOk 0]"

definition demo_moving :: transfer_job where
  "demo_moving = (apply_update (BeginTransfer 2) demo_copy)\<lparr>tj_updated := 200\<rparr>"

definition demo_done :: transfer_job where
  "demo_done = (apply_update (FinishCopy 2 (Some 200)) demo_moving)\<lparr>tj_updated := 300\<rparr>"

lemma demo_stages_ok: "job_ok demo_moving" "job_ok demo_done"
  by (simp_all add: demo_done_def demo_moving_def demo_copy_def validate_job_ok [symmetric] validate_job_def
      validate_endpoint_def validate_checksum_def validate_progress_def validate_kind_route_operation_def
      validate_state_progress_def checksum_verify_def phase_requires_attempt_def transfer_bounds ensure_def)

lemma stamped_ok:
  assumes "next_v2_update wall (tj_updated k) = Some ts" and "job_ok (k\<lparr>tj_updated := ts\<rparr>)"
  shows "stamped_write [(t, Record j)] k wall DiskOk =
    (om_put (tj_transfer k) (Record (k\<lparr>tj_updated := ts\<rparr>)) [(t, Record j)], Some (k\<lparr>tj_updated := ts\<rparr>))"
  using assms by (simp add: stamped_write_def Let_def persist_v2_runtime_job_def validate_job_ok [THEN iffD2])

lemma demo_stamps:
  "next_v2_update 101 100 = Some 101" "next_v2_update 200 101 = Some 200" "next_v2_update 300 200 = Some 300"
  by (simp_all add: next_v2_update_def checked_add_def)

lemma demo_writes:
  "claim_v2_job [(7, Record demo_queued)] 7 101 DiskOk = ([(7, Record demo_copy)], Some demo_copy)"
  "update_active_v2 [(7, Record demo_copy)] 7 1 (BeginTransfer 2) 200 DiskOk = ([(7, Record demo_moving)], Some demo_moving)"
  "update_active_v2 [(7, Record demo_moving)] 7 1 (FinishCopy 2 (Some 200)) 300 DiskOk
     = ([(7, Record demo_done)], Some demo_done)"
proof -
  have "claimed 1 demo_queued\<lparr>tj_updated := 101\<rparr> = demo_copy"
    by (simp add: claimed_def demo_queued_def demo_copy_def)
  moreover have "checked_add (0 :: u16) 1 = Some 1" by (simp add: checked_add_def)
  moreover have "tj_updated (claimed 1 demo_queued) = 100" "tj_transfer (claimed 1 demo_queued) = 7"
    "tj_state demo_queued = Queued" "tp_phase (tj_progress demo_queued) = PhQueued" "attempt_of demo_queued = 0"
    by (simp_all add: claimed_def demo_queued_def demo_copy_def)
  ultimately show "claim_v2_job [(7, Record demo_queued)] 7 101 DiskOk = ([(7, Record demo_copy)], Some demo_copy)"
    using demo_copy_ok demo_stamps(1)
    by (simp add: claim_v2_job_def v2_get_single stamped_ok)
  have "attempt_of demo_copy = 1" "tj_state demo_copy = Active" "tj_updated demo_copy = 101" "tj_transfer demo_copy = 7"
    by (simp_all add: demo_copy_def)
  then show "update_active_v2 [(7, Record demo_copy)] 7 1 (BeginTransfer 2) 200 DiskOk = ([(7, Record demo_moving)], Some demo_moving)"
    using demo_copy_ok demo_stages_ok demo_stamps(2)
    by (simp add: update_active_v2_def v2_get_single stamped_ok demo_moving_def)
  have "attempt_of demo_moving = 1" "tj_state demo_moving = Active" "tj_updated demo_moving = 200" "tj_transfer demo_moving = 7"
    by (simp_all add: demo_moving_def demo_copy_def)
  then show "update_active_v2 [(7, Record demo_moving)] 7 1 (FinishCopy 2 (Some 200)) 300 DiskOk
     = ([(7, Record demo_done)], Some demo_done)"
    using demo_stages_ok demo_stamps(3)
    by (simp add: update_active_v2_def v2_get_single stamped_ok demo_done_def)
qed

lemma demo_opened:
  "tw_v2 (demo_worker lg) = lg" "tw_v2_tasks (demo_worker lg) = []" "tw_cap (demo_worker lg) = 3"
  "tw_tasks (demo_worker lg) = []"
  by (simp_all add: demo_worker_def open_worker_def recover_fields om_empty_def)

lemma demo_run: "tw_v2 (worker_run demo_events (demo_worker [(7, Record demo_queued)])) = [(7, Record demo_done)]"
proof -
  let ?w = "demo_worker [(7, Record demo_queued)]"
  let ?k = "\<lambda>st. [(7 :: transfer_id, \<lparr>vt_attempt = 1, vt_canceled = False, vt_stage = st\<rparr>)]"
  have q: "tj_state demo_queued = Queued" "tj_transfer demo_queued = 7"
    by (simp_all add: demo_queued_def demo_copy_def)
  have load: "v2_load_all [(7, Record demo_queued)] = [demo_queued]"
    using demo_copy_ok by (simp add: v2_load_all_def map_filter_simps read_record del: read_entry.simps)
  have c: "attempt_of demo_copy = 1" "tj_transfer demo_copy = 7" "v2_executor_admission demo_copy = LocalFilesCopy"
    using local_admission by (simp_all add: demo_copy_def)
  have rate: "transfer_rate 10 2 = Some 200"
    by (simp add: transfer_rate_def sat_mul_def MAX_TRANSFER_RATE_BYTES_PER_SECOND_def)
  have 1: "handle_event (FillV2Event (\<lambda>_. (101, DiskOk)) :: nat worker_event) ?w
      = ?w\<lparr>tw_v2 := [(7, Record demo_copy)], tw_v2_tasks := ?k (Claimed demo_copy)\<rparr>"
    by (simp add: fill_v2_def demo_opened load fill_v2_one_def q demo_writes c om_get_def)
  have 2: "start_attempt demo_env demo_sha demo_copy 200 DiskOk [(7, Record demo_copy)] 0
      = ([(7, Record demo_moving)], Copying demo_admitted)"
    by (simp add: start_attempt_def c demo_resolved demo_paths demo_writes)
  have 3: "finish_attempt demo_env demo_sha (\<lambda>_. []) demo_admitted 10 300 DiskOk [(7, Record demo_moving)] 0
      = ([(7, Record demo_done)], Ended (Some demo_done))"
    by (simp add: finish_attempt_def demo_executed rate demo_writes c Let_def demo_admitted_def [THEN arg_cong [of _ _ rj_job]])
  show ?thesis
    by (simp add: worker_run_def demo_events_def 1 2 3 om_get_def set_stage_def om_modify_def del: handle_event.simps(5))
qed

theorem only_local_copies_complete_witness:
  "tj_state demo_done = Completed \<and> tj_kind demo_done = KLocal \<and> (\<exists>dir. tj_operation demo_done = OpCopy dir)"
proof -
  have "filed [(7, Record demo_queued)]"
    by (rule filed_single [OF demo_copy_ok(2)]) (simp add: demo_queued_def demo_copy_def)
  moreover have "v2_get (tw_v2 (worker_run demo_events (open_worker (\<lambda>_. True) True 1 3 [(''a'', demo_row)]
      [(7, Record demo_queued)] om_empty))) 7 = Some demo_done"
    using demo_run demo_stages_ok by (simp add: demo_worker_def v2_get_single)
  moreover have st: "tj_state demo_done = Completed" by (simp add: demo_done_def)
  moreover have "v2_get [(7, Record demo_queued)] 7 \<noteq> Some demo_done"
    using demo_copy_ok st by (auto simp: v2_get_single demo_queued_def dest: arg_cong [of _ _ tj_state])
  ultimately show ?thesis using only_local_copies_complete by blast
qed

theorem active_jobs_are_not_recovered_witness:
  "v2_get (tw_v2 (worker_run demo_pause (open_worker (\<lambda>_. True) True 9 3 [(''a'', set_state 2 JRunning demo_row)]
     demo_ledger om_empty))) 7 = Some demo_fetch"
proof -
  have "tj_state demo_fetch = Active" "qj_state (set_state 2 JRunning demo_row) = JRunning"
    "om_get [(''a'', set_state 2 JRunning demo_row)] ''a'' = Some (set_state 2 JRunning demo_row)"
    "list_all (\<lambda>e. \<not> controls 7 e) demo_pause"
    by (simp_all add: demo_fetch_def demo_pause_def om_get_def set_state_def Let_def)
  then show ?thesis
    using active_jobs_are_not_recovered [OF demo_ledger_facts _ _ demo_named(2)] by blast
qed

end
