(* ===== verification/Spec2Isabelle.thy ===== *)
theory Spec2Isabelle
  imports BookmarkCrdt OrderKeys BusSeed BusDelivery BusCorrelate HttpsTunnel TunnelFraming
    TopologyPlan LeaderLease AuditChain FleetBaseline FleetStore
    FleetRuns FleetJobs BearerLedger LifecycleSigning CollabEnvelope CollabEngine
    CollabProjection CollabReplay TransferAttempts
begin

text \<open>
  \<^bold>\<open>The program.\<close>  Magic Mesh joins a set of seats into one overlay network and one workspace.
  Every seat runs the daemon \<open>mackesd\<close>, which elects a leader, plans the topology, falls back to an
  HTTPS tunnel where the overlay is blocked, keeps an audit log and enrols new seats; a message bus
  (\<open>mde-bus\<close>) carries topics between the parts of a seat; \<open>magic-fleet\<close> converges the seats to a
  declared baseline over a replicated directory; and replicated documents such as the bookmark
  collection are edited on every seat and merged.  The parts meet through files of the replicated
  directory, through bus messages and through the types of \<open>mackes-mesh-types\<close>.

  \<^bold>\<open>Conventions.\<close>  A struct is a record and an enum a datatype; an integer of \<open>w\<close> bits is a
  \<open>w word\<close>, with \<open>sat_add\<close>, \<open>sat_sub\<close> and \<open>checked_add\<close> where the code saturates or checks; a string is
  its bytes; an error is the left value of \<open>result\<close>.  Ordered maps are the sorted association lists of
  \<open>OrdMap\<close>.  Clocks, random bytes, digests, signature schemes, text formats (JSON, YAML) and the order
  in which a directory or a hash table lists its entries are arguments; what is assumed of one is a
  hypothesis of the theorem that needs it.  Operations that race on one directory are step functions
  of one file-system call each, and the theorems hold for every schedule (\<open>FileStore.sched\<close>).

  \<^bold>\<open>Support.\<close>  \<open>Prelude\<close> has words, results, text (splitting, decimal numbers, trimming) and lists;
  \<open>OrdMap\<close> the ordered maps behind the interface \<open>keyed_store\<close>; \<open>HexText\<close> hexadecimal text; \<open>JsonValue\<close>
  the values of \<open>serde_json\<close>; \<open>FileStore\<close> one directory with its calls, the leaf files that the fleet
  components write by staging and renaming, and the interface \<open>interleaved\<close> for step functions.

  \<^bold>\<open>Bookmarks\<close> (\<open>services/mde-bookmarks\<close>).  \<open>HybridClock\<close> is \<open>hlc.rs\<close>: local and receive steps with
  the saturating counter.  \<open>OrderKeys\<close> is \<open>order.rs\<close>: keys between keys; the loop may not end, so it is a
  \<open>partial_function\<close>, and the theorem says exactly when it does.  \<open>BookmarkOps\<close> and \<open>BookmarkCrdt\<close> are
  \<open>model.rs\<close>, \<open>op.rs\<close> and \<open>crdt.rs\<close>: last-writer registers, item states, apply, merge and the read
  model.  Shown: replicas converge, registers hold the greatest write, merge is replay, which items
  are live, and that the children of a folder are listed exactly and in order.

  \<^bold>\<open>Bus\<close> (\<open>platform/mde-bus\<close>).  \<open>BusTopics\<close> and \<open>BusSeed\<close> are \<open>topic.rs\<close>, \<open>wildcard.rs\<close> and \<open>seed.rs\<close>;
  the index loop of the matcher is shown equal to the matching rules.  \<open>BusDelivery\<close> is \<open>subs.rs\<close> and
  \<open>dnd.rs\<close>: subscriptions, quiet hours, snoozes and the tick of the file watcher.  \<open>BusCorrelate\<close> is
  \<open>correlate.rs\<close>: rules over a sliding window, and that emissions are spaced and do not feed back.

  \<^bold>\<open>Transports and tunnel.\<close>  \<open>MeshTransport\<close> is \<open>mackes-transport\<close>; \<open>HttpsTunnel\<close> is \<open>activation.rs\<close> of
  \<open>mackes-nebula-https-tunnel\<close> with \<open>https_fallback.rs\<close> of the daemon, shown to implement the documented
  transition table; \<open>TunnelFraming\<close> is \<open>framing.rs\<close> and \<open>demux.rs\<close>, with the sockets as a list of
  events, shown to deliver every datagram once and in order, with a bounded buffer.

  \<^bold>\<open>Daemon\<close> (\<open>mesh/mackesd\<close>).  \<open>TopologyPlan\<close> is \<open>topology/mod.rs\<close> and \<open>reconcile/mod.rs\<close>; \<open>LeaderLease\<close>
  is \<open>leader.rs\<close>, where the advisory lock makes an attempt one step; \<open>AuditChain\<close> is \<open>audit/mod.rs\<close>;
  \<open>BearerLedger\<close> is \<open>bearer_ledger.rs\<close> with the sealed write of \<open>ca/seal.rs\<close>, shown single-use under
  every interleaving.

  \<^bold>\<open>Fleet\<close> (\<open>mesh/magic-fleet\<close>).  \<open>FleetNetstate\<close> is \<open>netstate.rs\<close>: rendering, diff and the guarded
  apply; \<open>FleetBaseline\<close> is \<open>lib.rs\<close>: requests, exceptions, the playbook, the report, election and the
  drift-watch tick; \<open>FleetStore\<close> is \<open>store.rs\<close>: the append-only revision log under every
  interleaving of its writers; \<open>FleetRuns\<close> is \<open>validation.rs\<close> and \<open>FleetJobs\<close> is \<open>jobs.rs\<close>.  \<open>FleetStore\<close>
  elects with the order that \<open>FleetBaseline\<close> proves to agree on all nodes.

  \<^bold>\<open>Seat lifecycle\<close> (\<open>mackes-mesh-types/src/lifecycle.rs\<close>).  \<open>LifecycleContract\<close> has admission, intents
  and plans, upgrades and readiness; \<open>LifecyclePlan\<close> the correction plan, whose ordering check is a
  \<open>partial_function\<close> shown to answer always and to decide that the edges have no cycle, the baseline,
  artifacts and progress; \<open>LifecycleSigning\<close> the four signed messages behind the interface
  \<open>signed_kind\<close>, and sessions with their scope digest.

  \<^bold>\<open>Collaboration\<close> (\<open>services/mde-collab-core\<close> over \<open>shared/mde-collab-types\<close>).  Seats author signed events,
  replicate them through logs and fold them.  \<open>CollabTypes\<close> has the clock, the values and the event kinds;
  \<open>CollabEnvelope\<close> is \<open>envelope.rs\<close>: the signed text, shown to determine the event, and the last writer.
  \<open>CollabDomain\<close> is \<open>domain.rs\<close>: the fold into the aggregate, with its invariant and what each authority
  check keeps; \<open>CollabCommands\<close> is \<open>pipeline.rs\<close>, one definition per command and per guard; \<open>CollabPromises\<close>
  specifies every command (who may, what it does) and shows that accepted commands obey and that no
  command orphans a space.  \<open>CollabPurge\<close> is \<open>purge.rs\<close>: what the gate releases is gone for everybody.
  \<open>CollabEngine\<close> is \<open>engine.rs\<close> with \<open>project\<close> of \<open>projection.rs\<close>: an invariant of all operations, the
  exact effect of a merge, convergence of replicas, and the commands' promises lifted to the engine.
  \<open>CollabProjection\<close> is the read fold of \<open>projection.rs\<close>, compared with the aggregate.  \<open>CollabLog\<close> is
  \<open>log.rs\<close>: the file log refines the log in memory, and a write torn at any byte loses and doubles nothing
  unless it splits a character.  \<open>CollabReplay\<close> is the replay of \<open>workers/collab.rs\<close> of the daemon: the
  bounded line reader over any buffering, slices of records, the newest slice, and polls that merge
  into the engine.  Fuel is not needed: the loops recur on the records still asked for or on the cursor.

  \<^bold>\<open>Transfers\<close> (\<open>workers/transfers\<close> of the daemon over \<open>transfer_v2.rs\<close> and \<open>transfer.rs\<close> of
  \<open>shared/mde-collab-types\<close>).  Files are moved by jobs of two generations.  \<open>TransferContract\<close> is the job of
  the contract with its validation, shown to admit exactly the jobs that satisfy a predicate, and its older
  view; \<open>TransferLedger\<close> is the ledger of those jobs and the writes of the executor, each of which may fail
  before or after it takes effect: the history of a job is lawful and an attempt that lost its job never
  writes again.  \<open>TransferQueue\<close> is the queue of the older jobs and \<open>TransferSync\<close> the mirrors that feed
  it.  \<open>TransferFiles\<close> binds the ends of a job to files and copies; the file system and the Files registry
  are functions of a world that may change between any two questions, and the copying loop ends because
  what is left of the admitted size decreases.  \<open>TransferWorker\<close> is the scheduler: one event per handler,
  step of an attempt or progress report, so that its runs are the interleavings; the loop that fills the
  slots has one round per row and one more as its fuel, and every round claims a row.  \<open>TransferRuns\<close>
  shows that rows and tasks agree and that no slot is wasted, \<open>TransferAttempts\<close> that events change the
  ledger by its operations only, which jobs can complete, and what a restart does to active ones.

  \<^bold>\<open>Not modelled.\<close>  The drawing code of the desktop shell, media, maps and remote desktops (layout and
  floating point over third-party toolkits); HTTP, TLS, D-Bus and process plumbing; the health score
  of a path (floating point); the text of JSON and YAML; the relational stores, which are queries in
  SQL (of the collaboration read tables the rows are modelled, not the statements that write and
  read them); the import of legacy stores and the streaming of blobs; of the transfers the outbox of
  notifications, the lanes that run rsync, sftp and curl, the resolver that reads the Files registry from
  the bus and the comparison of local fingerprints.  The other workers of the daemon are loops that poll
  external tools and call the parts above.
\<close>

end
